(* ===== verification/LV_Prelude.thy ===== *)
theory LV_Prelude
  imports Main "HOL-Library.Multiset"
begin

text \<open>
  Vocabulary and lemmas the component theories share.

  Go's 64-bit signed integers are read as \<open>int\<close>; where an addition of the program can leave the
  64-bit range the model applies \<open>wrap64\<close>, the two's complement wrap-around, to the result. Go
  strings are byte sequences and are modelled by Isabelle's \<open>string\<close>, a list of 8-bit characters.
  A Go map that is only read and written by key is a function into \<open>option\<close>; a map whose
  iteration order can be observed is an association list whose order stands for that order.
\<close>

named_theorems wf_intros \<open>well-formedness is preserved by an operation\<close>

section \<open>Machine integers\<close>

definition wrap64 :: "int \<Rightarrow> int" where
  "wrap64 x = (x + 9223372036854775808) mod 18446744073709551616 - 9223372036854775808"

definition in64 :: "int \<Rightarrow> bool" where
  "in64 x \<longleftrightarrow> - 9223372036854775808 \<le> x \<and> x < 9223372036854775808"

abbreviation maxInt64 :: int where
  "maxInt64 \<equiv> 9223372036854775807"

lemma wrap64_id [simp]: "in64 x \<Longrightarrow> wrap64 x = x"
  by (simp add: wrap64_def in64_def)

lemma wrap64_in64 [simp]: "in64 (wrap64 x)"
  by (simp add: wrap64_def in64_def)

section \<open>Removing one position of a list\<close>

definition delete_at :: "nat \<Rightarrow> 'a list \<Rightarrow> 'a list" where
  "delete_at i xs = take i xs @ drop (Suc i) xs"

lemma delete_at_simps [simp]:
  "delete_at i [] = []"
  "delete_at 0 (x # xs) = xs"
  "delete_at (Suc i) (x # xs) = x # delete_at i xs"
  by (simp_all add: delete_at_def)

lemma length_delete_at [simp]:
  "i < length xs \<Longrightarrow> length (delete_at i xs) = length xs - 1"
  by (auto simp: delete_at_def)

lemma delete_at_eq_Nil: "i < length xs \<Longrightarrow> delete_at i xs = [] \<longleftrightarrow> length xs = 1"
  by (cases xs) (auto simp: delete_at_def)

lemma delete_at_append_nth:
  "i < length xs \<Longrightarrow> xs = take i xs @ xs ! i # drop (Suc i) xs"
  by (rule id_take_nth_drop)

lemma mset_delete_at:
  "i < length xs \<Longrightarrow> mset (delete_at i xs) = mset xs - {# xs ! i #}"
proof -
  assume "i < length xs"
  then have "mset xs = mset (take i xs @ xs ! i # drop (Suc i) xs)"
    by (metis id_take_nth_drop)
  then show ?thesis by (simp add: delete_at_def)
qed

lemma set_delete_at_distinct:
  assumes "distinct xs" and "i < length xs"
  shows "set (delete_at i xs) = set xs - {xs ! i}"
proof -
  have "mset (delete_at i xs) = mset xs - {# xs ! i #}"
    using assms(2) by (rule mset_delete_at)
  then have "set_mset (mset (delete_at i xs)) = set_mset (mset xs - {# xs ! i #})"
    by simp
  also have "\<dots> = set xs - {xs ! i}"
    using assms by (auto simp: in_diff_count distinct_count_atmost_1 split: if_splits)
  finally show ?thesis by simp
qed

lemma distinct_delete_at [simp]:
  assumes "distinct xs"
  shows "distinct (delete_at i xs)"
proof (cases "i < length xs")
  case True
  then have "distinct (take i xs @ xs ! i # drop (Suc i) xs)"
    using assms by (simp flip: id_take_nth_drop)
  then show ?thesis by (auto simp: delete_at_def)
next
  case False
  then show ?thesis using assms by (simp add: delete_at_def)
qed

lemma set_delete_at_subset: "set (delete_at i xs) \<subseteq> set xs"
  by (auto simp: delete_at_def dest: in_set_takeD in_set_dropD)

section \<open>Sums over lists\<close>

lemma sum_list_int_nonneg: "(\<And>x. x \<in> set xs \<Longrightarrow> 0 \<le> f x) \<Longrightarrow> 0 \<le> (\<Sum>x\<leftarrow>xs. f x :: int)"
  by (induction xs) auto

lemma sum_list_update_one:
  assumes "distinct xs" and "a \<in> set xs" and "\<And>x. x \<in> set xs \<Longrightarrow> x \<noteq> a \<Longrightarrow> g x = f x"
  shows "(\<Sum>x\<leftarrow>xs. g x) = (\<Sum>x\<leftarrow>xs. f x) - f a + (g a :: int)"
  using assms
proof (induction xs)
  case Nil
  then show ?case by simp
next
  case (Cons x xs)
  show ?case
  proof (cases "x = a")
    case True
    with Cons.prems have "map g xs = map f xs" by (intro map_cong) auto
    then have "sum_list (map g xs) = sum_list (map f xs)" by (rule arg_cong)
    with True show ?thesis by simp
  next
    case False
    with Cons show ?thesis by simp
  qed
qed

lemma length_filter_remove_one:
  assumes "distinct (map f xs)" and "x \<in> set xs"
  shows "length (filter P (filter (\<lambda>y. f y \<noteq> f x) xs)) + (if P x then 1 else 0) = length (filter P xs)"
  using assms
proof (induction xs)
  case Nil
  then show ?case by simp
next
  case (Cons y ys)
  show ?case
  proof (cases "y = x")
    case True
    with Cons.prems have "\<forall>z \<in> set ys. f z \<noteq> f x" by (metis distinct.simps(2) imageI list.simps(9) list.set_map)
    then have "filter (\<lambda>z. f z \<noteq> f x) ys = ys" by (rule filter_True)
    with True show ?thesis by simp
  next
    case False
    with Cons.prems have "x \<in> set ys" and "f y \<noteq> f x" by auto
    with Cons show ?thesis by simp
  qed
qed

lemma sum_list_int_of_nat: "int (sum_list (map f xs)) = (\<Sum>x\<leftarrow>xs. int (f x))"
  by (induction xs) auto

section \<open>Distinct concatenations\<close>

lemma distinct_concat_map:
  assumes "distinct xs" and "\<And>x. x \<in> set xs \<Longrightarrow> distinct (f x)"
    and "\<And>x y z. x \<in> set xs \<Longrightarrow> y \<in> set xs \<Longrightarrow> z \<in> set (f x) \<Longrightarrow> z \<in> set (f y) \<Longrightarrow> x = y"
  shows "distinct (concat (map f xs))"
  using assms
proof (induction xs)
  case (Cons x xs)
  have "set (f x) \<inter> set (concat (map f xs)) = {}"
    using Cons.prems(1,3) by (auto; metis list.set_intros)
  with Cons show ?case by simp
qed simp

end
