(* ===== verification/Workload_Types.thy ===== *)
theory Workload_Types
  imports LV_Prelude
begin

text \<open>
  Types, limits and configuration checks of the node-local workload controller
  (\<^verbatim>\<open>internal/workload/workload.go\<close>). A \<open>Class\<close> is a Go string; the five classes the controller
  knows are constructors and every other string is an \<open>OtherClass\<close>. Durations are integers
  (nanoseconds). The map \<open>Classes\<close> of a configuration is an association list, so that its length
  is the map's length.
\<close>

section \<open>Classes, requests and policies\<close>

datatype wclass = Interactive | Background | Refresh | Control | Maintenance | OtherClass string

definition classOrder :: "wclass list" where
  "classOrder = [Interactive, Background, Refresh, Control, Maintenance]"

definition NodeWorkspace :: string where
  "NodeWorkspace = ''_node''"

definition GlobalWorkspace :: string where
  "GlobalWorkspace = ''_global''"

record request =
  rqClass :: wclass
  rqWorkspace :: string
  rqOperation :: string

record policy =
  ReservedRunning :: int
  MaximumRunning :: int
  MaximumQueued :: int
  MaximumQueuedPerWorkspace :: int
  QueueTimeout :: int
  ExecutionTimeout :: int

record wconfig =
  MaxRunning :: int
  NodeMaximumQueued :: int
  Classes :: "(wclass \<times> policy) list"

definition zeroPolicy :: policy where
  "zeroPolicy = \<lparr>ReservedRunning = 0, MaximumRunning = 0, MaximumQueued = 0,
     MaximumQueuedPerWorkspace = 0, QueueTimeout = 0, ExecutionTimeout = 0\<rparr>"

text \<open>Reading a Go map at an absent key gives the zero value.\<close>

definition policyOf :: "wconfig \<Rightarrow> wclass \<Rightarrow> policy" where
  "policyOf c k = (case map_of (Classes c) k of None \<Rightarrow> zeroPolicy | Some p \<Rightarrow> p)"

abbreviation seconds :: "int \<Rightarrow> int" where
  "seconds n \<equiv> n * 1000000000"

definition DefaultConfig :: wconfig where
  "DefaultConfig = \<lparr>MaxRunning = 5, NodeMaximumQueued = 112, Classes =
    [(Interactive, \<lparr>ReservedRunning = 3, MaximumRunning = 4, MaximumQueued = 64,
        MaximumQueuedPerWorkspace = 16, QueueTimeout = seconds 30, ExecutionTimeout = seconds 120\<rparr>),
     (Background, \<lparr>ReservedRunning = 0, MaximumRunning = 1, MaximumQueued = 16,
        MaximumQueuedPerWorkspace = 4, QueueTimeout = seconds 120, ExecutionTimeout = seconds 900\<rparr>),
     (Refresh, \<lparr>ReservedRunning = 1, MaximumRunning = 1, MaximumQueued = 16,
        MaximumQueuedPerWorkspace = 1, QueueTimeout = seconds 120, ExecutionTimeout = 0\<rparr>),
     (Control, \<lparr>ReservedRunning = 1, MaximumRunning = 1, MaximumQueued = 16,
        MaximumQueuedPerWorkspace = 16, QueueTimeout = seconds 120, ExecutionTimeout = seconds 900\<rparr>),
     (Maintenance, \<lparr>ReservedRunning = 0, MaximumRunning = 1, MaximumQueued = 0,
        MaximumQueuedPerWorkspace = 0, QueueTimeout = 0, ExecutionTimeout = seconds 1800\<rparr>)]\<rparr>"

section \<open>Validation\<close>

datatype config_error =
    NegativeNodeLimits
  | NegativeClassLimits wclass
  | ReservedExceedsMaximum wclass
  | MaximumExceedsNode wclass
  | WorkspaceQueueExceedsClass wclass
  | ReservationsExceedNode

definition negativePolicy :: "policy \<Rightarrow> bool" where
  "negativePolicy p \<longleftrightarrow> ReservedRunning p < 0 \<or> MaximumRunning p < 0 \<or> MaximumQueued p < 0
     \<or> MaximumQueuedPerWorkspace p < 0 \<or> QueueTimeout p < 0 \<or> ExecutionTimeout p < 0"

text \<open>The loop over \<open>classOrder\<close>, with the accumulated reservations.\<close>

fun validateClasses :: "wconfig \<Rightarrow> wclass list \<Rightarrow> int \<Rightarrow> config_error + int" where
  "validateClasses c [] reserved = Inr reserved"
| "validateClasses c (k # ks) reserved =
     (let p = policyOf c k in
      if negativePolicy p then Inl (NegativeClassLimits k)
      else if ReservedRunning p > MaximumRunning p then Inl (ReservedExceedsMaximum k)
      else if MaximumRunning p > MaxRunning c then Inl (MaximumExceedsNode k)
      else if MaximumQueuedPerWorkspace p > MaximumQueued p then Inl (WorkspaceQueueExceedsClass k)
      else validateClasses c ks (wrap64 (reserved + ReservedRunning p)))"

definition validateConfig :: "wconfig \<Rightarrow> config_error + unit" where
  "validateConfig c =
     (if MaxRunning c < 0 \<or> NodeMaximumQueued c < 0 then Inl NegativeNodeLimits
      else case validateClasses c classOrder 0 of
             Inl e \<Rightarrow> Inl e
           | Inr reserved \<Rightarrow> if reserved > MaxRunning c then Inl ReservationsExceedNode else Inr ())"

text \<open>What validation is for: limits that are consistent for a class, and for the node.\<close>

definition saneClass :: "wconfig \<Rightarrow> wclass \<Rightarrow> bool" where
  "saneClass c k \<longleftrightarrow> (let p = policyOf c k in
     0 \<le> ReservedRunning p \<and> ReservedRunning p \<le> MaximumRunning p \<and> MaximumRunning p \<le> MaxRunning c
     \<and> 0 \<le> MaximumQueuedPerWorkspace p \<and> MaximumQueuedPerWorkspace p \<le> MaximumQueued p
     \<and> 0 \<le> QueueTimeout p \<and> 0 \<le> ExecutionTimeout p)"

definition totalReserved :: "wconfig \<Rightarrow> wclass list \<Rightarrow> int" where
  "totalReserved c ks = (\<Sum>k\<leftarrow>ks. ReservedRunning (policyOf c k))"

lemma saneClass_iff_checks:
  "saneClass c k \<longleftrightarrow> (let p = policyOf c k in \<not> negativePolicy p \<and> ReservedRunning p \<le> MaximumRunning p
     \<and> MaximumRunning p \<le> MaxRunning c \<and> MaximumQueuedPerWorkspace p \<le> MaximumQueued p)"
  by (auto simp: saneClass_def negativePolicy_def Let_def)

lemma validateClasses_Inr_iff:
  assumes "MaxRunning c < 1000000000000000000" and "0 \<le> r"
    and "r + int (length ks) * MaxRunning c < 9000000000000000000" and "0 \<le> MaxRunning c"
  shows "validateClasses c ks r = Inr s \<longleftrightarrow> (\<forall>k \<in> set ks. saneClass c k) \<and> s = r + totalReserved c ks"
  using assms
proof (induction ks arbitrary: r)
  case Nil
  then show ?case by (auto simp: totalReserved_def)
next
  case (Cons k ks)
  let ?p = "policyOf c k"
  show ?case
  proof (cases "saneClass c k")
    case False
    then show ?thesis by (auto simp: saneClass_iff_checks Let_def not_le)
  next
    case True
    then have b: "0 \<le> ReservedRunning ?p" "ReservedRunning ?p \<le> MaxRunning c"
      by (auto simp: saneClass_def Let_def)
    have bound: "r + ReservedRunning ?p + int (length ks) * MaxRunning c < 9000000000000000000"
      using Cons.prems(3) b(2) by (simp add: algebra_simps)
    have nn: "0 \<le> int (length ks) * MaxRunning c" using Cons.prems(4) by simp
    have "in64 (r + ReservedRunning ?p)"
      unfolding in64_def using bound nn b Cons.prems(2) by linarith
    then have w: "wrap64 (r + ReservedRunning ?p) = r + ReservedRunning ?p" by simp
    have "validateClasses c (k # ks) r = validateClasses c ks (r + ReservedRunning ?p)"
      using True w by (auto simp: saneClass_iff_checks Let_def not_less)
    moreover have "validateClasses c ks (r + ReservedRunning ?p) = Inr s
        \<longleftrightarrow> (\<forall>k \<in> set ks. saneClass c k) \<and> s = r + ReservedRunning ?p + totalReserved c ks"
      by (rule Cons.IH) (use Cons.prems b bound in auto)
    ultimately show ?thesis
      using True by (auto simp: totalReserved_def add.assoc)
  qed
qed

lemma validateClasses_Inr_sane:
  "validateClasses c ks r = Inr s \<Longrightarrow> k \<in> set ks \<Longrightarrow> saneClass c k"
  by (induction c ks r rule: validateClasses.induct)
    (auto simp: saneClass_iff_checks Let_def split: if_splits)

lemma validateConfig_sane:
  assumes "validateConfig c = Inr ()"
  shows "0 \<le> MaxRunning c" and "0 \<le> NodeMaximumQueued c" and "k \<in> set classOrder \<Longrightarrow> saneClass c k"
  using assms
  by (auto simp: validateConfig_def not_less split: if_splits sum.splits dest: validateClasses_Inr_sane)

lemma DefaultConfig_valid: "validateConfig DefaultConfig = Inr ()"
  by (simp add: validateConfig_def classOrder_def DefaultConfig_def policyOf_def negativePolicy_def
      wrap64_def)

end
