(* ===== verification/Workload_Queue.thy ===== *)
theory Workload_Queue
  imports Workload_Types
begin

text \<open>
  The queue of one class (\<open>classQueue\<close> in \<^verbatim>\<open>internal/workload/controller.go\<close>): one FIFO per
  workspace, the list \<open>order\<close> of workspaces that have waiters, and a cursor into it. \<open>pop\<close> serves
  the workspace under the cursor. \<open>None\<close> as the result of \<open>pop\<close> is the panic of \<open>waiters[0]\<close> on
  an empty slice. A waiter is a pointer in the code; \<open>wtId\<close> is its identity. The FIFO contract is
  the locale \<open>workspace_fifo\<close>; the rotation of workspaces is stated over \<open>ring\<close>.
\<close>

section \<open>Waiters and queues\<close>

record admission =
  adController :: nat
  adClass :: wclass
  adWorkspace :: string

text \<open>A \<open>context.Context\<close>, as far as the controller reads it: the admission it carries.\<close>

record wctx =
  ctxAdmission :: "admission option"

record waiter =
  wtId :: nat
  wtRequest :: request
  wtParent :: wctx
  wtEnqueued :: int

abbreviation wtWorkspace :: "waiter \<Rightarrow> string" where
  "wtWorkspace w \<equiv> rqWorkspace (wtRequest w)"

abbreviation wtClass :: "waiter \<Rightarrow> wclass" where
  "wtClass w \<equiv> rqClass (wtRequest w)"

record classQueue =
  qWorkspaces :: "string \<Rightarrow> waiter list option"
  qOrder :: "string list"
  qCursor :: nat
  qQueued :: int

definition emptyQueue :: classQueue where
  "emptyQueue = \<lparr>qWorkspaces = (\<lambda>_. None), qOrder = [], qCursor = 0, qQueued = 0\<rparr>"

text \<open>Reading the map \<open>workspaces\<close> at an absent key gives the nil slice.\<close>

definition waitersOf :: "classQueue \<Rightarrow> string \<Rightarrow> waiter list" where
  "waitersOf q ws = (case qWorkspaces q ws of None \<Rightarrow> [] | Some xs \<Rightarrow> xs)"

definition enqueue :: "waiter \<Rightarrow> classQueue \<Rightarrow> classQueue" where
  "enqueue w q =
     (let ws = wtWorkspace w;
          q1 = (case qWorkspaces q ws of
                  None \<Rightarrow> q\<lparr>qOrder := qOrder q @ [ws]\<rparr>
                | Some _ \<Rightarrow> q)
      in q1\<lparr>qWorkspaces := (qWorkspaces q1)(ws \<mapsto> waitersOf q1 ws @ [w]),
            qQueued := qQueued q1 + 1\<rparr>)"

definition pop :: "classQueue \<Rightarrow> (waiter option \<times> classQueue) option" where
  "pop q =
     (if qQueued q = 0 \<or> qOrder q = [] then Some (None, q)
      else
        let cur = (if qCursor q \<ge> length (qOrder q) then 0 else qCursor q);
            ws = qOrder q ! cur
        in case waitersOf q ws of
             [] \<Rightarrow> None
           | w # rest \<Rightarrow>
               (let q1 = q\<lparr>qQueued := qQueued q - 1\<rparr> in
                if rest = [] then
                  let order' = delete_at cur (qOrder q) in
                  Some (Some w, q1\<lparr>qWorkspaces := (qWorkspaces q)(ws := None), qOrder := order',
                          qCursor := (if order' = [] then 0
                                      else if cur \<ge> length order' then 0 else cur)\<rparr>)
                else
                  Some (Some w, q1\<lparr>qWorkspaces := (qWorkspaces q)(ws \<mapsto> rest),
                          qCursor := (cur + 1) mod length (qOrder q)\<rparr>)))"

text \<open>Position of the first element that satisfies a predicate (the \<open>for i, w := range\<close> search).\<close>

fun find_index :: "('a \<Rightarrow> bool) \<Rightarrow> 'a list \<Rightarrow> nat option" where
  "find_index P [] = None"
| "find_index P (x # xs) = (if P x then Some 0 else map_option Suc (find_index P xs))"

definition removeOrder :: "string \<Rightarrow> classQueue \<Rightarrow> classQueue" where
  "removeOrder ws q =
     (case find_index (\<lambda>candidate. candidate = ws) (qOrder q) of
        None \<Rightarrow> q
      | Some index \<Rightarrow>
          let order' = delete_at index (qOrder q);
              cur = (if index < qCursor q then qCursor q - 1 else qCursor q)
          in q\<lparr>qOrder := order',
               qCursor := (if order' = [] \<or> cur \<ge> length order' then 0 else cur)\<rparr>)"

definition remove :: "waiter \<Rightarrow> classQueue \<Rightarrow> bool \<times> classQueue" where
  "remove target q =
     (let ws = wtWorkspace target; waiters = waitersOf q ws in
      case find_index (\<lambda>w. wtId w = wtId target) waiters of
        None \<Rightarrow> (False, q)
      | Some i \<Rightarrow>
          (let rest = delete_at i waiters; q1 = q\<lparr>qQueued := qQueued q - 1\<rparr> in
           if rest \<noteq> [] then (True, q1\<lparr>qWorkspaces := (qWorkspaces q)(ws \<mapsto> rest)\<rparr>)
           else (True, removeOrder ws (q1\<lparr>qWorkspaces := (qWorkspaces q)(ws := None)\<rparr>))))"

section \<open>Well-formed queues\<close>

definition queueSize :: "classQueue \<Rightarrow> int" where
  "queueSize q = (\<Sum>ws\<leftarrow>qOrder q. int (length (waitersOf q ws)))"

definition queue_wf :: "classQueue \<Rightarrow> bool" where
  "queue_wf q \<longleftrightarrow> distinct (qOrder q)
     \<and> (\<forall>ws. ws \<in> set (qOrder q) \<longleftrightarrow> qWorkspaces q ws \<noteq> None)
     \<and> (\<forall>ws. qWorkspaces q ws \<noteq> Some [])
     \<and> (\<forall>ws. \<forall>w \<in> set (waitersOf q ws). wtWorkspace w = ws)
     \<and> qQueued q = queueSize q
     \<and> (qOrder q \<noteq> [] \<longrightarrow> qCursor q < length (qOrder q))
     \<and> (qOrder q = [] \<longrightarrow> qCursor q = 0)"

lemma find_index_Some:
  "find_index P xs = Some i \<Longrightarrow> i < length xs \<and> P (xs ! i)"
  by (induction xs arbitrary: i) (auto split: if_splits simp: nth_Cons split: nat.splits)

lemma find_index_None_iff [simp]:
  "find_index P xs = None \<longleftrightarrow> (\<forall>x \<in> set xs. \<not> P x)"
  by (induction xs) auto

lemma waitersOf_upd [simp]:
  "waitersOf (q\<lparr>qWorkspaces := m\<rparr>) ws = (case m ws of None \<Rightarrow> [] | Some xs \<Rightarrow> xs)"
  "waitersOf (q\<lparr>qQueued := n\<rparr>) ws = waitersOf q ws"
  "waitersOf (q\<lparr>qOrder := ord\<rparr>) ws = waitersOf q ws"
  "waitersOf (q\<lparr>qCursor := cu\<rparr>) ws = waitersOf q ws"
  by (simp_all add: waitersOf_def)

lemma waitersOf_emptyQueue [simp]: "waitersOf emptyQueue ws = []"
  by (simp add: emptyQueue_def waitersOf_def)

lemma queue_wf_empty [simp, wf_intros]: "queue_wf emptyQueue"
  by (simp add: queue_wf_def emptyQueue_def queueSize_def waitersOf_def)

lemma queue_wf_waiters_nonempty:
  assumes "queue_wf q"
  shows "ws \<in> set (qOrder q) \<longleftrightarrow> waitersOf q ws \<noteq> []"
  using assms by (auto simp: queue_wf_def waitersOf_def split: option.splits)

lemma queue_wf_waitersOf:
  assumes "queue_wf q" and "ws \<in> set (qOrder q)"
  shows "qWorkspaces q ws = Some (waitersOf q ws)"
  using assms by (auto simp: queue_wf_def waitersOf_def split: option.splits)

lemma queueSize_nonneg: "0 \<le> queueSize q"
  unfolding queueSize_def by (rule sum_list_int_nonneg) simp

lemma queue_wf_queued_pos:
  assumes "queue_wf q"
  shows "qQueued q = 0 \<longleftrightarrow> qOrder q = []"
proof
  assume z: "qQueued q = 0"
  show "qOrder q = []"
  proof (rule ccontr)
    assume "qOrder q \<noteq> []"
    then obtain ws rest where o: "qOrder q = ws # rest" by (cases "qOrder q") auto
    then have "waitersOf q ws \<noteq> []" using queue_wf_waiters_nonempty [OF assms] by auto
    then have "0 < int (length (waitersOf q ws))" by simp
    moreover have "0 \<le> (\<Sum>ws\<leftarrow>rest. int (length (waitersOf q ws)))"
      by (rule sum_list_int_nonneg) simp
    ultimately have "0 < queueSize q" by (simp add: queueSize_def o add_pos_nonneg)
    with z assms show False by (simp add: queue_wf_def)
  qed
next
  assume "qOrder q = []"
  then show "qQueued q = 0" using assms by (simp add: queue_wf_def queueSize_def)
qed


section \<open>The ring of workspaces\<close>

text \<open>
  The workspaces in the order in which \<open>pop\<close> will serve them: from the cursor to the end of
  \<open>order\<close>, then from its start.
\<close>

definition ring :: "classQueue \<Rightarrow> string list" where
  "ring q = drop (qCursor q) (qOrder q) @ take (qCursor q) (qOrder q)"

lemma set_ring [simp]: "set (ring q) = set (qOrder q)"
  by (metis append_take_drop_id ring_def set_append sup_commute)

lemma length_ring [simp]: "length (ring q) = length (qOrder q)"
  by (simp add: ring_def)

lemma ring_Nil_iff [simp]: "ring q = [] \<longleftrightarrow> qOrder q = []"
  by (metis length_0_conv length_ring)

lemma ring_cong: "qOrder q = qOrder p \<Longrightarrow> qCursor q = qCursor p \<Longrightarrow> ring q = ring p"
  by (simp add: ring_def)

lemma distinct_ring: "queue_wf q \<Longrightarrow> distinct (ring q)"
proof -
  assume "queue_wf q"
  then have "distinct (take (qCursor q) (qOrder q) @ drop (qCursor q) (qOrder q))"
    by (simp add: queue_wf_def)
  then show ?thesis unfolding ring_def by (simp only: distinct_append Int_commute)
qed

lemma ring_after_delete:
  assumes "cur < length xs"
  defines "o' \<equiv> delete_at cur xs"
  defines "c' \<equiv> (if o' = [] then 0 else if cur \<ge> length o' then 0 else cur)"
  shows "drop c' o' @ take c' o' = drop (Suc cur) xs @ take cur xs"
proof (cases "cur < length o'")
  case True
  then show ?thesis
    using assms by (auto simp: delete_at_def min_def)
next
  case False
  with assms have "drop (Suc cur) xs = []" by (simp add: not_less)
  with False show ?thesis
    using assms(1) by (auto simp: c'_def o'_def delete_at_def)
qed

lemma ring_after_advance:
  assumes "cur < length xs"
  defines "c' \<equiv> (cur + 1) mod length xs"
  shows "drop c' xs @ take c' xs = drop (Suc cur) xs @ take cur xs @ [xs ! cur]"
proof (cases "Suc cur < length xs")
  case True
  with assms show ?thesis by (simp add: take_Suc_conv_app_nth)
next
  case False
  with assms(1) have l: "Suc cur = length xs" by simp
  then have "c' = 0" by (simp add: c'_def)
  moreover have "xs = take cur xs @ [xs ! cur]"
    using l by (metis lessI take_Suc_conv_app_nth take_all_iff order_refl)
  ultimately show ?thesis using l by simp
qed

lemma queueSize_update:
  assumes "queue_wf q" and "ws \<in> set (qOrder q)" and "qOrder q' = qOrder q"
    and "\<And>v. v \<noteq> ws \<Longrightarrow> waitersOf q' v = waitersOf q v"
  shows "queueSize q' = queueSize q - int (length (waitersOf q ws)) + int (length (waitersOf q' ws))"
  unfolding queueSize_def assms(3)
  by (rule sum_list_update_one) (use assms in \<open>auto simp: queue_wf_def\<close>)

lemma queueSize_delete:
  assumes "i < length (qOrder q)" and "qOrder q' = delete_at i (qOrder q)"
    and "distinct (qOrder q)"
    and "\<And>v. v \<noteq> qOrder q ! i \<Longrightarrow> waitersOf q' v = waitersOf q v"
  shows "queueSize q' = queueSize q - int (length (waitersOf q (qOrder q ! i)))"
proof -
  let ?f = "\<lambda>ws. int (length (waitersOf q ws))"
  have notin: "qOrder q ! i \<notin> set (delete_at i (qOrder q))"
    using assms(1,3) by (simp add: set_delete_at_distinct)
  have "queueSize q' = (\<Sum>ws\<leftarrow>delete_at i (qOrder q). ?f ws)"
    unfolding queueSize_def assms(2)
    by (rule arg_cong [where f = sum_list], rule map_cong) (use notin assms(4) in metis)+
  moreover have "(\<Sum>ws\<leftarrow>qOrder q. ?f ws)
      = (\<Sum>ws\<leftarrow>take i (qOrder q) @ qOrder q ! i # drop (Suc i) (qOrder q). ?f ws)"
    using assms(1) by (simp flip: id_take_nth_drop)
  ultimately show ?thesis by (simp add: queueSize_def delete_at_def)
qed

text \<open>
  The two ways a queue loses a waiter: its workspace keeps others, or the workspace leaves the
  queue. Both keep the invariant; \<open>pop\<close> and \<open>remove\<close> use them.
\<close>

lemma queue_wf_shrink:
  assumes wf: "queue_wf q" and ws: "ws \<in> set (qOrder q)"
    and rest: "rest \<noteq> []" "set rest \<subseteq> set (waitersOf q ws)" "Suc (length rest) = length (waitersOf q ws)"
    and q': "qOrder q' = qOrder q" "qWorkspaces q' = (qWorkspaces q)(ws \<mapsto> rest)"
      "qQueued q' = qQueued q - 1" "qCursor q' < length (qOrder q)"
  shows "queue_wf q'"
proof -
  have wo: "waitersOf q' v = (if v = ws then rest else waitersOf q v)" for v
    by (simp add: q' waitersOf_def)
  have "queueSize q' = queueSize q - int (length (waitersOf q ws)) + int (length (waitersOf q' ws))"
    by (rule queueSize_update [OF wf ws]) (simp_all add: q' wo)
  then have "queueSize q' = queueSize q - 1" using rest(3) by (simp add: wo)
  then show ?thesis
    using wf ws rest by (auto simp: queue_wf_def q' wo)
qed

lemma queue_wf_drop:
  assumes wf: "queue_wf q" and i: "i < length (qOrder q)"
    and one: "length (waitersOf q (qOrder q ! i)) = 1"
    and q': "qOrder q' = delete_at i (qOrder q)"
      "qWorkspaces q' = (qWorkspaces q)(qOrder q ! i := None)" "qQueued q' = qQueued q - 1"
      "qOrder q' \<noteq> [] \<longrightarrow> qCursor q' < length (qOrder q')" "qOrder q' = [] \<longrightarrow> qCursor q' = 0"
  shows "queue_wf q'"
proof -
  have dist: "distinct (qOrder q)" using wf by (simp add: queue_wf_def)
  have so: "set (delete_at i (qOrder q)) = set (qOrder q) - {qOrder q ! i}"
    using dist i by (rule set_delete_at_distinct)
  have wo: "waitersOf q' v = (if v = qOrder q ! i then [] else waitersOf q v)" for v
    by (simp add: q' waitersOf_def)
  have "queueSize q' = queueSize q - int (length (waitersOf q (qOrder q ! i)))"
    by (rule queueSize_delete [OF i q'(1) dist]) (simp add: wo)
  then have "queueSize q' = queueSize q - 1" using one by simp
  moreover have "distinct (qOrder q')" using dist by (simp add: q')
  ultimately show ?thesis
    using wf q'(4,5) unfolding queue_wf_def wo q'(2,3) by (auto simp: q'(1) so)
qed

text \<open>
  What one \<open>pop\<close> does, against the ring: the first workspace of the ring gives its oldest waiter
  and, if it has more, goes to the back of the ring.
\<close>

definition popSpec :: "classQueue \<Rightarrow> waiter \<Rightarrow> classQueue \<Rightarrow> bool" where
  "popSpec q w q' \<longleftrightarrow> (\<exists>ws rs rest. ring q = ws # rs \<and> waitersOf q ws = w # rest
     \<and> ring q' = (if rest = [] then rs else rs @ [ws])
     \<and> (\<forall>v. waitersOf q' v = (if v = ws then rest else waitersOf q v))
     \<and> qQueued q' = qQueued q - 1 \<and> queue_wf q')"

lemma pop_empty:
  assumes "queue_wf q" and "ring q = []"
  shows "pop q = Some (None, q)"
  using assms by (auto simp: pop_def ring_def queue_wf_def)

lemma pop_nonempty:
  assumes wf: "queue_wf q" and ne: "ring q \<noteq> []"
  shows "\<exists>w q'. pop q = Some (Some w, q') \<and> popSpec q w q'"
proof -
  let ?cur = "qCursor q" and ?ord = "qOrder q"
  have one: "?ord \<noteq> []" using ne by (auto simp: ring_def)
  then have cur: "?cur < length ?ord" using wf by (simp add: queue_wf_def)
  define ws where "ws = ?ord ! ?cur"
  have inord: "ws \<in> set ?ord" using cur by (simp add: ws_def)
  have rng: "ring q = ws # drop (Suc ?cur) ?ord @ take ?cur ?ord"
    using cur by (simp add: ring_def ws_def Cons_nth_drop_Suc)
  obtain w rest where xs: "waitersOf q ws = w # rest"
    using inord queue_wf_waiters_nonempty [OF wf] by (cases "waitersOf q ws") auto
  have qd: "qQueued q \<noteq> 0" using one queue_wf_queued_pos [OF wf] by simp
  show ?thesis
  proof (cases "rest = []")
    case True
    let ?o' = "delete_at ?cur ?ord"
    define q' where "q' = q\<lparr>qQueued := qQueued q - 1, qWorkspaces := (qWorkspaces q)(ws := None),
      qOrder := ?o', qCursor := (if ?o' = [] then 0 else if ?cur \<ge> length ?o' then 0 else ?cur)\<rparr>"
    have "pop q = Some (Some w, q')"
      using one qd cur xs True unfolding pop_def q'_def ws_def by (simp add: Let_def not_le)
    moreover have "waitersOf q' v = (if v = ws then rest else waitersOf q v)" for v
      by (simp add: q'_def True waitersOf_def)
    moreover have "queue_wf q'"
      by (rule queue_wf_drop [OF wf cur]) (use xs True in \<open>simp_all add: q'_def ws_def\<close>)
    moreover have "ring q' = drop (Suc ?cur) ?ord @ take ?cur ?ord"
      unfolding ring_def q'_def using ring_after_delete [OF cur] by simp
    ultimately show ?thesis
      unfolding popSpec_def using rng xs True by (auto simp: q'_def)
  next
    case False
    define q' where "q' = q\<lparr>qQueued := qQueued q - 1, qWorkspaces := (qWorkspaces q)(ws \<mapsto> rest),
      qCursor := (?cur + 1) mod length ?ord\<rparr>"
    have "pop q = Some (Some w, q')"
      using one qd cur xs False unfolding pop_def q'_def ws_def by (simp add: Let_def not_le)
    moreover have "waitersOf q' v = (if v = ws then rest else waitersOf q v)" for v
      by (simp add: q'_def waitersOf_def)
    moreover have "queue_wf q'"
      by (rule queue_wf_shrink [OF wf inord False]) (use xs one in \<open>auto simp: q'_def\<close>)
    moreover have "ring q' = drop (Suc ?cur) ?ord @ take ?cur ?ord @ [ws]"
      unfolding ring_def q'_def ws_def using ring_after_advance [OF cur] by simp
    ultimately show ?thesis
      unfolding popSpec_def using rng xs False by (auto simp: q'_def)
  qed
qed

lemma pop_wf_cases:
  assumes "queue_wf q"
  obtains (empty) "ring q = []" "pop q = Some (None, q)"
  | (served) w q' where "pop q = Some (Some w, q')" "popSpec q w q'"
  using assms pop_empty pop_nonempty by metis

lemma pop_no_panic: "queue_wf q \<Longrightarrow> pop q \<noteq> None"
  by (erule pop_wf_cases) auto

lemma pop_wf: "queue_wf q \<Longrightarrow> pop q = Some (r, q') \<Longrightarrow> queue_wf q'"
  using pop_wf_cases [of q] by (metis popSpec_def option.inject prod.inject)

lemma pop_Some_spec: "queue_wf q \<Longrightarrow> pop q = Some (Some w, q') \<Longrightarrow> popSpec q w q'"
  by (erule pop_wf_cases) auto

lemma pop_None_iff: "queue_wf q \<Longrightarrow> pop q = Some (None, q') \<Longrightarrow> q' = q \<and> qQueued q = 0"
  using pop_wf_cases [of q] queue_wf_queued_pos [of q]
  by (metis append_is_Nil_conv option.distinct(1) option.inject prod.inject set_empty set_ring)


section \<open>Enqueue and remove\<close>

lemma waitersOf_enqueue:
  "waitersOf (enqueue w q) v = (if v = wtWorkspace w then waitersOf q v @ [w] else waitersOf q v)"
  by (simp add: enqueue_def Let_def waitersOf_def split: option.split)

lemma enqueue_fields:
  "qQueued (enqueue w q) = qQueued q + 1"
  "qCursor (enqueue w q) = qCursor q"
  "qOrder (enqueue w q)
     = (if qWorkspaces q (wtWorkspace w) = None then qOrder q @ [wtWorkspace w] else qOrder q)"
  by (simp_all add: enqueue_def Let_def split: option.split)

lemma queue_wf_enqueue [wf_intros]:
  assumes wf: "queue_wf q"
  shows "queue_wf (enqueue w q)"
proof (cases "wtWorkspace w \<in> set (qOrder q)")
  case True
  then have some: "qWorkspaces q (wtWorkspace w) \<noteq> None" using wf by (simp add: queue_wf_def)
  have "queueSize (enqueue w q) = queueSize q - int (length (waitersOf q (wtWorkspace w)))
      + int (length (waitersOf (enqueue w q) (wtWorkspace w)))"
    by (rule queueSize_update [OF wf True]) (use some in \<open>simp_all add: enqueue_fields waitersOf_enqueue\<close>)
  then have "queueSize (enqueue w q) = queueSize q + 1" by (simp add: waitersOf_enqueue)
  with wf some show ?thesis
    by (auto simp: queue_wf_def enqueue_def Let_def waitersOf_def split: option.splits)
next
  case False
  then have none: "qWorkspaces q (wtWorkspace w) = None" using wf by (simp add: queue_wf_def)
  have "(\<Sum>ws\<leftarrow>qOrder q. int (length (waitersOf (enqueue w q) ws))) = queueSize q"
    unfolding queueSize_def
    by (rule arg_cong [where f = sum_list], rule map_cong) (use False in \<open>auto simp: waitersOf_enqueue\<close>)
  moreover have "waitersOf q (wtWorkspace w) = []" using none by (simp add: waitersOf_def)
  ultimately have "queueSize (enqueue w q) = queueSize q + 1"
    using none unfolding queueSize_def by (simp add: enqueue_fields waitersOf_enqueue)
  with wf none False show ?thesis
    by (auto simp: queue_wf_def enqueue_def Let_def waitersOf_def split: option.splits)
qed

fun dropFirst :: "('a \<Rightarrow> bool) \<Rightarrow> 'a list \<Rightarrow> 'a list" where
  "dropFirst P [] = []"
| "dropFirst P (x # xs) = (if P x then xs else x # dropFirst P xs)"

lemma dropFirst_find_index: "find_index P xs = Some i \<Longrightarrow> dropFirst P xs = delete_at i xs"
  by (induction xs arbitrary: i) (auto split: if_splits)

lemma dropFirst_absent: "\<forall>x \<in> set xs. \<not> P x \<Longrightarrow> dropFirst P xs = xs"
  by (induction xs) auto

lemma dropFirst_filter:
  "distinct (map f xs) \<Longrightarrow> dropFirst (\<lambda>x. f x = a) xs = filter (\<lambda>x. f x \<noteq> a) xs"
proof (induction xs)
  case Nil
  then show ?case by simp
next
  case (Cons x xs)
  then have "f x = a \<Longrightarrow> filter (\<lambda>x. f x \<noteq> a) xs = xs"
    by (intro filter_True) (auto simp: image_iff)
  with Cons show ?case by simp
qed

lemma set_dropFirst_subset: "set (dropFirst P xs) \<subseteq> set xs"
  by (induction xs) auto

lemma distinct_map_dropFirst: "distinct (map f xs) \<Longrightarrow> distinct (map f (dropFirst P xs))"
  using set_dropFirst_subset [of P] by (induction xs) auto

lemma length_dropFirst:
  "\<exists>x \<in> set xs. P x \<Longrightarrow> Suc (length (dropFirst P xs)) = length xs"
  by (induction xs) auto

lemma removeOrder_spec:
  assumes "distinct (qOrder q)" and "ws \<in> set (qOrder q)" and "qCursor q < length (qOrder q)"
  shows "\<exists>i < length (qOrder q). qOrder q ! i = ws \<and> qOrder (removeOrder ws q) = delete_at i (qOrder q)
    \<and> qWorkspaces (removeOrder ws q) = qWorkspaces q \<and> qQueued (removeOrder ws q) = qQueued q
    \<and> (qOrder (removeOrder ws q) \<noteq> [] \<longrightarrow> qCursor (removeOrder ws q) < length (qOrder (removeOrder ws q)))
    \<and> (qOrder (removeOrder ws q) = [] \<longrightarrow> qCursor (removeOrder ws q) = 0)"
proof -
  obtain i where i: "find_index (\<lambda>candidate. candidate = ws) (qOrder q) = Some i"
    using assms(2) by (cases "find_index (\<lambda>candidate. candidate = ws) (qOrder q)") auto
  let ?o' = "delete_at i (qOrder q)"
  let ?cur = "if i < qCursor q then qCursor q - 1 else qCursor q"
  have r: "removeOrder ws q = q\<lparr>qOrder := ?o', qCursor := (if ?o' = [] \<or> ?cur \<ge> length ?o' then 0 else ?cur)\<rparr>"
    by (simp add: removeOrder_def i Let_def)
  from find_index_Some [OF i] show ?thesis
    unfolding r by (intro exI [of _ i]) (auto simp: length_greater_0_conv [symmetric] simp del: length_greater_0_conv)
qed

lemma remove_absent:
  "\<forall>x \<in> set (waitersOf q (wtWorkspace w)). wtId x \<noteq> wtId w \<Longrightarrow> remove w q = (False, q)"
  by (simp only: remove_def Let_def find_index_None_iff [THEN iffD2]) simp

lemma remove_present:
  assumes wf: "queue_wf q" and x: "x \<in> set (waitersOf q (wtWorkspace w))" "wtId x = wtId w"
  defines "q' \<equiv> snd (remove w q)"
  shows "fst (remove w q)" and "queue_wf q'" and "qQueued q' = qQueued q - 1"
    and "waitersOf q' v = (if v = wtWorkspace w then dropFirst (\<lambda>x. wtId x = wtId w) (waitersOf q v)
                           else waitersOf q v)"
proof -
  let ?ws = "wtWorkspace w"
  let ?xs = "waitersOf q ?ws"
  have "waitersOf q ?ws \<noteq> []" using x(1) by (metis empty_iff list.set(1))
  then have ord: "?ws \<in> set (qOrder q)" using queue_wf_waiters_nonempty [OF wf, of ?ws] by simp
  have dist: "distinct (qOrder q)" using wf by (simp add: queue_wf_def)
  have cur: "qCursor q < length (qOrder q)" using wf ord by (auto simp: queue_wf_def)
  obtain i where i: "find_index (\<lambda>x. wtId x = wtId w) ?xs = Some i"
    using x by (cases "find_index (\<lambda>x. wtId x = wtId w) ?xs") auto
  then have ilt: "i < length ?xs" using find_index_Some by fastforce
  have df: "dropFirst (\<lambda>x. wtId x = wtId w) ?xs = delete_at i ?xs" by (rule dropFirst_find_index [OF i])
  let ?rest = "delete_at i ?xs"
  have all: "fst (remove w q) \<and> queue_wf q' \<and> qQueued q' = qQueued q - 1
      \<and> waitersOf q' v = (if v = ?ws then ?rest else waitersOf q v)"
  proof (cases "?rest = []")
    case False
    have rm: "remove w q = (True, q\<lparr>qQueued := qQueued q - 1, qWorkspaces := (qWorkspaces q)(?ws \<mapsto> ?rest)\<rparr>)"
      using False by (simp add: remove_def Let_def i)
    then have q': "q' = q\<lparr>qQueued := qQueued q - 1, qWorkspaces := (qWorkspaces q)(?ws \<mapsto> ?rest)\<rparr>"
      by (simp add: q'_def)
    have "queue_wf q'"
      by (rule queue_wf_shrink [OF wf ord False])
        (use ilt cur set_delete_at_subset [of i ?xs] in \<open>auto simp: q'\<close>)
    with False show ?thesis by (simp add: q' rm) (simp add: waitersOf_def)
  next
    case True
    let ?q1 = "q\<lparr>qQueued := qQueued q - 1, qWorkspaces := (qWorkspaces q)(?ws := None)\<rparr>"
    have rm: "remove w q = (True, removeOrder ?ws ?q1)"
      using True by (simp add: remove_def Let_def i)
    then have q': "q' = removeOrder ?ws ?q1" by (simp add: q'_def)
    obtain j where j: "j < length (qOrder q)" "qOrder q ! j = ?ws" "qOrder q' = delete_at j (qOrder q)"
      "qWorkspaces q' = (qWorkspaces q)(?ws := None)" "qQueued q' = qQueued q - 1"
      "qOrder q' \<noteq> [] \<longrightarrow> qCursor q' < length (qOrder q')" "qOrder q' = [] \<longrightarrow> qCursor q' = 0"
      using removeOrder_spec [of ?q1 ?ws] dist ord cur by (auto simp: q')
    have one: "length (waitersOf q (qOrder q ! j)) = 1"
      using True delete_at_eq_Nil [OF ilt] by (simp add: j(2))
    have "queue_wf q'"
      by (rule queue_wf_drop [OF wf j(1) one]) (use j in auto)
    with True j show ?thesis by (simp add: rm) (simp add: waitersOf_def)
  qed
  then show "fst (remove w q)" "queue_wf q'" "qQueued q' = qQueued q - 1"
    "waitersOf q' v = (if v = ?ws then dropFirst (\<lambda>x. wtId x = wtId w) (waitersOf q v) else waitersOf q v)"
    by (auto simp: df)
qed

lemma remove_cases:
  obtains (absent) "\<forall>x \<in> set (waitersOf q (wtWorkspace w)). wtId x \<noteq> wtId w"
  | (present) x where "x \<in> set (waitersOf q (wtWorkspace w))" "wtId x = wtId w"
  by blast

lemma queue_wf_remove [wf_intros]: "queue_wf q \<Longrightarrow> queue_wf (snd (remove w q))"
  by (rule remove_cases [of q w]) (auto simp: remove_absent remove_present)

lemma waitersOf_remove:
  assumes "queue_wf q"
  shows "waitersOf (snd (remove w q)) v
    = (if v = wtWorkspace w then dropFirst (\<lambda>x. wtId x = wtId w) (waitersOf q v) else waitersOf q v)"
proof (cases rule: remove_cases [of q w])
  case absent
  then show ?thesis by (simp add: remove_absent dropFirst_absent)
next
  case (present x)
  then show ?thesis by (simp add: remove_present [OF assms])
qed

lemma remove_result:
  assumes "queue_wf q"
  shows "fst (remove w q) \<longleftrightarrow> (\<exists>x \<in> set (waitersOf q (wtWorkspace w)). wtId x = wtId w)"
  by (rule remove_cases [of q w]) (auto simp: remove_absent remove_present [OF assms])

lemma qQueued_remove:
  assumes "queue_wf q"
  shows "qQueued (snd (remove w q)) = qQueued q - (if fst (remove w q) then 1 else 0)"
  by (rule remove_cases [of q w]) (auto simp: remove_absent remove_present [OF assms])


section \<open>The FIFO contract\<close>

text \<open>Traffic on a queue: enqueues, pops and cancellations in any order, with what was served.\<close>

datatype 'w qop = Enq 'w | Deq | Cancel 'w

fun traffic :: "('w \<Rightarrow> 'q \<Rightarrow> 'q) \<Rightarrow> ('q \<Rightarrow> ('w option \<times> 'q) option) \<Rightarrow> ('w \<Rightarrow> 'q \<Rightarrow> bool \<times> 'q)
    \<Rightarrow> 'w qop list \<Rightarrow> 'q \<Rightarrow> ('w list \<times> 'q) option" where
  "traffic enq deq rem [] q = Some ([], q)"
| "traffic enq deq rem (Enq w # ops) q = traffic enq deq rem ops (enq w q)"
| "traffic enq deq rem (Cancel w # ops) q = traffic enq deq rem ops (snd (rem w q))"
| "traffic enq deq rem (Deq # ops) q =
     (case deq q of
        None \<Rightarrow> None
      | Some (None, q') \<Rightarrow> traffic enq deq rem ops q'
      | Some (Some w, q') \<Rightarrow> map_option (\<lambda>(served, q''). (w # served, q'')) (traffic enq deq rem ops q'))"

fun enqueuedBy :: "'w qop list \<Rightarrow> 'w list" where
  "enqueuedBy [] = []"
| "enqueuedBy (Enq w # ops) = w # enqueuedBy ops"
| "enqueuedBy (Deq # ops) = enqueuedBy ops"
| "enqueuedBy (Cancel w # ops) = enqueuedBy ops"

fun noCancel :: "'w qop list \<Rightarrow> bool" where
  "noCancel [] = True"
| "noCancel (Cancel w # ops) = False"
| "noCancel (_ # ops) = noCancel ops"

text \<open>
  What the scheduler relies on: each workspace is a FIFO, \<open>deq\<close> takes the oldest waiter of some
  workspace and fails only when nothing waits, and it never panics on a well-formed queue.
\<close>

locale workspace_fifo =
  fixes enq :: "'w \<Rightarrow> 'q \<Rightarrow> 'q"
    and deq :: "'q \<Rightarrow> ('w option \<times> 'q) option"
    and view :: "'q \<Rightarrow> string \<Rightarrow> 'w list"
    and key :: "'w \<Rightarrow> string"
    and invar :: "'q \<Rightarrow> bool"
  assumes enq_invar: "invar q \<Longrightarrow> invar (enq w q)"
    and enq_view: "invar q \<Longrightarrow> view (enq w q) = (view q)(key w := view q (key w) @ [w])"
    and deq_total: "invar q \<Longrightarrow> deq q \<noteq> None"
    and deq_empty: "invar q \<Longrightarrow> deq q = Some (None, q') \<Longrightarrow> q' = q \<and> (\<forall>s. view q s = [])"
    and deq_served: "invar q \<Longrightarrow> deq q = Some (Some w, q') \<Longrightarrow>
      invar q' \<and> (\<exists>rest. view q (key w) = w # rest \<and> view q' = (view q)(key w := rest))"
begin

lemma traffic_fifo:
  assumes "invar q" and "noCancel ops"
  shows "\<exists>served q'. traffic enq deq rem ops q = Some (served, q') \<and> invar q'
    \<and> (\<forall>s. view q s @ filter (\<lambda>w. key w = s) (enqueuedBy ops) = filter (\<lambda>w. key w = s) served @ view q' s)"
  using assms
proof (induction ops arbitrary: q rule: enqueuedBy.induct)
  case 1
  then show ?case by simp
next
  case (4 w ops)
  then show ?case by simp
next
  case (2 w ops)
  then have inv: "invar (enq w q)" and nc: "noCancel ops" by (simp_all add: enq_invar)
  obtain served q' where t: "traffic enq deq rem ops (enq w q) = Some (served, q')" "invar q'"
    "\<forall>s. view (enq w q) s @ filter (\<lambda>w. key w = s) (enqueuedBy ops)
      = filter (\<lambda>w. key w = s) served @ view q' s"
    using "2.IH" [OF inv nc] by blast
  have "view q s @ filter (\<lambda>w. key w = s) (enqueuedBy (Enq w # ops))
      = view (enq w q) s @ filter (\<lambda>w. key w = s) (enqueuedBy ops)" for s
    using 2 by (simp add: enq_view)
  with t show ?case by simp
next
  case (3 ops)
  obtain r q1 where d: "deq q = Some (r, q1)" using deq_total 3 by fastforce
  show ?case
  proof (cases r)
    case None
    then have "q1 = q" using deq_empty 3 d by simp
    with 3 d None show ?thesis by simp
  next
    case (Some w)
    then obtain rest where q1: "invar q1" "view q (key w) = w # rest" "view q1 = (view q)(key w := rest)"
      using deq_served 3 d by blast
    have nc: "noCancel ops" using 3 by simp
    obtain served q' where t: "traffic enq deq rem ops q1 = Some (served, q')" "invar q'"
      "\<forall>s. view q1 s @ filter (\<lambda>w. key w = s) (enqueuedBy ops) = filter (\<lambda>w. key w = s) served @ view q' s"
      using "3.IH" [OF q1(1) nc] by blast
    have "view q s @ filter (\<lambda>w. key w = s) (enqueuedBy (Deq # ops))
      = filter (\<lambda>w. key w = s) (w # served) @ view q' s" for s
      using spec [OF t(3), of s] q1 by (cases "s = key w") auto
    with d Some t show ?thesis by simp
  qed
qed

end

text \<open>The contract with cancellation: a waiter is removed by identity, and only that waiter.\<close>

locale workspace_fifo_cancel = workspace_fifo enq deq view key invar
  for enq :: "'w \<Rightarrow> 'q \<Rightarrow> 'q" and deq :: "'q \<Rightarrow> ('w option \<times> 'q) option"
    and view :: "'q \<Rightarrow> string \<Rightarrow> 'w list" and key :: "'w \<Rightarrow> string" and invar :: "'q \<Rightarrow> bool" +
  fixes rem :: "'w \<Rightarrow> 'q \<Rightarrow> bool \<times> 'q"
    and ident :: "'w \<Rightarrow> nat"
  assumes rem_invar: "invar q \<Longrightarrow> invar (snd (rem w q))"
    and rem_view: "invar q \<Longrightarrow> view (snd (rem w q))
      = (view q)(key w := dropFirst (\<lambda>x. ident x = ident w) (view q (key w)))"
begin

lemma traffic_total: "invar q \<Longrightarrow> \<exists>served q'. traffic enq deq rem ops q = Some (served, q') \<and> invar q'"
proof (induction ops arbitrary: q rule: enqueuedBy.induct)
  case (3 ops)
  obtain r q1 where d: "deq q = Some (r, q1)" using deq_total 3 by fastforce
  show ?case
  proof (cases r)
    case None
    then have "q1 = q" using deq_empty 3 d by simp
    with 3 d None show ?thesis by simp
  next
    case (Some w)
    then have "invar q1" using deq_served 3 d by blast
    with 3 d Some show ?thesis by fastforce
  qed
qed (simp_all add: enq_invar rem_invar)

lemma served_were_waiting:
  assumes "invar q" and "traffic enq deq rem ops q = Some (served, q')" and "x \<in> set served"
  shows "x \<in> set (view q (key x)) \<or> x \<in> set (enqueuedBy ops)"
  using assms
proof (induction ops arbitrary: q served rule: enqueuedBy.induct)
  case (2 w ops)
  then have "x \<in> set (view (enq w q) (key x)) \<or> x \<in> set (enqueuedBy ops)"
    by (simp add: enq_invar)
  with 2 show ?case by (auto simp: enq_view split: if_splits)
next
  case (4 w ops)
  then have "x \<in> set (view (snd (rem w q)) (key x)) \<or> x \<in> set (enqueuedBy ops)"
    by (simp add: rem_invar)
  with 4 show ?case
    using set_dropFirst_subset [of "\<lambda>x. ident x = ident w" "view q (key w)"]
    by (auto simp: rem_view split: if_splits)
next
  case (3 ops)
  obtain r q1 where d: "deq q = Some (r, q1)" using deq_total 3 by fastforce
  show ?case
  proof (cases r)
    case None
    then have "q1 = q" using deq_empty 3 d by simp
    with 3 d None show ?thesis by simp
  next
    case (Some w)
    then obtain rest where q1: "invar q1" "view q (key w) = w # rest" "view q1 = (view q)(key w := rest)"
      using deq_served 3 d by blast
    from 3 d Some obtain s' where s': "traffic enq deq rem ops q1 = Some (s', q')" "served = w # s'"
      by auto
    show ?thesis
    proof (cases "x = w")
      case True
      with q1 show ?thesis by simp
    next
      case False
      then have "x \<in> set s'" using "3.prems"(3) s'(2) by simp
      then have "x \<in> set (view q1 (key x)) \<or> x \<in> set (enqueuedBy ops)"
        by (rule "3.IH" [OF q1(1) s'(1)])
      with q1 show ?thesis by (auto split: if_splits)
    qed
  qed
qed simp_all

lemma cancelled_never_served:
  assumes "invar q" and "distinct (map ident (view q (key w)))"
    and "traffic enq deq rem (Cancel w # ops) q = Some (served, q')"
    and "w \<notin> set (enqueuedBy ops)"
  shows "w \<notin> set served"
proof
  assume "w \<in> set served"
  with assms served_were_waiting [of "snd (rem w q)" ops served q' w]
  have "w \<in> set (view (snd (rem w q)) (key w))" by (simp add: rem_invar)
  then show False using assms by (simp add: rem_view dropFirst_filter)
qed

end

interpretation class_queue: workspace_fifo_cancel enqueue pop waitersOf wtWorkspace queue_wf remove wtId
proof unfold_locales
  fix q w
  assume wf: "queue_wf q"
  show "queue_wf (enqueue w q)" using wf by (rule queue_wf_enqueue)
  show "waitersOf (enqueue w q) = (waitersOf q)(wtWorkspace w := waitersOf q (wtWorkspace w) @ [w])"
    by (auto simp: waitersOf_enqueue)
  show "pop q \<noteq> None" using wf by (rule pop_no_panic)
  show "queue_wf (snd (remove w q))" using wf by (rule queue_wf_remove)
  show "waitersOf (snd (remove w q))
      = (waitersOf q)(wtWorkspace w := dropFirst (\<lambda>x. wtId x = wtId w) (waitersOf q (wtWorkspace w)))"
    by (auto simp: waitersOf_remove [OF wf])
next
  fix q q'
  assume wf: "queue_wf q" and p: "pop q = Some (None, q')"
  then have "q' = q" and "qOrder q = []" using pop_None_iff queue_wf_queued_pos by blast+
  then show "q' = q \<and> (\<forall>s. waitersOf q s = [])"
    by (metis queue_wf_waiters_nonempty [OF wf] empty_iff list.set(1))
next
  fix q w q'
  assume wf: "queue_wf q" and p: "pop q = Some (Some w, q')"
  then obtain ws rs rest where sp: "ring q = ws # rs" "waitersOf q ws = w # rest"
    "\<forall>v. waitersOf q' v = (if v = ws then rest else waitersOf q v)" "queue_wf q'"
    using pop_Some_spec unfolding popSpec_def by blast
  have "wtWorkspace w = ws" using wf sp(2) by (metis queue_wf_def list.set_intros(1))
  with sp show "queue_wf q' \<and> (\<exists>rest. waitersOf q (wtWorkspace w) = w # rest
      \<and> waitersOf q' = (waitersOf q)(wtWorkspace w := rest))"
    by auto
qed


section \<open>Rotation: who is served when\<close>

text \<open>
  Without new arrivals a workspace at position \<open>n\<close> of the ring is served by pop number \<open>n + 1\<close>,
  whatever the others have queued.
\<close>

fun popN :: "nat \<Rightarrow> classQueue \<Rightarrow> (waiter list \<times> classQueue) option" where
  "popN 0 q = Some ([], q)"
| "popN (Suc n) q =
     (case pop q of
        Some (Some w, q') \<Rightarrow> map_option (\<lambda>(ws, q''). (w # ws, q'')) (popN n q')
      | Some (None, q') \<Rightarrow> Some ([], q')
      | None \<Rightarrow> None)"

lemma popN_serves_ring_position:
  assumes "queue_wf q" and "n < length (ring q)"
  shows "\<exists>served q'. popN (Suc n) q = Some (served, q') \<and> length served = Suc n \<and> queue_wf q'
    \<and> served ! n = hd (waitersOf q (ring q ! n))"
  using assms
proof (induction n arbitrary: q)
  case 0
  then have ne: "ring q \<noteq> []" by auto
  obtain w q' where p: "pop q = Some (Some w, q')" "popSpec q w q'"
    using pop_nonempty [OF "0.prems"(1) ne] by blast
  then show ?case by (auto simp: popSpec_def)
next
  case (Suc n)
  then have ne: "ring q \<noteq> []" by auto
  obtain w q1 where p: "pop q = Some (Some w, q1)" "popSpec q w q1"
    using pop_nonempty [OF Suc.prems(1) ne] by blast
  then obtain ws rs rest where r: "ring q = ws # rs" "ring q1 = (if rest = [] then rs else rs @ [ws])"
    "\<forall>v. waitersOf q1 v = (if v = ws then rest else waitersOf q v)" "queue_wf q1"
    unfolding popSpec_def by blast
  have n: "n < length rs" using Suc.prems(2) r(1) by simp
  then have pos: "ring q1 ! n = rs ! n" "n < length (ring q1)" by (simp_all add: r(2) nth_append)
  have "rs ! n \<noteq> ws" using distinct_ring [OF Suc.prems(1)] n by (auto simp: r(1))
  then have w1: "waitersOf q1 (rs ! n) = waitersOf q (ring q ! Suc n)" by (simp add: r)
  from Suc.IH [OF r(4) pos(2)] obtain served q' where
    "popN (Suc n) q1 = Some (served, q')" "length served = Suc n" "queue_wf q'"
    "served ! n = hd (waitersOf q1 (ring q1 ! n))" by blast
  with p(1) w1 pos(1) show ?case by simp
qed

text \<open>
  With arrivals the bound does not hold: a workspace that is not yet queued enters \<open>order\<close> at its
  end, which is before every workspace that the cursor has already passed. Two workspaces that
  come back each time they are served keep a third one waiting for ever.
\<close>

definition demoWaiter :: "nat \<Rightarrow> string \<Rightarrow> waiter" where
  "demoWaiter n ws = \<lparr>wtId = n, wtRequest = \<lparr>rqClass = Interactive, rqWorkspace = ws,
     rqOperation = ''query''\<rparr>, wtParent = \<lparr>ctxAdmission = None\<rparr>, wtEnqueued = 0\<rparr>"

definition starvingRound :: "nat \<Rightarrow> waiter qop list" where
  "starvingRound n = [Enq (demoWaiter (3 + 2 * n) ''c''), Deq, Enq (demoWaiter (4 + 2 * n) ''b''), Deq]"

fun starvingRun :: "nat \<Rightarrow> waiter qop list" where
  "starvingRun 0 = [Enq (demoWaiter 0 ''a''), Enq (demoWaiter 1 ''a''), Enq (demoWaiter 2 ''b''), Deq]"
| "starvingRun (Suc n) = starvingRun n @ starvingRound n"

definition starving :: "classQueue \<Rightarrow> bool" where
  "starving q \<longleftrightarrow> qOrder q = [''a'', ''b''] \<and> qCursor q = 1 \<and> qQueued q = 2
     \<and> qWorkspaces q ''a'' = Some [demoWaiter 1 ''a''] \<and> (\<exists>b. qWorkspaces q ''b'' = Some [b])
     \<and> qWorkspaces q ''c'' = None"

lemma traffic_append:
  "traffic enq deq rem (xs @ ys) q = (case traffic enq deq rem xs q of
     None \<Rightarrow> None
   | Some (served, q') \<Rightarrow> map_option (\<lambda>(served', q''). (served @ served', q'')) (traffic enq deq rem ys q'))"
  by (induction xs arbitrary: q rule: enqueuedBy.induct)
    (auto split: option.splits prod.splits simp: option.map_comp comp_def case_prod_unfold option.map_ident)

lemma enqueue_new:
  "qWorkspaces q (wtWorkspace w) = None \<Longrightarrow> enqueue w q = q\<lparr>qOrder := qOrder q @ [wtWorkspace w],
     qWorkspaces := (qWorkspaces q)(wtWorkspace w \<mapsto> [w]), qQueued := qQueued q + 1\<rparr>"
  by (simp add: enqueue_def waitersOf_def Let_def)

lemma pop_last_of_workspace:
  "qOrder q = pre @ ws # post \<Longrightarrow> qCursor q = length pre \<Longrightarrow> qQueued q \<noteq> 0 \<Longrightarrow> qWorkspaces q ws = Some [w]
   \<Longrightarrow> pop q = Some (Some w, q\<lparr>qQueued := qQueued q - 1, qWorkspaces := (qWorkspaces q)(ws := None),
     qOrder := pre @ post, qCursor := (if post = [] then 0 else length pre)\<rparr>)"
  by (auto simp: pop_def waitersOf_def delete_at_def Let_def)

lemma demoWaiter_workspace [simp]: "wtWorkspace (demoWaiter n ws) = ws"
  by (simp add: demoWaiter_def)

lemma starvingRound_step:
  assumes "starving q"
  shows "\<exists>served q'. traffic enqueue pop remove (starvingRound n) q = Some (served, q')
    \<and> length served = 2 \<and> starving q'"
proof -
  from assms obtain b where q: "qOrder q = [''a'', ''b'']" "qCursor q = 1" "qQueued q = 2"
    "qWorkspaces q ''a'' = Some [demoWaiter 1 ''a'']" "qWorkspaces q ''b'' = Some [b]"
    "qWorkspaces q ''c'' = None" by (auto simp: starving_def)
  define q1 where "q1 = enqueue (demoWaiter (3 + 2 * n) ''c'') q"
  have q1: "q1 = q\<lparr>qOrder := [''a'', ''b'', ''c''], qQueued := 3,
      qWorkspaces := (qWorkspaces q)(''c'' \<mapsto> [demoWaiter (3 + 2 * n) ''c''])\<rparr>"
    by (simp add: q1_def enqueue_new q)
  define q2 where "q2 = q1\<lparr>qOrder := [''a'', ''c''], qQueued := 2,
      qWorkspaces := (qWorkspaces q1)(''b'' := None), qCursor := 1\<rparr>"
  have p1: "pop q1 = Some (Some b, q2)"
    by (subst pop_last_of_workspace [where pre = "[''a'']" and ws = "''b''" and post = "[''c'']" and w = b])
      (simp_all add: q q1 q2_def)
  define q3 where "q3 = enqueue (demoWaiter (4 + 2 * n) ''b'') q2"
  have q3: "q3 = q2\<lparr>qOrder := [''a'', ''c'', ''b''], qQueued := 3,
      qWorkspaces := (qWorkspaces q2)(''b'' \<mapsto> [demoWaiter (4 + 2 * n) ''b''])\<rparr>"
    unfolding q3_def by (subst enqueue_new) (simp_all add: q2_def)
  define q4 where "q4 = q3\<lparr>qOrder := [''a'', ''b''], qQueued := 2,
      qWorkspaces := (qWorkspaces q3)(''c'' := None), qCursor := 1\<rparr>"
  have p2: "pop q3 = Some (Some (demoWaiter (3 + 2 * n) ''c''), q4)"
    by (subst pop_last_of_workspace [where pre = "[''a'']" and ws = "''c''" and post = "[''b'']"
          and w = "demoWaiter (3 + 2 * n) ''c''"])
      (simp_all add: q q1 q2_def q3 q4_def)
  have "starving q4" by (simp add: starving_def q4_def q3 q2_def q1 q)
  with p1 p2 show ?thesis by (simp add: starvingRound_def q1_def [symmetric] q3_def [symmetric])
qed

lemma starvingRun_start:
  "\<exists>served q'. traffic enqueue pop remove (starvingRun 0) emptyQueue = Some (served, q')
    \<and> length served = 1 \<and> starving q'"
proof -
  define q1 where "q1 = enqueue (demoWaiter 2 ''b'') (enqueue (demoWaiter (Suc 0) ''a'')
    (enqueue (demoWaiter 0 ''a'') emptyQueue))"
  have q1: "q1 = \<lparr>qWorkspaces = [''a'' \<mapsto> [demoWaiter 0 ''a'', demoWaiter 1 ''a''], ''b'' \<mapsto> [demoWaiter 2 ''b'']],
      qOrder = [''a'', ''b''], qCursor = 0, qQueued = 3\<rparr>"
    by (simp add: q1_def enqueue_def emptyQueue_def waitersOf_def Let_def)
  have "pop q1 = Some (Some (demoWaiter 0 ''a''), \<lparr>qWorkspaces =
      [''a'' \<mapsto> [demoWaiter 1 ''a''], ''b'' \<mapsto> [demoWaiter 2 ''b'']],
      qOrder = [''a'', ''b''], qCursor = 1, qQueued = 2\<rparr>)"
    by (simp add: q1 pop_def waitersOf_def Let_def) (simp add: fun_eq_iff)
  then show ?thesis by (simp add: q1_def [symmetric] starving_def)
qed

lemma starvingRun_starves:
  "\<exists>served q'. traffic enqueue pop remove (starvingRun n) emptyQueue = Some (served, q')
    \<and> length served = 2 * n + 1 \<and> starving q'"
proof (induction n)
  case 0
  show ?case using starvingRun_start by simp
next
  case (Suc n)
  then obtain served q where t: "traffic enqueue pop remove (starvingRun n) emptyQueue = Some (served, q)"
    "length served = 2 * n + 1" "starving q" by blast
  from starvingRound_step [OF t(3), of n] obtain served' q' where
    "traffic enqueue pop remove (starvingRound n) q = Some (served', q')" "length served' = 2" "starving q'"
    by blast
  with t(1,2) show ?case by (simp add: traffic_append)
qed

lemma starvingRun_arrivals:
  "filter (\<lambda>w. wtWorkspace w = ''a'') (enqueuedBy (starvingRun n))
     = [demoWaiter 0 ''a'', demoWaiter 1 ''a''] \<and> noCancel (starvingRun n)"
proof (induction n)
  case (Suc n)
  have e: "enqueuedBy (xs @ ys) = enqueuedBy xs @ enqueuedBy ys" for xs ys :: "waiter qop list"
    by (induction xs rule: enqueuedBy.induct) auto
  have c: "noCancel (xs @ ys) \<longleftrightarrow> noCancel xs \<and> noCancel ys" for xs ys :: "waiter qop list"
    by (induction xs rule: noCancel.induct) auto
  show ?case using Suc by (simp add: e c starvingRound_def)
qed simp

end
