(* ===== verification/Workload_Controller.thy ===== *)
theory Workload_Controller
  imports Workload_Queue
begin

text \<open>
  The admission controller of \<^verbatim>\<open>internal/workload/controller.go\<close>: its state, the scheduler, and
  the critical sections of \<open>Acquire\<close>, \<open>Release\<close>, \<open>Close\<close> and cancellation. Each operation that
  holds the mutex is one function on the state; the clock reading of the operation is its first
  argument. \<open>None\<close> is a panic. Waiters and leases are pointers in the code: \<open>wtId\<close> and
  \<open>lsId\<close> are drawn from \<open>nextId\<close>, the state field of a waiter is the map \<open>waiterState\<close>, its
  one-place result channel is \<open>resultChan\<close>, and the \<open>sync.Once\<close> of a lease is membership in
  \<open>releasedOnce\<close>. Calls of the observer are recorded in \<open>observed\<close>.
\<close>

section \<open>State\<close>

datatype rejectionReason =
    NodeQueueFull | ClassQueueFull | WorkspaceQueueFull | QueueTimedOut
  | ConflictingNestedAdmission | ControllerShutdown | InvalidRequest

datatype ctxError = Canceled | DeadlineExceeded

record rejection =
  rjReason :: rejectionReason
  rjClass :: wclass
  rjWorkspace :: string
  rjOperation :: string
  rjQueueWait :: int
  rjCause :: "ctxError option"

record lease =
  lsId :: nat
  lsRequest :: request
  lsCtx :: wctx
  lsTimeout :: "int option"
  lsQueueWait :: int
  lsStarted :: int

abbreviation lsClass :: "lease \<Rightarrow> wclass" where
  "lsClass l \<equiv> rqClass (lsRequest l)"

abbreviation lsWorkspace :: "lease \<Rightarrow> string" where
  "lsWorkspace l \<equiv> rqWorkspace (lsRequest l)"

datatype waiterState = Waiting | Granted | Rejected

datatype acquireResult = GotLease lease | GotError rejection

record workspaceStats =
  wsRunning :: int
  wsQueued :: int

record classStats =
  csPolicy :: policy
  csRunning :: int
  csQueued :: int
  csBorrowed :: int
  csWorkspaces :: "string \<Rightarrow> workspaceStats option"

record stats =
  stMaxRunning :: int
  stRunning :: int
  stQueued :: int
  stClasses :: "(wclass \<times> classStats) list"

record admissionEvent =
  aeClass :: wclass
  aeWorkspace :: string
  aeOperation :: string
  aeOutcome :: string
  aeReason :: "rejectionReason option"
  aeQueueWait :: int
  aeExecution :: int

datatype observation = ObserveWorkload stats | ObserveAdmission admissionEvent

record controller =
  ctlId :: nat
  config :: wconfig
  hasObserver :: bool
  closed :: bool
  running :: int
  runningClass :: "wclass \<Rightarrow> int"
  runningWS :: "wclass \<Rightarrow> string \<Rightarrow> int option"
  active :: "lease list"
  queues :: "wclass \<Rightarrow> classQueue"
  classCursor :: nat
  waiterState :: "nat \<Rightarrow> waiterState option"
  resultChan :: "nat \<Rightarrow> acquireResult option"
  releasedOnce :: "nat set"
  cancelled :: "nat set"
  nextId :: nat
  observed :: "observation list"

section \<open>Construction\<close>

definition clonePolicies :: "wconfig \<Rightarrow> (wclass \<times> policy) list" where
  "clonePolicies c = map (\<lambda>k. (k, policyOf c k)) classOrder"

datatype new_error = ConfigInvalid config_error | ClockRequired

definition newController :: "nat \<Rightarrow> wconfig \<Rightarrow> bool \<Rightarrow> bool \<Rightarrow> new_error + controller" where
  "newController ident cfg observer clock =
     (let cfg1 = (if MaxRunning cfg = 0 \<and> NodeMaximumQueued cfg = 0 \<and> length (Classes cfg) = 0
                  then DefaultConfig else cfg);
          cfg2 = cfg1\<lparr>Classes := clonePolicies cfg1\<rparr>
      in case validateConfig cfg2 of
           Inl e \<Rightarrow> Inl (ConfigInvalid e)
         | Inr _ \<Rightarrow>
             if \<not> clock then Inl ClockRequired
             else Inr \<lparr>ctlId = ident, config = cfg2, hasObserver = observer, closed = False,
               running = 0, runningClass = (\<lambda>_. 0), runningWS = (\<lambda>_ _. None), active = [],
               queues = (\<lambda>_. emptyQueue), classCursor = 0, waiterState = (\<lambda>_. None),
               resultChan = (\<lambda>_. None), releasedOnce = {}, cancelled = {}, nextId = 0, observed = []\<rparr>)"

section \<open>Observation\<close>

definition countOf :: "int option \<Rightarrow> int" where
  "countOf n = (case n of None \<Rightarrow> 0 | Some i \<Rightarrow> i)"

definition classStatsOf :: "controller \<Rightarrow> wclass \<Rightarrow> classStats" where
  "classStatsOf c k =
     (let p = policyOf (config c) k; borrowed = runningClass c k - ReservedRunning p in
      \<lparr>csPolicy = p, csRunning = runningClass c k, csQueued = qQueued (queues c k),
       csBorrowed = (if borrowed < 0 then 0 else borrowed),
       csWorkspaces = (\<lambda>ws. case qWorkspaces (queues c k) ws of
            None \<Rightarrow> map_option (\<lambda>r. \<lparr>wsRunning = r, wsQueued = 0\<rparr>) (runningWS c k ws)
          | Some waiters \<Rightarrow> Some \<lparr>wsRunning = countOf (runningWS c k ws), wsQueued = int (length waiters)\<rparr>)\<rparr>)"

definition statsLocked :: "controller \<Rightarrow> stats" where
  "statsLocked c = \<lparr>stMaxRunning = MaxRunning (config c), stRunning = running c,
     stQueued = (\<Sum>k\<leftarrow>classOrder. qQueued (queues c k)),
     stClasses = map (\<lambda>k. (k, classStatsOf c k)) classOrder\<rparr>"

definition observe :: "observation \<Rightarrow> controller \<Rightarrow> controller" where
  "observe ev c = (if hasObserver c then c\<lparr>observed := observed c @ [ev]\<rparr> else c)"

definition admissionOf :: "request \<Rightarrow> string \<Rightarrow> rejectionReason option \<Rightarrow> int \<Rightarrow> int \<Rightarrow> observation" where
  "admissionOf rq outcome reason wait exec = ObserveAdmission
     \<lparr>aeClass = rqClass rq, aeWorkspace = rqWorkspace rq, aeOperation = rqOperation rq,
      aeOutcome = outcome, aeReason = reason, aeQueueWait = wait, aeExecution = exec\<rparr>"

definition setObserver :: "bool \<Rightarrow> controller \<Rightarrow> controller" where
  "setObserver present c = observe (ObserveWorkload (statsLocked c)) (c\<lparr>hasObserver := present\<rparr>)"

section \<open>Requests\<close>

definition rejectionOf :: "request \<Rightarrow> rejectionReason \<Rightarrow> ctxError option \<Rightarrow> rejection" where
  "rejectionOf rq reason cause = \<lparr>rjReason = reason, rjClass = rqClass rq, rjWorkspace = rqWorkspace rq,
     rjOperation = rqOperation rq, rjQueueWait = 0, rjCause = cause\<rparr>"

definition normalize :: "request \<Rightarrow> rejection + request" where
  "normalize rq =
     (if rqClass rq \<notin> set classOrder \<or> rqOperation rq = '''' \<or> length (rqOperation rq) > 96
      then Inl (rejectionOf rq InvalidRequest None)
      else if rqClass rq = Control \<or> rqClass rq = Maintenance
      then Inr (rq\<lparr>rqWorkspace := NodeWorkspace\<rparr>)
      else if rqWorkspace rq = '''' \<or> rqWorkspace rq = NodeWorkspace
              \<or> (rqWorkspace rq = GlobalWorkspace \<and> rqClass rq \<noteq> Background)
      then Inl (rejectionOf rq InvalidRequest None)
      else Inr rq)"

section \<open>Scheduling\<close>

text \<open>The guard of one iteration of \<open>nextClassLocked\<close>.\<close>

definition eligible :: "bool \<Rightarrow> controller \<Rightarrow> wclass \<Rightarrow> bool" where
  "eligible reservedOnly c k \<longleftrightarrow>
     \<not> (qQueued (queues c k) = 0 \<or> runningClass c k \<ge> MaximumRunning (policyOf (config c) k))
     \<and> \<not> (reservedOnly \<and> runningClass c k \<ge> ReservedRunning (policyOf (config c) k))"

fun nextClassFrom :: "bool \<Rightarrow> controller \<Rightarrow> nat list \<Rightarrow> (wclass \<times> nat) option" where
  "nextClassFrom reservedOnly c [] = None"
| "nextClassFrom reservedOnly c (offset # rest) =
     (let index = (classCursor c + offset) mod length classOrder; k = classOrder ! index in
      if eligible reservedOnly c k then Some (k, (index + 1) mod length classOrder)
      else nextClassFrom reservedOnly c rest)"

definition nextClassLocked :: "bool \<Rightarrow> controller \<Rightarrow> wclass option \<times> controller" where
  "nextClassLocked reservedOnly c =
     (case nextClassFrom reservedOnly c [0..<length classOrder] of
        None \<Rightarrow> (None, c)
      | Some (k, cursor) \<Rightarrow> (Some k, c\<lparr>classCursor := cursor\<rparr>))"

definition pickClass :: "controller \<Rightarrow> wclass option \<times> controller" where
  "pickClass c =
     (case nextClassLocked True c of
        (Some k, c1) \<Rightarrow> (Some k, c1)
      | (None, c1) \<Rightarrow> nextClassLocked False c1)"

definition newLease :: "int \<Rightarrow> controller \<Rightarrow> wclass \<Rightarrow> waiter \<Rightarrow> lease" where
  "newLease now c k w =
     \<lparr>lsId = nextId c, lsRequest = wtRequest w,
      lsCtx = \<lparr>ctxAdmission = Some \<lparr>adController = ctlId c, adClass = k, adWorkspace = wtWorkspace w\<rparr>\<rparr>,
      lsTimeout = (let t = ExecutionTimeout (policyOf (config c) k) in if t > 0 then Some t else None),
      lsQueueWait = now - wtEnqueued w, lsStarted = now\<rparr>"

definition grant :: "int \<Rightarrow> wclass \<Rightarrow> waiter \<Rightarrow> controller \<Rightarrow> controller" where
  "grant now k w c =
     (let l = newLease now c k w in
      c\<lparr>waiterState := (waiterState c)(wtId w \<mapsto> Granted),
        running := running c + 1,
        runningClass := (runningClass c)(k := runningClass c k + 1),
        runningWS := (runningWS c)(k := (runningWS c k)(wtWorkspace w \<mapsto>
                        countOf (runningWS c k (wtWorkspace w)) + 1)),
        active := active c @ [l],
        resultChan := (resultChan c)(wtId w \<mapsto> GotLease l),
        nextId := nextId c + 1\<rparr>)"

lemma nextClassLocked_frame:
  "running (snd (nextClassLocked b c)) = running c"
  "config (snd (nextClassLocked b c)) = config c"
  by (auto simp: nextClassLocked_def split: option.split)

lemma pickClass_frame:
  "running (snd (pickClass c)) = running c" "config (snd (pickClass c)) = config c"
  using nextClassLocked_frame [of True c] nextClassLocked_frame [of False "snd (nextClassLocked True c)"]
  by (auto simp: pickClass_def split: prod.split option.split)

function scheduleLocked :: "int \<Rightarrow> controller \<Rightarrow> controller option" where
  "scheduleLocked now c =
     (if \<not> closed c \<and> running c < MaxRunning (config c) then
        case pickClass c of
          (None, c1) \<Rightarrow> Some c1
        | (Some k, c1) \<Rightarrow>
            (case pop (queues c1 k) of
               None \<Rightarrow> None
             | Some (None, q) \<Rightarrow> Some (c1\<lparr>queues := (queues c1)(k := q)\<rparr>)
             | Some (Some w, q) \<Rightarrow> scheduleLocked now (grant now k w (c1\<lparr>queues := (queues c1)(k := q)\<rparr>)))
      else Some c)"
  by pat_completeness auto
termination
proof (relation "measure (\<lambda>(now, c). nat (MaxRunning (config c) - running c))", goal_cases)
  case 1
  show ?case by simp
next
  case prems: (2 now c x c1 k r w q)
  have "running c1 = running c" "config c1 = config c"
    using pickClass_frame [of c] prems(2) [symmetric] by simp_all
  with prems(1) show ?case by (simp add: grant_def Let_def)
qed

declare scheduleLocked.simps [simp del]

definition queueLimitReasonLocked :: "request \<Rightarrow> controller \<Rightarrow> rejectionReason option" where
  "queueLimitReasonLocked rq c =
     (let queue = queues c (rqClass rq); p = policyOf (config c) (rqClass rq);
          total = (\<Sum>k\<leftarrow>classOrder. qQueued (queues c k))
      in if total > NodeMaximumQueued (config c) then Some NodeQueueFull
         else if qQueued queue > MaximumQueued p then Some ClassQueueFull
         else if int (length (waitersOf queue (rqWorkspace rq))) > MaximumQueuedPerWorkspace p
         then Some WorkspaceQueueFull
         else None)"

section \<open>Release\<close>

definition freeSlot :: "lease \<Rightarrow> controller \<Rightarrow> controller" where
  "freeSlot l c =
     (let k = lsClass l; ws = lsWorkspace l; left = countOf (runningWS c k ws) - 1 in
      c\<lparr>releasedOnce := insert (lsId l) (releasedOnce c),
        cancelled := insert (lsId l) (cancelled c),
        running := running c - 1,
        runningClass := (runningClass c)(k := runningClass c k - 1),
        runningWS := (runningWS c)(k := (runningWS c k)(ws := (if left = 0 then None else Some left))),
        active := filter (\<lambda>x. lsId x \<noteq> lsId l) (active c)\<rparr>)"

definition outcomeOf :: "ctxError option \<Rightarrow> string" where
  "outcomeOf contextErr = (case contextErr of
     Some DeadlineExceeded \<Rightarrow> ''timeout'' | Some Canceled \<Rightarrow> ''canceled'' | None \<Rightarrow> ''completed'')"

definition releaseLease :: "int \<Rightarrow> ctxError option \<Rightarrow> lease \<Rightarrow> controller \<Rightarrow> controller option" where
  "releaseLease now contextErr l c =
     (if lsId l \<in> releasedOnce c then Some c
      else map_option
        (\<lambda>c2. observe (admissionOf (lsRequest l) (outcomeOf contextErr) None (lsQueueWait l) (now - lsStarted l))
               (observe (ObserveWorkload (statsLocked c2)) c2))
        (scheduleLocked now (freeSlot l c)))"

section \<open>Acquire\<close>

datatype enterOutcome = Refused rejection | NestedLease wctx | Admitted lease | MustWait waiter

text \<open>A new waiter joins its class queue; a waiting one is taken out and marked \<open>Rejected\<close>.\<close>

definition admitWaiter :: "waiter \<Rightarrow> controller \<Rightarrow> controller" where
  "admitWaiter w c = c\<lparr>nextId := nextId c + 1, waiterState := (waiterState c)(wtId w \<mapsto> Waiting),
     queues := (queues c)(wtClass w := enqueue w (queues c (wtClass w)))\<rparr>"

definition withdrawWaiter :: "waiter \<Rightarrow> controller \<Rightarrow> controller" where
  "withdrawWaiter w c = c\<lparr>queues := (queues c)(wtClass w := snd (remove w (queues c (wtClass w)))),
     waiterState := (waiterState c)(wtId w \<mapsto> Rejected)\<rparr>"

text \<open>\<open>Acquire\<close> up to its \<open>select\<close>. The receive of an immediate result empties the channel.\<close>

definition enterQueue :: "int \<Rightarrow> waiter \<Rightarrow> controller \<Rightarrow> (enterOutcome \<times> controller) option" where
  "enterQueue now w c =
     (let rq = wtRequest w in
      case scheduleLocked now (admitWaiter w c) of
           None \<Rightarrow> None
         | Some c1 \<Rightarrow>
             if waiterState c1 (wtId w) = Some Waiting then
               (case queueLimitReasonLocked rq c1 of
                  Some reason \<Rightarrow>
                    let c2 = withdrawWaiter w c1;
                        rej = (rejectionOf rq reason None)\<lparr>rjQueueWait := now - wtEnqueued w\<rparr>
                    in Some (Refused rej,
                         observe (admissionOf rq ''rejected'' (Some reason) 0 0)
                           (observe (ObserveWorkload (statsLocked c2)) c2))
                | None \<Rightarrow> Some (MustWait w, observe (ObserveWorkload (statsLocked c1)) c1))
             else
               (let c2 = observe (ObserveWorkload (statsLocked c1)) c1 in
                case resultChan c2 (wtId w) of
                  Some (GotLease l) \<Rightarrow>
                    Some (Admitted l, observe (admissionOf rq ''admitted'' None (lsQueueWait l) 0)
                                        (c2\<lparr>resultChan := (resultChan c2)(wtId w := None)\<rparr>))
                | _ \<Rightarrow> None))"

definition acquireEnter :: "int \<Rightarrow> wctx \<Rightarrow> request \<Rightarrow> controller \<Rightarrow> (enterOutcome \<times> controller) option" where
  "acquireEnter now ctx rq0 c =
     (case normalize rq0 of
        Inl rej \<Rightarrow> Some (Refused rej, observe (admissionOf rq0 ''rejected'' (Some InvalidRequest) 0 0) c)
      | Inr rq \<Rightarrow>
          (case ctxAdmission ctx of
             Some a \<Rightarrow>
               if adController a = ctlId c \<and> adClass a = rqClass rq \<and> adWorkspace a = rqWorkspace rq
               then Some (NestedLease ctx, c)
               else Some (Refused (rejectionOf rq ConflictingNestedAdmission None),
                          observe (admissionOf rq ''rejected'' (Some ConflictingNestedAdmission) 0 0) c)
           | None \<Rightarrow>
               if closed c then
                 Some (Refused (rejectionOf rq ControllerShutdown None),
                       observe (admissionOf rq ''rejected'' (Some ControllerShutdown) 0 0) c)
               else enterQueue now \<lparr>wtId = nextId c, wtRequest = rq, wtParent = ctx, wtEnqueued = now\<rparr> c))"

definition acquireNil :: "request \<Rightarrow> rejection" where
  "acquireNil rq = rejectionOf rq ControllerShutdown None"

section \<open>The select of a waiting caller\<close>

definition cancelWaiter :: "int \<Rightarrow> waiter \<Rightarrow> controller \<Rightarrow> (lease option \<times> controller) option" where
  "cancelWaiter now w c =
     (if waiterState c (wtId w) = Some Waiting then
        map_option (\<lambda>c2. (None, observe (ObserveWorkload (statsLocked c2)) c2))
          (scheduleLocked now (withdrawWaiter w c))
      else
        (let c1 = c\<lparr>resultChan := (resultChan c)(wtId w := None)\<rparr> in
         case resultChan c (wtId w) of
           Some (GotLease l) \<Rightarrow> Some (Some l, c1)
         | Some (GotError _) \<Rightarrow> Some (None, c1)
         | None \<Rightarrow> Some (None, c)))"

datatype waitOutcome = WaitLease lease | WaitRejected rejection | WaitCtxErr ctxError

text \<open>The three cases: a result arrived, the caller's context ended, the queue timer fired.\<close>

definition acquireOnResult ::
  "int \<Rightarrow> ctxError option \<Rightarrow> acquireResult \<Rightarrow> waiter \<Rightarrow> controller \<Rightarrow> (waitOutcome \<times> controller) option" where
  "acquireOnResult now ctxErr r w c =
     (let c1 = c\<lparr>resultChan := (resultChan c)(wtId w := None)\<rparr> in
      case r of
        GotError e \<Rightarrow> Some (WaitRejected e, c1)
      | GotLease l \<Rightarrow>
          (case ctxErr of
             Some err \<Rightarrow> map_option (Pair (WaitCtxErr err)) (releaseLease now ctxErr l c1)
           | None \<Rightarrow> Some (WaitLease l,
               observe (admissionOf (wtRequest w) ''admitted'' None (lsQueueWait l) 0) c1)))"

definition acquireOnDone :: "int \<Rightarrow> ctxError \<Rightarrow> waiter \<Rightarrow> controller \<Rightarrow> (waitOutcome \<times> controller) option" where
  "acquireOnDone now err w c =
     (case cancelWaiter now w c of
        None \<Rightarrow> None
      | Some (Some l, c1) \<Rightarrow> map_option (Pair (WaitCtxErr err)) (releaseLease now (Some err) l c1)
      | Some (None, c1) \<Rightarrow> Some (WaitCtxErr err,
          observe (admissionOf (wtRequest w) ''canceled'' None (now - wtEnqueued w) 0) c1))"

definition acquireOnTimeout ::
  "int \<Rightarrow> ctxError option \<Rightarrow> waiter \<Rightarrow> controller \<Rightarrow> (waitOutcome \<times> controller) option" where
  "acquireOnTimeout now ctxErr w c =
     (case cancelWaiter now w c of
        None \<Rightarrow> None
      | Some (Some l, c1) \<Rightarrow>
          (case ctxErr of
             None \<Rightarrow> Some (WaitLease l,
               observe (admissionOf (wtRequest w) ''admitted'' None (lsQueueWait l) 0) c1)
           | Some err \<Rightarrow> map_option (Pair (WaitCtxErr err)) (releaseLease now ctxErr l c1))
      | Some (None, c1) \<Rightarrow>
          Some (WaitRejected ((rejectionOf (wtRequest w) QueueTimedOut (Some DeadlineExceeded))
                  \<lparr>rjQueueWait := now - wtEnqueued w\<rparr>),
            observe (admissionOf (wtRequest w) ''rejected'' (Some QueueTimedOut) (now - wtEnqueued w) 0) c1))"

text \<open>Whether the queue timer of a waiter is armed.\<close>

definition timerArmed :: "waiter \<Rightarrow> controller \<Rightarrow> bool" where
  "timerArmed w c \<longleftrightarrow> QueueTimeout (policyOf (config c) (wtClass w)) > 0"

section \<open>Close\<close>

definition queuedWaiters :: "classQueue \<Rightarrow> waiter list" where
  "queuedWaiters q = concat (map (waitersOf q) (qOrder q))"

definition allQueued :: "controller \<Rightarrow> waiter list" where
  "allQueued c = concat (map (\<lambda>k. queuedWaiters (queues c k)) classOrder)"

text \<open>
  The critical section of \<open>Close\<close>, giving the waiters it rejects, the running leases and the
  statistics; then, after the mutex is released, cancelling the leases and delivering one
  rejection after another.
\<close>

definition closeLocked :: "controller \<Rightarrow> (waiter list \<times> lease list \<times> stats) option \<times> controller" where
  "closeLocked c =
     (if closed c then (None, c)
      else
        let rejectedWaiters = allQueued c;
            c1 = c\<lparr>closed := True,
                   waiterState := (\<lambda>i. if i \<in> wtId ` set rejectedWaiters then Some Rejected
                                       else waiterState c i),
                   queues := (\<lambda>k. if k \<in> set classOrder then emptyQueue else queues c k)\<rparr>
        in (Some (rejectedWaiters, active c, statsLocked c1), c1))"

definition closeCancel :: "lease list \<Rightarrow> controller \<Rightarrow> controller" where
  "closeCancel leases c = c\<lparr>cancelled := cancelled c \<union> lsId ` set leases\<rparr>"

definition closeDeliver :: "int \<Rightarrow> waiter \<Rightarrow> controller \<Rightarrow> controller" where
  "closeDeliver now w c =
     (let wait = now - wtEnqueued w;
          rej = (rejectionOf (wtRequest w) ControllerShutdown None)\<lparr>rjQueueWait := wait\<rparr>
      in observe (admissionOf (wtRequest w) ''rejected'' (Some ControllerShutdown) wait 0)
           (c\<lparr>resultChan := (resultChan c)(wtId w \<mapsto> GotError rej)\<rparr>))"

definition closeController :: "int \<Rightarrow> controller \<Rightarrow> controller" where
  "closeController now c =
     (case closeLocked c of
        (None, c1) \<Rightarrow> c1
      | (Some (ws, leases, st), c1) \<Rightarrow>
          observe (ObserveWorkload st) (fold (closeDeliver now) ws (closeCancel leases c1)))"

end
