(* ===== verification/Workload_Invariants.thy ===== *)
theory Workload_Invariants
  imports Workload_Controller
begin

text \<open>
  Invariants of the workload controller. \<open>counts_ok\<close>: the counters are exactly what the set of
  running leases says. \<open>limits_ok\<close>: node and class limits. \<open>queues_ok\<close>: every class queue is
  well formed and holds only waiters of its class. \<open>waiters_ok\<close>: the queued waiters are the ones
  in state \<open>Waiting\<close>. \<open>conserving\<close>: no slot is idle while an eligible request waits.
  \<open>bounds_ok\<close>: queue limits. \<open>schedule_rule\<close> is the induction rule of the scheduler loop.
\<close>

section \<open>Invariants\<close>

definition countClass :: "wclass \<Rightarrow> lease list \<Rightarrow> int" where
  "countClass k ls = int (length (filter (\<lambda>l. lsClass l = k) ls))"

definition countWS :: "wclass \<Rightarrow> string \<Rightarrow> lease list \<Rightarrow> int" where
  "countWS k ws ls = int (length (filter (\<lambda>l. lsClass l = k \<and> lsWorkspace l = ws) ls))"

definition counts_ok :: "controller \<Rightarrow> bool" where
  "counts_ok c \<longleftrightarrow> running c = int (length (active c))
     \<and> (\<forall>k. runningClass c k = countClass k (active c))
     \<and> (\<forall>k ws. runningWS c k ws
           = (if countWS k ws (active c) = 0 then None else Some (countWS k ws (active c))))"

definition limits_ok :: "controller \<Rightarrow> bool" where
  "limits_ok c \<longleftrightarrow> running c \<le> MaxRunning (config c)
     \<and> (\<forall>k \<in> set classOrder. runningClass c k \<le> MaximumRunning (policyOf (config c) k))"

definition queues_ok :: "controller \<Rightarrow> bool" where
  "queues_ok c \<longleftrightarrow> (\<forall>k \<in> set classOrder. queue_wf (queues c k)
     \<and> (\<forall>ws. \<forall>w \<in> set (waitersOf (queues c k) ws). wtClass w = k))"

definition ids_ok :: "controller \<Rightarrow> bool" where
  "ids_ok c \<longleftrightarrow> distinct (map lsId (active c))
     \<and> (\<forall>l \<in> set (active c). lsId l < nextId c \<and> lsId l \<notin> releasedOnce c \<and> lsClass l \<in> set classOrder)
     \<and> (\<forall>i \<in> releasedOnce c. i < nextId c)"

definition isQueued :: "controller \<Rightarrow> waiter \<Rightarrow> bool" where
  "isQueued c w \<longleftrightarrow> (\<exists>k \<in> set classOrder. \<exists>ws. w \<in> set (waitersOf (queues c k) ws))"

definition waiters_ok :: "controller \<Rightarrow> bool" where
  "waiters_ok c \<longleftrightarrow> (\<forall>w. isQueued c w \<longrightarrow> wtId w < nextId c \<and> waiterState c (wtId w) = Some Waiting)
     \<and> (\<forall>v w. isQueued c v \<and> isQueued c w \<and> wtId v = wtId w \<longrightarrow> v = w)
     \<and> (\<forall>k \<in> set classOrder. \<forall>ws. distinct (map wtId (waitersOf (queues c k) ws)))
     \<and> (\<forall>i. waiterState c i \<noteq> None \<longrightarrow> i < nextId c)"

definition conserving :: "controller \<Rightarrow> bool" where
  "conserving c \<longleftrightarrow> closed c \<or> running c \<ge> MaxRunning (config c)
     \<or> (\<forall>k \<in> set classOrder. qQueued (queues c k) = 0
          \<or> runningClass c k \<ge> MaximumRunning (policyOf (config c) k))"

definition bounds_ok :: "controller \<Rightarrow> bool" where
  "bounds_ok c \<longleftrightarrow> (\<Sum>k\<leftarrow>classOrder. qQueued (queues c k)) \<le> NodeMaximumQueued (config c)
     \<and> (\<forall>k \<in> set classOrder. qQueued (queues c k) \<le> MaximumQueued (policyOf (config c) k)
          \<and> (\<forall>ws. int (length (waitersOf (queues c k) ws)) \<le> MaximumQueuedPerWorkspace (policyOf (config c) k)))"

definition closed_ok :: "controller \<Rightarrow> bool" where
  "closed_ok c \<longleftrightarrow> (closed c \<longrightarrow> (\<forall>w. \<not> isQueued c w))"

text \<open>What the scheduler keeps, whatever the queues hold.\<close>

definition sched_inv :: "controller \<Rightarrow> bool" where
  "sched_inv c \<longleftrightarrow> counts_ok c \<and> limits_ok c \<and> queues_ok c \<and> ids_ok c \<and> waiters_ok c
     \<and> classCursor c < length classOrder"

lemmas sched_inv_parts = sched_inv_def counts_ok_def limits_ok_def queues_ok_def ids_ok_def waiters_ok_def

section \<open>Choosing a class\<close>

lemma classOrder_length [simp]: "length classOrder = 5"
  by (simp add: classOrder_def)

lemma classOrder_mod_mem [simp]: "classOrder ! (n mod 5) \<in> set classOrder"
  by (rule nth_mem) simp

lemma nextClassFrom_Some:
  "nextClassFrom b c offs = Some (k, cu) \<Longrightarrow> k \<in> set classOrder \<and> eligible b c k \<and> cu < length classOrder"
  by (induction b c offs rule: nextClassFrom.induct)
    (auto simp: Let_def split: if_splits)

lemma nextClassFrom_None:
  "nextClassFrom b c offs = None \<Longrightarrow> off \<in> set offs
   \<Longrightarrow> \<not> eligible b c (classOrder ! ((classCursor c + off) mod length classOrder))"
  by (induction b c offs rule: nextClassFrom.induct) (auto simp: Let_def split: if_splits)

lemma mod_rotation_surj:
  fixes n cu j :: nat
  assumes "cu < n" and "j < n"
  shows "\<exists>off < n. (cu + off) mod n = j"
proof (cases "cu \<le> j")
  case True
  with assms show ?thesis by (intro exI [of _ "j - cu"]) auto
next
  case False
  with assms have "(cu + (n + j - cu)) mod n = j" by (simp add: mod_if)
  moreover have "n + j - cu < n" using False assms by simp
  ultimately show ?thesis by blast
qed

lemma nextClassFrom_None_all:
  assumes "classCursor c < length classOrder" and "nextClassFrom b c [0..<length classOrder] = None"
    and "k \<in> set classOrder"
  shows "\<not> eligible b c k"
proof -
  obtain j where j: "j < length classOrder" "k = classOrder ! j" using assms(3) by (metis in_set_conv_nth)
  from mod_rotation_surj [OF assms(1) j(1)] obtain off where
    "off < length classOrder" "(classCursor c + off) mod length classOrder = j" by blast
  with nextClassFrom_None [OF assms(2), of off] j show ?thesis by simp
qed

lemma eligible_reserved: "eligible True c k \<Longrightarrow> eligible False c k"
  by (simp add: eligible_def)

lemma pickClass_Some:
  assumes "pickClass c = (Some k, c1)" and "classCursor c < length classOrder"
  shows "k \<in> set classOrder" and "eligible False c k" and "\<exists>cu < length classOrder. c1 = c\<lparr>classCursor := cu\<rparr>"
    and "eligible True c k \<or> (\<forall>k' \<in> set classOrder. \<not> eligible True c k')"
  using assms nextClassFrom_None_all [OF assms(2), of True] eligible_reserved
  by (auto simp: pickClass_def nextClassLocked_def split: option.splits dest!: nextClassFrom_Some)

lemma pickClass_None:
  assumes "pickClass c = (None, c1)" and "classCursor c < length classOrder"
  shows "c1 = c" and "\<forall>k \<in> set classOrder. \<not> eligible False c k"
  using assms nextClassFrom_None_all [OF assms(2), of False]
  by (auto simp: pickClass_def nextClassLocked_def split: option.splits)

section \<open>One grant\<close>

definition grantStep :: "int \<Rightarrow> wclass \<Rightarrow> nat \<Rightarrow> waiter \<Rightarrow> classQueue \<Rightarrow> controller \<Rightarrow> controller" where
  "grantStep now k cu w q c = grant now k w (c\<lparr>classCursor := cu, queues := (queues c)(k := q)\<rparr>)"

text \<open>The circumstances under which the scheduler grants \<open>w\<close> a slot of class \<open>k\<close>.\<close>

definition grantable :: "controller \<Rightarrow> wclass \<Rightarrow> nat \<Rightarrow> waiter \<Rightarrow> classQueue \<Rightarrow> bool" where
  "grantable c k cu w q \<longleftrightarrow> \<not> closed c \<and> running c < MaxRunning (config c) \<and> k \<in> set classOrder
     \<and> cu < length classOrder \<and> eligible False c k
     \<and> (eligible True c k \<or> (\<forall>k' \<in> set classOrder. \<not> eligible True c k'))
     \<and> pop (queues c k) = Some (Some w, q) \<and> popSpec (queues c k) w q"

lemma schedule_rule [consumes 1, case_names inv step]:
  assumes "I c"
    and inv: "\<And>c. I c \<Longrightarrow> queues_ok c \<and> classCursor c < length classOrder"
    and step: "\<And>c k cu w q. I c \<Longrightarrow> grantable c k cu w q \<Longrightarrow> I (grantStep now k cu w q c)"
  shows "\<exists>c'. scheduleLocked now c = Some c' \<and> I c' \<and> conserving c'"
  using \<open>I c\<close>
proof (induction "nat (MaxRunning (config c) - running c)" arbitrary: c rule: less_induct)
  case less
  from inv [OF less.prems] have ok: "queues_ok c" and cu: "classCursor c < length classOrder" by auto
  show ?case
  proof (cases "\<not> closed c \<and> running c < MaxRunning (config c)")
    case False
    then show ?thesis using less.prems
      by (subst scheduleLocked.simps) (auto simp: conserving_def)
  next
    case guard: True
    obtain r c1 where pick: "pickClass c = (r, c1)" by (cases "pickClass c") auto
    show ?thesis
    proof (cases r)
      case None
      from pickClass_None [OF pick [unfolded None] cu] have "c1 = c" and "conserving c"
        by (auto simp: conserving_def eligible_def)
      with guard pick None less.prems show ?thesis
        by (subst scheduleLocked.simps) simp
    next
      case (Some k)
      from pickClass_Some [OF pick [unfolded Some] cu] obtain ncu where
        k: "k \<in> set classOrder" "eligible False c k" "ncu < length classOrder" "c1 = c\<lparr>classCursor := ncu\<rparr>"
        "eligible True c k \<or> (\<forall>k' \<in> set classOrder. \<not> eligible True c k')" by auto
      have wf: "queue_wf (queues c k)" using ok k(1) by (simp add: queues_ok_def)
      have "qQueued (queues c k) \<noteq> 0" using k(2) by (simp add: eligible_def)
      then have "ring (queues c k) \<noteq> []" using queue_wf_queued_pos [OF wf] by simp
      from pop_nonempty [OF wf this] obtain w q where
        p: "pop (queues c k) = Some (Some w, q)" "popSpec (queues c k) w q" by blast
      let ?c' = "grantStep now k ncu w q c"
      have I': "I ?c'"
        by (rule step [OF less.prems]) (use guard k p in \<open>auto simp: grantable_def\<close>)
      have "nat (MaxRunning (config ?c') - running ?c') < nat (MaxRunning (config c) - running c)"
        using guard by (simp add: grantStep_def grant_def Let_def)
      from less.hyps [OF this I'] obtain c' where
        "scheduleLocked now ?c' = Some c'" "I c'" "conserving c'" by blast
      with guard pick Some p(1) k(4) show ?thesis
        by (subst scheduleLocked.simps) (simp add: grantStep_def)
    qed
  qed
qed

section \<open>A grant keeps the invariants\<close>

lemma countClass_simps [simp]:
  "countClass k [] = 0"
  "countClass k (xs @ ys) = countClass k xs + countClass k ys"
  "countClass k (x # xs) = (if lsClass x = k then 1 else 0) + countClass k xs"
  by (simp_all add: countClass_def)

lemma countWS_simps [simp]:
  "countWS k ws [] = 0"
  "countWS k ws (xs @ ys) = countWS k ws xs + countWS k ws ys"
  "countWS k ws (x # xs) = (if lsClass x = k \<and> lsWorkspace x = ws then 1 else 0) + countWS k ws xs"
  by (simp_all add: countWS_def)

lemma countClass_nonneg [simp]: "0 \<le> countClass k xs"
  by (simp add: countClass_def)

lemma countWS_nonneg [simp]: "0 \<le> countWS k ws xs"
  by (simp add: countWS_def)

lemma countWS_succ [simp]: "countWS k ws xs + 1 \<noteq> 0" "1 + countWS k ws xs \<noteq> 0"
  using countWS_nonneg [of k ws xs] by linarith+

lemma grantStep_fields [simp]:
  "config (grantStep now k cu w q c) = config c"
  "closed (grantStep now k cu w q c) = closed c"
  "running (grantStep now k cu w q c) = running c + 1"
  "runningClass (grantStep now k cu w q c) = (runningClass c)(k := runningClass c k + 1)"
  "queues (grantStep now k cu w q c) = (queues c)(k := q)"
  "classCursor (grantStep now k cu w q c) = cu"
  "nextId (grantStep now k cu w q c) = nextId c + 1"
  "releasedOnce (grantStep now k cu w q c) = releasedOnce c"
  "waiterState (grantStep now k cu w q c) = (waiterState c)(wtId w \<mapsto> Granted)"
  "ctlId (grantStep now k cu w q c) = ctlId c"
  "hasObserver (grantStep now k cu w q c) = hasObserver c"
  "observed (grantStep now k cu w q c) = observed c"
  "cancelled (grantStep now k cu w q c) = cancelled c"
  "active (grantStep now k cu w q c) = active c @ [newLease now c k w]"
  "resultChan (grantStep now k cu w q c) = (resultChan c)(wtId w \<mapsto> GotLease (newLease now c k w))"
  "runningWS (grantStep now k cu w q c) = (runningWS c)(k := (runningWS c k)(wtWorkspace w \<mapsto>
     countOf (runningWS c k (wtWorkspace w)) + 1))"
  by (simp_all add: grantStep_def grant_def newLease_def Let_def)

lemma newLease_fields [simp]:
  "lsId (newLease now c k w) = nextId c"
  "lsRequest (newLease now c k w) = wtRequest w"
  by (simp_all add: newLease_def)

lemma grantable_waiter:
  assumes "grantable c k cu w q" and "queues_ok c"
  shows "wtClass w = k" and "waitersOf (queues c k) (wtWorkspace w) = w # waitersOf q (wtWorkspace w)"
    and "ws \<noteq> wtWorkspace w \<Longrightarrow> waitersOf q ws = waitersOf (queues c k) ws"
    and "queue_wf q" and "qQueued q = qQueued (queues c k) - 1" and "k \<in> set classOrder"
    and "isQueued c w"
proof -
  from assms obtain v rest where v: "waitersOf (queues c k) v = w # rest"
    "\<forall>u. waitersOf q u = (if u = v then rest else waitersOf (queues c k) u)" "queue_wf q"
    "qQueued q = qQueued (queues c k) - 1" "k \<in> set classOrder"
    by (auto simp: grantable_def popSpec_def)
  have wf: "queue_wf (queues c k)" "\<forall>ws. \<forall>w \<in> set (waitersOf (queues c k) ws). wtClass w = k"
    using assms(2) v(5) by (auto simp: queues_ok_def)
  have vw: "v = wtWorkspace w" using wf(1) v(1) by (metis queue_wf_def list.set_intros(1))
  show "wtClass w = k" using wf(2) v(1) by (metis list.set_intros(1))
  show "waitersOf (queues c k) (wtWorkspace w) = w # waitersOf q (wtWorkspace w)"
    using v vw by simp
  show "ws \<noteq> wtWorkspace w \<Longrightarrow> waitersOf q ws = waitersOf (queues c k) ws" using v vw by simp
  show "isQueued c w" using v(1,5) unfolding isQueued_def by (metis list.set_intros(1))
qed (use assms in \<open>auto simp: grantable_def popSpec_def\<close>)

lemma grantStep_counts:
  assumes "grantable c k cu w q" and "queues_ok c" and "counts_ok c"
  shows "counts_ok (grantStep now k cu w q c)"
  using assms(3) grantable_waiter(1) [OF assms(1,2)]
  by (auto simp: counts_ok_def countOf_def)

lemma grantStep_limits:
  assumes "grantable c k cu w q" and "limits_ok c"
  shows "limits_ok (grantStep now k cu w q c)"
  using assms by (auto simp: limits_ok_def grantable_def eligible_def)

lemma grantStep_queues:
  assumes "grantable c k cu w q" and "queues_ok c"
  shows "queues_ok (grantStep now k cu w q c)"
proof -
  note g = grantable_waiter [OF assms]
  have "wtClass x = k" if "x \<in> set (waitersOf q ws)" for ws x
  proof (cases "ws = wtWorkspace w")
    case True
    then have "x \<in> set (waitersOf (queues c k) ws)" using that g(2) by simp
    with assms(2) g(6) show ?thesis by (auto simp: queues_ok_def)
  next
    case False
    with that g(3,6) assms(2) show ?thesis by (auto simp: queues_ok_def)
  qed
  with assms(2) g(4) show ?thesis by (auto simp: queues_ok_def)
qed

lemma grantStep_ids:
  assumes "grantable c k cu w q" and "queues_ok c" and "ids_ok c"
  shows "ids_ok (grantStep now k cu w q c)"
  using assms(3) grantable_waiter(1,6) [OF assms(1,2)]
  by (fastforce simp: ids_ok_def)

lemma isQueued_class:
  assumes "queues_ok c"
  shows "isQueued c w \<longleftrightarrow> wtClass w \<in> set classOrder \<and> w \<in> set (waitersOf (queues c (wtClass w)) (wtWorkspace w))"
proof
  assume "isQueued c w"
  then obtain k ws where k: "k \<in> set classOrder" "w \<in> set (waitersOf (queues c k) ws)"
    by (auto simp: isQueued_def)
  then have "wtClass w = k" "wtWorkspace w = ws" using assms by (auto simp: queues_ok_def queue_wf_def)
  with k show "wtClass w \<in> set classOrder \<and> w \<in> set (waitersOf (queues c (wtClass w)) (wtWorkspace w))"
    by simp
qed (auto simp: isQueued_def)

lemma isQueued_grantStep:
  assumes "grantable c k cu w q" and "queues_ok c" and "waiters_ok c"
  shows "isQueued (grantStep now k cu w q c) v \<longleftrightarrow> isQueued c v \<and> v \<noteq> w"
proof -
  note g = grantable_waiter [OF assms(1,2)]
  have "distinct (map wtId (w # waitersOf q (wtWorkspace w)))"
    using assms(3) g(2,6) by (metis waiters_ok_def)
  then have notin: "w \<notin> set (waitersOf q (wtWorkspace w))" by auto
  have "w \<in> set (waitersOf (queues c k) (wtWorkspace w))" using g(2) by simp
  show ?thesis
  proof (cases "wtClass v = k")
    case True
    then show ?thesis
      unfolding isQueued_class [OF grantStep_queues [OF assms(1,2)]] isQueued_class [OF assms(2)]
      using g notin by (cases "wtWorkspace v = wtWorkspace w") auto
  next
    case False
    then show ?thesis
      unfolding isQueued_class [OF grantStep_queues [OF assms(1,2)]] isQueued_class [OF assms(2)]
      using g(1) by auto
  qed
qed

lemma grantStep_waiters:
  assumes "grantable c k cu w q" and "queues_ok c" and "waiters_ok c"
  shows "waiters_ok (grantStep now k cu w q c)"
proof -
  note g = grantable_waiter [OF assms(1,2)]
  note iq = isQueued_grantStep [OF assms]
  have dist: "distinct (map wtId (waitersOf (if k' = k then q else queues c k') ws))"
    if "k' \<in> set classOrder" for k' ws
  proof (cases "k' = k \<and> ws = wtWorkspace w")
    case True
    then have "distinct (map wtId (w # waitersOf q ws))" using assms(3) g(2,6) by (metis waiters_ok_def)
    with True show ?thesis by simp
  next
    case False
    then have "waitersOf (if k' = k then q else queues c k') ws = waitersOf (queues c k') ws"
      using g(3) by auto
    with that assms(3) show ?thesis by (simp add: waiters_ok_def)
  qed
  have w: "wtId w < nextId c" and inj: "\<And>v. isQueued c v \<Longrightarrow> wtId v = wtId w \<Longrightarrow> v = w"
    using assms(3) g(7) by (auto simp: waiters_ok_def)
  show ?thesis
    unfolding waiters_ok_def
  proof (intro conjI allI impI ballI)
    fix v assume "isQueued (grantStep now k cu w q c) v"
    then have v: "isQueued c v" "v \<noteq> w" by (simp_all add: iq)
    then have ids: "wtId v < nextId c" "waiterState c (wtId v) = Some Waiting" "wtId v \<noteq> wtId w"
      using assms(3) inj by (auto simp: waiters_ok_def)
    then show "wtId v < nextId (grantStep now k cu w q c)" by simp
    from ids show "waiterState (grantStep now k cu w q c) (wtId v) = Some Waiting" by simp
  next
    fix u v
    assume "isQueued (grantStep now k cu w q c) u \<and> isQueued (grantStep now k cu w q c) v \<and> wtId u = wtId v"
    then show "u = v" using assms(3) by (simp add: iq waiters_ok_def)
  next
    fix k' ws assume "k' \<in> set classOrder"
    then show "distinct (map wtId (waitersOf (queues (grantStep now k cu w q c) k') ws))"
      using dist by simp
  next
    fix i assume "waiterState (grantStep now k cu w q c) i \<noteq> None"
    then show "i < nextId (grantStep now k cu w q c)"
      using assms(3) w by (auto simp: waiters_ok_def split: if_splits intro: less_SucI)
  qed
qed

lemma grantStep_inv:
  assumes "grantable c k cu w q" and "sched_inv c"
  shows "sched_inv (grantStep now k cu w q c)"
  using assms grantStep_counts grantStep_limits grantStep_queues grantStep_ids grantStep_waiters
  by (auto simp: sched_inv_def grantable_def)

text \<open>Queues only shrink while the scheduler runs, and lose a place for every waiter granted.\<close>

definition shrunk :: "controller \<Rightarrow> controller \<Rightarrow> bool" where
  "shrunk c c' \<longleftrightarrow> config c' = config c \<and> closed c' = closed c \<and> ctlId c' = ctlId c
     \<and> hasObserver c' = hasObserver c \<and> observed c' = observed c
     \<and> nextId c \<le> nextId c' \<and> releasedOnce c' = releasedOnce c
     \<and> (\<forall>k. qQueued (queues c' k) \<le> qQueued (queues c k))
     \<and> (\<forall>k ws. length (waitersOf (queues c' k) ws) \<le> length (waitersOf (queues c k) ws))
     \<and> (\<forall>v. isQueued c' v \<longrightarrow> isQueued c v)
     \<and> (\<forall>v. isQueued c v \<and> \<not> isQueued c' v \<longrightarrow>
          qQueued (queues c' (wtClass v)) < qQueued (queues c (wtClass v))
          \<and> length (waitersOf (queues c' (wtClass v)) (wtWorkspace v))
              < length (waitersOf (queues c (wtClass v)) (wtWorkspace v)))"

lemma shrunk_refl [simp]: "shrunk c c"
  by (simp add: shrunk_def)

lemma shrunk_trans:
  assumes "shrunk a b" and "shrunk b c"
  shows "shrunk a c"
  unfolding shrunk_def
proof (intro conjI allI impI)
  fix k ws
  show "length (waitersOf (queues c k) ws) \<le> length (waitersOf (queues a k) ws)"
    using assms unfolding shrunk_def by (meson order_trans)
  show "qQueued (queues c k) \<le> qQueued (queues a k)"
    using assms unfolding shrunk_def by (meson order_trans)
next
  fix v assume v: "isQueued a v \<and> \<not> isQueued c v"
  show "qQueued (queues c (wtClass v)) < qQueued (queues a (wtClass v))"
    using assms v unfolding shrunk_def by (cases "isQueued b v") (meson order_le_less_trans order_less_le_trans)+
  show "length (waitersOf (queues c (wtClass v)) (wtWorkspace v))
      < length (waitersOf (queues a (wtClass v)) (wtWorkspace v))"
    using assms v unfolding shrunk_def by (cases "isQueued b v") (meson order_le_less_trans order_less_le_trans)+
qed (use assms in \<open>auto simp: shrunk_def intro: order_trans\<close>)

lemma grantStep_shrunk:
  assumes "grantable c k cu w q" and "queues_ok c" and "waiters_ok c"
  shows "shrunk c (grantStep now k cu w q c)"
proof -
  note g = grantable_waiter [OF assms(1,2)]
  have len: "length (waitersOf q ws) \<le> length (waitersOf (queues c k) ws)" for ws
    using g(2,3) by (cases "ws = wtWorkspace w") auto
  show ?thesis
    unfolding shrunk_def isQueued_grantStep [OF assms] using g len by auto
qed

text \<open>
  What the scheduler delivers: every waiter it takes off a queue is \<open>Granted\<close> and finds a new
  running lease for its request in its channel, every new lease is in the channel of exactly one
  such waiter, and no other waiter's state or channel changes.
\<close>

definition taken :: "controller \<Rightarrow> controller \<Rightarrow> waiter \<Rightarrow> bool" where
  "taken c c' v \<longleftrightarrow> isQueued c v \<and> \<not> isQueued c' v"

definition delivered :: "controller \<Rightarrow> controller \<Rightarrow> bool" where
  "delivered c c' \<longleftrightarrow> set (active c) \<subseteq> set (active c') \<and> cancelled c' = cancelled c
     \<and> (\<forall>l \<in> set (active c') - set (active c). nextId c \<le> lsId l
          \<and> (\<exists>v. taken c c' v \<and> resultChan c' (wtId v) = Some (GotLease l)))
     \<and> (\<forall>v. taken c c' v \<longrightarrow> waiterState c' (wtId v) = Some Granted
          \<and> (\<exists>l \<in> set (active c') - set (active c). resultChan c' (wtId v) = Some (GotLease l)
               \<and> lsRequest l = wtRequest v))
     \<and> (\<forall>u v l. taken c c' u \<and> taken c c' v \<and> resultChan c' (wtId u) = Some (GotLease l)
          \<and> resultChan c' (wtId v) = Some (GotLease l) \<longrightarrow> u = v)
     \<and> (\<forall>i. (\<forall>v. taken c c' v \<longrightarrow> wtId v \<noteq> i)
          \<longrightarrow> waiterState c' i = waiterState c i \<and> resultChan c' i = resultChan c i)"

lemma delivered_refl [simp]: "delivered c c"
  by (simp add: delivered_def taken_def)

lemma delivered_grantStep:
  assumes inv: "sched_inv b" "sched_inv a" and rel: "shrunk a b" "delivered a b"
    and g: "grantable b k cu w q"
  shows "delivered a (grantStep now k cu w q b)"
proof -
  let ?c = "grantStep now k cu w q b"
  let ?l = "newLease now b k w"
  have ok: "queues_ok b" "waiters_ok b" "waiters_ok a" "ids_ok b" "ids_ok a"
    using inv by (auto simp: sched_inv_def)
  have wq: "isQueued b w" using grantable_waiter(7) [OF g ok(1)] .
  then have wa: "isQueued a w" using rel(1) by (auto simp: shrunk_def)
  have iq: "isQueued ?c v \<longleftrightarrow> isQueued b v \<and> v \<noteq> w" for v
    using isQueued_grantStep [OF g ok(1,2)] .
  have tk: "taken a ?c v \<longleftrightarrow> taken a b v \<or> v = w" for v
    using wa wq by (auto simp: taken_def iq)
  have diff: "taken a b v \<Longrightarrow> wtId v \<noteq> wtId w" for v
    using ok(3) wa wq by (auto simp: taken_def waiters_ok_def)
  have nextle: "nextId a \<le> nextId b" using rel(1) by (simp add: shrunk_def)
  have lfresh: "?l \<notin> set (active b)" using ok(4) by (fastforce simp: ids_ok_def)
  then have lnew: "?l \<notin> set (active a)" using rel(2) by (auto simp: delivered_def)
  have chan: "taken a b v \<Longrightarrow> resultChan ?c (wtId v) = resultChan b (wtId v)
      \<and> waiterState ?c (wtId v) = waiterState b (wtId v)" for v
    using diff by simp
  have old: "taken a b v \<Longrightarrow> resultChan b (wtId v) = Some (GotLease l) \<Longrightarrow> l \<noteq> ?l" for v l
    using rel(2) lfresh by (fastforce simp: delivered_def)
  show ?thesis
    unfolding delivered_def
  proof (intro conjI allI impI ballI)
    show "set (active a) \<subseteq> set (active ?c)" using rel(2) by (auto simp: delivered_def)
    show "cancelled ?c = cancelled a" using rel(2) by (simp add: delivered_def)
  next
    fix l assume l: "l \<in> set (active ?c) - set (active a)"
    show "nextId a \<le> lsId l"
      using l rel(2) nextle by (auto simp: delivered_def)
    show "\<exists>v. taken a ?c v \<and> resultChan ?c (wtId v) = Some (GotLease l)"
    proof (cases "l = ?l")
      case True
      then show ?thesis by (intro exI [of _ w]) (simp add: tk)
    next
      case False
      then have "l \<in> set (active b) - set (active a)" using l by auto
      then obtain v where "taken a b v" "resultChan b (wtId v) = Some (GotLease l)"
        using rel(2) unfolding delivered_def by blast
      then show ?thesis using chan by (intro exI [of _ v]) (simp add: tk)
    qed
  next
    fix v assume v: "taken a ?c v"
    show "waiterState ?c (wtId v) = Some Granted"
      using v rel(2) diff by (auto simp: tk delivered_def)
    show "\<exists>l \<in> set (active ?c) - set (active a). resultChan ?c (wtId v) = Some (GotLease l)
        \<and> lsRequest l = wtRequest v"
      using v rel(2) diff lnew by (fastforce simp: tk delivered_def)
  next
    fix u v l
    assume "taken a ?c u \<and> taken a ?c v \<and> resultChan ?c (wtId u) = Some (GotLease l)
      \<and> resultChan ?c (wtId v) = Some (GotLease l)"
    then show "u = v" using rel(2) old chan unfolding tk delivered_def
      by (metis acquireResult.inject(1) fun_upd_same grantStep_fields(15) option.inject)
  next
    fix i assume i: "\<forall>v. taken a ?c v \<longrightarrow> wtId v \<noteq> i"
    then have "i \<noteq> wtId w" and "\<forall>v. taken a b v \<longrightarrow> wtId v \<noteq> i" by (auto simp: tk)
    then show "waiterState ?c i = waiterState a i" and "resultChan ?c i = resultChan a i"
      using rel(2) by (auto simp: delivered_def)
  qed
qed

theorem schedule_correct:
  assumes "sched_inv c"
  shows "\<exists>c'. scheduleLocked now c = Some c' \<and> sched_inv c' \<and> shrunk c c' \<and> delivered c c' \<and> conserving c'"
proof -
  let ?I = "\<lambda>c'. sched_inv c' \<and> shrunk c c' \<and> delivered c c'"
  have "?I c" using assms by simp
  then have "\<exists>c'. scheduleLocked now c = Some c' \<and> ?I c' \<and> conserving c'"
  proof (induction rule: schedule_rule)
    case (inv c)
    then show ?case by (simp add: sched_inv_def)
  next
    case (step c' k cu w q)
    then have "shrunk c' (grantStep now k cu w q c')"
      using grantStep_shrunk by (simp add: sched_inv_def)
    with step assms show ?case
      using grantStep_inv delivered_grantStep shrunk_trans by blast
  qed
  then show ?thesis by blast
qed

text \<open>
  Reservations: the scheduler gives a class a slot beyond its reservation only when no class that
  is still below its own reservation has a request waiting.
\<close>

fun grantTrace :: "int \<Rightarrow> controller \<Rightarrow> (wclass \<times> nat \<times> waiter \<times> classQueue) list \<Rightarrow> controller \<Rightarrow> bool" where
  "grantTrace now c [] c' \<longleftrightarrow> c' = c"
| "grantTrace now c ((k, cu, w, q) # gs) c' \<longleftrightarrow> grantable c k cu w q \<and> grantTrace now (grantStep now k cu w q c) gs c'"

lemma grantTrace_append:
  "grantTrace now c (xs @ ys) c' \<longleftrightarrow> (\<exists>b. grantTrace now c xs b \<and> grantTrace now b ys c')"
  by (induction xs arbitrary: c) auto

lemma schedule_is_grants:
  assumes "sched_inv c"
  shows "\<exists>gs c'. scheduleLocked now c = Some c' \<and> grantTrace now c gs c'"
proof -
  let ?I = "\<lambda>c'. sched_inv c' \<and> (\<exists>gs. grantTrace now c gs c')"
  have "?I c" using assms grantTrace.simps(1) by blast
  then have "\<exists>c'. scheduleLocked now c = Some c' \<and> ?I c' \<and> conserving c'"
  proof (induction rule: schedule_rule)
    case (inv c)
    then show ?case by (simp add: sched_inv_def)
  next
    case (step c' k cu w q)
    then obtain gs where "grantTrace now c gs c'" by blast
    with step(2) have "grantTrace now c (gs @ [(k, cu, w, q)]) (grantStep now k cu w q c')"
      unfolding grantTrace_append by auto
    with step show ?case using grantStep_inv by blast
  qed
  then show ?thesis by blast
qed

end
