(* ===== verification/Workload_System.thy ===== *)
theory Workload_System
  imports Workload_Invariants
begin

text \<open>
  The controller with its callers: goroutines blocked in \<open>Acquire\<close>, leases they hold, and the
  rejections \<open>Close\<close> has still to deliver. Every critical section is one step of \<open>sys_step\<close>, so
  a run is an interleaving of any number of callers. \<open>core\<close> is the invariant that ties the
  result channels to the controller state.
\<close>

section \<open>The invariant that ties callers to the controller\<close>

definition caller_ok :: "controller \<Rightarrow> lease list \<Rightarrow> waiter list \<Rightarrow> waiter \<Rightarrow> bool" where
  "caller_ok c held dels w \<longleftrightarrow>
     (isQueued c w \<and> resultChan c (wtId w) = None)
   \<or> (waiterState c (wtId w) = Some Granted
      \<and> (\<exists>l \<in> set (active c). resultChan c (wtId w) = Some (GotLease l) \<and> lsRequest l = wtRequest w
            \<and> l \<notin> set held))
   \<or> (waiterState c (wtId w) = Some Rejected \<and> closed c
      \<and> (w \<in> set dels \<and> resultChan c (wtId w) = None
         \<or> w \<notin> set dels \<and> (\<exists>e. resultChan c (wtId w) = Some (GotError e) \<and> rjReason e = ControllerShutdown)))"

definition core :: "controller \<Rightarrow> waiter list \<Rightarrow> lease list \<Rightarrow> waiter list \<Rightarrow> bool" where
  "core c callers held dels \<longleftrightarrow> sched_inv c \<and> closed_ok c
     \<and> distinct (map wtId callers) \<and> (\<forall>w \<in> set callers. wtId w < nextId c \<and> caller_ok c held dels w)
     \<and> (\<forall>w. isQueued c w \<longrightarrow> w \<in> set callers)
     \<and> (\<forall>u \<in> set callers. \<forall>v \<in> set callers. \<forall>l. resultChan c (wtId u) = Some (GotLease l)
           \<and> resultChan c (wtId v) = Some (GotLease l) \<longrightarrow> u = v)
     \<and> set held \<subseteq> set (active c) \<and> distinct (map lsId held)
     \<and> (\<forall>l \<in> set (active c). l \<in> set held \<or> (\<exists>w \<in> set callers. resultChan c (wtId w) = Some (GotLease l)))
     \<and> distinct dels \<and> (\<not> closed c \<longrightarrow> dels = [])
     \<and> (\<forall>d \<in> set dels. wtId d < nextId c \<and> waiterState c (wtId d) = Some Rejected
           \<and> (\<forall>w \<in> set callers. wtId d = wtId w \<longrightarrow> d = w))
     \<and> (\<forall>i. resultChan c i \<noteq> None \<longrightarrow> i < nextId c)"

lemma observe_fields [simp]:
  "config (observe e c) = config c" "closed (observe e c) = closed c" "running (observe e c) = running c"
  "runningClass (observe e c) = runningClass c" "runningWS (observe e c) = runningWS c"
  "active (observe e c) = active c" "queues (observe e c) = queues c"
  "classCursor (observe e c) = classCursor c" "waiterState (observe e c) = waiterState c"
  "resultChan (observe e c) = resultChan c" "releasedOnce (observe e c) = releasedOnce c"
  "cancelled (observe e c) = cancelled c" "nextId (observe e c) = nextId c" "ctlId (observe e c) = ctlId c"
  by (simp_all add: observe_def)

lemma sched_inv_cong:
  assumes "config c' = config c" "running c' = running c" "runningClass c' = runningClass c"
    "runningWS c' = runningWS c" "active c' = active c" "queues c' = queues c"
    "classCursor c' = classCursor c" "waiterState c' = waiterState c"
    "releasedOnce c' = releasedOnce c" "nextId c' = nextId c"
  shows "sched_inv c' = sched_inv c"
  using assms by (simp add: sched_inv_parts isQueued_def)

lemma isQueued_cong: "queues c' = queues c \<Longrightarrow> isQueued c' w = isQueued c w"
  by (simp add: isQueued_def)

lemma observe_inv [simp]:
  "sched_inv (observe e c) = sched_inv c" "isQueued (observe e c) w = isQueued c w"
  "caller_ok (observe e c) h d w = caller_ok c h d w" "closed_ok (observe e c) = closed_ok c"
  "core (observe e c) cs h d = core c cs h d" "conserving (observe e c) = conserving c"
  "bounds_ok (observe e c) = bounds_ok c"
proof -
  show s: "sched_inv (observe e c) = sched_inv c" by (rule sched_inv_cong) simp_all
  show q: "isQueued (observe e c) w = isQueued c w" for w by (rule isQueued_cong) simp
  show ok: "caller_ok (observe e c) h d w = caller_ok c h d w" for w by (simp add: caller_ok_def q)
  show cl: "closed_ok (observe e c) = closed_ok c" by (simp add: closed_ok_def q)
  show "core (observe e c) cs h d = core c cs h d" by (simp add: core_def s q ok cl)
  show "conserving (observe e c) = conserving c" by (simp add: conserving_def)
  show "bounds_ok (observe e c) = bounds_ok c" by (simp add: bounds_ok_def)
qed

section \<open>Steps inside a critical section\<close>

text \<open>A caller whose channel holds a lease is \<open>Granted\<close> and the lease is running.\<close>

lemma caller_ok_lease:
  assumes "caller_ok c h d w" and "resultChan c (wtId w) = Some (GotLease l)"
  shows "waiterState c (wtId w) = Some Granted" and "l \<in> set (active c)" and "lsRequest l = wtRequest w"
    and "l \<notin> set h"
  using assms by (auto simp: caller_ok_def)

lemma granted_not_queued:
  "sched_inv c \<Longrightarrow> waiterState c (wtId w) \<noteq> Some Waiting \<Longrightarrow> \<not> isQueued c w"
  by (auto simp: sched_inv_def waiters_ok_def)

lemma schedule_frame:
  assumes core: "core c cs h d" and dl: "delivered c c'" and w: "w \<in> set cs" and nt: "\<not> taken c c' w"
  shows "resultChan c' (wtId w) = resultChan c (wtId w)" and "waiterState c' (wtId w) = waiterState c (wtId w)"
proof -
  have "v = w" if "taken c c' v" "wtId v = wtId w" for v
  proof -
    have "v \<in> set cs" using that(1) core by (simp add: core_def taken_def)
    with that(2) core w show ?thesis by (auto simp: core_def distinct_map inj_on_def)
  qed
  then have "\<forall>v. taken c c' v \<longrightarrow> wtId v \<noteq> wtId w" using nt by blast
  then show "resultChan c' (wtId w) = resultChan c (wtId w)" "waiterState c' (wtId w) = waiterState c (wtId w)"
    using dl by (auto simp: delivered_def)
qed

lemma schedule_caller_ok:
  assumes core: "core c cs h d" and sh: "shrunk c c'" and dl: "delivered c c'" and w: "w \<in> set cs"
  shows "caller_ok c' h d w"
proof (cases "taken c c' w")
  case True
  then obtain l where "l \<in> set (active c') - set (active c)" "resultChan c' (wtId w) = Some (GotLease l)"
    "lsRequest l = wtRequest w" "waiterState c' (wtId w) = Some Granted"
    using dl unfolding delivered_def by blast
  moreover from this have "l \<notin> set h" using core by (auto simp: core_def)
  ultimately show ?thesis unfolding caller_ok_def by blast
next
  case False
  have ok: "caller_ok c h d w" using core w by (simp add: core_def)
  have "isQueued c w \<Longrightarrow> isQueued c' w" using False by (simp add: taken_def)
  moreover have "closed c' = closed c" using sh by (simp add: shrunk_def)
  moreover have "set (active c) \<subseteq> set (active c')" using dl by (simp add: delivered_def)
  ultimately show ?thesis
    using ok schedule_frame [OF core dl w False] unfolding caller_ok_def by auto
qed

lemma core_schedule:
  assumes core: "core c cs h d" and sh: "shrunk c c'" and dl: "delivered c c'" and inv: "sched_inv c'"
  shows "core c' cs h d"
proof -
  have wok: "waiters_ok c" using core by (simp add: core_def sched_inv_def)
  show ?thesis
    unfolding core_def
  proof (intro conjI ballI allI impI)
    show "sched_inv c'" by (rule inv)
    show "closed_ok c'" using core sh by (auto simp: core_def closed_ok_def shrunk_def)
    show "distinct (map wtId cs)" "distinct (map lsId h)" "distinct d" using core by (simp_all add: core_def)
    show "set h \<subseteq> set (active c')" using core dl by (auto simp: core_def delivered_def)
    assume "\<not> closed c'"
    then show "d = []" using core sh by (simp add: core_def shrunk_def)
  next
    fix w assume w: "w \<in> set cs"
    have "wtId w < nextId c" using w core unfolding core_def by blast
    then show "wtId w < nextId c'" using sh unfolding shrunk_def by linarith
    show "caller_ok c' h d w" using core sh dl w by (rule schedule_caller_ok)
  next
    fix w assume "isQueued c' w"
    then show "w \<in> set cs" using core sh by (simp add: core_def shrunk_def)
  next
    fix u v l assume uv: "u \<in> set cs" "v \<in> set cs"
      and l: "resultChan c' (wtId u) = Some (GotLease l) \<and> resultChan c' (wtId v) = Some (GotLease l)"
    have old: "l \<in> set (active c)" if "w \<in> {u, v}" "\<not> taken c c' w" for w
      using that uv l core schedule_frame(1) [OF core dl _ that(2)] caller_ok_lease(2) [of c h d w l]
      by (auto simp: core_def)
    have new: "l \<notin> set (active c)" if "w \<in> {u, v}" "taken c c' w" for w
      using that l dl by (fastforce simp: delivered_def)
    show "u = v"
    proof (cases "taken c c' u")
      case True
      then have "taken c c' v" using new old by blast
      with True l dl show ?thesis unfolding delivered_def by blast
    next
      case False
      then have "\<not> taken c c' v" using new old by blast
      with False uv l core schedule_frame(1) [OF core dl] show ?thesis
        unfolding core_def by metis
    qed
  next
    fix l assume l: "l \<in> set (active c')"
    show "l \<in> set h \<or> (\<exists>w \<in> set cs. resultChan c' (wtId w) = Some (GotLease l))"
    proof (cases "l \<in> set (active c)")
      case False
      with l dl obtain v where "taken c c' v" "resultChan c' (wtId v) = Some (GotLease l)"
        unfolding delivered_def by blast
      then show ?thesis using core by (auto simp: core_def taken_def)
    next
      case True
      then consider "l \<in> set h" | w where "w \<in> set cs" "resultChan c (wtId w) = Some (GotLease l)"
        using core unfolding core_def by blast
      then show ?thesis
      proof cases
        case (2 w)
        then have "waiterState c (wtId w) = Some Granted"
          using core caller_ok_lease(1) by (auto simp: core_def)
        then have "\<not> taken c c' w" using core granted_not_queued by (auto simp: core_def taken_def)
        with 2 schedule_frame(1) [OF core dl 2(1)] show ?thesis by auto
      qed simp
    qed
  next
    fix e assume e: "e \<in> set d"
    have "wtId e < nextId c" using e core unfolding core_def by blast
    then show "wtId e < nextId c'" using sh unfolding shrunk_def by linarith
    have rej: "waiterState c (wtId e) = Some Rejected" using e core unfolding core_def by blast
    have "wtId v \<noteq> wtId e" if "taken c c' v" for v
    proof -
      have "waiterState c (wtId v) = Some Waiting" using that wok by (auto simp: taken_def waiters_ok_def)
      with rej show ?thesis by auto
    qed
    then show "waiterState c' (wtId e) = Some Rejected" using rej dl by (simp add: delivered_def)
    fix w assume "w \<in> set cs" "wtId e = wtId w"
    with e core show "e = w" by (simp add: core_def)
  next
    fix i assume i: "resultChan c' i \<noteq> None"
    show "i < nextId c'"
    proof (cases "\<exists>v. taken c c' v \<and> wtId v = i")
      case True
      then obtain v where "isQueued c v" "wtId v = i" by (auto simp: taken_def)
      then have "i < nextId c" using core unfolding core_def by blast
      then show ?thesis using sh unfolding shrunk_def by linarith
    next
      case False
      then have "resultChan c i \<noteq> None" using i dl by (auto simp: delivered_def)
      then have "i < nextId c" using core unfolding core_def by blast
      then show ?thesis using sh unfolding shrunk_def by linarith
    qed
  qed
qed

text \<open>A run of the scheduler never panics, keeps the invariant and leaves no slot idle.\<close>

lemma schedule_core:
  assumes "core c cs h d"
  obtains c' where "scheduleLocked now c = Some c'" "core c' cs h d" "shrunk c c'" "delivered c c'" "conserving c'"
proof -
  have "sched_inv c" using assms by (simp add: core_def)
  from schedule_correct [OF this, of now] obtain c' where
    "scheduleLocked now c = Some c'" "sched_inv c'" "shrunk c c'" "delivered c c'" "conserving c'" by blast
  with core_schedule [OF assms] show thesis by (intro that) auto
qed


section \<open>Joining, leaving and freeing\<close>

lemma admitWaiter_fields [simp]:
  "config (admitWaiter w c) = config c" "closed (admitWaiter w c) = closed c"
  "running (admitWaiter w c) = running c" "runningClass (admitWaiter w c) = runningClass c"
  "runningWS (admitWaiter w c) = runningWS c" "active (admitWaiter w c) = active c"
  "queues (admitWaiter w c) = (queues c)(wtClass w := enqueue w (queues c (wtClass w)))"
  "classCursor (admitWaiter w c) = classCursor c"
  "waiterState (admitWaiter w c) = (waiterState c)(wtId w \<mapsto> Waiting)"
  "resultChan (admitWaiter w c) = resultChan c" "releasedOnce (admitWaiter w c) = releasedOnce c"
  "nextId (admitWaiter w c) = nextId c + 1"
  by (simp_all add: admitWaiter_def)

lemma withdrawWaiter_fields [simp]:
  "config (withdrawWaiter w c) = config c" "closed (withdrawWaiter w c) = closed c"
  "running (withdrawWaiter w c) = running c" "runningClass (withdrawWaiter w c) = runningClass c"
  "runningWS (withdrawWaiter w c) = runningWS c" "active (withdrawWaiter w c) = active c"
  "queues (withdrawWaiter w c) = (queues c)(wtClass w := snd (remove w (queues c (wtClass w))))"
  "classCursor (withdrawWaiter w c) = classCursor c"
  "waiterState (withdrawWaiter w c) = (waiterState c)(wtId w \<mapsto> Rejected)"
  "resultChan (withdrawWaiter w c) = resultChan c" "releasedOnce (withdrawWaiter w c) = releasedOnce c"
  "nextId (withdrawWaiter w c) = nextId c"
  by (simp_all add: withdrawWaiter_def)

lemma admit_queues_ok:
  assumes "queues_ok c" and "wtClass w \<in> set classOrder"
  shows "queues_ok (admitWaiter w c)"
  unfolding queues_ok_def
proof (intro ballI conjI allI)
  fix k assume k: "k \<in> set classOrder"
  then have wf: "queue_wf (queues c k)" using assms(1) by (simp add: queues_ok_def)
  then show "queue_wf (queues (admitWaiter w c) k)"
    by (cases "k = wtClass w") (simp_all add: queue_wf_enqueue)
  fix ws v assume "v \<in> set (waitersOf (queues (admitWaiter w c) k) ws)"
  then have "v \<in> set (waitersOf (queues c k) ws) \<or> v = w \<and> k = wtClass w"
    by (auto simp: waitersOf_enqueue split: if_splits)
  then show "wtClass v = k" using assms(1) k unfolding queues_ok_def by blast
qed

lemma admit_isQueued:
  assumes "queues_ok c" and "wtClass w \<in> set classOrder"
  shows "isQueued (admitWaiter w c) v \<longleftrightarrow> isQueued c v \<or> v = w"
  unfolding isQueued_class [OF admit_queues_ok [OF assms]] isQueued_class [OF assms(1)]
  using assms(2) by (auto simp: waitersOf_enqueue)

lemma admit_waiters_ok:
  assumes "queues_ok c" and "waiters_ok c" and "wtClass w \<in> set classOrder" and "wtId w = nextId c"
  shows "waiters_ok (admitWaiter w c)"
proof -
  have small: "isQueued c v \<Longrightarrow> wtId v < nextId c" for v using assms(2) by (simp add: waiters_ok_def)
  have lists: "v \<in> set (waitersOf (queues c k) ws) \<Longrightarrow> k \<in> set classOrder \<Longrightarrow> wtId v < nextId c" for v k ws
    using small by (auto simp: isQueued_def)
  show ?thesis
    unfolding waiters_ok_def admit_isQueued [OF assms(1,3)]
    using assms small lists by (fastforce simp: waiters_ok_def waitersOf_enqueue less_Suc_eq)
qed

lemma sched_inv_admit:
  assumes "sched_inv c" and "wtClass w \<in> set classOrder" and "wtId w = nextId c"
  shows "sched_inv (admitWaiter w c)"
  using assms admit_queues_ok admit_waiters_ok unfolding sched_inv_def
  by (auto simp: counts_ok_def limits_ok_def ids_ok_def less_Suc_eq)

lemma withdraw_queues_ok:
  assumes "queues_ok c" and "isQueued c w"
  shows "queues_ok (withdrawWaiter w c)"
proof -
  have "wtClass w \<in> set classOrder" using assms isQueued_class by blast
  then have wf: "queue_wf (queues c (wtClass w))" using assms(1) by (simp add: queues_ok_def)
  show ?thesis
    unfolding queues_ok_def
  proof (intro ballI conjI allI)
    fix k assume k: "k \<in> set classOrder"
    then have "queue_wf (queues c k)" using assms(1) by (simp add: queues_ok_def)
    then show "queue_wf (queues (withdrawWaiter w c) k)"
      by (cases "k = wtClass w") (simp_all add: queue_wf_remove)
    fix ws v assume "v \<in> set (waitersOf (queues (withdrawWaiter w c) k) ws)"
    then have "v \<in> set (waitersOf (queues c k) ws)"
      using subsetD [OF set_dropFirst_subset] by (auto simp: waitersOf_remove [OF wf] split: if_splits)
    then show "wtClass v = k" using assms(1) k unfolding queues_ok_def by blast
  qed
qed

lemma withdraw_waitersOf:
  assumes "queues_ok c" and "waiters_ok c" and "isQueued c w"
  shows "waitersOf (queues (withdrawWaiter w c) k) ws
    = (if k = wtClass w \<and> ws = wtWorkspace w then filter (\<lambda>x. wtId x \<noteq> wtId w) (waitersOf (queues c k) ws)
       else waitersOf (queues c k) ws)"
proof -
  have k: "wtClass w \<in> set classOrder" using assms isQueued_class by blast
  then have wf: "queue_wf (queues c (wtClass w))" using assms(1) by (simp add: queues_ok_def)
  have "distinct (map wtId (waitersOf (queues c (wtClass w)) (wtWorkspace w)))"
    using assms(2) k by (simp add: waiters_ok_def)
  from dropFirst_filter [OF this] show ?thesis by (simp add: waitersOf_remove [OF wf])
qed

lemma withdraw_isQueued:
  assumes "queues_ok c" and "waiters_ok c" and "isQueued c w"
  shows "isQueued (withdrawWaiter w c) v \<longleftrightarrow> isQueued c v \<and> v \<noteq> w"
proof -
  have inj: "isQueued c v \<Longrightarrow> wtId v = wtId w \<Longrightarrow> v = w" for v
    using assms by (simp add: waiters_ok_def)
  show ?thesis
    unfolding isQueued_class [OF withdraw_queues_ok [OF assms(1,3)]] isQueued_class [OF assms(1)]
      withdraw_waitersOf [OF assms]
    using inj isQueued_class [OF assms(1)] by auto
qed

lemma withdraw_waiters_ok:
  assumes "queues_ok c" and "waiters_ok c" and "isQueued c w"
  shows "waiters_ok (withdrawWaiter w c)"
  unfolding waiters_ok_def withdraw_isQueued [OF assms] withdraw_waitersOf [OF assms]
  using assms(2,3) by (auto simp: waiters_ok_def distinct_map_filter)

lemma sched_inv_withdraw:
  assumes "sched_inv c" and "isQueued c w"
  shows "sched_inv (withdrawWaiter w c)"
  using assms withdraw_queues_ok withdraw_waiters_ok unfolding sched_inv_def
  by (auto simp: counts_ok_def limits_ok_def ids_ok_def)

lemma freeSlot_fields [simp]:
  "config (freeSlot l c) = config c" "closed (freeSlot l c) = closed c" "queues (freeSlot l c) = queues c"
  "classCursor (freeSlot l c) = classCursor c" "waiterState (freeSlot l c) = waiterState c"
  "resultChan (freeSlot l c) = resultChan c" "nextId (freeSlot l c) = nextId c"
  "releasedOnce (freeSlot l c) = insert (lsId l) (releasedOnce c)"
  "active (freeSlot l c) = filter (\<lambda>x. lsId x \<noteq> lsId l) (active c)"
  "running (freeSlot l c) = running c - 1"
  "runningClass (freeSlot l c) = (runningClass c)(lsClass l := runningClass c (lsClass l) - 1)"
  by (simp_all add: freeSlot_def Let_def)

lemma freeSlot_counts:
  assumes "counts_ok c" and "ids_ok c" and l: "l \<in> set (active c)"
  shows "counts_ok (freeSlot l c)"
proof -
  have dist: "distinct (map lsId (active c))" using assms(2) by (simp add: ids_ok_def)
  note rm = length_filter_remove_one [OF dist l]
  have total: "int (length (active (freeSlot l c))) = int (length (active c)) - 1"
    using rm [of "\<lambda>_. True"] by simp
  have cls: "countClass k (active (freeSlot l c)) = countClass k (active c) - (if lsClass l = k then 1 else 0)" for k
    using rm [of "\<lambda>l. lsClass l = k"] by (auto simp: countClass_def)
  have ws: "countWS k s (active (freeSlot l c))
      = countWS k s (active c) - (if lsClass l = k \<and> lsWorkspace l = s then 1 else 0)" for k s
    using rm [of "\<lambda>l. lsClass l = k \<and> lsWorkspace l = s"] by (auto simp: countWS_def)
  have pos: "countWS (lsClass l) (lsWorkspace l) (active c) \<noteq> 0"
    using l by (auto simp: countWS_def filter_empty_conv)
  have "runningWS (freeSlot l c) k s = (if countWS k s (active (freeSlot l c)) = 0 then None
      else Some (countWS k s (active (freeSlot l c))))" for k s
    using assms(1) pos unfolding ws
    by (auto simp: counts_ok_def freeSlot_def Let_def countOf_def)
  then show ?thesis
    using assms(1) total cls by (auto simp: counts_ok_def)
qed

lemma sched_inv_free:
  assumes "sched_inv c" and l: "l \<in> set (active c)"
  shows "sched_inv (freeSlot l c)"
proof -
  have ids: "ids_ok c" and cnt: "counts_ok c" using assms(1) by (simp_all add: sched_inv_def)
  have "ids_ok (freeSlot l c)"
    using ids l by (auto simp: ids_ok_def distinct_map_filter)
  moreover have "limits_ok (freeSlot l c)"
    using assms(1) by (fastforce simp: sched_inv_def limits_ok_def)
  moreover have "queues_ok (freeSlot l c)" "waiters_ok (freeSlot l c)"
    using assms(1) by (simp_all add: sched_inv_def queues_ok_def waiters_ok_def isQueued_def)
  ultimately show ?thesis
    using assms(1) freeSlot_counts [OF cnt ids l] by (simp add: sched_inv_def)
qed


section \<open>What one caller does\<close>

abbreviation leave :: "waiter \<Rightarrow> waiter list \<Rightarrow> waiter list" where
  "leave w cs \<equiv> filter (\<lambda>v. wtId v \<noteq> wtId w) cs"

definition clearChan :: "waiter \<Rightarrow> controller \<Rightarrow> controller" where
  "clearChan w c = c\<lparr>resultChan := (resultChan c)(wtId w := None)\<rparr>"

lemma clearChan_fields [simp]:
  "config (clearChan w c) = config c" "closed (clearChan w c) = closed c"
  "active (clearChan w c) = active c" "queues (clearChan w c) = queues c"
  "waiterState (clearChan w c) = waiterState c" "nextId (clearChan w c) = nextId c"
  "resultChan (clearChan w c) = (resultChan c)(wtId w := None)"
  "sched_inv (clearChan w c) = sched_inv c" "isQueued (clearChan w c) v = isQueued c v"
  "conserving (clearChan w c) = conserving c" "bounds_ok (clearChan w c) = bounds_ok c"
  "closed_ok (clearChan w c) = closed_ok c"
  by (simp_all add: clearChan_def sched_inv_parts isQueued_def conserving_def bounds_ok_def closed_ok_def)

lemma core_admit:
  assumes core: "core c cs h d" and op: "\<not> closed c"
    and w: "wtClass w \<in> set classOrder" "wtId w = nextId c"
  shows "core (admitWaiter w c) (w # cs) h d"
proof -
  have inv: "sched_inv c" and qok: "queues_ok c" using core by (simp_all add: core_def sched_inv_def)
  note iq = admit_isQueued [OF qok w(1)]
  have small: "v \<in> set cs \<Longrightarrow> wtId v < nextId c" for v using core by (simp add: core_def)
  have none: "resultChan c (nextId c) = None" using core unfolding core_def by blast
  have ok: "caller_ok (admitWaiter w c) h d v" if "v \<in> set cs" for v
  proof -
    have "wtId v \<noteq> wtId w" using small [OF that] w(2) by simp
    moreover have "caller_ok c h d v" using core that by (simp add: core_def)
    ultimately show ?thesis by (auto simp: caller_ok_def iq)
  qed
  have okw: "caller_ok (admitWaiter w c) h d w" using none w(2) by (simp add: caller_ok_def iq)
  have fresh: "wtId w \<notin> wtId ` set cs" using small w(2) by (metis imageE less_irrefl)
  have d0: "d = []" using core op by (simp add: core_def)
  show ?thesis
    unfolding core_def
  proof (intro conjI)
    show "\<forall>v \<in> set (w # cs). wtId v < nextId (admitWaiter w c) \<and> caller_ok (admitWaiter w c) h d v"
      using ok okw small w(2) by (auto simp: less_Suc_eq)
    show "sched_inv (admitWaiter w c)" by (rule sched_inv_admit [OF inv w])
    show "distinct (map wtId (w # cs))" using core fresh by (simp add: core_def)
    show "\<forall>u \<in> set (w # cs). \<forall>v \<in> set (w # cs). \<forall>l. resultChan (admitWaiter w c) (wtId u) = Some (GotLease l)
        \<and> resultChan (admitWaiter w c) (wtId v) = Some (GotLease l) \<longrightarrow> u = v"
      using core none w(2) by (auto simp: core_def)
  qed (use core op d0 in \<open>auto simp: core_def iq closed_ok_def less_Suc_eq\<close>)
qed

lemma core_withdraw:
  assumes core: "core c cs h d" and w: "w \<in> set cs" and q: "isQueued c w"
  shows "core (withdrawWaiter w c) (leave w cs) h d"
proof -
  have inv: "sched_inv c" "queues_ok c" "waiters_ok c" using core by (simp_all add: core_def sched_inv_def)
  note iq = withdraw_isQueued [OF inv(2,3) q]
  have uniq: "v \<in> set cs \<Longrightarrow> wtId v = wtId w \<Longrightarrow> v = w" for v
    using core w by (auto simp: core_def distinct_map inj_on_def)
  have none: "resultChan c (wtId w) = None"
  proof -
    have "caller_ok c h d w" "waiterState c (wtId w) = Some Waiting"
      using core w inv(3) q by (auto simp: core_def waiters_ok_def)
    then show ?thesis by (auto simp: caller_ok_def)
  qed
  have ok: "caller_ok (withdrawWaiter w c) h d v" if "v \<in> set (leave w cs)" for v
  proof -
    have "caller_ok c h d v" "v \<noteq> w" "wtId v \<noteq> wtId w" using core that by (auto simp: core_def)
    then show ?thesis by (auto simp: caller_ok_def iq)
  qed
  have act: "l \<in> set h \<or> (\<exists>v \<in> set (leave w cs). resultChan c (wtId v) = Some (GotLease l))"
    if "l \<in> set (active c)" for l
  proof -
    have "l \<in> set h \<or> (\<exists>v \<in> set cs. resultChan c (wtId v) = Some (GotLease l))"
      using core that unfolding core_def by blast
    then show ?thesis using none by force
  qed
  show ?thesis
    unfolding core_def
  proof (intro conjI)
    show "\<forall>v. isQueued (withdrawWaiter w c) v \<longrightarrow> v \<in> set (leave w cs)"
      using core uniq by (auto simp: iq core_def)
    show "\<forall>v \<in> set (leave w cs). wtId v < nextId (withdrawWaiter w c) \<and> caller_ok (withdrawWaiter w c) h d v"
      using core ok by (simp add: core_def)
    show "\<forall>l \<in> set (active (withdrawWaiter w c)). l \<in> set h
        \<or> (\<exists>v \<in> set (leave w cs). resultChan (withdrawWaiter w c) (wtId v) = Some (GotLease l))"
      using act by simp
    show "sched_inv (withdrawWaiter w c)" by (rule sched_inv_withdraw [OF inv(1) q])
  qed (use core in \<open>auto simp: core_def iq closed_ok_def distinct_map_filter\<close>)
qed

lemma core_take_lease:
  assumes core: "core c cs h d" and w: "w \<in> set cs" and r: "resultChan c (wtId w) = Some (GotLease l)"
  shows "core (clearChan w c) (leave w cs) (l # h) d" and "lsRequest l = wtRequest w"
proof -
  have inv: "sched_inv c" using core by (simp add: core_def)
  have cok: "v \<in> set cs \<Longrightarrow> caller_ok c h d v" for v using core by (simp add: core_def)
  note lw = caller_ok_lease [OF cok [OF w] r]
  show "lsRequest l = wtRequest w" by (rule lw(3))
  have nq: "\<not> isQueued c w" using granted_not_queued inv lw(1) by auto
  have ids: "lsId l \<notin> lsId ` set h"
  proof
    assume "lsId l \<in> lsId ` set h"
    then obtain m where m: "m \<in> set h" "lsId m = lsId l" by auto
    then have "m \<in> set (active c)" using core by (auto simp: core_def)
    then have "m = l" using m(2) lw(2) inv by (auto simp: sched_inv_def ids_ok_def distinct_map inj_on_def)
    with m lw(4) show False by simp
  qed
  have other: "resultChan c (wtId v) \<noteq> Some (GotLease l)" if "v \<in> set (leave w cs)" for v
    using core w r that unfolding core_def by auto
  have ok: "caller_ok (clearChan w c) (l # h) d v" if "v \<in> set (leave w cs)" for v
    using cok [of v] that other [OF that] by (auto simp: caller_ok_def)
  show "core (clearChan w c) (leave w cs) (l # h) d"
    unfolding core_def
  proof (intro conjI)
    show "\<forall>v \<in> set (leave w cs). wtId v < nextId (clearChan w c) \<and> caller_ok (clearChan w c) (l # h) d v"
      using core ok by (simp add: core_def)
    show "\<forall>v. isQueued (clearChan w c) v \<longrightarrow> v \<in> set (leave w cs)"
      using core nq w by (auto simp: core_def distinct_map inj_on_def)
    show "\<forall>m \<in> set (active (clearChan w c)). m \<in> set (l # h)
        \<or> (\<exists>v \<in> set (leave w cs). resultChan (clearChan w c) (wtId v) = Some (GotLease m))"
      using core r unfolding core_def by (fastforce simp: clearChan_def)
  qed (use core lw ids in \<open>auto simp: core_def distinct_map_filter\<close>)
qed

lemma core_take_error:
  assumes core: "core c cs h d" and w: "w \<in> set cs" and r: "waiterState c (wtId w) = Some Rejected"
  shows "core (clearChan w c) (leave w cs) h d"
proof -
  have nq: "\<not> isQueued c w" using granted_not_queued core r by (auto simp: core_def)
  have nol: "resultChan c (wtId w) \<noteq> Some (GotLease l)" for l
    using caller_ok_lease(1) [of c h d w l] core w r by (auto simp: core_def)
  show ?thesis
    unfolding core_def
  proof (intro conjI)
    show "\<forall>v \<in> set (leave w cs). wtId v < nextId (clearChan w c) \<and> caller_ok (clearChan w c) h d v"
      using core by (auto simp: core_def caller_ok_def)
    show "\<forall>v. isQueued (clearChan w c) v \<longrightarrow> v \<in> set (leave w cs)"
      using core nq w by (auto simp: core_def distinct_map inj_on_def)
    show "\<forall>m \<in> set (active (clearChan w c)). m \<in> set h
        \<or> (\<exists>v \<in> set (leave w cs). resultChan (clearChan w c) (wtId v) = Some (GotLease m))"
      using core nol unfolding core_def by (fastforce simp: clearChan_def)
  qed (use core in \<open>auto simp: core_def distinct_map_filter\<close>)
qed

lemma core_free:
  assumes core: "core c cs h d" and l: "l \<in> set h"
  shows "core (freeSlot l c) cs (filter (\<lambda>x. lsId x \<noteq> lsId l) h) d"
proof -
  have inv: "sched_inv c" and la: "l \<in> set (active c)" using core l by (auto simp: core_def)
  have uniq: "m \<in> set (active c) \<Longrightarrow> lsId m = lsId l \<Longrightarrow> m = l" for m
    using inv la by (auto simp: sched_inv_def ids_ok_def distinct_map inj_on_def)
  have iq: "isQueued (freeSlot l c) v = isQueued c v" for v by (rule isQueued_cong) simp
  have ok: "caller_ok (freeSlot l c) (filter (\<lambda>x. lsId x \<noteq> lsId l) h) d v" if "v \<in> set cs" for v
  proof -
    have "caller_ok c h d v" using core that by (simp add: core_def)
    then show ?thesis using uniq l by (fastforce simp: caller_ok_def iq)
  qed
  show ?thesis
    unfolding core_def
    using core ok sched_inv_free [OF inv la] by (auto simp: core_def iq closed_ok_def distinct_map_filter)
qed

end
