(* ===== verification/Workload_Runs.thy ===== *)
theory Workload_Runs
  imports Workload_System
begin

text \<open>
  Whole operations of the controller and their interleavings. \<open>good\<close> is the invariant between
  critical sections: \<open>core\<close>, no idle slot while an eligible request waits, and the queue limits.
  Every operation keeps it and never panics; \<open>sys_step\<close> interleaves the operations of any number
  of callers, and \<open>reachable\<close> are the systems that arise from \<open>newController\<close>.
\<close>

section \<open>Queue limits\<close>

lemma bounds_le:
  assumes "bounds_ok c" and "config b = config c"
    and "\<And>k. k \<in> set classOrder \<Longrightarrow> qQueued (queues b k) \<le> qQueued (queues c k)"
    and "\<And>k ws. length (waitersOf (queues b k) ws) \<le> length (waitersOf (queues c k) ws)"
  shows "bounds_ok b"
proof -
  have "(\<Sum>k\<leftarrow>classOrder. qQueued (queues b k)) \<le> (\<Sum>k\<leftarrow>classOrder. qQueued (queues c k))"
    by (rule sum_list_mono) (rule assms(3))
  moreover have "int (length (waitersOf (queues b k) ws)) \<le> int (length (waitersOf (queues c k) ws))" for k ws
    using assms(4) by simp
  ultimately show ?thesis
    using assms(1-3) unfolding bounds_ok_def by (metis (no_types, lifting) order_trans)
qed

lemma bounds_shrunk: "bounds_ok c \<Longrightarrow> shrunk c c' \<Longrightarrow> bounds_ok c'"
  by (erule bounds_le) (auto simp: shrunk_def)

lemma withdraw_length:
  assumes inv: "sched_inv c" and q: "isQueued c w"
  shows "qQueued (queues (withdrawWaiter w c) (wtClass w)) = qQueued (queues c (wtClass w)) - 1"
    and "Suc (length (waitersOf (queues (withdrawWaiter w c) (wtClass w)) (wtWorkspace w)))
         = length (waitersOf (queues c (wtClass w)) (wtWorkspace w))"
    and "length (waitersOf (queues (withdrawWaiter w c) k) ws) \<le> length (waitersOf (queues c k) ws)"
proof -
  have ok: "queues_ok c" "waiters_ok c" using inv by (simp_all add: sched_inv_def)
  have m: "wtClass w \<in> set classOrder" "w \<in> set (waitersOf (queues c (wtClass w)) (wtWorkspace w))"
    using q isQueued_class [OF ok(1)] by auto
  have wf: "queue_wf (queues c (wtClass w))" using ok(1) m(1) by (simp add: queues_ok_def)
  note rp = remove_present [OF wf m(2) refl]
  show "qQueued (queues (withdrawWaiter w c) (wtClass w)) = qQueued (queues c (wtClass w)) - 1"
    using rp(3) by simp
  show "Suc (length (waitersOf (queues (withdrawWaiter w c) (wtClass w)) (wtWorkspace w)))
         = length (waitersOf (queues c (wtClass w)) (wtWorkspace w))"
    using length_dropFirst [of "waitersOf (queues c (wtClass w)) (wtWorkspace w)" "\<lambda>x. wtId x = wtId w"] m(2)
    by (simp add: waitersOf_remove [OF wf]) auto
  show "length (waitersOf (queues (withdrawWaiter w c) k) ws) \<le> length (waitersOf (queues c k) ws)"
    unfolding withdraw_waitersOf [OF ok q] by auto
qed

lemma bounds_withdraw:
  assumes "sched_inv c" and "isQueued c w" and "bounds_ok c"
  shows "bounds_ok (withdrawWaiter w c)"
proof (rule bounds_le [OF assms(3)])
  fix k show "qQueued (queues (withdrawWaiter w c) k) \<le> qQueued (queues c k)"
    using withdraw_length(1) [OF assms(1,2)] by (cases "k = wtClass w") simp_all
qed (use withdraw_length(3) [OF assms(1,2)] in auto)

lemma conserving_withdraw:
  assumes inv: "sched_inv c" and q: "isQueued c w" and cv: "conserving c"
  shows "conserving (withdrawWaiter w c)"
proof -
  have ok: "queues_ok c" using inv by (simp add: sched_inv_def)
  have m: "wtClass w \<in> set classOrder" "w \<in> set (waitersOf (queues c (wtClass w)) (wtWorkspace w))"
    using q isQueued_class [OF ok] by auto
  have wf: "queue_wf (queues c (wtClass w))" using ok m(1) unfolding queues_ok_def by blast
  have "wtWorkspace w \<in> set (qOrder (queues c (wtClass w)))"
    unfolding queue_wf_waiters_nonempty [OF wf] using m(2) by (metis empty_iff list.set(1))
  then have "qQueued (queues c (wtClass w)) \<noteq> 0"
    unfolding queue_wf_queued_pos [OF wf] by (metis empty_iff list.set(1))
  with cv m(1) show ?thesis unfolding conserving_def by auto
qed

text \<open>Joining makes one queue one longer; only a grant of the newcomer or the limit check can end that.\<close>

lemma bounds_admit_granted:
  assumes b: "bounds_ok c" and sh: "shrunk (admitWaiter w c) c'" and q: "isQueued (admitWaiter w c) w"
    and nq: "\<not> isQueued c' w"
  shows "bounds_ok c'"
proof (rule bounds_le [OF b])
  have tk: "qQueued (queues c' (wtClass w)) < qQueued (queues c (wtClass w)) + 1"
    "length (waitersOf (queues c' (wtClass w)) (wtWorkspace w))
       < Suc (length (waitersOf (queues c (wtClass w)) (wtWorkspace w)))"
    using sh q nq unfolding shrunk_def by (fastforce simp: enqueue_fields waitersOf_enqueue)+
  show "config c' = config c" using sh by (simp add: shrunk_def)
  show "qQueued (queues c' k) \<le> qQueued (queues c k)" for k
  proof (cases "k = wtClass w")
    case False
    have "qQueued (queues c' k) \<le> qQueued (queues (admitWaiter w c) k)" using sh unfolding shrunk_def by blast
    with False show ?thesis by simp
  qed (use tk(1) in simp)
  show "length (waitersOf (queues c' k) ws) \<le> length (waitersOf (queues c k) ws)" for k ws
  proof (cases "k = wtClass w \<and> ws = wtWorkspace w")
    case False
    have "length (waitersOf (queues c' k) ws) \<le> length (waitersOf (queues (admitWaiter w c) k) ws)"
      using sh unfolding shrunk_def by blast
    with False show ?thesis by (auto simp: waitersOf_enqueue split: if_splits)
  qed (use tk(2) in simp)
qed

lemma bounds_admit_refused:
  assumes b: "bounds_ok c" and sh: "shrunk (admitWaiter w c) c'" and inv: "sched_inv c'" and q: "isQueued c' w"
  shows "bounds_ok (withdrawWaiter w c')"
proof (rule bounds_le [OF b])
  note wl = withdraw_length [OF inv q]
  show "config (withdrawWaiter w c') = config c" using sh by (simp add: shrunk_def)
  show "qQueued (queues (withdrawWaiter w c') k) \<le> qQueued (queues c k)" for k
  proof -
    have "qQueued (queues c' k) \<le> qQueued (queues (admitWaiter w c) k)" using sh unfolding shrunk_def by blast
    then show ?thesis using wl(1) by (cases "k = wtClass w") (simp_all add: enqueue_fields)
  qed
  show "length (waitersOf (queues (withdrawWaiter w c') k) ws) \<le> length (waitersOf (queues c k) ws)" for k ws
  proof -
    have le: "length (waitersOf (queues c' k) ws) \<le> length (waitersOf (queues (admitWaiter w c) k) ws)"
      using sh unfolding shrunk_def by blast
    show ?thesis
    proof (cases "k = wtClass w \<and> ws = wtWorkspace w")
      case True
      then show ?thesis using wl(2) le by (simp add: waitersOf_enqueue)
    next
      case False
      have "length (waitersOf (queues (withdrawWaiter w c') k) ws) \<le> length (waitersOf (queues c' k) ws)"
        by (rule wl(3))
      also have "\<dots> \<le> length (waitersOf (queues c k) ws)"
        using le False by (auto simp: waitersOf_enqueue split: if_splits)
      finally show ?thesis .
    qed
  qed
qed

lemma bounds_admit_within:
  assumes b: "bounds_ok c" and sh: "shrunk (admitWaiter w c) c'" and ok: "queueLimitReasonLocked (wtRequest w) c' = None"
  shows "bounds_ok c'"
proof -
  have cfg: "config c' = config c" using sh by (simp add: shrunk_def)
  have q: "qQueued (queues c' k) \<le> qQueued (queues c k)" if "k \<noteq> wtClass w" for k
    using sh that unfolding shrunk_def by (metis admitWaiter_fields(7) fun_upd_other)
  have l: "length (waitersOf (queues c' k) ws) \<le> length (waitersOf (queues c k) ws)"
    if "k \<noteq> wtClass w \<or> ws \<noteq> wtWorkspace w" for k ws
  proof -
    have "length (waitersOf (queues c' k) ws) \<le> length (waitersOf (queues (admitWaiter w c) k) ws)"
      using sh unfolding shrunk_def by blast
    with that show ?thesis by (auto simp: waitersOf_enqueue split: if_splits)
  qed
  show ?thesis
    unfolding bounds_ok_def
  proof (intro conjI ballI allI)
    show "(\<Sum>k\<leftarrow>classOrder. qQueued (queues c' k)) \<le> NodeMaximumQueued (config c')"
      using ok by (auto simp: queueLimitReasonLocked_def Let_def split: if_splits)
  next
    fix k assume k: "k \<in> set classOrder"
    show "qQueued (queues c' k) \<le> MaximumQueued (policyOf (config c') k)"
    proof (cases "k = wtClass w")
      case True
      then show ?thesis using ok by (auto simp: queueLimitReasonLocked_def Let_def split: if_splits)
    next
      case False
      with b k q [OF False] cfg show ?thesis unfolding bounds_ok_def by (metis order_trans)
    qed
    fix ws
    show "int (length (waitersOf (queues c' k) ws)) \<le> MaximumQueuedPerWorkspace (policyOf (config c') k)"
    proof (cases "k = wtClass w \<and> ws = wtWorkspace w")
      case True
      then show ?thesis using ok by (auto simp: queueLimitReasonLocked_def Let_def split: if_splits)
    next
      case False
      then have "int (length (waitersOf (queues c' k) ws)) \<le> int (length (waitersOf (queues c k) ws))"
        using l by auto
      with b k cfg show ?thesis unfolding bounds_ok_def by (metis order_trans)
    qed
  qed
qed


section \<open>Operations keep the invariant\<close>

definition good :: "controller \<Rightarrow> waiter list \<Rightarrow> lease list \<Rightarrow> waiter list \<Rightarrow> bool" where
  "good c cs h d \<longleftrightarrow> core c cs h d \<and> conserving c \<and> bounds_ok c"

lemma good_observe [simp]: "good (observe e c) cs h d = good c cs h d"
  by (simp add: good_def)

lemma good_queued_class: "core c cs h d \<Longrightarrow> isQueued c w \<Longrightarrow> wtClass w \<in> set classOrder"
  using isQueued_class by (auto simp: core_def sched_inv_def)

lemma waiting_is_queued:
  assumes "core c cs h d" and "w \<in> set cs"
  shows "waiterState c (wtId w) = Some Waiting \<longleftrightarrow> isQueued c w"
proof
  assume "waiterState c (wtId w) = Some Waiting"
  moreover have "caller_ok c h d w" using assms by (simp add: core_def)
  ultimately show "isQueued c w" by (auto simp: caller_ok_def)
qed (use assms in \<open>auto simp: core_def sched_inv_def waiters_ok_def\<close>)

definition entered ::
  "controller \<Rightarrow> enterOutcome \<Rightarrow> controller \<Rightarrow> waiter list \<Rightarrow> lease list \<Rightarrow> waiter list \<Rightarrow> bool" where
  "entered c out c' cs h d \<longleftrightarrow>
     (case out of
        Refused r \<Rightarrow> good c' cs h d
      | NestedLease ctx \<Rightarrow> c' = c
      | Admitted l \<Rightarrow> good c' cs (l # h) d
      | MustWait w \<Rightarrow> good c' (w # cs) h d)"

lemma enterQueue_entered:
  assumes good: "good c cs h d" and op: "\<not> closed c"
    and w: "wtClass w \<in> set classOrder" "wtId w = nextId c"
  shows "\<exists>out c'. enterQueue now w c = Some (out, c') \<and> entered c out c' cs h d"
proof -
  have core: "core c cs h d" and b: "bounds_ok c" using good by (simp_all add: good_def)
  have qok: "queues_ok c" using core by (simp add: core_def sched_inv_def)
  have core1: "core (admitWaiter w c) (w # cs) h d" by (rule core_admit [OF core op w])
  have q1: "isQueued (admitWaiter w c) w" using admit_isQueued [OF qok w(1)] by simp
  obtain c1 where s: "scheduleLocked now (admitWaiter w c) = Some c1" and core2: "core c1 (w # cs) h d"
    and sh: "shrunk (admitWaiter w c) c1" and dl: "delivered (admitWaiter w c) c1" and cv: "conserving c1"
    by (rule schedule_core [OF core1])
  have inv1: "sched_inv c1" using core2 by (simp add: core_def)
  have fresh: "leave w (w # cs) = cs"
  proof -
    have "wtId v < nextId c" if "v \<in> set cs" for v using core that by (simp add: core_def)
    then show ?thesis using w(2) by (auto simp: filter_id_conv dest: less_imp_neq)
  qed
  have iff: "waiterState c1 (wtId w) = Some Waiting \<longleftrightarrow> isQueued c1 w"
    by (rule waiting_is_queued [OF core2]) simp
  show ?thesis
  proof (cases "isQueued c1 w")
    case q: True
    show ?thesis
    proof (cases "queueLimitReasonLocked (wtRequest w) c1")
      case None
      have "good c1 (w # cs) h d" using core2 cv bounds_admit_within [OF b sh None] by (simp add: good_def)
      with s iff q None show ?thesis by (simp add: enterQueue_def entered_def Let_def)
    next
      case (Some reason)
      have "core (withdrawWaiter w c1) cs h d"
        using core_withdraw [OF core2 _ q] fresh by simp
      then have "good (withdrawWaiter w c1) cs h d"
        using conserving_withdraw [OF inv1 q cv] bounds_admit_refused [OF b sh inv1 q] by (simp add: good_def)
      with s iff q Some show ?thesis by (simp add: enterQueue_def entered_def Let_def)
    qed
  next
    case nq: False
    then have "taken (admitWaiter w c) c1 w" using q1 by (simp add: taken_def)
    then obtain l where l: "resultChan c1 (wtId w) = Some (GotLease l)" using dl unfolding delivered_def by blast
    have "core (clearChan w c1) cs (l # h) d"
      using core_take_lease(1) [OF core2 _ l] fresh by simp
    then have "good (clearChan w c1) cs (l # h) d"
      using cv bounds_admit_granted [OF b sh q1 nq] by (simp add: good_def)
    moreover have "observe e c1\<lparr>resultChan := (resultChan (observe e c1))(wtId w := None)\<rparr>
        = observe e (clearChan w c1)" for e
      by (simp add: observe_def clearChan_def)
    ultimately show ?thesis using s iff nq l by (simp add: enterQueue_def entered_def Let_def)
  qed
qed

lemma normalize_class: "normalize rq = Inr r \<Longrightarrow> rqClass r \<in> set classOrder \<and> rqClass r = rqClass rq"
  by (auto simp: normalize_def split: if_splits)

lemma acquireEnter_entered:
  assumes good: "good c cs h d"
  shows "\<exists>out c'. acquireEnter now ctx rq c = Some (out, c') \<and> entered c out c' cs h d"
proof (cases "normalize rq")
  case (Inl rej)
  then show ?thesis using good by (simp add: acquireEnter_def entered_def)
next
  case (Inr r)
  show ?thesis
  proof (cases "ctxAdmission ctx = None \<and> \<not> closed c")
    case True
    let ?w = "\<lparr>wtId = nextId c, wtRequest = r, wtParent = ctx, wtEnqueued = now\<rparr>"
    have "\<exists>out c'. enterQueue now ?w c = Some (out, c') \<and> entered c out c' cs h d"
      by (rule enterQueue_entered [OF good]) (use True conjunct1 [OF normalize_class [OF Inr]] in simp_all)
    with True Inr show ?thesis by (simp add: acquireEnter_def)
  next
    case False
    then show ?thesis using good Inr
      by (auto simp: acquireEnter_def entered_def split: option.splits)
  qed
qed

lemma releaseLease_good:
  assumes good: "good c cs h d" and l: "l \<in> set h"
  shows "\<exists>c'. releaseLease now e l c = Some c' \<and> good c' cs (filter (\<lambda>x. lsId x \<noteq> lsId l) h) d"
proof -
  let ?h = "filter (\<lambda>x. lsId x \<noteq> lsId l) h"
  have core: "core c cs h d" and b: "bounds_ok c" using good by (simp_all add: good_def)
  have core1: "core (freeSlot l c) cs ?h d" by (rule core_free [OF core l])
  have b1: "bounds_ok (freeSlot l c)" using b by (simp add: bounds_ok_def)
  obtain c1 where "scheduleLocked now (freeSlot l c) = Some c1" "core c1 cs ?h d"
    "shrunk (freeSlot l c) c1" "conserving c1"
    by (rule schedule_core [OF core1])
  moreover from this have "bounds_ok c1" using bounds_shrunk [OF b1] by simp
  moreover have "lsId l \<notin> releasedOnce c" using core l by (auto simp: core_def sched_inv_def ids_ok_def)
  ultimately show ?thesis by (simp add: releaseLease_def good_def)
qed

lemma clearChan_idle: "resultChan c (wtId w) = None \<Longrightarrow> clearChan w c = c"
  by (simp add: clearChan_def fun_upd_idem)

lemma good_take_lease:
  assumes "good c cs h d" and "w \<in> set cs" and "resultChan c (wtId w) = Some (GotLease l)"
  shows "good (clearChan w c) (leave w cs) (l # h) d"
  using assms core_take_lease(1) by (simp add: good_def)

lemma good_take_error:
  assumes "good c cs h d" and "w \<in> set cs" and "waiterState c (wtId w) = Some Rejected"
  shows "good (clearChan w c) (leave w cs) h d"
  using assms core_take_error by (simp add: good_def)

lemma caller_cases [consumes 2, case_names queued granted rejected]:
  assumes "core c cs h d" and "w \<in> set cs"
  obtains "isQueued c w" "waiterState c (wtId w) = Some Waiting" "resultChan c (wtId w) = None"
  | l where "waiterState c (wtId w) = Some Granted" "resultChan c (wtId w) = Some (GotLease l)"
      "lsRequest l = wtRequest w" "l \<in> set (active c)"
  | "waiterState c (wtId w) = Some Rejected" "closed c"
      "\<forall>r. resultChan c (wtId w) = Some r \<longrightarrow> (\<exists>e. r = GotError e \<and> rjReason e = ControllerShutdown)"
proof -
  have "caller_ok c h d w" using assms by (simp add: core_def)
  moreover have "isQueued c w \<Longrightarrow> waiterState c (wtId w) = Some Waiting"
    using waiting_is_queued [OF assms] by simp
  ultimately show thesis using that unfolding caller_ok_def by auto
qed

lemma cancelWaiter_good:
  assumes good: "good c cs h d" and w: "w \<in> set cs"
  shows "\<exists>r c'. cancelWaiter now w c = Some (r, c')
    \<and> good c' (leave w cs) (case r of None \<Rightarrow> h | Some l \<Rightarrow> l # h) d"
proof -
  have core: "core c cs h d" and b: "bounds_ok c" using good by (simp_all add: good_def)
  from core w show ?thesis
  proof (cases rule: caller_cases)
    case queued
    have inv: "sched_inv c" using core by (simp add: core_def)
    have "core (withdrawWaiter w c) (leave w cs) h d" by (rule core_withdraw [OF core w queued(1)])
    then obtain c1 where s: "scheduleLocked now (withdrawWaiter w c) = Some c1" "core c1 (leave w cs) h d"
      "shrunk (withdrawWaiter w c) c1" "conserving c1" by (rule schedule_core)
    then have "good c1 (leave w cs) h d"
      using bounds_shrunk [OF bounds_withdraw [OF inv queued(1) b]] by (simp add: good_def)
    with queued s(1) show ?thesis by (simp add: cancelWaiter_def)
  next
    case (granted l)
    then show ?thesis using good_take_lease [OF good w granted(2)]
      by (simp add: cancelWaiter_def clearChan_def)
  next
    case rejected
    note g = good_take_error [OF good w rejected(1)]
    show ?thesis
    proof (cases "resultChan c (wtId w)")
      case None
      then show ?thesis using rejected g clearChan_idle [OF None] by (simp add: cancelWaiter_def)
    next
      case (Some r)
      then obtain e where "r = GotError e" using rejected(3) by blast
      with Some rejected g show ?thesis by (simp add: cancelWaiter_def clearChan_def)
    qed
  qed
qed

text \<open>What the caller leaves with: a lease joins the leases held, anything else does not.\<close>

definition heldAfter :: "waitOutcome \<Rightarrow> lease list \<Rightarrow> lease list" where
  "heldAfter out h = (case out of WaitLease l \<Rightarrow> l # h | _ \<Rightarrow> h)"

lemma heldAfter_simps [simp]:
  "heldAfter (WaitLease l) h = l # h" "heldAfter (WaitRejected e) h = h" "heldAfter (WaitCtxErr x) h = h"
  by (simp_all add: heldAfter_def)

lemma release_taken:
  assumes "good c cs (l # h) d"
  shows "\<exists>c'. releaseLease now e l c = Some c' \<and> good c' cs h d"
proof -
  have dist: "distinct (map lsId (l # h))" using assms by (simp add: good_def core_def)
  have "filter (\<lambda>x. lsId x \<noteq> lsId l) (l # h) = h"
    using dist by (simp add: filter_id_conv) (metis imageI)
  with releaseLease_good [OF assms, of l now e] show ?thesis by simp
qed

lemma acquireOnResult_good:
  assumes good: "good c cs h d" and w: "w \<in> set cs" and r: "resultChan c (wtId w) = Some r"
  shows "\<exists>out c'. acquireOnResult now e r w c = Some (out, c') \<and> good c' (leave w cs) (heldAfter out h) d"
proof (cases r)
  case (GotLease l)
  have g: "good (clearChan w c) (leave w cs) (l # h) d" using good_take_lease good w r GotLease by simp
  from release_taken [OF g] g GotLease show ?thesis
    by (cases e) (auto simp: acquireOnResult_def clearChan_def)
next
  case (GotError x)
  have "core c cs h d" using good by (simp add: good_def)
  from this w have "waiterState c (wtId w) = Some Rejected"
    by (cases rule: caller_cases) (use r GotError in auto)
  with good_take_error good w GotError show ?thesis by (simp add: acquireOnResult_def clearChan_def)
qed

lemma acquireOnDone_good:
  assumes good: "good c cs h d" and w: "w \<in> set cs"
  shows "\<exists>out c'. acquireOnDone now e w c = Some (out, c') \<and> good c' (leave w cs) (heldAfter out h) d"
proof -
  obtain r c1 where "cancelWaiter now w c = Some (r, c1)"
    and "good c1 (leave w cs) (case r of None \<Rightarrow> h | Some l \<Rightarrow> l # h) d"
    using cancelWaiter_good [OF good w] by blast
  with release_taken [of c1 "leave w cs"] show ?thesis
    by (cases r) (fastforce simp: acquireOnDone_def)+
qed

lemma acquireOnTimeout_good:
  assumes good: "good c cs h d" and w: "w \<in> set cs"
  shows "\<exists>out c'. acquireOnTimeout now e w c = Some (out, c') \<and> good c' (leave w cs) (heldAfter out h) d"
proof -
  obtain r c1 where "cancelWaiter now w c = Some (r, c1)"
    and "good c1 (leave w cs) (case r of None \<Rightarrow> h | Some l \<Rightarrow> l # h) d"
    using cancelWaiter_good [OF good w] by blast
  with release_taken [of c1 "leave w cs"] show ?thesis
    by (cases r; cases e) (fastforce simp: acquireOnTimeout_def)+
qed

section \<open>Close\<close>

lemma set_allQueued:
  assumes "queues_ok c"
  shows "w \<in> set (allQueued c) \<longleftrightarrow> isQueued c w"
proof -
  have mem: "ws \<in> set (qOrder (queues c k))" if "k \<in> set classOrder" "w \<in> set (waitersOf (queues c k) ws)" for k ws
  proof -
    have wf: "queue_wf (queues c k)" using assms that(1) unfolding queues_ok_def by blast
    show ?thesis unfolding queue_wf_waiters_nonempty [OF wf] using that(2) by (metis empty_iff list.set(1))
  qed
  show ?thesis
    unfolding allQueued_def queuedWaiters_def isQueued_def using mem by auto
qed

lemma distinct_queuedWaiters:
  assumes "queue_wf q" and "\<And>ws. distinct (map wtId (waitersOf q ws))"
  shows "distinct (queuedWaiters q)"
  unfolding queuedWaiters_def
proof (rule distinct_concat_map)
  show "distinct (qOrder q)" using assms(1) by (simp add: queue_wf_def)
  show "distinct (waitersOf q ws)" for ws using assms(2) distinct_map by blast
  fix u v w assume "w \<in> set (waitersOf q u)" "w \<in> set (waitersOf q v)"
  then have "wtWorkspace w = u" "wtWorkspace w = v" using assms(1) unfolding queue_wf_def by blast+
  then show "u = v" by simp
qed

lemma distinct_allQueued:
  assumes "sched_inv c"
  shows "distinct (allQueued c)"
  unfolding allQueued_def
proof (rule distinct_concat_map)
  show "distinct classOrder" by (simp add: classOrder_def)
  fix k assume k: "k \<in> set classOrder"
  show "distinct (queuedWaiters (queues c k))"
    by (rule distinct_queuedWaiters)
      (use assms k in \<open>simp_all add: sched_inv_def queues_ok_def waiters_ok_def\<close>)
next
  have cls: "wtClass w = k" if "k \<in> set classOrder" "w \<in> set (queuedWaiters (queues c k))" for k w
  proof -
    from that(2) obtain ws where "w \<in> set (waitersOf (queues c k) ws)"
      unfolding queuedWaiters_def by auto
    then show ?thesis using that(1) assms unfolding sched_inv_def queues_ok_def by blast
  qed
  fix j k w assume "j \<in> set classOrder" "k \<in> set classOrder"
    "w \<in> set (queuedWaiters (queues c j))" "w \<in> set (queuedWaiters (queues c k))"
  then show "j = k" using cls by blast
qed

lemma closeLocked_fields:
  assumes "closeLocked c = (Some (ws, ls, st), c1)"
  shows "\<not> closed c" and "ws = allQueued c" and "ls = active c" and "closed c1"
    and "waiterState c1 = (\<lambda>i. if i \<in> wtId ` set ws then Some Rejected else waiterState c i)"
    and "queues c1 = (\<lambda>k. if k \<in> set classOrder then emptyQueue else queues c k)"
    and "config c1 = config c" and "running c1 = running c" and "runningClass c1 = runningClass c"
    and "runningWS c1 = runningWS c" and "active c1 = active c" and "classCursor c1 = classCursor c"
    and "releasedOnce c1 = releasedOnce c" and "nextId c1 = nextId c" and "resultChan c1 = resultChan c"
  using assms by (auto simp: closeLocked_def Let_def split: if_splits)

lemma closeCancel_fields [simp]:
  "config (closeCancel ls c) = config c" "closed (closeCancel ls c) = closed c"
  "running (closeCancel ls c) = running c" "active (closeCancel ls c) = active c"
  "queues (closeCancel ls c) = queues c" "waiterState (closeCancel ls c) = waiterState c"
  "resultChan (closeCancel ls c) = resultChan c" "nextId (closeCancel ls c) = nextId c"
  "isQueued (closeCancel ls c) w = isQueued c w" "core (closeCancel ls c) cs h d = core c cs h d"
  "conserving (closeCancel ls c) = conserving c" "bounds_ok (closeCancel ls c) = bounds_ok c"
  by (simp_all add: closeCancel_def isQueued_def sched_inv_parts conserving_def bounds_ok_def
      core_def caller_ok_def closed_ok_def)

lemma closeLocked_sched_inv:
  assumes inv: "sched_inv c" and cl: "closeLocked c = (Some (ws, ls, st), c1)"
  shows "sched_inv c1" and "\<not> isQueued c1 w"
proof -
  note f = closeLocked_fields [OF cl]
  show nq: "\<not> isQueued c1 w" for w using f(6) by (simp add: isQueued_def)
  have ok: "queues_ok c" using inv by (simp add: sched_inv_def)
  have st: "waiterState c1 i \<noteq> None \<Longrightarrow> i < nextId c1" for i
  proof -
    assume "waiterState c1 i \<noteq> None"
    then consider "i \<in> wtId ` set ws" | "waiterState c i \<noteq> None" using f(5) by (metis option.distinct(1))
    then show "i < nextId c1"
    proof cases
      case 1
      then show ?thesis using f(2,14) set_allQueued [OF ok] inv by (auto simp: sched_inv_def waiters_ok_def)
    qed (use inv f(14) in \<open>auto simp: sched_inv_def waiters_ok_def\<close>)
  qed
  have "waiters_ok c1" unfolding waiters_ok_def using nq st f(6) by simp
  moreover have "queues_ok c1" using f(6) by (simp add: queues_ok_def)
  moreover have "limits_ok c1" "counts_ok c1" "ids_ok c1" "classCursor c1 < length classOrder"
    using inv unfolding sched_inv_def limits_ok_def counts_ok_def ids_ok_def f(7-14) by blast+
  ultimately show "sched_inv c1" by (simp add: sched_inv_def)
qed

lemma close_caller_ok:
  assumes core: "core c cs h d" and cl: "closeLocked c = (Some (ws, ls, st), c1)" and w: "w \<in> set cs"
  shows "caller_ok c1 h ws w"
proof -
  note f = closeLocked_fields [OF cl]
  have inv: "sched_inv c" "queues_ok c" "waiters_ok c" using core by (simp_all add: core_def sched_inv_def)
  have ok: "caller_ok c h d w" using core w by (simp add: core_def)
  show ?thesis
  proof (cases "isQueued c w")
    case True
    then have "w \<in> set ws" using set_allQueued [OF inv(2)] f(2) by simp
    moreover have "resultChan c (wtId w) = None" using ok True inv(3)
      by (auto simp: caller_ok_def waiters_ok_def)
    ultimately show ?thesis using f by (simp add: caller_ok_def)
  next
    case False
    have "wtId v \<noteq> wtId w" if "v \<in> set ws" for v
    proof
      assume e: "wtId v = wtId w"
      have v: "isQueued c v" using that f(2) set_allQueued [OF inv(2)] by simp
      then have "v \<in> set cs" using core unfolding core_def by blast
      then have "v = w" using core w e by (auto simp: core_def distinct_map inj_on_def)
      with v False show False by simp
    qed
    then have "wtId w \<notin> wtId ` set ws" by (metis imageE)
    then have "waiterState c1 (wtId w) = waiterState c (wtId w)" using f(5) by simp
    with ok False f show ?thesis by (auto simp: caller_ok_def)
  qed
qed

lemma close_core:
  assumes core: "core c cs h d" and cl: "closeLocked c = (Some (ws, ls, st), c1)"
  shows "core c1 cs h ws"
proof -
  note f = closeLocked_fields [OF cl]
  have inv: "sched_inv c" "queues_ok c" "waiters_ok c" using core by (simp_all add: core_def sched_inv_def)
  note s = closeLocked_sched_inv [OF inv(1) cl]
  have ws: "isQueued c v" if "v \<in> set ws" for v using that f(2) set_allQueued [OF inv(2)] by simp
  show ?thesis
    unfolding core_def
  proof (intro conjI)
    show "distinct ws" using distinct_allQueued [OF inv(1)] f(2) by simp
    show "\<forall>v \<in> set cs. wtId v < nextId c1 \<and> caller_ok c1 h ws v"
      using core close_caller_ok [OF core cl] f(14) by (simp add: core_def)
    show "\<forall>v \<in> set ws. wtId v < nextId c1 \<and> waiterState c1 (wtId v) = Some Rejected
        \<and> (\<forall>w \<in> set cs. wtId v = wtId w \<longrightarrow> v = w)"
    proof (intro ballI conjI impI)
      fix v assume v: "v \<in> set ws"
      then have vc: "v \<in> set cs" using ws core unfolding core_def by blast
      then show "wtId v < nextId c1" using core f(14) by (simp add: core_def)
      show "waiterState c1 (wtId v) = Some Rejected" using v f(5) by simp
      fix w assume "w \<in> set cs" "wtId v = wtId w"
      with vc core show "v = w" by (auto simp: core_def distinct_map inj_on_def)
    qed
    show "\<not> closed c1 \<longrightarrow> ws = []" using f(4) by simp
    show "closed_ok c1" using s(2) by (simp add: closed_ok_def)
    show "\<forall>v. isQueued c1 v \<longrightarrow> v \<in> set cs" using s(2) by simp
    show "sched_inv c1" by (rule s(1))
  qed (use core f in \<open>auto simp: core_def\<close>)
qed

lemma close_good:
  assumes good: "good c cs h d" and cl: "closeLocked c = (Some (ws, ls, st), c1)"
  shows "good (closeCancel ls c1) cs h ws"
proof -
  have core: "core c cs h d" and b: "bounds_ok c" using good by (simp_all add: good_def)
  note f = closeLocked_fields [OF cl]
  have "bounds_ok c1"
  proof (rule bounds_le [OF b])
    fix k assume k: "k \<in> set classOrder"
    have "queue_wf (queues c k)" using core k unfolding core_def sched_inv_def queues_ok_def by blast
    then have "0 \<le> qQueued (queues c k)" using queueSize_nonneg by (simp add: queue_wf_def)
    then show "qQueued (queues c1 k) \<le> qQueued (queues c k)" using k f(6) by (simp add: emptyQueue_def)
  qed (use f in auto)
  moreover have "conserving c1" using f(4) by (simp add: conserving_def)
  ultimately show ?thesis using close_core [OF core cl] by (simp add: good_def)
qed

definition deliverRejection :: "int \<Rightarrow> waiter \<Rightarrow> controller \<Rightarrow> controller" where
  "deliverRejection now w c = c\<lparr>resultChan := (resultChan c)(wtId w \<mapsto>
     GotError ((rejectionOf (wtRequest w) ControllerShutdown None)\<lparr>rjQueueWait := now - wtEnqueued w\<rparr>))\<rparr>"

lemma closeDeliver_observe:
  "closeDeliver now w c = observe (admissionOf (wtRequest w) ''rejected'' (Some ControllerShutdown)
     (now - wtEnqueued w) 0) (deliverRejection now w c)"
  by (simp add: closeDeliver_def deliverRejection_def Let_def)

lemma deliver_fields [simp]:
  "config (deliverRejection now w c) = config c" "closed (deliverRejection now w c) = closed c"
  "active (deliverRejection now w c) = active c" "queues (deliverRejection now w c) = queues c"
  "waiterState (deliverRejection now w c) = waiterState c" "nextId (deliverRejection now w c) = nextId c"
  "sched_inv (deliverRejection now w c) = sched_inv c" "isQueued (deliverRejection now w c) v = isQueued c v"
  "conserving (deliverRejection now w c) = conserving c" "bounds_ok (deliverRejection now w c) = bounds_ok c"
  "closed_ok (deliverRejection now w c) = closed_ok c"
  by (simp_all add: deliverRejection_def sched_inv_parts isQueued_def conserving_def bounds_ok_def closed_ok_def)

lemma deliver_good:
  assumes good: "good c cs h (w # d)"
  shows "good (closeDeliver now w c) cs h d"
proof -
  have core: "core c cs h (w # d)" using good by (simp add: good_def)
  have wr: "waiterState c (wtId w) = Some Rejected" "wtId w < nextId c" "w \<notin> set d" "closed c"
    and same: "v \<in> set cs \<Longrightarrow> wtId w = wtId v \<Longrightarrow> w = v" for v
    using core by (auto simp: core_def)
  have chan: "resultChan (deliverRejection now w c) i = (if i = wtId w then
      Some (GotError ((rejectionOf (wtRequest w) ControllerShutdown None)\<lparr>rjQueueWait := now - wtEnqueued w\<rparr>))
      else resultChan c i)" for i by (simp add: deliverRejection_def)
  have ok: "caller_ok (deliverRejection now w c) h d v" if v: "v \<in> set cs" for v
  proof (cases "wtId v = wtId w")
    case True
    then have "v = w" using same v by metis
    with wr show ?thesis by (auto simp: caller_ok_def chan rejectionOf_def)
  next
    case False
    then have "v \<noteq> w" by auto
    moreover have "caller_ok c h (w # d) v" using core v by (simp add: core_def)
    ultimately show ?thesis using False by (auto simp: caller_ok_def chan)
  qed
  have nol: "\<forall>u \<in> set cs. wtId u = wtId w \<longrightarrow> resultChan c (wtId u) \<noteq> Some (GotLease l)" for l
    using core wr(1) caller_ok_lease(1) [of c h "w # d" _ l] unfolding core_def by fastforce
  have "core (deliverRejection now w c) cs h d"
    unfolding core_def
  proof (intro conjI)
    show "\<forall>v \<in> set cs. wtId v < nextId (deliverRejection now w c) \<and> caller_ok (deliverRejection now w c) h d v"
      using core ok by (simp add: core_def)
    show "\<forall>l \<in> set (active (deliverRejection now w c)). l \<in> set h
        \<or> (\<exists>v \<in> set cs. resultChan (deliverRejection now w c) (wtId v) = Some (GotLease l))"
    proof
      fix l assume "l \<in> set (active (deliverRejection now w c))"
      then have "l \<in> set h \<or> (\<exists>v \<in> set cs. resultChan c (wtId v) = Some (GotLease l))"
        using core unfolding core_def by simp
      then consider "l \<in> set h" | v where "v \<in> set cs" "resultChan c (wtId v) = Some (GotLease l)" by blast
      then show "l \<in> set h \<or> (\<exists>v \<in> set cs. resultChan (deliverRejection now w c) (wtId v) = Some (GotLease l))"
      proof cases
        case (2 v)
        then have "wtId v \<noteq> wtId w" using nol [of l] by metis
        with 2 show ?thesis unfolding chan by auto
      qed simp
    qed
  qed (use core wr in \<open>auto simp: core_def chan\<close>)
  with good show ?thesis by (simp add: good_def closeDeliver_observe)
qed

section \<open>Interleavings\<close>

text \<open>
  A running process: the controller, the callers blocked in the \<open>select\<close> of \<open>Acquire\<close>, the leases
  that callers hold and have not released, and the waiters whose rejection \<open>Close\<close> has not sent
  yet. Every critical section is one step; clock readings, contexts and requests are arbitrary.
\<close>

record system =
  ctl :: controller
  callers :: "waiter list"
  held :: "lease list"
  pending :: "waiter list"

inductive sys_step :: "system \<Rightarrow> system \<Rightarrow> bool" where
  enter_refused: "acquireEnter now ctx rq (ctl s) = Some (Refused r, c') \<Longrightarrow> sys_step s (s\<lparr>ctl := c'\<rparr>)"
| enter_nested: "acquireEnter now ctx rq (ctl s) = Some (NestedLease x, c') \<Longrightarrow> sys_step s (s\<lparr>ctl := c'\<rparr>)"
| enter_admitted: "acquireEnter now ctx rq (ctl s) = Some (Admitted l, c')
    \<Longrightarrow> sys_step s (s\<lparr>ctl := c', held := l # held s\<rparr>)"
| enter_waits: "acquireEnter now ctx rq (ctl s) = Some (MustWait w, c')
    \<Longrightarrow> sys_step s (s\<lparr>ctl := c', callers := w # callers s\<rparr>)"
| on_result: "w \<in> set (callers s) \<Longrightarrow> resultChan (ctl s) (wtId w) = Some r
    \<Longrightarrow> acquireOnResult now e r w (ctl s) = Some (out, c')
    \<Longrightarrow> sys_step s (s\<lparr>ctl := c', callers := leave w (callers s), held := heldAfter out (held s)\<rparr>)"
| on_done: "w \<in> set (callers s) \<Longrightarrow> acquireOnDone now x w (ctl s) = Some (out, c')
    \<Longrightarrow> sys_step s (s\<lparr>ctl := c', callers := leave w (callers s), held := heldAfter out (held s)\<rparr>)"
| on_timeout: "w \<in> set (callers s) \<Longrightarrow> timerArmed w (ctl s)
    \<Longrightarrow> acquireOnTimeout now e w (ctl s) = Some (out, c')
    \<Longrightarrow> sys_step s (s\<lparr>ctl := c', callers := leave w (callers s), held := heldAfter out (held s)\<rparr>)"
| release: "l \<in> set (held s) \<Longrightarrow> releaseLease now e l (ctl s) = Some c'
    \<Longrightarrow> sys_step s (s\<lparr>ctl := c', held := filter (\<lambda>x. lsId x \<noteq> lsId l) (held s)\<rparr>)"
| release_again: "lsId l \<in> releasedOnce (ctl s) \<Longrightarrow> releaseLease now e l (ctl s) = Some c'
    \<Longrightarrow> sys_step s (s\<lparr>ctl := c'\<rparr>)"
| close: "closeLocked (ctl s) = (Some (ws, ls, st), c')
    \<Longrightarrow> sys_step s (s\<lparr>ctl := closeCancel ls c', pending := ws\<rparr>)"
| close_again: "closeLocked (ctl s) = (None, c') \<Longrightarrow> sys_step s (s\<lparr>ctl := c'\<rparr>)"
| close_deliver: "pending s = w # ws
    \<Longrightarrow> sys_step s (s\<lparr>ctl := closeDeliver now w (ctl s), pending := ws\<rparr>)"
| notify: "sys_step s (s\<lparr>ctl := observe (ObserveWorkload st) (ctl s)\<rparr>)"
| set_observer: "sys_step s (s\<lparr>ctl := setObserver b (ctl s)\<rparr>)"

inductive reachable :: "controller \<Rightarrow> system \<Rightarrow> bool" for c0 where
  start: "reachable c0 \<lparr>ctl = c0, callers = [], held = [], pending = []\<rparr>"
| step: "reachable c0 s \<Longrightarrow> sys_step s s' \<Longrightarrow> reachable c0 s'"

inductive_cases sys_stepE: "sys_step s s'"

definition sys_inv :: "system \<Rightarrow> bool" where
  "sys_inv s \<longleftrightarrow> good (ctl s) (callers s) (held s) (pending s)"

lemma newController_config:
  assumes "newController ident cfg observer clock = Inr c"
  shows "validateConfig (config c) = Inr ()"
  using assms by (auto simp: newController_def Let_def split: sum.splits if_splits)

lemma newController_good:
  assumes new: "newController ident cfg observer clock = Inr c"
  shows "good c [] [] []"
proof -
  note v = validateConfig_sane [OF newController_config [OF new]]
  have f: "running c = 0" "runningClass c = (\<lambda>_. 0)" "runningWS c = (\<lambda>_ _. None)" "active c = []"
    "queues c = (\<lambda>_. emptyQueue)" "classCursor c = 0" "waiterState c = (\<lambda>_. None)" "closed c = False"
    "resultChan c = (\<lambda>_. None)" "releasedOnce c = {}" "nextId c = 0"
    using new by (auto simp: newController_def Let_def split: sum.splits if_splits)
  have nq: "\<not> isQueued c w" for w using f by (simp add: isQueued_def)
  have lim: "0 \<le> MaximumRunning (policyOf (config c) k)" "0 \<le> MaximumQueued (policyOf (config c) k)"
    "0 \<le> MaximumQueuedPerWorkspace (policyOf (config c) k)" if "k \<in> set classOrder" for k
    using v(3) [OF that] by (auto simp: saneClass_def Let_def)
  have inv: "sched_inv c"
    using f v(1) lim nq by (simp add: sched_inv_def counts_ok_def limits_ok_def queues_ok_def ids_ok_def
        waiters_ok_def)
  have "bounds_ok c"
  proof -
    have "(\<Sum>k\<leftarrow>classOrder. qQueued (queues c k)) = 0" using f by (simp add: classOrder_def emptyQueue_def)
    then show ?thesis using f v(2) lim by (simp add: bounds_ok_def emptyQueue_def waitersOf_def)
  qed
  moreover have "conserving c" using f by (simp add: conserving_def emptyQueue_def)
  moreover have "core c [] [] []" using inv nq f by (simp add: core_def closed_ok_def)
  ultimately show ?thesis by (simp add: good_def)
qed

lemma release_again_noop: "lsId l \<in> releasedOnce c \<Longrightarrow> releaseLease now e l c = Some c"
  by (simp add: releaseLease_def)

lemma sys_step_inv:
  assumes "sys_step s s'" and "sys_inv s"
  shows "sys_inv s'"
  using assms
proof (induction rule: sys_step.induct)
  case (enter_refused now ctx rq s r c')
  then show ?case using acquireEnter_entered [of "ctl s" "callers s" "held s" "pending s" now ctx rq]
    by (simp add: sys_inv_def entered_def)
next
  case (enter_nested now ctx rq s x c')
  then show ?case using acquireEnter_entered [of "ctl s" "callers s" "held s" "pending s" now ctx rq]
    by (simp add: sys_inv_def entered_def)
next
  case (enter_admitted now ctx rq s l c')
  then show ?case using acquireEnter_entered [of "ctl s" "callers s" "held s" "pending s" now ctx rq]
    by (simp add: sys_inv_def entered_def)
next
  case (enter_waits now ctx rq s w c')
  then show ?case using acquireEnter_entered [of "ctl s" "callers s" "held s" "pending s" now ctx rq]
    by (simp add: sys_inv_def entered_def)
next
  case (on_result w s r now e out c')
  then show ?case using acquireOnResult_good [of "ctl s" "callers s" "held s" "pending s" w r now e]
    by (simp add: sys_inv_def)
next
  case (on_done w s now x out c')
  then show ?case using acquireOnDone_good [of "ctl s" "callers s" "held s" "pending s" w now x]
    by (simp add: sys_inv_def)
next
  case (on_timeout w s now e out c')
  then show ?case using acquireOnTimeout_good [of "ctl s" "callers s" "held s" "pending s" w now e]
    by (simp add: sys_inv_def)
next
  case (release l s now e c')
  then show ?case using releaseLease_good [of "ctl s" "callers s" "held s" "pending s" l now e]
    by (simp add: sys_inv_def)
next
  case (release_again l s now e c')
  then show ?case by (simp add: sys_inv_def release_again_noop)
next
  case (close s ws ls st c')
  then show ?case using close_good [of "ctl s" "callers s" "held s" "pending s"] by (simp add: sys_inv_def)
next
  case (close_again s c')
  then show ?case by (auto simp: sys_inv_def closeLocked_def Let_def split: if_splits)
next
  case (close_deliver s w ws now)
  then show ?case using deliver_good [of "ctl s" "callers s" "held s" w ws] by (simp add: sys_inv_def)
next
  case (notify s st)
  then show ?case by (simp add: sys_inv_def)
next
  case (set_observer s b)
  have "good (c\<lparr>hasObserver := b\<rparr>) cs h d = good c cs h d" for c cs h d
    by (simp add: good_def core_def sched_inv_parts isQueued_def conserving_def bounds_ok_def closed_ok_def
        caller_ok_def)
  with set_observer show ?case by (simp add: sys_inv_def setObserver_def)
qed

lemma reachable_inv:
  assumes "newController ident cfg observer clock = Inr c0" and "reachable c0 s"
  shows "sys_inv s"
  using assms(2)
proof (induction rule: reachable.induct)
  case start
  show ?case using newController_good [OF assms(1)] by (simp add: sys_inv_def)
next
  case (step s s')
  then show ?case using sys_step_inv by blast
qed

section \<open>What never changes\<close>

lemma schedule_config: "scheduleLocked now c = Some c' \<Longrightarrow> config c' = config c"
proof (induction now c arbitrary: c' rule: scheduleLocked.induct)
  case (1 now c)
  obtain r c1 where pick: "pickClass c = (r, c1)" by (cases "pickClass c")
  then have frame: "config c1 = config c" using pickClass_frame(2) [of c] by simp
  note eq = "1.prems" [unfolded scheduleLocked.simps [of now c]]
  show ?case
  proof (cases "\<not> closed c \<and> running c < MaxRunning (config c)")
    case False
    then show ?thesis using eq unfolding if_not_P [OF False] by simp
  next
    case go: True
    show ?thesis
    proof (cases r)
      case None
      then show ?thesis using eq go pick frame by simp
    next
      case (Some k)
      show ?thesis
      proof (cases "pop (queues c1 k)")
        case None
        then show ?thesis using eq go pick Some by simp
      next
        case p: (Some x)
        obtain o' q where x: "x = (o', q)" by (cases x)
        show ?thesis
        proof (cases o')
          case None
          then show ?thesis using eq go pick Some p x frame by auto
        next
          case w: (Some w)
          have "scheduleLocked now (grant now k w (c1\<lparr>queues := (queues c1)(k := q)\<rparr>)) = Some c'"
            using eq go pick Some p x w by simp
          from "1.IH" [OF go pick [symmetric] Some p x [symmetric] w this] frame
          show ?thesis by (simp add: grant_def Let_def)
        qed
      qed
    qed
  qed
qed

lemma release_config: "releaseLease now e l c = Some c' \<Longrightarrow> config c' = config c"
  by (auto simp: releaseLease_def split: if_splits dest: schedule_config)

lemma enter_config: "acquireEnter now ctx rq c = Some (out, c') \<Longrightarrow> config c' = config c"
  by (auto simp: acquireEnter_def enterQueue_def Let_def split: sum.splits option.splits if_splits
      acquireResult.splits dest!: schedule_config)

lemma cancel_config: "cancelWaiter now w c = Some (r, c') \<Longrightarrow> config c' = config c"
  by (auto simp: cancelWaiter_def Let_def split: if_splits option.splits acquireResult.splits
      dest!: schedule_config)

lemma wait_config:
  "acquireOnResult now e r w c = Some (out, c') \<Longrightarrow> config c' = config c"
  "acquireOnDone now x w c = Some (out, c') \<Longrightarrow> config c' = config c"
  "acquireOnTimeout now e w c = Some (out, c') \<Longrightarrow> config c' = config c"
  by (auto simp: acquireOnResult_def acquireOnDone_def acquireOnTimeout_def Let_def
      split: option.splits acquireResult.splits dest!: cancel_config release_config)

lemma closeLocked_config: "closeLocked c = (r, c') \<Longrightarrow> config c' = config c"
  by (auto simp: closeLocked_def Let_def split: if_splits)

lemma sys_step_config: "sys_step s s' \<Longrightarrow> config (ctl s') = config (ctl s)"
  by (erule sys_step.cases)
    (simp_all add: closeDeliver_observe setObserver_def enter_config wait_config release_config
      closeLocked_config)

lemma reachable_config: "reachable c0 s \<Longrightarrow> config (ctl s) = config c0"
  by (induction rule: reachable.induct) (auto dest: sys_step_config)

end
