(* ===== verification/Workload_Properties.thy ===== *)
theory Workload_Properties
  imports Workload_Runs
begin

text \<open>
  The guarantees of \<^verbatim>\<open>internal/workload\<close>, over every reachable system, and a small run
  (one slot, one running and one waiting request) at which they are evaluated.
\<close>

section \<open>An example run\<close>

definition smallConfig :: wconfig where
  "smallConfig = \<lparr>MaxRunning = 1, NodeMaximumQueued = 2, Classes =
     [(Interactive, \<lparr>ReservedRunning = 1, MaximumRunning = 1, MaximumQueued = 2,
        MaximumQueuedPerWorkspace = 1, QueueTimeout = 10, ExecutionTimeout = 60\<rparr>),
      (Background, \<lparr>ReservedRunning = 0, MaximumRunning = 1, MaximumQueued = 1,
        MaximumQueuedPerWorkspace = 1, QueueTimeout = 10, ExecutionTimeout = 60\<rparr>)]\<rparr>"

definition smallController :: controller where
  "smallController = (case newController 1 smallConfig False True of Inr c \<Rightarrow> c)"

lemma smallController_new: "newController 1 smallConfig False True = Inr smallController"
  by (simp add: smallController_def newController_def Let_def validateConfig_def classOrder_def
      smallConfig_def policyOf_def negativePolicy_def wrap64_def clonePolicies_def zeroPolicy_def)

definition demoRequest :: "wclass \<Rightarrow> string \<Rightarrow> request" where
  "demoRequest k ws = \<lparr>rqClass = k, rqWorkspace = ws, rqOperation = ''query''\<rparr>"

definition enterStep :: "int \<Rightarrow> request \<Rightarrow> system \<Rightarrow> system" where
  "enterStep now rq s =
     (case acquireEnter now \<lparr>ctxAdmission = None\<rparr> rq (ctl s) of
        None \<Rightarrow> s
      | Some (Refused r, c') \<Rightarrow> s\<lparr>ctl := c'\<rparr>
      | Some (NestedLease x, c') \<Rightarrow> s\<lparr>ctl := c'\<rparr>
      | Some (Admitted l, c') \<Rightarrow> s\<lparr>ctl := c', held := l # held s\<rparr>
      | Some (MustWait w, c') \<Rightarrow> s\<lparr>ctl := c', callers := w # callers s\<rparr>)"

lemma enterStep_reaches: "reachable c0 s \<Longrightarrow> reachable c0 (enterStep now rq s)"
  by (auto simp: enterStep_def split: option.split enterOutcome.split
      intro: reachable.step sys_step.intros)

definition demoSystem :: system where
  "demoSystem = enterStep 6 (demoRequest Background ''ops'') (enterStep 5 (demoRequest Interactive ''sales'')
     \<lparr>ctl = smallController, callers = [], held = [], pending = []\<rparr>)"

lemma demoSystem_reachable: "reachable smallController demoSystem"
  unfolding demoSystem_def by (intro enterStep_reaches reachable.start)

definition demoLease :: lease where
  "demoLease = hd (held demoSystem)"

definition demoCaller :: waiter where
  "demoCaller = hd (callers demoSystem)"

lemma demoSystem_shape:
  "length (held demoSystem) = 1" "length (callers demoSystem) = 1" "closed (ctl demoSystem) = False"
  "waiterState (ctl demoSystem) (wtId demoCaller) = Some Waiting"
  by code_simp+

lemma demo_members: "demoLease \<in> set (held demoSystem)" "demoCaller \<in> set (callers demoSystem)"
  using demoSystem_shape by (cases "held demoSystem"; cases "callers demoSystem"; simp add: demoLease_def demoCaller_def)+

section \<open>Accounting\<close>

text \<open>
  C1: In every reachable system the counters of the controller are exact: \<open>running\<close>, \<open>runningClass\<close>
  and \<open>runningWS\<close> count the running leases, node and class limits are never exceeded, every queue
  counter is the number of waiters queued, and node, class and workspace queue limits hold.
\<close>

theorem workload_accounting:
  assumes "newController ident cfg observer clock = Inr c0" and "reachable c0 s"
  shows "running (ctl s) = int (length (active (ctl s))) \<and> running (ctl s) \<le> MaxRunning (config c0)
    \<and> (\<forall>k ws. countOf (runningWS (ctl s) k ws)
          = int (length (filter (\<lambda>l. lsClass l = k \<and> lsWorkspace l = ws) (active (ctl s)))))
    \<and> (\<Sum>k\<leftarrow>classOrder. qQueued (queues (ctl s) k)) \<le> NodeMaximumQueued (config c0)
    \<and> (\<forall>k \<in> set classOrder.
          runningClass (ctl s) k = int (length (filter (\<lambda>l. lsClass l = k) (active (ctl s))))
        \<and> runningClass (ctl s) k \<le> MaximumRunning (policyOf (config c0) k)
        \<and> qQueued (queues (ctl s) k) = int (length (queuedWaiters (queues (ctl s) k)))
        \<and> qQueued (queues (ctl s) k) \<le> MaximumQueued (policyOf (config c0) k)
        \<and> (\<forall>ws. int (length (waitersOf (queues (ctl s) k) ws))
               \<le> MaximumQueuedPerWorkspace (policyOf (config c0) k)))"
proof -
  have inv: "sched_inv (ctl s)" and b: "bounds_ok (ctl s)"
    using reachable_inv [OF assms] by (simp_all add: sys_inv_def good_def core_def)
  have cfg: "config (ctl s) = config c0" using reachable_config [OF assms(2)] .
  have len: "int (length (queuedWaiters q)) = queueSize q" for q
    by (simp add: queuedWaiters_def queueSize_def length_concat sum_list_int_of_nat)
  have ws: "countOf (runningWS (ctl s) k ws) = countWS k ws (active (ctl s))" for k ws
    using inv by (simp add: sched_inv_def counts_ok_def countOf_def)
  have wf: "k \<in> set classOrder \<Longrightarrow> qQueued (queues (ctl s) k) = queueSize (queues (ctl s) k)" for k
    using inv by (simp add: sched_inv_def queues_ok_def queue_wf_def)
  have "counts_ok (ctl s)" "limits_ok (ctl s)" using inv by (simp_all add: sched_inv_def)
  then show ?thesis
    using b wf unfolding ws len cfg [symmetric] counts_ok_def limits_ok_def bounds_ok_def countClass_def countWS_def
    by simp
qed

theorem workload_accounting_witness:
  "running (ctl demoSystem) = 1 \<and> running (ctl demoSystem) = int (length (active (ctl demoSystem)))"
  using conjunct1 [OF workload_accounting [OF smallController_new demoSystem_reachable]]
  by (simp, code_simp)

section \<open>No panic\<close>

text \<open>
  C4: No operation panics in a reachable system: \<open>Acquire\<close> with any request and context, each of the
  three wake-ups of a blocked caller, \<open>Release\<close> of a lease that is held, and a second \<open>Release\<close>.
\<close>

theorem workload_never_panics:
  assumes "newController ident cfg observer clock = Inr c0" and "reachable c0 s"
  shows "acquireEnter now ctx rq (ctl s) \<noteq> None
    \<and> (\<forall>w \<in> set (callers s). acquireOnDone now err w (ctl s) \<noteq> None \<and> acquireOnTimeout now e w (ctl s) \<noteq> None
        \<and> (\<forall>r. resultChan (ctl s) (wtId w) = Some r \<longrightarrow> acquireOnResult now e r w (ctl s) \<noteq> None))
    \<and> (\<forall>l. l \<in> set (held s) \<or> lsId l \<in> releasedOnce (ctl s) \<longrightarrow> releaseLease now e l (ctl s) \<noteq> None)"
proof -
  have g: "good (ctl s) (callers s) (held s) (pending s)"
    using reachable_inv [OF assms] by (simp add: sys_inv_def)
  have "acquireEnter now ctx rq (ctl s) \<noteq> None" using acquireEnter_entered [OF g, of now ctx rq] by auto
  moreover have "acquireOnDone now err w (ctl s) \<noteq> None \<and> acquireOnTimeout now e w (ctl s) \<noteq> None
      \<and> (\<forall>r. resultChan (ctl s) (wtId w) = Some r \<longrightarrow> acquireOnResult now e r w (ctl s) \<noteq> None)"
    if "w \<in> set (callers s)" for w
    using acquireOnDone_good [OF g that, of now err] acquireOnTimeout_good [OF g that, of now e]
      acquireOnResult_good [OF g that, of _ now e] by fastforce
  moreover have "releaseLease now e l (ctl s) \<noteq> None"
    if "l \<in> set (held s) \<or> lsId l \<in> releasedOnce (ctl s)" for l
    using that releaseLease_good [OF g, of l now e] by (auto simp: release_again_noop)
  ultimately show ?thesis by blast
qed

theorem workload_never_panics_witness:
  "acquireEnter 9 \<lparr>ctxAdmission = None\<rparr> (demoRequest Background ''ops'') (ctl demoSystem) \<noteq> None
   \<and> releaseLease 9 None demoLease (ctl demoSystem) \<noteq> None"
  using workload_never_panics [OF smallController_new demoSystem_reachable, of 9 _ _ Canceled None] demo_members
  by blast

section \<open>No slot is idle while a request that fits waits\<close>

text \<open>
  C3: Work conservation. In a reachable system a request is queued only while the node is full or
  its class is full; in particular it is never forgotten by a \<open>Release\<close>, a timeout or a
  cancellation that frees a slot.
\<close>

theorem workload_conserving:
  assumes "newController ident cfg observer clock = Inr c0" and "reachable c0 s"
    and "w \<in> set (callers s)" and "waiterState (ctl s) (wtId w) = Some Waiting"
  shows "running (ctl s) = MaxRunning (config c0)
    \<or> runningClass (ctl s) (wtClass w) = MaximumRunning (policyOf (config c0) (wtClass w))"
proof -
  have g: "good (ctl s) (callers s) (held s) (pending s)"
    using reachable_inv [OF assms(1,2)] by (simp add: sys_inv_def)
  then have core: "core (ctl s) (callers s) (held s) (pending s)" by (simp add: good_def)
  have q: "isQueued (ctl s) w" using waiting_is_queued [OF core assms(3)] assms(4) by simp
  have k: "wtClass w \<in> set classOrder" by (rule good_queued_class [OF core q])
  have ok: "queues_ok (ctl s)" and lim: "limits_ok (ctl s)" using core by (simp_all add: core_def sched_inv_def)
  have wf: "queue_wf (queues (ctl s) (wtClass w))" using ok k unfolding queues_ok_def by blast
  have "waitersOf (queues (ctl s) (wtClass w)) (wtWorkspace w) \<noteq> []"
    using q unfolding isQueued_class [OF ok] by (metis empty_iff list.set(1))
  then have "qOrder (queues (ctl s) (wtClass w)) \<noteq> []"
    using queue_wf_waiters_nonempty [OF wf] by (metis empty_iff list.set(1))
  then have "qQueued (queues (ctl s) (wtClass w)) \<noteq> 0" using queue_wf_queued_pos [OF wf] by simp
  moreover have "\<not> closed (ctl s)" using core q by (auto simp: core_def closed_ok_def)
  moreover have "conserving (ctl s)" using g by (simp add: good_def)
  ultimately show ?thesis
    using lim k reachable_config [OF assms(2)] unfolding conserving_def limits_ok_def by (metis order_antisym)
qed

theorem workload_conserving_witness:
  "running (ctl demoSystem) = MaxRunning (config smallController)
    \<or> runningClass (ctl demoSystem) (wtClass demoCaller)
        = MaximumRunning (policyOf (config smallController) (wtClass demoCaller))"
  by (rule workload_conserving [OF smallController_new demoSystem_reachable demo_members(2)])
    (rule demoSystem_shape(4))

section \<open>Reservations\<close>

text \<open>
  C6: Reservations. The slots that a \<open>Release\<close> frees are handed out one by one, each to the oldest
  waiter of a workspace of a class below its maximum, and to a class that already runs its
  reservation only when no class below its own reservation has a request waiting.
\<close>

theorem release_grants_respect_reservations:
  assumes "newController ident cfg observer clock = Inr c0" and "reachable c0 s" and "l \<in> set (held s)"
  shows "\<exists>gs c'. scheduleLocked now (freeSlot l (ctl s)) = Some c' \<and> grantTrace now (freeSlot l (ctl s)) gs c'"
proof -
  have "core (ctl s) (callers s) (held s) (pending s)"
    using reachable_inv [OF assms(1,2)] by (simp add: sys_inv_def good_def)
  then have "core (freeSlot l (ctl s)) (callers s) (filter (\<lambda>x. lsId x \<noteq> lsId l) (held s)) (pending s)"
    using assms(3) by (rule core_free)
  then show ?thesis using schedule_is_grants by (simp add: core_def)
qed

theorem release_grants_respect_reservations_witness:
  "\<exists>gs c'. scheduleLocked 9 (freeSlot demoLease (ctl demoSystem)) = Some c'
     \<and> grantTrace 9 (freeSlot demoLease (ctl demoSystem)) gs c'"
  by (rule release_grants_respect_reservations [OF smallController_new demoSystem_reachable demo_members(1)])

section \<open>Nothing is lost\<close>

text \<open>
  C2: No lease leaks and no waiter is lost. Every running lease is held by a caller or lies in the
  result channel of a blocked caller, which will take it; every queued waiter is a blocked caller.
  So when no caller is blocked and every lease was released, nothing runs and nothing is queued.
\<close>

theorem workload_no_leak:
  assumes "newController ident cfg observer clock = Inr c0" and "reachable c0 s"
  shows "(\<forall>l \<in> set (active (ctl s)). l \<in> set (held s)
        \<or> (\<exists>w \<in> set (callers s). resultChan (ctl s) (wtId w) = Some (GotLease l)))
    \<and> (\<forall>w \<in> set (allQueued (ctl s)). w \<in> set (callers s))
    \<and> (callers s = [] \<and> held s = [] \<longrightarrow> running (ctl s) = 0 \<and> allQueued (ctl s) = [])"
proof -
  have core: "core (ctl s) (callers s) (held s) (pending s)"
    using reachable_inv [OF assms] by (simp add: sys_inv_def good_def)
  have inv: "queues_ok (ctl s)" "running (ctl s) = int (length (active (ctl s)))"
    using core by (simp_all add: core_def sched_inv_def counts_ok_def)
  have act: "\<forall>l \<in> set (active (ctl s)). l \<in> set (held s)
        \<or> (\<exists>w \<in> set (callers s). resultChan (ctl s) (wtId w) = Some (GotLease l))"
    using core unfolding core_def by blast
  have que: "\<forall>w \<in> set (allQueued (ctl s)). w \<in> set (callers s)"
    using core set_allQueued [OF inv(1)] unfolding core_def by blast
  have "running (ctl s) = 0 \<and> allQueued (ctl s) = []" if e: "callers s = [] \<and> held s = []"
  proof
    have "set (active (ctl s)) = {}" using act e by auto
    then show "running (ctl s) = 0" using inv(2) by simp
    show "allQueued (ctl s) = []" using que e by (metis empty_iff list.set(1) list.set_intros(1) list.exhaust)
  qed
  with act que show ?thesis by blast
qed

theorem workload_no_leak_witness:
  "length (active (ctl demoSystem)) = 1 \<and> (hd (active (ctl demoSystem)) \<in> set (held demoSystem)
      \<or> (\<exists>w. w \<in> set (callers demoSystem)
            \<and> resultChan (ctl demoSystem) (wtId w) = Some (GotLease (hd (active (ctl demoSystem))))))"
proof (rule conjI)
  show one: "length (active (ctl demoSystem)) = 1" by code_simp
  then have "hd (active (ctl demoSystem)) \<in> set (active (ctl demoSystem))"
    by (cases "active (ctl demoSystem)") simp_all
  then show "hd (active (ctl demoSystem)) \<in> set (held demoSystem)
      \<or> (\<exists>w. w \<in> set (callers demoSystem)
            \<and> resultChan (ctl demoSystem) (wtId w) = Some (GotLease (hd (active (ctl demoSystem)))))"
    using workload_no_leak [OF smallController_new demoSystem_reachable] by blast
qed

section \<open>Shutdown\<close>

text \<open>
  C5: \<open>Close\<close> wakes everyone up. Once the controller is closed nothing is queued, and every blocked
  caller has its rejection or its lease in its channel or is one of the waiters whose rejection
  \<open>Close\<close> is about to send; so when \<open>Close\<close> is done no caller stays blocked. A caller that was
  rejected finds the shutdown reason.
\<close>

theorem close_wakes_every_caller:
  assumes "newController ident cfg observer clock = Inr c0" and "reachable c0 s" and "closed (ctl s)"
  shows "allQueued (ctl s) = []
    \<and> (\<forall>w \<in> set (callers s). w \<in> set (pending s) \<or> (\<exists>r. resultChan (ctl s) (wtId w) = Some r))
    \<and> (\<forall>w \<in> set (callers s). \<forall>x. resultChan (ctl s) (wtId w) = Some (GotError x)
          \<longrightarrow> rjReason x = ControllerShutdown)"
proof -
  have core: "core (ctl s) (callers s) (held s) (pending s)"
    using reachable_inv [OF assms(1,2)] by (simp add: sys_inv_def good_def)
  have ok: "queues_ok (ctl s)" using core by (simp add: core_def sched_inv_def)
  have nq: "\<not> isQueued (ctl s) w" for w using core assms(3) by (auto simp: core_def closed_ok_def)
  then have none: "allQueued (ctl s) = []"
    using set_allQueued [OF ok] by (metis list.set_intros(1) list.exhaust)
  have "caller_ok (ctl s) (held s) (pending s) w" if "w \<in> set (callers s)" for w
    using core that by (simp add: core_def)
  then show ?thesis using none nq unfolding caller_ok_def by fastforce
qed

definition closedSystem :: system where
  "closedSystem = (case closeLocked (ctl demoSystem) of
     (Some (ws, ls, st), c') \<Rightarrow> demoSystem\<lparr>ctl := closeCancel ls c', pending := ws\<rparr>
   | (None, c') \<Rightarrow> demoSystem)"

lemma closedSystem_reachable: "reachable smallController closedSystem"
proof -
  obtain r c' where r: "closeLocked (ctl demoSystem) = (r, c')" by (cases "closeLocked (ctl demoSystem)")
  show ?thesis
  proof (cases r)
    case None
    then show ?thesis unfolding closedSystem_def r using demoSystem_reachable by simp
  next
    case (Some x)
    obtain ws ls st where x: "x = (ws, ls, st)" by (cases x)
    then have "sys_step demoSystem (demoSystem\<lparr>ctl := closeCancel ls c', pending := ws\<rparr>)"
      using sys_step.close [of demoSystem ws ls st c'] r Some by simp
    then show ?thesis
      unfolding closedSystem_def r Some x using demoSystem_reachable reachable.step by simp
  qed
qed

theorem close_wakes_every_caller_witness:
  "closed (ctl closedSystem) \<and> length (callers closedSystem) = 1 \<and> allQueued (ctl closedSystem) = []"
proof (intro conjI)
  show c: "closed (ctl closedSystem)" by code_simp
  show "length (callers closedSystem) = 1" by code_simp
  show "allQueued (ctl closedSystem) = []"
    by (rule conjunct1 [OF close_wakes_every_caller [OF smallController_new closedSystem_reachable c]])
qed

section \<open>Fairness\<close>

text \<open>
  Each workspace is a FIFO. Whatever the order of enqueues and pops on a well-formed class
  queue, no pop panics, and the requests of a workspace are served in the order in which they were
  queued, none lost and none served twice.
\<close>

theorem class_queue_fifo:
  assumes "queue_wf q" and "noCancel ops"
  shows "\<exists>served q'. traffic enqueue pop remove ops q = Some (served, q') \<and> queue_wf q'
    \<and> (\<forall>s. waitersOf q s @ filter (\<lambda>w. wtWorkspace w = s) (enqueuedBy ops)
          = filter (\<lambda>w. wtWorkspace w = s) served @ waitersOf q' s)"
  using assms by (rule class_queue.traffic_fifo)

theorem class_queue_fifo_witness:
  "\<exists>served q'. traffic enqueue pop remove
     [Enq (demoWaiter 0 ''a''), Enq (demoWaiter 1 ''b''), Deq, Enq (demoWaiter 2 ''a''), Deq] emptyQueue
       = Some (served, q') \<and> queue_wf q'"
  using class_queue_fifo [of emptyQueue "[Enq (demoWaiter 0 ''a''), Enq (demoWaiter 1 ''b''), Deq,
      Enq (demoWaiter 2 ''a''), Deq]"] by auto

text \<open>
  A waiter that \<open>remove\<close> took out of its queue (a cancellation or a queue timeout) is never
  served afterwards, whatever traffic follows.
\<close>

theorem removed_waiter_never_served:
  assumes "queue_wf q" and "distinct (map wtId (waitersOf q (wtWorkspace w)))"
    and "traffic enqueue pop remove (Cancel w # ops) q = Some (served, q')" and "w \<notin> set (enqueuedBy ops)"
  shows "w \<notin> set served"
  using assms by (rule class_queue.cancelled_never_served)

theorem removed_waiter_never_served_witness:
  "demoWaiter 0 ''a'' \<notin> set (fst (the (traffic enqueue pop remove [Cancel (demoWaiter 0 ''a''), Deq]
     (enqueue (demoWaiter 1 ''b'') (enqueue (demoWaiter 0 ''a'') emptyQueue)))))"
proof -
  let ?q = "enqueue (demoWaiter 1 ''b'') (enqueue (demoWaiter 0 ''a'') emptyQueue)"
  have wf: "queue_wf ?q" by (intro queue_wf_enqueue queue_wf_empty)
  obtain served q' where t: "traffic enqueue pop remove [Cancel (demoWaiter 0 ''a''), Deq] ?q = Some (served, q')"
    using class_queue.traffic_total [OF wf] by blast
  have "demoWaiter 0 ''a'' \<notin> set served"
    by (rule removed_waiter_never_served [OF wf _ t]) (simp_all add: waitersOf_enqueue)
  with t show ?thesis by simp
qed

text \<open>
  C7: Rotation. On a class queue with \<open>n\<close> workspaces and no new arrivals, the oldest request of
  every workspace is served within \<open>n\<close> pops, however many requests the other workspaces have.
\<close>

theorem rotation_serves_every_workspace:
  assumes "queue_wf q" and "waitersOf q ws \<noteq> []"
  shows "\<exists>n served q'. n \<le> length (qOrder q) \<and> popN n q = Some (served, q')
    \<and> hd (waitersOf q ws) \<in> set served"
proof -
  have "ws \<in> set (ring q)" using queue_wf_waiters_nonempty [OF assms(1), of ws] assms(2) by simp
  then obtain i where i: "i < length (ring q)" "ring q ! i = ws" unfolding in_set_conv_nth by blast
  from popN_serves_ring_position [OF assms(1) i(1)] obtain served q' where
    "popN (Suc i) q = Some (served, q')" "length served = Suc i" "served ! i = hd (waitersOf q ws)"
    using i(2) by blast
  then show ?thesis
    using i(1) by (intro exI [of _ "Suc i"] exI [of _ served] exI [of _ q']) (auto simp: in_set_conv_nth)
qed

theorem rotation_serves_every_workspace_witness:
  "\<exists>n served q'. n \<le> 2
     \<and> popN n (enqueue (demoWaiter 1 ''b'') (enqueue (demoWaiter 0 ''a'') emptyQueue)) = Some (served, q')
     \<and> demoWaiter 1 ''b'' \<in> set served"
proof -
  let ?q = "enqueue (demoWaiter 1 ''b'') (enqueue (demoWaiter 0 ''a'') emptyQueue)"
  have "queue_wf ?q" by (intro queue_wf_enqueue queue_wf_empty)
  moreover have w: "waitersOf ?q ''b'' = [demoWaiter 1 ''b'']"
    by (simp add: waitersOf_enqueue)
  moreover have "length (qOrder ?q) = 2"
    by (simp add: enqueue_def emptyQueue_def Let_def waitersOf_def)
  ultimately show ?thesis
    using rotation_serves_every_workspace [of ?q "''b''"] by simp
qed

text \<open>
  C8: With arrivals the rotation is not fair. A workspace that joins the queue is appended to
  \<open>order\<close>, ahead of the workspaces that the cursor has passed: after any number \<open>2 * n + 1\<close> of pops,
  the second request of workspace \<open>a\<close>, queued before all but one of them, is still waiting while
  two workspaces with one request each are served again and again.
\<close>

theorem rotation_can_starve:
  "\<exists>served q'. traffic enqueue pop remove (starvingRun n) emptyQueue = Some (served, q')
    \<and> length served = 2 * n + 1 \<and> waitersOf q' ''a'' = [demoWaiter 1 ''a''] \<and> demoWaiter 1 ''a'' \<notin> set served"
proof -
  obtain served q' where t: "traffic enqueue pop remove (starvingRun n) emptyQueue = Some (served, q')"
    "length served = 2 * n + 1" "starving q'" using starvingRun_starves by blast
  then have a: "waitersOf q' ''a'' = [demoWaiter 1 ''a'']" by (simp add: starving_def waitersOf_def)
  have "filter (\<lambda>w. wtWorkspace w = ''a'') (enqueuedBy (starvingRun n))
      = [demoWaiter 0 ''a'', demoWaiter 1 ''a''] \<and> noCancel (starvingRun n)"
    by (rule starvingRun_arrivals)
  with class_queue.traffic_fifo [of emptyQueue "starvingRun n" remove] t a
  have "filter (\<lambda>w. wtWorkspace w = ''a'') served = [demoWaiter 0 ''a'']" by auto
  moreover have "demoWaiter 1 ''a'' \<noteq> demoWaiter 0 ''a''" by (simp add: demoWaiter_def)
  moreover have "demoWaiter 1 ''a'' \<in> set served
      \<Longrightarrow> demoWaiter 1 ''a'' \<in> set (filter (\<lambda>w. wtWorkspace w = ''a'') served)" by simp
  ultimately have "demoWaiter 1 ''a'' \<notin> set served" by (metis empty_iff list.set(1) set_ConsD)
  with t a show ?thesis by blast
qed

section \<open>Configuration\<close>

text \<open>
  \<open>Config.Validate\<close> accepts exactly the configurations whose limits are consistent: nothing
  negative, for each class reserved at most maximum at most the node's slots, a workspace queue no
  longer than the class queue, and the reservations of all classes together within the node.
\<close>

theorem validateConfig_accepts:
  assumes "MaxRunning c < 1000000000000000000"
  shows "validateConfig c = Inr () \<longleftrightarrow> 0 \<le> MaxRunning c \<and> 0 \<le> NodeMaximumQueued c
    \<and> (\<forall>k \<in> set classOrder. saneClass c k) \<and> totalReserved c classOrder \<le> MaxRunning c"
proof (cases "MaxRunning c < 0 \<or> NodeMaximumQueued c < 0")
  case True
  then show ?thesis by (auto simp: validateConfig_def)
next
  case False
  have iff: "validateClasses c classOrder 0 = Inr s
      \<longleftrightarrow> (\<forall>k \<in> set classOrder. saneClass c k) \<and> s = 0 + totalReserved c classOrder" for s
    by (rule validateClasses_Inr_iff) (use assms False in \<open>simp_all add: classOrder_def\<close>)
  show ?thesis
  proof (cases "validateClasses c classOrder 0")
    case (Inl e)
    then show ?thesis using False iff [of "0 + totalReserved c classOrder"] by (simp add: validateConfig_def)
  next
    case (Inr b)
    then show ?thesis using False iff [of b] by (auto simp: validateConfig_def)
  qed
qed

theorem validateConfig_accepts_witness:
  "validateConfig smallConfig = Inr () \<and> totalReserved smallConfig classOrder \<le> MaxRunning smallConfig"
proof -
  have "MaxRunning smallConfig < 1000000000000000000" by (simp add: smallConfig_def)
  note v = validateConfig_accepts [OF this]
  have "validateConfig smallConfig = Inr ()"
    by (simp add: validateConfig_def classOrder_def smallConfig_def policyOf_def negativePolicy_def wrap64_def
        zeroPolicy_def)
  with v show ?thesis by blast
qed

end
