(* ===== verification/Go_Strings.thy ===== *)
theory Go_Strings
  imports LV_Prelude
begin

text \<open>
  The functions of Go's \<open>strings\<close> and \<open>unicode\<close> packages that the analytics model uses. A Go
  string is its list of bytes; a \<open>char\<close> is one byte. \<open>rune(s[i])\<close> reads a single byte as a
  code point, so the \<open>unicode\<close> predicates are needed on Latin-1 only.
\<close>

section \<open>Bytes\<close>

definition byte :: "char \<Rightarrow> nat" where
  "byte c = of_char c"

definition isDigit :: "char \<Rightarrow> bool" where
  "isDigit c \<longleftrightarrow> 48 \<le> byte c \<and> byte c \<le> 57"

definition isAsciiLetter :: "char \<Rightarrow> bool" where
  "isAsciiLetter c \<longleftrightarrow> 65 \<le> byte c \<and> byte c \<le> 90 \<or> 97 \<le> byte c \<and> byte c \<le> 122"

text \<open>\<open>unicode.IsLetter\<close> and \<open>unicode.IsSpace\<close> on a byte.\<close>

definition isLetterByte :: "char \<Rightarrow> bool" where
  "isLetterByte c \<longleftrightarrow> isAsciiLetter c \<or> byte c \<in> {170, 181, 186}
     \<or> 192 \<le> byte c \<and> byte c \<le> 214 \<or> 216 \<le> byte c \<and> byte c \<le> 246 \<or> 248 \<le> byte c"

definition isSpaceByte :: "char \<Rightarrow> bool" where
  "isSpaceByte c \<longleftrightarrow> 9 \<le> byte c \<and> byte c \<le> 13 \<or> byte c \<in> {32, 133, 160}"

definition lowerByte :: "char \<Rightarrow> char" where
  "lowerByte c = (if 65 \<le> byte c \<and> byte c \<le> 90 then char_of (byte c + 32) else c)"

definition upperByte :: "char \<Rightarrow> char" where
  "upperByte c = (if 97 \<le> byte c \<and> byte c \<le> 122 then char_of (byte c - 32) else c)"

text \<open>\<open>strings.ToLower\<close> and \<open>strings.ToUpper\<close> on ASCII text.\<close>

definition toLower :: "string \<Rightarrow> string" where
  "toLower s = map lowerByte s"

definition toUpper :: "string \<Rightarrow> string" where
  "toUpper s = map upperByte s"

section \<open>Trimming\<close>

text \<open>The UTF-8 encodings of the code points that \<open>strings.TrimSpace\<close> removes.\<close>

definition spaceCodes :: "nat list list" where
  "spaceCodes = [[9], [10], [11], [12], [13], [32], [194, 133], [194, 160], [225, 154, 128]]
     @ map (\<lambda>i. [226, 128, i]) ([128..<139] @ [168, 169, 175]) @ [[226, 129, 159], [227, 128, 128]]"

definition leadingSpace :: "nat list list \<Rightarrow> string \<Rightarrow> nat option" where
  "leadingSpace codes s =
     map_option length (find (\<lambda>code. map byte (take (length code) s) = code) codes)"

lemma leadingSpace_pos: "leadingSpace codes s = Some n \<Longrightarrow> [] \<notin> set codes \<Longrightarrow> 0 < n \<and> n \<le> length s"
  by (auto simp: leadingSpace_def find_Some_iff dest!: arg_cong [where f = length] in_set_conv_nth [THEN iffD2] nth_mem)

function trimWith :: "nat list list \<Rightarrow> string \<Rightarrow> string" where
  "trimWith codes s =
     (case leadingSpace codes s of
        Some n \<Rightarrow> if 0 < n \<and> n \<le> length s then trimWith codes (drop n s) else s
      | None \<Rightarrow> s)"
  by pat_completeness auto
termination by (relation "measure (\<lambda>(codes, s). length s)") auto

declare trimWith.simps [simp del]

definition trimSpace :: "string \<Rightarrow> string" where
  "trimSpace s = rev (trimWith (map rev spaceCodes) (rev (trimWith spaceCodes s)))"

section \<open>Searching and splitting\<close>

fun indexByte :: "char \<Rightarrow> string \<Rightarrow> nat option" where
  "indexByte c [] = None"
| "indexByte c (x # xs) = (if x = c then Some 0 else map_option Suc (indexByte c xs))"

text \<open>\<open>strings.Split\<close> with a one-byte separator.\<close>

fun splitOn :: "char \<Rightarrow> string \<Rightarrow> string list" where
  "splitOn c [] = [[]]"
| "splitOn c (x # xs) =
     (if x = c then [] # splitOn c xs
      else case splitOn c xs of [] \<Rightarrow> [[x]] | y # ys \<Rightarrow> (x # y) # ys)"

fun joinWith :: "string \<Rightarrow> string list \<Rightarrow> string" where
  "joinWith sep [] = []"
| "joinWith sep [s] = s"
| "joinWith sep (s # t # ss) = s @ sep @ joinWith sep (t # ss)"

definition hasPrefix :: "string \<Rightarrow> string \<Rightarrow> bool" where
  "hasPrefix pre s \<longleftrightarrow> take (length pre) s = pre"

definition replaceByte :: "char \<Rightarrow> char \<Rightarrow> string \<Rightarrow> string" where
  "replaceByte a b s = map (\<lambda>c. if c = a then b else c) s"

fun containsText :: "string \<Rightarrow> string \<Rightarrow> bool" where
  "containsText [] sub \<longleftrightarrow> sub = []"
| "containsText (c # s) sub \<longleftrightarrow> hasPrefix sub (c # s) \<or> containsText s sub"

text \<open>\<open>strings.EqualFold\<close> on ASCII text: long s and the Kelvin sign fold to s and k.\<close>

fun foldCase :: "string \<Rightarrow> string" where
  "foldCase [] = []"
| "foldCase (c # s) =
     (if take 2 (map byte (c # s)) = [197, 191] then CHR ''s'' # foldCase (tl s)
      else if take 3 (map byte (c # s)) = [226, 132, 170] then CHR ''k'' # foldCase (tl (tl s))
      else lowerByte c # foldCase s)"

text \<open>The pattern \<open>^[A-Za-z_][A-Za-z0-9_]*$\<close>.\<close>

definition identStart :: "char \<Rightarrow> bool" where
  "identStart c \<longleftrightarrow> c = CHR ''_'' \<or> isAsciiLetter c"

definition identPart :: "char \<Rightarrow> bool" where
  "identPart c \<longleftrightarrow> identStart c \<or> isDigit c"

definition semanticIdentifier :: "string \<Rightarrow> bool" where
  "semanticIdentifier s \<longleftrightarrow> s \<noteq> [] \<and> identStart (hd s) \<and> list_all identPart (tl s)"

section \<open>Facts\<close>

lemma indexByte_Some: "indexByte c s = Some k \<Longrightarrow> k < length s \<and> s ! k = c \<and> c \<notin> set (take k s)"
  by (induction s arbitrary: k) (auto split: if_splits)

lemma indexByte_append: "c \<notin> set s \<Longrightarrow> indexByte c (s @ c # t) = Some (length s)"
  by (induction s) auto

lemma splitOn_Nil [simp]: "splitOn c s \<noteq> []"
  by (induction s) (auto split: list.split)

lemma splitOn_no_sep: "c \<notin> set s \<Longrightarrow> splitOn c s = [s]"
  by (induction s) auto

lemma splitOn_sep: "c \<notin> set s \<Longrightarrow> splitOn c (s @ c # t) = s # splitOn c t"
  by (induction s) auto

lemma splitOn_parts: "p \<in> set (splitOn c s) \<Longrightarrow> set p \<subseteq> set s \<and> c \<notin> set p"
  by (induction s arbitrary: p) (fastforce split: if_splits list.splits)+

lemma joinWith_splitOn: "joinWith [c] (splitOn c s) = s"
proof (induction s)
  case (Cons x s)
  then show ?case
    by (cases "splitOn c s"; cases "tl (splitOn c s)") (auto split: list.splits)
qed simp

lemma trimWith_id: "leadingSpace codes s = None \<Longrightarrow> trimWith codes s = s"
  by (simp add: trimWith.simps)

lemma leadingSpace_ascii:
  assumes "\<And>code. code \<in> set codes \<Longrightarrow> code \<noteq> [] \<and> (hd code \<ge> 128 \<or> hd code \<in> {9, 10, 11, 12, 13, 32})"
    and "s = [] \<or> byte (hd s) < 128 \<and> byte (hd s) \<notin> {9, 10, 11, 12, 13, 32}"
  shows "leadingSpace codes s = None"
proof -
  have "map byte (take (length code) s) \<noteq> code" if c: "code \<in> set codes" for code
  proof
    assume eq: "map byte (take (length code) s) = code"
    obtain x xs where code: "code = x # xs" using assms(1) [OF c] by (cases code) auto
    with eq have "s \<noteq> []" "byte (hd s) = x" by (cases s; auto)+
    with assms(1) [OF c] assms(2) code show False by auto
  qed
  then show ?thesis by (auto simp: leadingSpace_def find_None_iff)
qed

lemma trimSpace_id:
  assumes "s = [] \<or> (byte (hd s) < 128 \<and> byte (hd s) \<notin> {9, 10, 11, 12, 13, 32}
    \<and> byte (last s) < 128 \<and> byte (last s) \<notin> {9, 10, 11, 12, 13, 32})"
  shows "trimSpace s = s"
proof -
  have codes: "code \<in> set spaceCodes \<Longrightarrow> code \<noteq> [] \<and> (hd code \<ge> 128 \<or> hd code \<in> {9, 10, 11, 12, 13, 32})" for code
    by (auto simp: spaceCodes_def)
  have revs: "code \<in> set (map rev spaceCodes) \<Longrightarrow> code \<noteq> [] \<and> (hd code \<ge> 128 \<or> hd code \<in> {9, 10, 11, 12, 13, 32})" for code
    by (auto simp: spaceCodes_def)
  have "trimWith spaceCodes s = s"
    by (rule trimWith_id [OF leadingSpace_ascii [OF codes]]) (use assms in auto)
  moreover have "trimWith (map rev spaceCodes) (rev s) = rev s"
    by (rule trimWith_id [OF leadingSpace_ascii [OF revs]]) (use assms in \<open>auto simp: hd_rev\<close>)
  ultimately show ?thesis by (simp add: trimSpace_def)
qed

end
