(* ===== verification/Expr_Fuel.thy ===== *)
theory Expr_Fuel
  imports Expr_Parser
begin

text \<open>
  The parser is total: it only moves forward, \<open>parseFuel\<close> is enough, more fuel changes nothing. The
  fuel-free parsers \<open>pAdd\<close>, \<open>pMul\<close>, ... satisfy the recursive equations of the code
  (\<open>parser_equations\<close>), and further facts are proved from those.
\<close>

section \<open>The parser moves forward\<close>

definition forward :: "expressionParser \<Rightarrow> 'a presult \<Rightarrow> bool" where
  "forward p r \<longleftrightarrow> (\<forall>x q. r = Parsed x q \<longrightarrow> input q = input p \<and> pos p \<le> pos q
     \<and> (pos p \<le> length (input p) \<longrightarrow> pos q \<le> length (input q)))"

lemma advance_fields [simp]:
  "input (advance n p) = input p" "pos (advance n p) = pos p + n" "refs (advance n p) = refs p"
  "calls (advance n p) = calls p"
  by (simp_all add: advance_def)

lemma skipSpace_fields [simp]:
  "input (skipSpace p) = input p" "refs (skipSpace p) = refs p" "calls (skipSpace p) = calls p"
  "pos p \<le> pos (skipSpace p)"
  by (simp_all add: skipSpace_def)

lemma skipSpace_le: "pos p \<le> length (input p) \<Longrightarrow> pos (skipSpace p) \<le> length (input p)"
  using length_takeWhile_le [of isSpaceByte "rest p"] by (simp add: skipSpace_def rest_def)

lemma skipSpace_Suc [simp]: "pos p \<le> Suc (pos (skipSpace p))"
  using skipSpace_fields(4) le_SucI by blast

lemma peek_less: "peek c p \<Longrightarrow> pos p < length (input p)"
  by (simp add: peek_def)

lemma forward_simps [simp]: "forward p (Failed e)" "forward p OutOfFuel"
  by (simp_all add: forward_def)

lemma forward_Parsed: "input q = input p \<Longrightarrow> pos p \<le> pos q
    \<Longrightarrow> (pos p \<le> length (input p) \<Longrightarrow> pos q \<le> length (input p)) \<Longrightarrow> forward p (Parsed x q)"
  by (simp add: forward_def)

lemma forward_bind:
  assumes "forward q m" and "input q = input p" "pos p \<le> pos q"
    and "pos p \<le> length (input p) \<Longrightarrow> pos q \<le> length (input p)"
    and "\<And>x r. m = Parsed x r \<Longrightarrow> forward r (f x r)"
  shows "forward p (bindP m f)"
proof (cases m)
  case (Parsed x r)
  then have q: "input r = input q" "pos q \<le> pos r" "pos q \<le> length (input q) \<Longrightarrow> pos r \<le> length (input r)"
    using assms(1) by (auto simp: forward_def)
  have f: "forward r (f x r)" using assms(5) Parsed by simp
  have "forward p (f x r)"
    unfolding forward_def
  proof (intro allI impI)
    fix y u assume u: "f x r = Parsed y u"
    with f have "input u = input r" "pos r \<le> pos u" "pos r \<le> length (input r) \<Longrightarrow> pos u \<le> length (input u)"
      by (auto simp: forward_def)
    with q assms(2-4) show "input u = input p \<and> pos p \<le> pos u
        \<and> (pos p \<le> length (input p) \<longrightarrow> pos u \<le> length (input u))" by auto
  qed
  with Parsed show ?thesis by simp
qed simp_all

lemma forward_weaken:
  assumes "forward q r" "input q = input p" "pos p \<le> pos q"
    and "pos p \<le> length (input p) \<Longrightarrow> pos q \<le> length (input p)"
  shows "forward p r"
  using assms unfolding forward_def by fastforce

lemma scanNumber_le: "scanNumber d s \<le> length s"
  by (induction d s rule: scanNumber.induct) auto

lemma forward_number: "forward p (parseNumber fl p)"
  using scanNumber_le [of False "rest p"]
  by (auto simp: parseNumber_def Let_def rest_def intro!: forward_Parsed)

lemma forward_reference: "forward p (parseReference p)"
proof -
  have "k < length (input p) - (pos p + 2)"
    if "indexByte CHR ''}'' (drop (pos p + 2) (input p)) = Some k" for k
    using indexByte_Some [OF that] by simp
  then show ?thesis
    by (auto simp: parseReference_def Let_def split: option.split intro!: forward_Parsed)
qed

lemma forward_all:
  "forward p (parseAdditive fl n p)"
  "forward p (parseAddLoop fl n left p)"
  "forward p (parseMultiplicative fl n p)"
  "forward p (parseMulLoop fl n left p)"
  "forward p (parseUnary fl n p)"
  "forward p (parsePrimary fl n p)"
  "forward p (parseCall fl n p)"
  "forward p (parseArgs fl n args p)"
proof (induction fl n p and fl n left p and fl n p and fl n left p and fl n p and fl n p and fl n p and fl n args p
    rule: parseAdditive_parseAddLoop_parseMultiplicative_parseMulLoop_parseUnary_parsePrimary_parseCall_parseArgs.induct)
  case (4 fl n left p)
  then show ?case
    by (auto simp: Let_def intro!: forward_Parsed forward_bind [of "advance 1 (skipSpace p)"] skipSpace_le
        dest: peek_less skipSpace_le simp del: bindP.simps)
next
  case (8 fl n left p)
  then show ?case
    by (auto simp: Let_def intro!: forward_Parsed forward_bind [of "advance 1 (skipSpace p)"] skipSpace_le
        dest: peek_less skipSpace_le simp del: bindP.simps)
next
  case (10 fl n p)
  then show ?case
    by (auto simp: Let_def intro!: forward_Parsed forward_bind [of "advance 1 (skipSpace p)"] skipSpace_le
        intro: forward_weaken [of "skipSpace p"] dest: peek_less skipSpace_le simp del: bindP.simps)
next
  case (12 fl n p)
  let ?q = "skipSpace p"
  note w = forward_weaken [of ?q _ p, OF _ skipSpace_fields(1) skipSpace_fields(4) skipSpace_le]
  have ref: "forward p (parseReference ?q)" and num: "forward p (parseNumber fl ?q)"
    using w [OF forward_reference] w [OF forward_number] by simp_all
  have call: "forward p (parseCall fl n ?q)"
    if "\<not> length (input ?q) \<le> pos ?q" "\<not> peek CHR ''('' ?q" "\<not> hasPrefix ''${'' (rest ?q)"
      "\<not> (isDigit (input ?q ! pos ?q) \<or> input ?q ! pos ?q = CHR ''.'')" "isIdentifierStart (input ?q ! pos ?q)"
    using w [OF 12(2) [OF refl that]] by simp
  have paren: "forward p (bindP (parseAdditive fl n (advance 1 ?q))
      (\<lambda>node r0. let r = skipSpace r0 in
             if \<not> peek CHR '')'' r then Failed (MissingParenthesis (pos r + 1))
             else Parsed node (advance 1 r)))"
    if "\<not> length (input ?q) \<le> pos ?q" "peek CHR ''('' ?q"
    by (rule forward_bind [OF 12(1) [OF refl that]])
      (use that in \<open>auto simp: Let_def intro!: forward_Parsed dest: peek_less skipSpace_le\<close>)
  show ?case using ref num call paren by (auto simp: Let_def)
next
  case (14 fl n p)
  let ?i = "takeWhile isIdentifierPart (rest p)"
  let ?q = "skipSpace (advance (length ?i) p)"
  have le: "pos p \<le> length (input p) \<Longrightarrow> pos ?q \<le> length (input p)"
    using skipSpace_le [of "advance (length ?i) p"] length_takeWhile_le [of isIdentifierPart "rest p"]
    by (simp add: rest_def)
  have ge: "pos p \<le> pos ?q" using skipSpace_fields(4) [of "advance (length ?i) p"] by simp
  have step: "forward p (bindP (parseArgs fl n [] (advance 1 (?q\<lparr>calls := addSeen (calls ?q) (toLower ?i)\<rparr>))) f)"
    if "peek CHR ''('' ?q" "allowedArity (toLower ?i) = Some (lo, hi)" "\<And>x r. forward r (f x r)"
    for f :: "expressionNode list \<Rightarrow> expressionParser \<Rightarrow> expressionNode presult" and lo hi
    by (rule forward_bind [OF 14 [OF refl refl refl _ that(2) refl]])
      (use that ge in \<open>auto dest: peek_less\<close>)
  show ?case
  proof (cases "peek CHR ''('' ?q")
    case open_paren: True
    show ?thesis
    proof (cases "allowedArity (toLower ?i)")
      case None
      with open_paren show ?thesis by (simp add: Let_def)
    next
      case (Some b)
      obtain lo hi where "b = (lo, hi)" by (cases b)
      with Some have "allowedArity (toLower ?i) = Some (lo, hi)" by simp
      from step [OF open_paren this, where f = "\<lambda>args r. if length args < lo \<or> length args > hi
          then Failed (WrongArity (toLower ?i) lo hi) else Parsed (ECall (toLower ?i) args) r"]
      show ?thesis using open_paren \<open>allowedArity (toLower ?i) = Some (lo, hi)\<close>
        by (simp add: Let_def forward_Parsed)
    qed
  qed (simp add: Let_def)
next
  case (16 fl n args p)
  let ?q = "skipSpace p"
  have "forward p (bindP (parseAdditive fl n ?q)
      (\<lambda>arg r0. let r = skipSpace r0 in
           if peek CHR '','' r then parseArgs fl n (args @ [arg]) (advance 1 r)
           else if \<not> peek CHR '')'' r then Failed (ExpectedComma (pos r + 1))
           else Parsed (args @ [arg]) (advance 1 r)))" if np: "\<not> peek CHR '')'' ?q"
  proof (rule forward_bind [OF 16(1) [OF refl np]])
    fix x r0
    assume "parseAdditive fl n ?q = Parsed x r0"
    show "forward r0 (let r = skipSpace r0 in
           if peek CHR '','' r then parseArgs fl n (args @ [x]) (advance 1 r)
           else if \<not> peek CHR '')'' r then Failed (ExpectedComma (pos r + 1))
           else Parsed (args @ [x]) (advance 1 r))"
    proof (cases "peek CHR '','' (skipSpace r0)")
      case True
      have "forward r0 (parseArgs fl n (args @ [x]) (advance 1 (skipSpace r0)))"
        by (rule forward_weaken [of "advance 1 (skipSpace r0)" _ r0, OF 16(2) [OF refl np refl True]])
          (use True in \<open>auto dest: peek_less\<close>)
      with True show ?thesis by (simp add: Let_def)
    next
      case False
      then show ?thesis by (auto simp: Let_def intro!: forward_Parsed dest: peek_less)
    qed
  qed (auto intro: skipSpace_le)
  then show ?case by (auto simp: Let_def intro!: forward_Parsed dest: peek_less)
qed (auto intro: forward_bind)

section \<open>The fuel is enough\<close>

definition room :: "expressionParser \<Rightarrow> nat" where
  "room p = length (input p) - pos p"

lemma room_simps [simp]: "room (advance n p) = room p - n" "room (p\<lparr>calls := cs\<rparr>) = room p"
  by (simp_all add: room_def)

lemma room_skipSpace [simp]: "room (skipSpace p) \<le> room p"
  using skipSpace_fields(4) [of p] by (simp add: room_def diff_le_mono2)

lemma room_peek: "peek c p \<Longrightarrow> 0 < room p"
  by (simp add: peek_def room_def)

lemma room_peek_skip: "peek c (skipSpace p) \<Longrightarrow> room (skipSpace p) - 1 < room p"
  using room_peek [of c "skipSpace p"] room_skipSpace [of p] by linarith

lemma forward_room: "forward p (Parsed x q) \<Longrightarrow> room q \<le> room p"
  by (simp add: forward_def room_def diff_le_mono2)

lemma bindP_fueled:
  "m \<noteq> OutOfFuel \<Longrightarrow> (\<And>x r. m = Parsed x r \<Longrightarrow> f x r \<noteq> OutOfFuel) \<Longrightarrow> bindP m f \<noteq> OutOfFuel"
  by (cases m) auto

lemma bindP_OutOfFuel: "bindP m f = OutOfFuel \<longleftrightarrow> m = OutOfFuel \<or> (\<exists>x r. m = Parsed x r \<and> f x r = OutOfFuel)"
  by (cases m) auto

lemmas result_room =
  forward_all(1) [THEN forward_room [OF subst [where P = "forward _", rotated]]]
  forward_all(3) [THEN forward_room [OF subst [where P = "forward _", rotated]]]
  forward_all(5) [THEN forward_room [OF subst [where P = "forward _", rotated]]]

lemma parse_fueled:
  "6 * room p + 4 \<le> n \<Longrightarrow> parseAdditive fl n p \<noteq> OutOfFuel"
  "6 * room p + 1 \<le> n \<Longrightarrow> parseAddLoop fl n left p \<noteq> OutOfFuel"
  "6 * room p + 3 \<le> n \<Longrightarrow> parseMultiplicative fl n p \<noteq> OutOfFuel"
  "6 * room p + 1 \<le> n \<Longrightarrow> parseMulLoop fl n left p \<noteq> OutOfFuel"
  "6 * room p + 2 \<le> n \<Longrightarrow> parseUnary fl n p \<noteq> OutOfFuel"
  "6 * room p + 1 \<le> n \<Longrightarrow> parsePrimary fl n p \<noteq> OutOfFuel"
  "6 * room p \<le> n \<Longrightarrow> 0 < room p \<Longrightarrow> parseCall fl n p \<noteq> OutOfFuel"
  "6 * room p + 5 \<le> n \<Longrightarrow> parseArgs fl n args p \<noteq> OutOfFuel"
proof (induction fl n p and fl n left p and fl n p and fl n left p and fl n p and fl n p and fl n p and fl n args p
    rule: parseAdditive_parseAddLoop_parseMultiplicative_parseMulLoop_parseUnary_parsePrimary_parseCall_parseArgs.induct)
  case (2 fl n p)
  show ?case
    unfolding parseAdditive.simps
  proof (rule bindP_fueled)
    show "parseMultiplicative fl n p \<noteq> OutOfFuel" using 2 by simp
    fix x r assume "parseMultiplicative fl n p = Parsed x r"
    from result_room(2) [OF this] 2 show "parseAddLoop fl n x r \<noteq> OutOfFuel" by simp
  qed
next
  case (4 fl n left p)
  let ?q = "skipSpace p"
  show ?case
  proof (cases "\<not> peek CHR ''+'' ?q \<and> \<not> peek CHR ''-'' ?q")
    case True
    then show ?thesis by simp
  next
    case False
    then have less: "room ?q - 1 < room p" using room_peek_skip by blast
    have "bindP (parseMultiplicative fl n (advance 1 ?q))
        (\<lambda>right r. parseAddLoop fl n (EBinary (input ?q ! pos ?q) left right) r) \<noteq> OutOfFuel"
    proof (rule bindP_fueled)
      show "parseMultiplicative fl n (advance 1 ?q) \<noteq> OutOfFuel"
        by (rule 4(1) [OF refl False]) (use 4(3) less in simp)
      fix x r assume x: "parseMultiplicative fl n (advance 1 ?q) = Parsed x r"
      show "parseAddLoop fl n (EBinary (input ?q ! pos ?q) left x) r \<noteq> OutOfFuel"
        by (rule 4(2) [OF refl False]) (use result_room(2) [OF x] 4(3) less in simp)
    qed
    then show ?thesis unfolding parseAddLoop.simps Let_def if_not_P [OF False] .
  qed
next
  case (6 fl n p)
  show ?case
    unfolding parseMultiplicative.simps
  proof (rule bindP_fueled)
    show "parseUnary fl n p \<noteq> OutOfFuel" using 6 by simp
    fix x r assume "parseUnary fl n p = Parsed x r"
    from result_room(3) [OF this] 6 show "parseMulLoop fl n x r \<noteq> OutOfFuel" by simp
  qed
next
  case (8 fl n left p)
  let ?q = "skipSpace p"
  show ?case
  proof (cases "\<not> peek CHR ''*'' ?q \<and> \<not> peek CHR ''/'' ?q")
    case True
    then show ?thesis by simp
  next
    case False
    then have less: "room ?q - 1 < room p" using room_peek_skip by blast
    have "bindP (parseUnary fl n (advance 1 ?q))
        (\<lambda>right r. parseMulLoop fl n (EBinary (input ?q ! pos ?q) left right) r) \<noteq> OutOfFuel"
    proof (rule bindP_fueled)
      show "parseUnary fl n (advance 1 ?q) \<noteq> OutOfFuel"
        by (rule 8(1) [OF refl False]) (use 8(3) less in simp)
      fix x r assume x: "parseUnary fl n (advance 1 ?q) = Parsed x r"
      show "parseMulLoop fl n (EBinary (input ?q ! pos ?q) left x) r \<noteq> OutOfFuel"
        by (rule 8(2) [OF refl False]) (use result_room(3) [OF x] 8(3) less in simp)
    qed
    then show ?thesis unfolding parseMulLoop.simps Let_def if_not_P [OF False] .
  qed
next
  case (10 fl n p)
  let ?q = "skipSpace p"
  show ?case
  proof (cases "peek CHR ''+'' ?q \<or> peek CHR ''-'' ?q")
    case True
    then have less: "room ?q - 1 < room p" using room_peek_skip by blast
    have "parseUnary fl n (advance 1 ?q) \<noteq> OutOfFuel"
      by (rule 10(1) [OF refl True]) (use 10(3) less in simp)
    then have "bindP (parseUnary fl n (advance 1 ?q)) (\<lambda>node r. Parsed (EUnary (input ?q ! pos ?q) node) r) \<noteq> OutOfFuel"
      by (rule bindP_fueled) simp
    then show ?thesis unfolding parseUnary.simps Let_def if_P [OF True] .
  next
    case False
    have "parsePrimary fl n ?q \<noteq> OutOfFuel"
      by (rule 10(2) [OF refl False]) (use 10(3) room_skipSpace [of p] in linarith)
    then show ?thesis unfolding parseUnary.simps Let_def if_not_P [OF False] .
  qed
next
  case (12 fl n p)
  let ?q = "skipSpace p"
  have ref: "parseReference ?q \<noteq> OutOfFuel" and num: "parseNumber fl ?q \<noteq> OutOfFuel"
    by (auto simp: parseReference_def parseNumber_def Let_def split: option.split)
  have call: "parseCall fl n ?q \<noteq> OutOfFuel"
    if "\<not> length (input ?q) \<le> pos ?q" "\<not> peek CHR ''('' ?q" "\<not> hasPrefix ''${'' (rest ?q)"
      "\<not> (isDigit (input ?q ! pos ?q) \<or> input ?q ! pos ?q = CHR ''.'')" "isIdentifierStart (input ?q ! pos ?q)"
  proof (rule 12(2) [OF refl that])
    show "6 * room ?q \<le> n" using 12(3) room_skipSpace [of p] by linarith
    show "0 < room ?q" using that(1) by (simp add: room_def)
  qed
  have paren: "bindP (parseAdditive fl n (advance 1 ?q))
      (\<lambda>node r0. let r = skipSpace r0 in
             if \<not> peek CHR '')'' r then Failed (MissingParenthesis (pos r + 1))
             else Parsed node (advance 1 r)) \<noteq> OutOfFuel"
    if "\<not> length (input ?q) \<le> pos ?q" "peek CHR ''('' ?q"
    by (rule bindP_fueled [OF 12(1) [OF refl that]])
      (use 12(3) room_peek_skip [OF that(2)] in \<open>auto simp: Let_def\<close>)
  show ?case using ref num call paren by (auto simp: Let_def)
next
  case (14 fl n p)
  let ?i = "takeWhile isIdentifierPart (rest p)"
  let ?q = "skipSpace (advance (length ?i) p)"
  have q: "room ?q \<le> room p" using room_skipSpace [of "advance (length ?i) p"] by simp
  have step: "parseArgs fl n [] (advance 1 (?q\<lparr>calls := addSeen (calls ?q) (toLower ?i)\<rparr>)) \<noteq> OutOfFuel"
    if "peek CHR ''('' ?q" "allowedArity (toLower ?i) = Some (lo, hi)" for lo hi
    by (rule 14(1) [OF refl refl refl _ that(2) refl])
      (use that(1) q 14(2,3) room_peek [OF that(1)] in auto)
  show ?case
  proof (cases "peek CHR ''('' ?q")
    case open_paren: True
    show ?thesis
      using step [OF open_paren] open_paren
      by (auto simp: Let_def bindP_OutOfFuel split: option.split)
  qed (simp add: Let_def)
next
  case (16 fl n args p)
  let ?q = "skipSpace p"
  show ?case
  proof (cases "peek CHR '')'' ?q")
    case True
    then show ?thesis by simp
  next
    case np: False
    have "bindP (parseAdditive fl n ?q)
      (\<lambda>arg r0. let r = skipSpace r0 in
           if peek CHR '','' r then parseArgs fl n (args @ [arg]) (advance 1 r)
           else if \<not> peek CHR '')'' r then Failed (ExpectedComma (pos r + 1))
           else Parsed (args @ [arg]) (advance 1 r)) \<noteq> OutOfFuel"
    proof (rule bindP_fueled)
      show "parseAdditive fl n ?q \<noteq> OutOfFuel"
        by (rule 16(1) [OF refl np]) (use 16(3) room_skipSpace [of p] in linarith)
      fix x r0 assume x: "parseAdditive fl n ?q = Parsed x r0"
      have r0: "room r0 \<le> room p" using result_room(1) [OF x] room_skipSpace [of p] by linarith
      show "(let r = skipSpace r0 in
           if peek CHR '','' r then parseArgs fl n (args @ [x]) (advance 1 r)
           else if \<not> peek CHR '')'' r then Failed (ExpectedComma (pos r + 1))
           else Parsed (args @ [x]) (advance 1 r)) \<noteq> OutOfFuel"
      proof (cases "peek CHR '','' (skipSpace r0)")
        case True
        have "parseArgs fl n (args @ [x]) (advance 1 (skipSpace r0)) \<noteq> OutOfFuel"
          by (rule 16(2) [OF refl np refl True]) (use 16(3) r0 room_peek_skip [OF True] in simp)
        with True show ?thesis by (simp add: Let_def)
      qed (simp add: Let_def)
    qed
    then show ?thesis unfolding parseArgs.simps Let_def if_not_P [OF np] .
  qed
qed auto


section \<open>More fuel changes nothing\<close>

lemma bindP_mono:
  assumes "bindP m f \<noteq> OutOfFuel" and "m \<noteq> OutOfFuel \<Longrightarrow> m' = m"
    and "\<And>x r. m = Parsed x r \<Longrightarrow> f x r \<noteq> OutOfFuel \<Longrightarrow> f' x r = f x r"
  shows "bindP m' f' = bindP m f"
  using assms by (cases m) auto

lemma parse_more_fuel:
  "parseAdditive fl n p \<noteq> OutOfFuel \<Longrightarrow> parseAdditive fl (Suc n) p = parseAdditive fl n p"
  "parseAddLoop fl n left p \<noteq> OutOfFuel \<Longrightarrow> parseAddLoop fl (Suc n) left p = parseAddLoop fl n left p"
  "parseMultiplicative fl n p \<noteq> OutOfFuel \<Longrightarrow> parseMultiplicative fl (Suc n) p = parseMultiplicative fl n p"
  "parseMulLoop fl n left p \<noteq> OutOfFuel \<Longrightarrow> parseMulLoop fl (Suc n) left p = parseMulLoop fl n left p"
  "parseUnary fl n p \<noteq> OutOfFuel \<Longrightarrow> parseUnary fl (Suc n) p = parseUnary fl n p"
  "parsePrimary fl n p \<noteq> OutOfFuel \<Longrightarrow> parsePrimary fl (Suc n) p = parsePrimary fl n p"
  "parseCall fl n p \<noteq> OutOfFuel \<Longrightarrow> parseCall fl (Suc n) p = parseCall fl n p"
  "parseArgs fl n args p \<noteq> OutOfFuel \<Longrightarrow> parseArgs fl (Suc n) args p = parseArgs fl n args p"
proof (induction fl n p and fl n left p and fl n p and fl n left p and fl n p and fl n p and fl n p and fl n args p
    rule: parseAdditive_parseAddLoop_parseMultiplicative_parseMulLoop_parseUnary_parsePrimary_parseCall_parseArgs.induct)
  case (2 fl n p)
  have "bindP (parseMultiplicative fl (Suc n) p) (\<lambda>left q. parseAddLoop fl (Suc n) left q)
      = bindP (parseMultiplicative fl n p) (\<lambda>left q. parseAddLoop fl n left q)"
    by (rule bindP_mono) (use 2 in auto)
  then show ?case unfolding parseAdditive.simps .
next
  case (4 fl n left p)
  let ?q = "skipSpace p"
  show ?case
  proof (cases "\<not> peek CHR ''+'' ?q \<and> \<not> peek CHR ''-'' ?q")
    case False
    have "bindP (parseMultiplicative fl (Suc n) (advance 1 ?q))
          (\<lambda>right r. parseAddLoop fl (Suc n) (EBinary (input ?q ! pos ?q) left right) r)
        = bindP (parseMultiplicative fl n (advance 1 ?q))
          (\<lambda>right r. parseAddLoop fl n (EBinary (input ?q ! pos ?q) left right) r)"
      by (rule bindP_mono)
        (use 4(1) [OF refl False] 4(2) [OF refl False] 4(3) False in \<open>auto simp: Let_def\<close>)
    then show ?thesis unfolding parseAddLoop.simps Let_def if_not_P [OF False] .
  qed simp
next
  case (6 fl n p)
  have "bindP (parseUnary fl (Suc n) p) (\<lambda>left q. parseMulLoop fl (Suc n) left q)
      = bindP (parseUnary fl n p) (\<lambda>left q. parseMulLoop fl n left q)"
    by (rule bindP_mono) (use 6 in auto)
  then show ?case unfolding parseMultiplicative.simps .
next
  case (8 fl n left p)
  let ?q = "skipSpace p"
  show ?case
  proof (cases "\<not> peek CHR ''*'' ?q \<and> \<not> peek CHR ''/'' ?q")
    case False
    have "bindP (parseUnary fl (Suc n) (advance 1 ?q))
          (\<lambda>right r. parseMulLoop fl (Suc n) (EBinary (input ?q ! pos ?q) left right) r)
        = bindP (parseUnary fl n (advance 1 ?q))
          (\<lambda>right r. parseMulLoop fl n (EBinary (input ?q ! pos ?q) left right) r)"
      by (rule bindP_mono)
        (use 8(1) [OF refl False] 8(2) [OF refl False] 8(3) False in \<open>auto simp: Let_def\<close>)
    then show ?thesis unfolding parseMulLoop.simps Let_def if_not_P [OF False] .
  qed simp
next
  case (10 fl n p)
  let ?q = "skipSpace p"
  show ?case
  proof (cases "peek CHR ''+'' ?q \<or> peek CHR ''-'' ?q")
    case True
    have "bindP (parseUnary fl (Suc n) (advance 1 ?q)) (\<lambda>node r. Parsed (EUnary (input ?q ! pos ?q) node) r)
        = bindP (parseUnary fl n (advance 1 ?q)) (\<lambda>node r. Parsed (EUnary (input ?q ! pos ?q) node) r)"
      by (rule bindP_mono) (use 10(1) [OF refl True] 10(3) True in \<open>auto simp: Let_def\<close>)
    then show ?thesis unfolding parseUnary.simps Let_def if_P [OF True] .
  next
    case False
    have "parsePrimary fl (Suc n) ?q = parsePrimary fl n ?q"
      by (rule 10(2) [OF refl False]) (use 10(3) False in \<open>simp add: Let_def\<close>)
    then show ?thesis unfolding parseUnary.simps Let_def if_not_P [OF False] .
  qed
next
  case (12 fl n p)
  let ?q = "skipSpace p"
  let ?k = "\<lambda>node r0. let r = skipSpace r0 in
             if \<not> peek CHR '')'' r then Failed (MissingParenthesis (pos r + 1))
             else Parsed node (advance 1 r)"
  have call: "parseCall fl (Suc n) ?q = parseCall fl n ?q"
    if "\<not> length (input ?q) \<le> pos ?q" "\<not> peek CHR ''('' ?q" "\<not> hasPrefix ''${'' (rest ?q)"
      "\<not> (isDigit (input ?q ! pos ?q) \<or> input ?q ! pos ?q = CHR ''.'')" "isIdentifierStart (input ?q ! pos ?q)"
    by (rule 12(2) [OF refl that]) (use 12(3) that in \<open>simp add: Let_def\<close>)
  have paren: "bindP (parseAdditive fl (Suc n) (advance 1 ?q)) ?k = bindP (parseAdditive fl n (advance 1 ?q)) ?k"
    if "\<not> length (input ?q) \<le> pos ?q" "peek CHR ''('' ?q"
    by (rule bindP_mono) (use 12(1) [OF refl that] 12(3) that in \<open>auto simp: Let_def\<close>)
  show ?case using call paren by (auto simp: Let_def)
next
  case (14 fl n p)
  let ?i = "takeWhile isIdentifierPart (rest p)"
  let ?q = "skipSpace (advance (length ?i) p)"
  let ?a = "advance 1 (?q\<lparr>calls := addSeen (calls ?q) (toLower ?i)\<rparr>)"
  show ?case
  proof (cases "peek CHR ''('' ?q")
    case open_paren: True
    show ?thesis
    proof (cases "allowedArity (toLower ?i)")
      case (Some b)
      obtain lo hi where b: "b = (lo, hi)" by (cases b)
      let ?k = "\<lambda>args r. if length args < lo \<or> length args > hi then Failed (WrongArity (toLower ?i) lo hi)
                       else Parsed (ECall (toLower ?i) args) r"
      have "bindP (parseArgs fl n [] ?a) ?k \<noteq> OutOfFuel"
        using 14(2) open_paren Some b by (simp add: Let_def)
      then have "bindP (parseArgs fl (Suc n) [] ?a) ?k = bindP (parseArgs fl n [] ?a) ?k"
        by (rule bindP_mono)
          (use 14(1) [OF refl refl refl _ Some b [symmetric]] open_paren in auto)
      then show ?thesis using open_paren Some b by (simp add: Let_def)
    qed (use open_paren in \<open>simp add: Let_def\<close>)
  qed (simp add: Let_def)
next
  case (16 fl n args p)
  let ?q = "skipSpace p"
  let ?k = "\<lambda>m arg r0. let r = skipSpace r0 in
           if peek CHR '','' r then parseArgs fl m (args @ [arg]) (advance 1 r)
           else if \<not> peek CHR '')'' r then Failed (ExpectedComma (pos r + 1))
           else Parsed (args @ [arg]) (advance 1 r)"
  show ?case
  proof (cases "peek CHR '')'' ?q")
    case np: False
    have "bindP (parseAdditive fl n ?q) (?k n) \<noteq> OutOfFuel" using 16(3) np by (simp add: Let_def)
    then have "bindP (parseAdditive fl (Suc n) ?q) (?k (Suc n)) = bindP (parseAdditive fl n ?q) (?k n)"
    proof (rule bindP_mono)
      fix x r0
      assume "?k n x r0 \<noteq> OutOfFuel"
      then show "?k (Suc n) x r0 = ?k n x r0"
        using 16(2) [OF refl np refl, of r0 x] by (auto simp: Let_def)
    qed (rule 16(1) [OF refl np])
    then show ?thesis unfolding parseArgs.simps Let_def if_not_P [OF np] .
  qed simp
qed auto


lemma fuel_le:
  assumes "\<And>k. f k \<noteq> OutOfFuel \<Longrightarrow> f (Suc k) = f k" and "f n \<noteq> OutOfFuel" and "n \<le> m"
  shows "f m = f n"
  using assms(3,2)
proof (induction m rule: dec_induct)
  case (step k)
  then show ?case using assms(1) by simp
qed simp

lemma parse_stable:
  "parseAdditive fl n p \<noteq> OutOfFuel \<Longrightarrow> n \<le> m \<Longrightarrow> parseAdditive fl m p = parseAdditive fl n p"
  "parseAddLoop fl n left p \<noteq> OutOfFuel \<Longrightarrow> n \<le> m \<Longrightarrow> parseAddLoop fl m left p = parseAddLoop fl n left p"
  "parseMultiplicative fl n p \<noteq> OutOfFuel \<Longrightarrow> n \<le> m \<Longrightarrow> parseMultiplicative fl m p = parseMultiplicative fl n p"
  "parseMulLoop fl n left p \<noteq> OutOfFuel \<Longrightarrow> n \<le> m \<Longrightarrow> parseMulLoop fl m left p = parseMulLoop fl n left p"
  "parseUnary fl n p \<noteq> OutOfFuel \<Longrightarrow> n \<le> m \<Longrightarrow> parseUnary fl m p = parseUnary fl n p"
  "parsePrimary fl n p \<noteq> OutOfFuel \<Longrightarrow> n \<le> m \<Longrightarrow> parsePrimary fl m p = parsePrimary fl n p"
  "parseCall fl n p \<noteq> OutOfFuel \<Longrightarrow> n \<le> m \<Longrightarrow> parseCall fl m p = parseCall fl n p"
  "parseArgs fl n args p \<noteq> OutOfFuel \<Longrightarrow> n \<le> m \<Longrightarrow> parseArgs fl m args p = parseArgs fl n args p"
  by - ((rule fuel_le [of "\<lambda>k. parseAdditive fl k p", OF parse_more_fuel(1)]
      fuel_le [of "\<lambda>k. parseAddLoop fl k left p", OF parse_more_fuel(2)]
      fuel_le [of "\<lambda>k. parseMultiplicative fl k p", OF parse_more_fuel(3)]
      fuel_le [of "\<lambda>k. parseMulLoop fl k left p", OF parse_more_fuel(4)]
      fuel_le [of "\<lambda>k. parseUnary fl k p", OF parse_more_fuel(5)]
      fuel_le [of "\<lambda>k. parsePrimary fl k p", OF parse_more_fuel(6)]
      fuel_le [of "\<lambda>k. parseCall fl k p", OF parse_more_fuel(7)]
      fuel_le [of "\<lambda>k. parseArgs fl k args p", OF parse_more_fuel(8)]); assumption)+

section \<open>The parser without fuel\<close>

definition pAdd where "pAdd fl p = parseAdditive fl (6 * room p + 4) p"
definition pAddLoop where "pAddLoop fl left p = parseAddLoop fl (6 * room p + 1) left p"
definition pMul where "pMul fl p = parseMultiplicative fl (6 * room p + 3) p"
definition pMulLoop where "pMulLoop fl left p = parseMulLoop fl (6 * room p + 1) left p"
definition pUnary where "pUnary fl p = parseUnary fl (6 * room p + 2) p"
definition pPrimary where "pPrimary fl p = parsePrimary fl (6 * room p + 1) p"
definition pCall where "pCall fl p = parseCall fl (6 * room p) p"
definition pArgs where "pArgs fl args p = parseArgs fl (6 * room p + 5) args p"

lemma parse_fuel_enough:
  "6 * room p + 4 \<le> n \<Longrightarrow> parseAdditive fl n p = pAdd fl p"
  "6 * room p + 1 \<le> n \<Longrightarrow> parseAddLoop fl n left p = pAddLoop fl left p"
  "6 * room p + 3 \<le> n \<Longrightarrow> parseMultiplicative fl n p = pMul fl p"
  "6 * room p + 1 \<le> n \<Longrightarrow> parseMulLoop fl n left p = pMulLoop fl left p"
  "6 * room p + 2 \<le> n \<Longrightarrow> parseUnary fl n p = pUnary fl p"
  "6 * room p + 1 \<le> n \<Longrightarrow> parsePrimary fl n p = pPrimary fl p"
  "0 < room p \<Longrightarrow> 6 * room p \<le> n \<Longrightarrow> parseCall fl n p = pCall fl p"
  "6 * room p + 5 \<le> n \<Longrightarrow> parseArgs fl n args p = pArgs fl args p"
  unfolding pAdd_def pAddLoop_def pMul_def pMulLoop_def pUnary_def pPrimary_def pCall_def pArgs_def
  by - ((rule parse_stable, rule parse_fueled, simp_all)[1])+

lemma parser_room:
  "pAdd fl p = Parsed x r \<Longrightarrow> room r \<le> room p"
  "pMul fl p = Parsed x r \<Longrightarrow> room r \<le> room p"
  "pUnary fl p = Parsed x r \<Longrightarrow> room r \<le> room p"
  unfolding pAdd_def pMul_def pUnary_def by (rule result_room; assumption)+

declare parseAdditive.simps [simp del] parseAddLoop.simps [simp del] parseMultiplicative.simps [simp del]
  parseMulLoop.simps [simp del] parseUnary.simps [simp del] parsePrimary.simps [simp del]
  parseCall.simps [simp del] parseArgs.simps [simp del]

lemma bindP_cong:
  assumes "m = m'" and "\<And>x r. m' = Parsed x r \<Longrightarrow> f x r = g x r"
  shows "bindP m f = bindP m' g"
  using assms by (cases m') auto

lemma pAdd_eq: "pAdd fl p = bindP (pMul fl p) (pAddLoop fl)"
proof -
  have "pAdd fl p = parseAdditive fl (Suc (6 * room p + 3)) p"
    by (rule parse_fuel_enough [symmetric]) simp
  also have "\<dots> = bindP (pMul fl p) (pAddLoop fl)"
    unfolding parseAdditive.simps
  proof (rule bindP_cong)
    fix x r assume "pMul fl p = Parsed x r"
    then have "room r \<le> room p" by (rule parser_room)
    then show "parseAddLoop fl (6 * room p + 3) x r = pAddLoop fl x r" by (simp add: parse_fuel_enough)
  qed (simp add: parse_fuel_enough)
  finally show ?thesis .
qed

lemma pMul_eq: "pMul fl p = bindP (pUnary fl p) (pMulLoop fl)"
proof -
  have "pMul fl p = parseMultiplicative fl (Suc (6 * room p + 2)) p"
    by (rule parse_fuel_enough [symmetric]) simp
  also have "\<dots> = bindP (pUnary fl p) (pMulLoop fl)"
    unfolding parseMultiplicative.simps
  proof (rule bindP_cong)
    fix x r assume "pUnary fl p = Parsed x r"
    then have "room r \<le> room p" by (rule parser_room)
    then show "parseMulLoop fl (6 * room p + 2) x r = pMulLoop fl x r" by (simp add: parse_fuel_enough)
  qed (simp add: parse_fuel_enough)
  finally show ?thesis .
qed

lemma pAddLoop_eq:
  "pAddLoop fl left p =
     (let q = skipSpace p in
      if \<not> peek CHR ''+'' q \<and> \<not> peek CHR ''-'' q then Parsed left q
      else bindP (pMul fl (advance 1 q)) (\<lambda>right. pAddLoop fl (EBinary (input q ! pos q) left right)))"
proof -
  let ?q = "skipSpace p"
  have "pAddLoop fl left p = parseAddLoop fl (Suc (6 * room p)) left p"
    by (rule parse_fuel_enough [symmetric]) simp
  moreover have "bindP (parseMultiplicative fl (6 * room p) (advance 1 ?q))
             (\<lambda>right r. parseAddLoop fl (6 * room p) (EBinary (input ?q ! pos ?q) left right) r)
       = bindP (pMul fl (advance 1 ?q)) (\<lambda>right. pAddLoop fl (EBinary (input ?q ! pos ?q) left right))"
    if "peek c ?q" for c
  proof (rule bindP_cong)
    have less: "room ?q - 1 < room p" by (rule room_peek_skip [OF that])
    then show "parseMultiplicative fl (6 * room p) (advance 1 ?q) = pMul fl (advance 1 ?q)"
      by (simp add: parse_fuel_enough)
    fix x r assume "pMul fl (advance 1 ?q) = Parsed x r"
    then have "room r \<le> room ?q - 1" using parser_room [of fl "advance 1 ?q"] by simp
    with less show "parseAddLoop fl (6 * room p) (EBinary (input ?q ! pos ?q) left x) r
        = pAddLoop fl (EBinary (input ?q ! pos ?q) left x) r" by (simp add: parse_fuel_enough)
  qed
  ultimately show ?thesis by (auto simp: Let_def parseAddLoop.simps)
qed

lemma pMulLoop_eq:
  "pMulLoop fl left p =
     (let q = skipSpace p in
      if \<not> peek CHR ''*'' q \<and> \<not> peek CHR ''/'' q then Parsed left q
      else bindP (pUnary fl (advance 1 q)) (\<lambda>right. pMulLoop fl (EBinary (input q ! pos q) left right)))"
proof -
  let ?q = "skipSpace p"
  have "pMulLoop fl left p = parseMulLoop fl (Suc (6 * room p)) left p"
    by (rule parse_fuel_enough [symmetric]) simp
  moreover have "bindP (parseUnary fl (6 * room p) (advance 1 ?q))
             (\<lambda>right r. parseMulLoop fl (6 * room p) (EBinary (input ?q ! pos ?q) left right) r)
       = bindP (pUnary fl (advance 1 ?q)) (\<lambda>right. pMulLoop fl (EBinary (input ?q ! pos ?q) left right))"
    if "peek c ?q" for c
  proof (rule bindP_cong)
    have less: "room ?q - 1 < room p" by (rule room_peek_skip [OF that])
    then show "parseUnary fl (6 * room p) (advance 1 ?q) = pUnary fl (advance 1 ?q)"
      by (simp add: parse_fuel_enough)
    fix x r assume "pUnary fl (advance 1 ?q) = Parsed x r"
    then have "room r \<le> room ?q - 1" using parser_room [of fl "advance 1 ?q"] by simp
    with less show "parseMulLoop fl (6 * room p) (EBinary (input ?q ! pos ?q) left x) r
        = pMulLoop fl (EBinary (input ?q ! pos ?q) left x) r" by (simp add: parse_fuel_enough)
  qed
  ultimately show ?thesis by (auto simp: Let_def parseMulLoop.simps)
qed

lemma pUnary_eq:
  "pUnary fl p =
     (let q = skipSpace p in
      if peek CHR ''+'' q \<or> peek CHR ''-'' q
      then bindP (pUnary fl (advance 1 q)) (\<lambda>node r. Parsed (EUnary (input q ! pos q) node) r)
      else pPrimary fl q)"
proof -
  let ?q = "skipSpace p"
  have "pUnary fl p = parseUnary fl (Suc (6 * room p + 1)) p"
    by (rule parse_fuel_enough [symmetric]) simp
  moreover have "parseUnary fl (6 * room p + 1) (advance 1 ?q) = pUnary fl (advance 1 ?q)" if "peek c ?q" for c
    using room_peek_skip [OF that] by (simp add: parse_fuel_enough)
  moreover have "parsePrimary fl (6 * room p + 1) ?q = pPrimary fl ?q"
    using room_skipSpace [of p] by (simp add: parse_fuel_enough)
  ultimately show ?thesis by (auto simp: Let_def parseUnary.simps)
qed

lemma pPrimary_eq:
  "pPrimary fl p =
     (let q = skipSpace p in
      if pos q \<ge> length (input q) then Failed UnexpectedEnd
      else if peek CHR ''('' q then
        bindP (pAdd fl (advance 1 q))
          (\<lambda>node r0. let r = skipSpace r0 in
             if \<not> peek CHR '')'' r then Failed (MissingParenthesis (pos r + 1))
             else Parsed node (advance 1 r))
      else if hasPrefix ''${'' (rest q) then parseReference q
      else if isDigit (input q ! pos q) \<or> input q ! pos q = CHR ''.'' then parseNumber fl q
      else if isIdentifierStart (input q ! pos q) then pCall fl q
      else Failed (UnexpectedCharacter (input q ! pos q) (pos q + 1)))"
proof -
  let ?q = "skipSpace p"
  have "pPrimary fl p = parsePrimary fl (Suc (6 * room p)) p"
    by (rule parse_fuel_enough [symmetric]) simp
  moreover have "parseAdditive fl (6 * room p) (advance 1 ?q) = pAdd fl (advance 1 ?q)" if "peek c ?q" for c
    using room_peek_skip [OF that] by (simp add: parse_fuel_enough)
  moreover have "parseCall fl (6 * room p) ?q = pCall fl ?q" if "\<not> length (input ?q) \<le> pos ?q"
    using that room_skipSpace [of p] by (simp add: parse_fuel_enough room_def)
  ultimately show ?thesis by (simp add: Let_def parsePrimary.simps)
qed

lemma pCall_eq:
  assumes "0 < room p"
  shows "pCall fl p =
     (let ident = takeWhile isIdentifierPart (rest p); fname = toLower ident;
          q = skipSpace (advance (length ident) p) in
      if \<not> peek CHR ''('' q then Failed BareIdentifier
      else case allowedArity fname of
        None \<Rightarrow> Failed UnsupportedFunction
      | Some (lo, hi) \<Rightarrow>
          bindP (pArgs fl [] (advance 1 (q\<lparr>calls := addSeen (calls q) fname\<rparr>)))
            (\<lambda>args r. if length args < lo \<or> length args > hi then Failed (WrongArity fname lo hi)
                       else Parsed (ECall fname args) r))"
proof -
  let ?i = "takeWhile isIdentifierPart (rest p)"
  let ?q = "skipSpace (advance (length ?i) p)"
  obtain k where k: "6 * room p = Suc k" using assms by (cases "6 * room p") auto
  have "pCall fl p = parseCall fl (Suc k) p" using assms k by (intro parse_fuel_enough(7) [symmetric]) simp_all
  moreover have "parseArgs fl k [] (advance 1 (?q\<lparr>calls := cs\<rparr>)) = pArgs fl [] (advance 1 (?q\<lparr>calls := cs\<rparr>))"
    if "peek CHR ''('' ?q" for cs
  proof (rule parse_fuel_enough)
    have "room ?q \<le> room p" using room_skipSpace [of "advance (length ?i) p"] by simp
    then show "6 * room (advance 1 (?q\<lparr>calls := cs\<rparr>)) + 5 \<le> k" using room_peek [OF that] k by simp
  qed
  ultimately show ?thesis by (auto simp: Let_def parseCall.simps split: option.split)
qed

lemma pArgs_eq:
  "pArgs fl args p =
     (let q = skipSpace p in
      if peek CHR '')'' q then Parsed args (advance 1 q)
      else bindP (pAdd fl q)
        (\<lambda>arg r0. let r = skipSpace r0 in
           if peek CHR '','' r then pArgs fl (args @ [arg]) (advance 1 r)
           else if \<not> peek CHR '')'' r then Failed (ExpectedComma (pos r + 1))
           else Parsed (args @ [arg]) (advance 1 r)))"
proof -
  let ?q = "skipSpace p"
  let ?k = "\<lambda>loop arg r0. let r = skipSpace r0 in
           if peek CHR '','' r then loop (args @ [arg]) (advance 1 r)
           else if \<not> peek CHR '')'' r then Failed (ExpectedComma (pos r + 1))
           else Parsed (args @ [arg]) (advance 1 r)"
  have "pArgs fl args p = parseArgs fl (Suc (6 * room p + 4)) args p"
    by (rule parse_fuel_enough [symmetric]) simp
  moreover have "bindP (parseAdditive fl (6 * room p + 4) ?q) (?k (parseArgs fl (6 * room p + 4)))
      = bindP (pAdd fl ?q) (?k (pArgs fl))"
  proof (rule bindP_cong)
    show "parseAdditive fl (6 * room p + 4) ?q = pAdd fl ?q"
      using room_skipSpace [of p] by (simp add: parse_fuel_enough)
    fix x r assume "pAdd fl ?q = Parsed x r"
    then have "room r \<le> room p" using parser_room(1) [of fl ?q] room_skipSpace [of p] by (metis order_trans)
    then show "?k (parseArgs fl (6 * room p + 4)) x r = ?k (pArgs fl) x r"
      using room_peek_skip [of "CHR '',''" r] by (auto simp: Let_def parse_fuel_enough)
  qed
  ultimately show ?thesis unfolding parseArgs.simps Let_def by simp
qed

lemmas parser_equations = pAdd_eq pAddLoop_eq pMul_eq pMulLoop_eq pUnary_eq pPrimary_eq pCall_eq pArgs_eq

lemma ParseExpression_fuel_free:
  "ParseExpression fl text =
     (let s = trimSpace text; p = \<lparr>input = s, pos = 0, refs = [], calls = []\<rparr> in
      if s = [] then Some (Inl ExpressionRequired)
      else case pAdd fl p of
          OutOfFuel \<Rightarrow> None
        | Failed e \<Rightarrow> Some (Inl e)
        | Parsed root q0 \<Rightarrow>
            let q = skipSpace q0 in
            if pos q \<noteq> length (input q) then Some (Inl (UnexpectedToken (pos q + 1)))
            else Some (Inr \<lparr>exRoot = root, exRefs = refs q, exCalls = calls q\<rparr>))"
  by (simp add: ParseExpression_def parseFuel_def pAdd_def room_def Let_def)

lemma pAdd_fueled: "pAdd fl p \<noteq> OutOfFuel"
  unfolding pAdd_def by (rule parse_fueled) simp

end
