(* ===== verification/Expr_Eval.thy ===== *)
theory Expr_Eval
  imports Expr_Fuel
begin

text \<open>
  Evaluation and SQL rendering of parsed expressions, and what the parser guarantees about its
  trees (\<open>okNode\<close>). Floating point is not part of the library: IEEE arithmetic, \<open>math.Pow10\<close>,
  \<open>math.Round\<close> and the conversions are the fields of \<open>fops\<close>. \<open>None\<close> is an index out of range.
\<close>

section \<open>Evaluation\<close>

datatype 'f gval = GNil | GInt int | GFloat32 'f | GFloat64 'f | GFloater 'f | GOther string

record 'f fops =
  ofInt :: "int \<Rightarrow> 'f"
  fadd :: "'f \<Rightarrow> 'f \<Rightarrow> 'f"
  fsub :: "'f \<Rightarrow> 'f \<Rightarrow> 'f"
  fmul :: "'f \<Rightarrow> 'f \<Rightarrow> 'f"
  fdiv :: "'f \<Rightarrow> 'f \<Rightarrow> 'f"
  fneg :: "'f \<Rightarrow> 'f"
  fabs :: "'f \<Rightarrow> 'f"
  feq :: "'f \<Rightarrow> 'f \<Rightarrow> bool"
  fround :: "'f \<Rightarrow> 'f"
  pow10 :: "int \<Rightarrow> 'f"
  toInt :: "'f \<Rightarrow> int"
  parseFloat :: "string \<Rightarrow> 'f option"

datatype eval_error =
    NotNumeric
  | BadNumber string
  | UnsupportedOperator char
  | UnsupportedCall string
  | ResolveError string

definition expressionFloat :: "'f fops \<Rightarrow> 'f gval \<Rightarrow> eval_error + 'f" where
  "expressionFloat F v =
     (case v of
        GInt i \<Rightarrow> Inr (ofInt F i)
      | GFloat32 x \<Rightarrow> Inr x
      | GFloat64 x \<Rightarrow> Inr x
      | GFloater x \<Rightarrow> Inr x
      | GNil \<Rightarrow> Inl NotNumeric
      | GOther _ \<Rightarrow> Inl NotNumeric)"

definition withFloat :: "'f fops \<Rightarrow> 'f gval \<Rightarrow> ('f \<Rightarrow> eval_error + 'f gval) \<Rightarrow> eval_error + 'f gval" where
  "withFloat F v k = (case expressionFloat F v of Inl e \<Rightarrow> Inl e | Inr x \<Rightarrow> k x)"

definition evalBinary :: "'f fops \<Rightarrow> char \<Rightarrow> 'f gval \<Rightarrow> 'f gval \<Rightarrow> eval_error + 'f gval" where
  "evalBinary F oper left right =
     (if left = GNil \<or> right = GNil then Inr GNil
      else withFloat F left (\<lambda>l. withFloat F right (\<lambda>r.
        if oper = CHR ''+'' then Inr (GFloat64 (fadd F l r))
        else if oper = CHR ''-'' then Inr (GFloat64 (fsub F l r))
        else if oper = CHR ''*'' then Inr (GFloat64 (fmul F l r))
        else if oper = CHR ''/'' then Inr (GFloat64 (fdiv F l r))
        else Inl (UnsupportedOperator oper))))"

definition evalUnary :: "'f fops \<Rightarrow> char \<Rightarrow> 'f gval \<Rightarrow> eval_error + 'f gval" where
  "evalUnary F oper v =
     (if v = GNil then Inr GNil
      else withFloat F v (\<lambda>x. Inr (GFloat64 (if oper = CHR ''-'' then fneg F x else x))))"

fun firstNonNil :: "'f gval list \<Rightarrow> 'f gval" where
  "firstNonNil [] = GNil"
| "firstNonNil (v # vs) = (if v \<noteq> GNil then v else firstNonNil vs)"

text \<open>\<open>args[i]\<close> panics past the end.\<close>

definition evalRound :: "'f fops \<Rightarrow> 'f gval list \<Rightarrow> (eval_error + 'f gval) option" where
  "evalRound F args =
     (case args of
        [] \<Rightarrow> None
      | a # others \<Rightarrow> Some
          (if a = GNil then Inr GNil
           else withFloat F a (\<lambda>x.
             let finish = (\<lambda>digits. Inr (GFloat64 (fdiv F (fround F (fmul F x (pow10 F digits))) (pow10 F digits))))
             in if length args = 2
                then (if others ! 0 = GNil then Inr GNil else withFloat F (others ! 0) (\<lambda>d. finish (toInt F d)))
                else finish 0)))"

definition evalCall :: "'f fops \<Rightarrow> string \<Rightarrow> 'f gval list \<Rightarrow> (eval_error + 'f gval) option" where
  "evalCall F f args =
     (if f = ''coalesce'' then Some (Inr (firstNonNil args))
      else if f = ''nullif'' then
        (case args of
           a # b # _ \<Rightarrow> Some
             (if a = GNil \<or> b = GNil then Inr a
              else withFloat F a (\<lambda>l. withFloat F b (\<lambda>r. if feq F l r then Inr GNil else Inr a)))
         | _ \<Rightarrow> None)
      else if f = ''abs'' then
        (case args of
           a # _ \<Rightarrow> Some (if a = GNil then Inr GNil else withFloat F a (\<lambda>x. Inr (GFloat64 (fabs F x))))
         | [] \<Rightarrow> None)
      else if f = ''round'' then evalRound F args
      else if f = ''safe_divide'' then
        (case args of
           a # b # _ \<Rightarrow> Some
             (if a = GNil \<or> b = GNil then Inr GNil
              else withFloat F a (\<lambda>n. withFloat F b (\<lambda>d.
                if feq F d (ofInt F 0) then Inr GNil else Inr (GFloat64 (fdiv F n d)))))
         | _ \<Rightarrow> None)
      else Some (Inl (UnsupportedCall f)))"

fun evaluate :: "'f fops \<Rightarrow> (string \<Rightarrow> eval_error + 'f gval) \<Rightarrow> expressionNode \<Rightarrow> (eval_error + 'f gval) option"
  and evaluateAll :: "'f fops \<Rightarrow> (string \<Rightarrow> eval_error + 'f gval) \<Rightarrow> expressionNode list
        \<Rightarrow> (eval_error + 'f gval list) option"
where
  "evaluate F env (ERef r) = Some (env r)"
| "evaluate F env (ENum s) =
     Some (case parseFloat F s of None \<Rightarrow> Inl (BadNumber s) | Some x \<Rightarrow> Inr (GFloat64 x))"
| "evaluate F env (EUnary oper e) =
     (case evaluate F env e of
        None \<Rightarrow> None
      | Some (Inl err) \<Rightarrow> Some (Inl err)
      | Some (Inr v) \<Rightarrow> Some (evalUnary F oper v))"
| "evaluate F env (EBinary oper a b) =
     (case evaluate F env a of
        None \<Rightarrow> None
      | Some (Inl err) \<Rightarrow> Some (Inl err)
      | Some (Inr left) \<Rightarrow>
          (case evaluate F env b of
             None \<Rightarrow> None
           | Some (Inl err) \<Rightarrow> Some (Inl err)
           | Some (Inr right) \<Rightarrow> Some (evalBinary F oper left right)))"
| "evaluate F env (ECall f args) =
     (case evaluateAll F env args of
        None \<Rightarrow> None
      | Some (Inl err) \<Rightarrow> Some (Inl err)
      | Some (Inr vs) \<Rightarrow> evalCall F f vs)"
| "evaluateAll F env [] = Some (Inr [])"
| "evaluateAll F env (e # es) =
     (case evaluate F env e of
        None \<Rightarrow> None
      | Some (Inl err) \<Rightarrow> Some (Inl err)
      | Some (Inr v) \<Rightarrow>
          (case evaluateAll F env es of
             None \<Rightarrow> None
           | Some (Inl err) \<Rightarrow> Some (Inl err)
           | Some (Inr vs) \<Rightarrow> Some (Inr (v # vs))))"

section \<open>SQL\<close>

fun sql :: "(string \<Rightarrow> 'e + string) \<Rightarrow> expressionNode \<Rightarrow> ('e + string) option"
  and sqlAll :: "(string \<Rightarrow> 'e + string) \<Rightarrow> expressionNode list \<Rightarrow> ('e + string list) option"
where
  "sql res (ERef r) = Some (res r)"
| "sql res (ENum s) = Some (Inr s)"
| "sql res (EUnary oper e) =
     (case sql res e of
        None \<Rightarrow> None
      | Some (Inl err) \<Rightarrow> Some (Inl err)
      | Some (Inr v) \<Rightarrow> Some (Inr (''('' @ [oper] @ v @ '')'')))"
| "sql res (EBinary oper a b) =
     (case sql res a of
        None \<Rightarrow> None
      | Some (Inl err) \<Rightarrow> Some (Inl err)
      | Some (Inr left) \<Rightarrow>
          (case sql res b of
             None \<Rightarrow> None
           | Some (Inl err) \<Rightarrow> Some (Inl err)
           | Some (Inr right) \<Rightarrow> Some (Inr (''('' @ left @ '' '' @ [oper] @ '' '' @ right @ '')''))))"
| "sql res (ECall f args) =
     (case sqlAll res args of
        None \<Rightarrow> None
      | Some (Inl err) \<Rightarrow> Some (Inl err)
      | Some (Inr vs) \<Rightarrow>
          (if f = ''safe_divide'' then
             (case vs of
                n # d # _ \<Rightarrow> Some (Inr (''('' @ n @ '' / NULLIF('' @ d @ '', 0))''))
              | _ \<Rightarrow> None)
           else Some (Inr (toUpper f @ ''('' @ joinWith '', '' vs @ '')''))))"
| "sqlAll res [] = Some (Inr [])"
| "sqlAll res (e # es) =
     (case sql res e of
        None \<Rightarrow> None
      | Some (Inl err) \<Rightarrow> Some (Inl err)
      | Some (Inr v) \<Rightarrow>
          (case sqlAll res es of
             None \<Rightarrow> None
           | Some (Inl err) \<Rightarrow> Some (Inl err)
           | Some (Inr vs) \<Rightarrow> Some (Inr (v # vs))))"

section \<open>What the parser guarantees of its trees\<close>

fun nodeRefs :: "expressionNode \<Rightarrow> string list" where
  "nodeRefs (ERef r) = [r]"
| "nodeRefs (ENum s) = []"
| "nodeRefs (EUnary oper e) = nodeRefs e"
| "nodeRefs (EBinary oper a b) = nodeRefs a @ nodeRefs b"
| "nodeRefs (ECall f args) = concat (map nodeRefs args)"

text \<open>A call is recorded before its arguments.\<close>

fun nodeCalls :: "expressionNode \<Rightarrow> string list" where
  "nodeCalls (ERef r) = []"
| "nodeCalls (ENum s) = []"
| "nodeCalls (EUnary oper e) = nodeCalls e"
| "nodeCalls (EBinary oper a b) = nodeCalls a @ nodeCalls b"
| "nodeCalls (ECall f args) = f # concat (map nodeCalls args)"

fun okNode :: "(string \<Rightarrow> bool) \<Rightarrow> expressionNode \<Rightarrow> bool" where
  "okNode fl (ERef r) \<longleftrightarrow> r \<noteq> [] \<and> list_all semanticIdentifier (splitOn CHR ''.'' r)"
| "okNode fl (ENum s) \<longleftrightarrow> fl s \<and> s \<noteq> [] \<and> scanNumber False s = length s"
| "okNode fl (EUnary oper e) \<longleftrightarrow> oper \<in> set ''+-'' \<and> okNode fl e"
| "okNode fl (EBinary oper a b) \<longleftrightarrow> oper \<in> set ''+-*/'' \<and> okNode fl a \<and> okNode fl b"
| "okNode fl (ECall f args) \<longleftrightarrow> (case allowedArity f of None \<Rightarrow> False
     | Some (lo, hi) \<Rightarrow> lo \<le> length args \<and> length args \<le> hi) \<and> (\<forall>a \<in> set args. okNode fl a)"

definition addAll :: "string list \<Rightarrow> string list \<Rightarrow> string list" where
  "addAll seen xs = foldl addSeen seen xs"

definition collected :: "expressionParser \<Rightarrow> expressionParser \<Rightarrow> string list \<Rightarrow> string list \<Rightarrow> bool" where
  "collected p q rs cs \<longleftrightarrow> refs q = addAll (refs p) rs \<and> calls q = addAll (calls p) cs"

lemma addAll_simps [simp]:
  "addAll seen [] = seen" "addAll seen (xs @ ys) = addAll (addAll seen xs) ys"
  "addAll seen (x # xs) = addAll (addSeen seen x) xs"
  by (simp_all add: addAll_def)

lemma set_addAll [simp]: "set (addAll seen xs) = set seen \<union> set xs"
  by (induction xs arbitrary: seen) (auto simp: addSeen_def)

lemma distinct_addAll: "distinct seen \<Longrightarrow> distinct (addAll seen xs)"
  by (induction xs arbitrary: seen) (auto simp: addSeen_def)

lemma bindP_Parsed: "bindP m f = Parsed y q \<longleftrightarrow> (\<exists>x r. m = Parsed x r \<and> f x r = Parsed y q)"
  by (cases m) auto

definition goodExpr where
  "goodExpr fl p r \<longleftrightarrow> (\<forall>e q. r = Parsed e q \<longrightarrow> okNode fl e \<and> collected p q (nodeRefs e) (nodeCalls e))"

definition goodLoop where
  "goodLoop fl left p r \<longleftrightarrow> (\<forall>e q. r = Parsed e q \<longrightarrow> okNode fl left \<longrightarrow> okNode fl e
     \<and> (\<exists>rs cs. nodeRefs e = nodeRefs left @ rs \<and> nodeCalls e = nodeCalls left @ cs \<and> collected p q rs cs))"

definition goodArgs where
  "goodArgs fl args p r \<longleftrightarrow> (\<forall>as q. r = Parsed as q \<longrightarrow> (\<forall>a \<in> set args. okNode fl a) \<longrightarrow>
     (\<forall>a \<in> set as. okNode fl a) \<and> (\<exists>new. as = args @ new
        \<and> collected p q (concat (map nodeRefs new)) (concat (map nodeCalls new))))"

lemma goodExpr_reference: "goodExpr fl p (parseReference p)"
  by (auto simp: goodExpr_def parseReference_def Let_def collected_def split: option.splits if_splits)

lemma scanNumber_take: "scanNumber d (take (scanNumber d s) s) = scanNumber d s"
  by (induction d s rule: scanNumber.induct) auto

lemma rest_Cons: "pos p < length (input p) \<Longrightarrow> rest p = input p ! pos p # drop (Suc (pos p)) (input p)"
  by (simp add: rest_def Cons_nth_drop_Suc)

lemma goodExpr_number:
  assumes "pos p < length (input p)" and "isDigit (input p ! pos p) \<or> input p ! pos p = CHR ''.''"
  shows "goodExpr fl p (parseNumber fl p)"
  using assms scanNumber_take [of False "rest p"] scanNumber_le [of False "rest p"]
  by (auto simp: goodExpr_def parseNumber_def Let_def collected_def rest_Cons split: if_splits)

lemma collected_skip [simp]:
  "collected (skipSpace p) q rs cs = collected p q rs cs" "collected p (skipSpace q) rs cs = collected p q rs cs"
  "collected (advance n p) q rs cs = collected p q rs cs" "collected p (advance n q) rs cs = collected p q rs cs"
  by (simp_all add: collected_def)

lemma peek_op: "peek c p \<Longrightarrow> input p ! pos p = c"
  by (simp add: peek_def)

lemma collected_self [simp]: "collected p p [] []"
  by (simp add: collected_def)

lemma collected_trans:
  "collected p q rs cs \<Longrightarrow> collected q r rs' cs' \<Longrightarrow> collected p r (rs @ rs') (cs @ cs')"
  by (simp add: collected_def)

lemma parse_good:
  "goodExpr fl p (parseAdditive fl n p)"
  "goodLoop fl left p (parseAddLoop fl n left p)"
  "goodExpr fl p (parseMultiplicative fl n p)"
  "goodLoop fl left p (parseMulLoop fl n left p)"
  "goodExpr fl p (parseUnary fl n p)"
  "goodExpr fl p (parsePrimary fl n p)"
  "goodExpr fl p (parseCall fl n p)"
  "goodArgs fl args p (parseArgs fl n args p)"
proof (induction fl n p and fl n left p and fl n p and fl n left p and fl n p and fl n p and fl n p and fl n args p
    rule: parseAdditive_parseAddLoop_parseMultiplicative_parseMulLoop_parseUnary_parsePrimary_parseCall_parseArgs.induct)
  case (2 fl n p)
  show ?case
    unfolding parseAdditive.simps goodExpr_def bindP_Parsed
    using 2 unfolding goodExpr_def goodLoop_def by (metis collected_trans)
next
  case (6 fl n p)
  show ?case
    unfolding parseMultiplicative.simps goodExpr_def bindP_Parsed
    using 6 unfolding goodExpr_def goodLoop_def by (metis collected_trans)
next
  case (4 fl n left p)
  let ?q = "skipSpace p"
  show ?case
  proof (cases "\<not> peek CHR ''+'' ?q \<and> \<not> peek CHR ''-'' ?q")
    case True
    then show ?thesis by (simp add: parseAddLoop.simps goodLoop_def)
  next
    case False
    then have oper: "input ?q ! pos ?q \<in> set ''+-*/''" by (auto dest: peek_op)
    show ?thesis
      unfolding goodLoop_def
    proof (intro allI impI)
      fix e q assume "parseAddLoop fl (Suc n) left p = Parsed e q" and left: "okNode fl left"
      then obtain x r where x: "parseMultiplicative fl n (advance 1 ?q) = Parsed x r"
        "parseAddLoop fl n (EBinary (input ?q ! pos ?q) left x) r = Parsed e q"
        using False by (auto simp: parseAddLoop.simps bindP_Parsed Let_def)
      have "okNode fl x" "collected p r (nodeRefs x) (nodeCalls x)"
        using 4(1) [OF refl False] x(1) by (auto simp: goodExpr_def)
      with 4(2) [OF refl False, of x r] x(2) oper left obtain rs cs where
        "okNode fl e" "nodeRefs e = nodeRefs left @ nodeRefs x @ rs" "nodeCalls e = nodeCalls left @ nodeCalls x @ cs"
        "collected r q rs cs" by (auto simp: goodLoop_def)
      then show "okNode fl e \<and> (\<exists>rs cs. nodeRefs e = nodeRefs left @ rs \<and> nodeCalls e = nodeCalls left @ cs
          \<and> collected p q rs cs)"
        using collected_trans [OF \<open>collected p r (nodeRefs x) (nodeCalls x)\<close>] by blast
    qed
  qed
next
  case (8 fl n left p)
  let ?q = "skipSpace p"
  show ?case
  proof (cases "\<not> peek CHR ''*'' ?q \<and> \<not> peek CHR ''/'' ?q")
    case True
    then show ?thesis by (simp add: parseMulLoop.simps goodLoop_def)
  next
    case False
    then have oper: "input ?q ! pos ?q \<in> set ''+-*/''" by (auto dest: peek_op)
    show ?thesis
      unfolding goodLoop_def
    proof (intro allI impI)
      fix e q assume "parseMulLoop fl (Suc n) left p = Parsed e q" and left: "okNode fl left"
      then obtain x r where x: "parseUnary fl n (advance 1 ?q) = Parsed x r"
        "parseMulLoop fl n (EBinary (input ?q ! pos ?q) left x) r = Parsed e q"
        using False by (auto simp: parseMulLoop.simps bindP_Parsed Let_def)
      have "okNode fl x" "collected p r (nodeRefs x) (nodeCalls x)"
        using 8(1) [OF refl False] x(1) by (auto simp: goodExpr_def)
      with 8(2) [OF refl False, of x r] x(2) oper left obtain rs cs where
        "okNode fl e" "nodeRefs e = nodeRefs left @ nodeRefs x @ rs" "nodeCalls e = nodeCalls left @ nodeCalls x @ cs"
        "collected r q rs cs" by (auto simp: goodLoop_def)
      then show "okNode fl e \<and> (\<exists>rs cs. nodeRefs e = nodeRefs left @ rs \<and> nodeCalls e = nodeCalls left @ cs
          \<and> collected p q rs cs)"
        using collected_trans [OF \<open>collected p r (nodeRefs x) (nodeCalls x)\<close>] by blast
    qed
  qed
next
  case (10 fl n p)
  let ?q = "skipSpace p"
  show ?case
  proof (cases "peek CHR ''+'' ?q \<or> peek CHR ''-'' ?q")
    case True
    then have "input ?q ! pos ?q \<in> set ''+-''" by (auto dest: peek_op)
    with 10(1) [OF refl True] True show ?thesis
      by (auto simp: parseUnary.simps goodExpr_def bindP_Parsed Let_def)
  next
    case False
    with 10(2) [OF refl False] show ?thesis by (simp add: parseUnary.simps goodExpr_def Let_def)
  qed
next
  case (12 fl n p)
  let ?q = "skipSpace p"
  have skip: "goodExpr fl p r" if "goodExpr fl ?q r" for r using that by (simp add: goodExpr_def)
  have "goodExpr fl p (bindP (parseAdditive fl n (advance 1 ?q))
          (\<lambda>node r0. let r = skipSpace r0 in
             if \<not> peek CHR '')'' r then Failed (MissingParenthesis (pos r + 1))
             else Parsed node (advance 1 r)))"
    if "\<not> length (input ?q) \<le> pos ?q" "peek CHR ''('' ?q"
    using 12(1) [OF refl that] by (auto simp: goodExpr_def bindP_Parsed Let_def split: if_splits)
  moreover note skip [OF goodExpr_reference] skip [OF goodExpr_number] skip [OF 12(2) [OF refl]]
  moreover have "goodExpr fl p (Failed x)" for x by (simp add: goodExpr_def)
  ultimately show ?case by (simp add: parsePrimary.simps Let_def)
next
  case (14 fl n p)
  let ?i = "takeWhile isIdentifierPart (rest p)"
  let ?q = "skipSpace (advance (length ?i) p)"
  let ?a = "advance 1 (?q\<lparr>calls := addSeen (calls ?q) (toLower ?i)\<rparr>)"
  show ?case
    unfolding goodExpr_def
  proof (intro allI impI)
    fix e q assume e: "parseCall fl (Suc n) p = Parsed e q"
    then have open_paren: "peek CHR ''('' ?q" by (auto simp: parseCall.simps Let_def split: if_splits)
    with e obtain lo hi where ar: "allowedArity (toLower ?i) = Some (lo, hi)"
      by (auto simp: parseCall.simps Let_def split: option.splits)
    with e open_paren obtain args where args: "parseArgs fl n [] ?a = Parsed args q"
      "lo \<le> length args" "length args \<le> hi" "e = ECall (toLower ?i) args"
      by (auto simp: parseCall.simps Let_def bindP_Parsed split: if_splits)
    have "goodArgs fl [] ?a (parseArgs fl n [] ?a)"
      by (rule 14(1) [OF refl refl refl _ ar refl]) (use open_paren in simp)
    then have "\<forall>a \<in> set args. okNode fl a"
      "collected ?a q (concat (map nodeRefs args)) (concat (map nodeCalls args))"
      using args(1) by (auto simp: goodArgs_def)
    with args ar show "okNode fl e \<and> collected p q (nodeRefs e) (nodeCalls e)"
      by (simp add: collected_def)
  qed
next
  case (16 fl n args p)
  let ?q = "skipSpace p"
  show ?case
  proof (cases "peek CHR '')'' ?q")
    case True
    then show ?thesis by (simp add: parseArgs.simps goodArgs_def)
  next
    case np: False
    show ?thesis
      unfolding goodArgs_def
    proof (intro allI impI)
      fix as q assume "parseArgs fl (Suc n) args p = Parsed as q" and ok: "\<forall>a \<in> set args. okNode fl a"
      then obtain x r0 where x: "parseAdditive fl n ?q = Parsed x r0" and
        k: "(if peek CHR '','' (skipSpace r0) then parseArgs fl n (args @ [x]) (advance 1 (skipSpace r0))
             else if \<not> peek CHR '')'' (skipSpace r0) then Failed (ExpectedComma (pos (skipSpace r0) + 1))
             else Parsed (args @ [x]) (advance 1 (skipSpace r0))) = Parsed as q"
        using np by (auto simp: parseArgs.simps Let_def bindP_Parsed)
      have x': "okNode fl x" "collected p r0 (nodeRefs x) (nodeCalls x)"
        using 16(1) [OF refl np] x by (auto simp: goodExpr_def)
      show "(\<forall>a \<in> set as. okNode fl a) \<and> (\<exists>new. as = args @ new
          \<and> collected p q (concat (map nodeRefs new)) (concat (map nodeCalls new)))"
      proof (cases "peek CHR '','' (skipSpace r0)")
        case True
        with k 16(2) [OF refl np refl True, of x] ok x'(1) obtain new where
          "\<forall>a \<in> set as. okNode fl a" "as = (args @ [x]) @ new"
          "collected r0 q (concat (map nodeRefs new)) (concat (map nodeCalls new))"
          by (auto simp: goodArgs_def)
        with collected_trans [OF x'(2)] show ?thesis by (intro conjI exI [of _ "x # new"]) auto
      next
        case False
        with k have "as = args @ [x]" "q = advance 1 (skipSpace r0)" by (auto split: if_splits)
        with ok x' show ?thesis by (intro conjI exI [of _ "[x]"]) auto
      qed
    qed
  qed
qed (simp_all add: goodExpr_def goodLoop_def goodArgs_def parseAdditive.simps parseAddLoop.simps
  parseMultiplicative.simps parseMulLoop.simps parseUnary.simps parsePrimary.simps parseCall.simps parseArgs.simps)

end
