(* ===== verification/Expr_Roundtrip.thy ===== *)
theory Expr_Roundtrip
  imports Expr_Eval
begin

text \<open>
  A printer that writes parentheses only where precedence and associativity need them, and the
  proof that the parser reads every printed tree back: \<open>*\<close> and \<open>/\<close> bind tighter than \<open>+\<close> and
  \<open>-\<close>, both group to the left, and signs bind tightest.
\<close>

section \<open>The printer\<close>

definition paren :: "bool \<Rightarrow> string \<Rightarrow> string" where
  "paren b s = (if b then CHR ''('' # s @ '')'' else s)"

fun showAt :: "nat \<Rightarrow> expressionNode \<Rightarrow> string" where
  "showAt l (ERef r) = ''${'' @ r @ ''}''"
| "showAt l (ENum s) = s"
| "showAt l (EUnary oper e) = paren (2 < l) (oper # showAt 2 e)"
| "showAt l (EBinary oper a b) =
     (if oper \<in> set ''+-'' then paren (0 < l) (showAt 0 a @ oper # showAt 1 b)
      else paren (1 < l) (showAt 1 a @ oper # showAt 2 b))"
| "showAt l (ECall f args) = f @ CHR ''('' # joinWith '','' (map (showAt 0) args) @ '')''"

definition showExpr :: "expressionNode \<Rightarrow> string" where
  "showExpr e = showAt 0 e"

section \<open>Reading tokens\<close>

lemma peek_rest: "peek c p \<longleftrightarrow> rest p \<noteq> [] \<and> hd (rest p) = c"
  by (auto simp: peek_def rest_def hd_drop_conv_nth)

lemma input_rest: "rest p \<noteq> [] \<Longrightarrow> input p ! pos p = hd (rest p)"
  by (simp add: rest_def hd_drop_conv_nth)

lemma rest_Nil: "length (input p) \<le> pos p \<longleftrightarrow> rest p = []"
  by (simp add: rest_def)

lemma rest_advance: "rest (advance n p) = drop n (rest p)"
  by (simp add: rest_def add.commute)

lemma skipSpace_idle: "rest p = [] \<or> \<not> isSpaceByte (hd (rest p)) \<Longrightarrow> skipSpace p = p"
  by (cases "rest p") (auto simp: skipSpace_def advance_def)

lemma room_rest: "room p = length (rest p)"
  by (simp add: room_def rest_def)

lemma scanNumber_append:
  "scanNumber d s = length s \<Longrightarrow> t = [] \<or> \<not> isDigit (hd t) \<and> hd t \<noteq> CHR ''.'' \<Longrightarrow> scanNumber d (s @ t) = length s"
proof (induction d s rule: scanNumber.induct)
  case (1 d)
  then show ?case by (cases t) auto
qed (auto split: if_splits)

definition eat :: "nat \<Rightarrow> expressionNode \<Rightarrow> expressionParser \<Rightarrow> expressionParser" where
  "eat n e p = p\<lparr>pos := pos p + n, refs := addAll (refs p) (nodeRefs e), calls := addAll (calls p) (nodeCalls e)\<rparr>"

lemma rest_eat [simp]: "rest (eat n e p) = drop n (rest p)"
  by (simp add: eat_def rest_def add.commute)

lemma rest_fields [simp]: "rest (p\<lparr>refs := rs\<rparr>) = rest p" "rest (p\<lparr>calls := cs\<rparr>) = rest p"
  by (simp_all add: rest_def)

definition follow :: "string \<Rightarrow> bool" where
  "follow t \<longleftrightarrow> t = [] \<or> hd t \<in> set ''+-*/),''"

definition noMul :: "string \<Rightarrow> bool" where
  "noMul t \<longleftrightarrow> t = [] \<or> hd t \<notin> set ''*/''"

lemma byte_chars: "c \<in> set ''+-*/(),'' \<Longrightarrow> \<not> isSpaceByte c \<and> \<not> isDigit c \<and> c \<noteq> CHR ''.''
    \<and> \<not> isIdentifierPart c \<and> \<not> isIdentifierStart c \<and> c \<noteq> CHR ''$''"
  by (auto simp: isSpaceByte_def isDigit_def isIdentifierPart_def isIdentifierStart_def isLetterByte_def
      isAsciiLetter_def byte_def)

lemma follow_facts:
  "follow t \<Longrightarrow> t = [] \<or> \<not> isSpaceByte (hd t)"
  "follow t \<Longrightarrow> t = [] \<or> \<not> isDigit (hd t) \<and> hd t \<noteq> CHR ''.''"
  using byte_chars [of "hd t"] by (auto simp: follow_def)

lemma identPart_byte: "identPart c \<Longrightarrow> byte c < 128 \<and> byte c \<notin> {9, 10, 11, 12, 13, 32} \<and> c \<noteq> CHR ''}''
    \<and> c \<noteq> CHR ''.''"
  by (auto simp: identPart_def identStart_def isAsciiLetter_def isDigit_def byte_def)

lemma splitOn_chars: "set s \<subseteq> {c} \<union> \<Union> (set ` set (splitOn c s))"
proof (induction s)
  case (Cons a s)
  obtain y ys where y: "splitOn c s = y # ys" by (cases "splitOn c s") auto
  have "set s \<subseteq> {c} \<union> (set y \<union> \<Union> (set ` set ys))" using Cons y by simp
  then show ?case using y by auto
qed simp

lemma reference_chars:
  assumes "list_all semanticIdentifier (splitOn CHR ''.'' r)" and "c \<in> set r"
  shows "identPart c \<or> c = CHR ''.''"
proof (rule ccontr)
  assume n: "\<not> (identPart c \<or> c = CHR ''.'')"
  then obtain part where "part \<in> set (splitOn CHR ''.'' r)" "c \<in> set part"
    using splitOn_chars [of r "CHR ''.''"] assms(2) by auto
  with assms(1) have "semanticIdentifier part" "c \<in> set part" by (auto simp: list_all_iff)
  with n show False by (cases part) (auto simp: semanticIdentifier_def list_all_iff identPart_def)
qed

lemma reference_facts:
  assumes "r \<noteq> []" and "list_all semanticIdentifier (splitOn CHR ''.'' r)"
  shows "CHR ''}'' \<notin> set r" and "trimSpace r = r"
proof -
  have c: "byte c < 128 \<and> byte c \<notin> {9, 10, 11, 12, 13, 32} \<and> c \<noteq> CHR ''}''" if "c \<in> set r" for c
    using reference_chars [OF assms(2) that] identPart_byte [of c] by (auto simp: byte_def)
  then show "CHR ''}'' \<notin> set r" by auto
  show "trimSpace r = r"
    by (rule trimSpace_id) (use c [of "hd r"] c [of "last r"] assms(1) in auto)
qed

lemma parse_reference:
  assumes "okNode fl (ERef r)" and "rest p = ''${'' @ r @ CHR ''}'' # t"
  shows "parseReference p = Parsed (ERef r) (eat (length r + 3) (ERef r) p)"
proof -
  have tail: "drop (pos p + 2) (input p) = r @ CHR ''}'' # t"
    using assms(2) by (metis append_Cons append_Nil drop0 drop_Suc_Cons drop_drop numeral_2_eq_2 rest_def add.commute)
  have r: "r \<noteq> []" "list_all semanticIdentifier (splitOn CHR ''.'' r)" using assms(1) by auto
  show ?thesis
    unfolding parseReference_def Let_def tail
    by (simp add: indexByte_append [OF reference_facts(1) [OF r]] reference_facts(2) [OF r] r eat_def algebra_simps)
qed

lemma parse_number:
  assumes "okNode fl (ENum s)" and "rest p = s @ t" and "follow t"
  shows "parseNumber fl p = Parsed (ENum s) (eat (length s) (ENum s) p)"
  using assms scanNumber_append [of False s t] follow_facts(2) [OF assms(3)]
  by (simp add: parseNumber_def Let_def eat_def advance_def)

lemma allowed_names:
  assumes "allowedArity f \<noteq> None"
  shows "f \<in> {''coalesce'', ''nullif'', ''abs'', ''round'', ''safe_divide''}"
  using assms by (auto simp: allowedArity_def split: if_splits)

lemma name_facts:
  assumes "allowedArity f \<noteq> None"
  shows "list_all isIdentifierPart f" and "toLower f = f" and "f \<noteq> []" and "isIdentifierStart (hd f)"
    and "\<not> isSpaceByte (hd f)" and "\<not> isDigit (hd f)" and "hd f \<notin> set ''+-.$()''"
  using allowed_names [OF assms]
  by (elim insertE emptyE; simp add: isIdentifierPart_def isIdentifierStart_def isLetterByte_def isAsciiLetter_def
      byte_def toLower_def lowerByte_def isSpaceByte_def isDigit_def)+

section \<open>First bytes\<close>

lemma paren_simps [simp]: "paren True s = CHR ''('' # s @ '')''" "paren False s = s"
  by (simp_all add: paren_def)

lemma number_head:
  assumes "okNode fl (ENum s)"
  shows "isDigit (hd s) \<or> hd s = CHR ''.''" and "s \<noteq> []"
  using assms by (cases s; auto split: if_splits)+

lemma digit_facts: "isDigit c \<or> c = CHR ''.'' \<Longrightarrow> \<not> isSpaceByte c \<and> c \<notin> set ''+-$()''"
  by (auto simp: isDigit_def isSpaceByte_def byte_def)

lemma showAt_head:
  assumes "okNode fl e"
  shows "showAt l e \<noteq> [] \<and> \<not> isSpaceByte (hd (showAt l e)) \<and> hd (showAt l e) \<noteq> CHR '')''
    \<and> (\<not> (\<exists>oper a. e = EUnary oper a) \<and> 1 < l \<longrightarrow> hd (showAt l e) \<notin> set ''+-'')
    \<and> (2 < l \<longrightarrow> hd (showAt l e) \<notin> set ''+-'')"
  using assms
proof (induction e arbitrary: l)
  case (ERef r)
  then show ?case by (simp add: isSpaceByte_def byte_def)
next
  case (ENum s)
  then show ?case using number_head [of fl s] digit_facts [of "hd s"] by auto
next
  case (EUnary oper e)
  then show ?case using byte_chars [of oper] byte_chars [of "CHR ''(''"] by (auto simp: paren_def)
next
  case (EBinary oper a b)
  then show ?case using byte_chars [of "CHR ''(''"] by (auto simp: paren_def)
next
  case (ECall f args)
  then show ?case using name_facts [of f] by (cases f) (auto split: option.splits)
qed

section \<open>Printed trees are read back\<close>

lemma pPrimary_paren:
  assumes r: "rest p = CHR ''('' # s @ CHR '')'' # t" and s: "s \<noteq> []" "\<not> isSpaceByte (hd s)"
    and a: "pAdd fl (advance 1 p) = Parsed e (eat (length s) e (advance 1 p))"
  shows "pPrimary fl p = Parsed e (eat (length s + 2) e p)"
proof -
  have skip: "skipSpace p = p" using r byte_chars [of "CHR ''(''"] by (intro skipSpace_idle) simp
  let ?q = "eat (length s) e (advance 1 p)"
  have q: "rest ?q = CHR '')'' # t" by (simp add: rest_advance r)
  then have skipq: "skipSpace ?q = ?q" using byte_chars [of "CHR '')''"] by (intro skipSpace_idle) simp
  have "advance 1 ?q = eat (length s + 2) e p" by (simp add: eat_def advance_def)
  then show ?thesis
    unfolding pPrimary_eq Let_def skip rest_Nil using r a q skipq by (simp add: peek_rest)
qed

lemma pArgs_reads:
  assumes "\<And>a p t. a \<in> set args \<Longrightarrow> rest p = showAt 0 a @ t \<Longrightarrow> follow t \<Longrightarrow> noMul t
      \<Longrightarrow> pAdd fl p = pAddLoop fl a (eat (length (showAt 0 a)) a p)"
    and "\<forall>a \<in> set args. okNode fl a" and "rest p = joinWith '','' (map (showAt 0) args) @ CHR '')'' # t"
  shows "pArgs fl acc p = Parsed (acc @ args)
    (p\<lparr>pos := pos p + length (joinWith '','' (map (showAt 0) args)) + 1,
       refs := addAll (refs p) (concat (map nodeRefs args)),
       calls := addAll (calls p) (concat (map nodeCalls args))\<rparr>)"
  using assms
proof (induction args arbitrary: acc p)
  case Nil
  have "skipSpace p = p" using Nil(3) byte_chars [of "CHR '')''"] by (intro skipSpace_idle) simp
  then show ?case using Nil(3) by (simp add: pArgs_eq peek_rest advance_def)
next
  case (Cons a args)
  let ?n = "length (showAt 0 a)"
  let ?q = "eat ?n a p"
  obtain t' where t': "rest p = showAt 0 a @ t'" "follow t'" "noMul t'"
    "t' = (case args of [] \<Rightarrow> CHR '')'' # t | _ \<Rightarrow> CHR '','' # joinWith '','' (map (showAt 0) args) @ CHR '')'' # t)"
    using Cons.prems(3) by (cases args) (auto simp: follow_def noMul_def)
  have ok: "okNode fl a" using Cons.prems(2) by simp
  note h = showAt_head [OF ok, of 0]
  have skip: "skipSpace p = p" using h t'(1) by (intro skipSpace_idle) simp
  have np: "\<not> peek CHR '')'' p" using h t'(1) by (simp add: peek_rest)
  have rq: "rest ?q = t'" using t'(1) by simp
  have skipq: "skipSpace ?q = ?q" using follow_facts(1) [OF t'(2)] rq by (intro skipSpace_idle) simp
  have "pAddLoop fl a ?q = Parsed a ?q"
    using t'(4) rq by (subst pAddLoop_eq, cases args) (simp_all add: Let_def skipq peek_rest)
  then have add: "pAdd fl p = Parsed a ?q"
    using Cons.prems(1) [of a p t'] t' by simp
  show ?case
  proof (cases args)
    case Nil
    then have "peek CHR '')'' ?q" "\<not> peek CHR '','' ?q" using rq t'(4) by (simp_all add: peek_rest)
    then show ?thesis
      unfolding pArgs_eq [of fl acc p] Let_def skip using np add skipq Nil by (simp add: eat_def advance_def)
  next
    case (Cons b more)
    then have comma: "peek CHR '','' ?q" using rq t'(4) by (simp add: peek_rest)
    let ?r = "advance 1 ?q"
    have "rest ?r = joinWith '','' (map (showAt 0) args) @ CHR '')'' # t"
      using rq t'(4) Cons by (simp add: rest_advance)
    then have ih: "pArgs fl (acc @ [a]) ?r = Parsed ((acc @ [a]) @ args)
      (?r\<lparr>pos := pos ?r + length (joinWith '','' (map (showAt 0) args)) + 1,
       refs := addAll (refs ?r) (concat (map nodeRefs args)),
       calls := addAll (calls ?r) (concat (map nodeCalls args))\<rparr>)"
      using Cons.prems(1,2) by (intro Cons.IH) auto
    show ?thesis
      unfolding pArgs_eq [of fl acc p] Let_def skip
      using np add skipq comma ih Cons by (simp add: eat_def advance_def)
  qed
qed

lemma pCall_reads:
  assumes ok: "okNode fl (ECall f args)"
    and args: "\<And>a p t. a \<in> set args \<Longrightarrow> rest p = showAt 0 a @ t \<Longrightarrow> follow t \<Longrightarrow> noMul t
      \<Longrightarrow> pAdd fl p = pAddLoop fl a (eat (length (showAt 0 a)) a p)"
    and r: "rest p = showAt l (ECall f args) @ t"
  shows "pPrimary fl p = Parsed (ECall f args) (eat (length (showAt l (ECall f args))) (ECall f args) p)"
proof -
  obtain lo hi where ar: "allowedArity f = Some (lo, hi)" "lo \<le> length args" "length args \<le> hi"
    using ok by (auto split: option.splits)
  note nf = name_facts [of f]
  have f: "list_all isIdentifierPart f" "toLower f = f" "f \<noteq> []" "isIdentifierStart (hd f)"
    "\<not> isSpaceByte (hd f)" "\<not> isDigit (hd f)" "hd f \<notin> set ''+-.$()''"
    using nf ar(1) by auto
  let ?body = "joinWith '','' (map (showAt 0) args)"
  have r': "rest p = f @ CHR ''('' # ?body @ CHR '')'' # t" using r by simp
  have skip: "skipSpace p = p" using r' f by (intro skipSpace_idle) simp
  have name: "takeWhile isIdentifierPart (rest p) = f"
    unfolding r' using f(1) byte_chars [of "CHR ''(''"]
    by (simp add: takeWhile_append list_all_iff)
  let ?q = "advance (length f) p"
  have rq: "rest ?q = CHR ''('' # ?body @ CHR '')'' # t" by (simp add: rest_advance r')
  then have skipq: "skipSpace ?q = ?q" using byte_chars [of "CHR ''(''"] by (intro skipSpace_idle) simp
  have op: "peek CHR ''('' ?q" by (simp add: peek_rest rq)
  let ?a = "advance 1 (?q\<lparr>calls := addSeen (calls ?q) f\<rparr>)"
  have ra: "rest ?a = ?body @ CHR '')'' # t" by (simp add: rest_advance r')
  have all: "\<forall>a \<in> set args. okNode fl a" using ok by simp
  have call: "pCall fl p = Parsed (ECall f args) (eat (length f + length ?body + 2) (ECall f args) p)"
  proof -
    have "pCall fl p = bindP (pArgs fl [] ?a) (\<lambda>args r. if length args < lo \<or> length args > hi
        then Failed (WrongArity f lo hi) else Parsed (ECall f args) r)"
      using ar(1) f(2) op by (subst pCall_eq) (simp_all add: room_rest r' Let_def name [unfolded r'] skipq cong: if_cong)
    moreover have "pArgs fl [] ?a = Parsed ([] @ args) (?a\<lparr>pos := pos ?a + length ?body + 1,
       refs := addAll (refs ?a) (concat (map nodeRefs args)),
       calls := addAll (calls ?a) (concat (map nodeCalls args))\<rparr>)"
      by (rule pArgs_reads [OF _ all ra]) (rule args)
    ultimately show ?thesis using ar(2,3) by (simp add: eat_def advance_def add.commute add.left_commute)
  qed
  have hd: "hd (rest p) = hd f" "rest p \<noteq> []" using r' f(3) by simp_all
  have "\<not> hasPrefix ''${'' (rest p)" using hd f(7) by (cases "rest p") (auto simp: hasPrefix_def)
  then show ?thesis
    unfolding pPrimary_eq Let_def skip rest_Nil using hd f call by (simp add: peek_rest input_rest)
qed

definition reads :: "(string \<Rightarrow> bool) \<Rightarrow> expressionNode \<Rightarrow> bool" where
  "reads fl e \<longleftrightarrow> (\<forall>p t. follow t \<longrightarrow>
       (rest p = showAt 3 e @ t \<longrightarrow> pPrimary fl p = Parsed e (eat (length (showAt 3 e)) e p))
     \<and> (rest p = showAt 2 e @ t \<longrightarrow> pUnary fl p = Parsed e (eat (length (showAt 2 e)) e p))
     \<and> (rest p = showAt 1 e @ t \<longrightarrow> pMul fl p = pMulLoop fl e (eat (length (showAt 1 e)) e p))
     \<and> (rest p = showAt 0 e @ t \<and> noMul t \<longrightarrow> pAdd fl p = pAddLoop fl e (eat (length (showAt 0 e)) e p)))"

lemma readsD:
  assumes "reads fl e" and "follow t"
  shows "rest p = showAt 3 e @ t \<Longrightarrow> pPrimary fl p = Parsed e (eat (length (showAt 3 e)) e p)"
    and "rest p = showAt 2 e @ t \<Longrightarrow> pUnary fl p = Parsed e (eat (length (showAt 2 e)) e p)"
    and "rest p = showAt 1 e @ t \<Longrightarrow> pMul fl p = pMulLoop fl e (eat (length (showAt 1 e)) e p)"
    and "rest p = showAt 0 e @ t \<Longrightarrow> noMul t \<Longrightarrow> pAdd fl p = pAddLoop fl e (eat (length (showAt 0 e)) e p)"
  using assms unfolding reads_def by blast+

lemma loops_stop:
  assumes "rest q = t" and "follow t"
  shows "noMul t \<Longrightarrow> pMulLoop fl e q = Parsed e q"
    and "t = [] \<or> hd t \<notin> set ''+-'' \<Longrightarrow> pAddLoop fl e q = Parsed e q"
proof -
  have skip: "skipSpace q = q" using assms follow_facts(1) by (intro skipSpace_idle) simp
  show "noMul t \<Longrightarrow> pMulLoop fl e q = Parsed e q"
    using assms by (subst pMulLoop_eq) (auto simp: Let_def skip peek_rest noMul_def)
  show "t = [] \<or> hd t \<notin> set ''+-'' \<Longrightarrow> pAddLoop fl e q = Parsed e q"
    using assms by (subst pAddLoop_eq) (auto simp: Let_def skip peek_rest)
qed

lemma loop_steps:
  assumes "rest q = oper # u"
  shows "oper = CHR ''*'' \<or> oper = CHR ''/'' \<Longrightarrow> pMulLoop fl a q
      = bindP (pUnary fl (advance 1 q)) (\<lambda>right. pMulLoop fl (EBinary oper a right))"
    and "oper = CHR ''+'' \<or> oper = CHR ''-'' \<Longrightarrow> pAddLoop fl a q
      = bindP (pMul fl (advance 1 q)) (\<lambda>right. pAddLoop fl (EBinary oper a right))"
proof -
  have skip: "skipSpace q = q" if "oper \<in> set ''+-*/(),''"
    using assms byte_chars [OF that] by (intro skipSpace_idle) simp
  show "oper = CHR ''*'' \<or> oper = CHR ''/'' \<Longrightarrow> pMulLoop fl a q
      = bindP (pUnary fl (advance 1 q)) (\<lambda>right. pMulLoop fl (EBinary oper a right))"
    using assms skip by (subst pMulLoop_eq) (auto simp: Let_def peek_rest input_rest)
  show "oper = CHR ''+'' \<or> oper = CHR ''-'' \<Longrightarrow> pAddLoop fl a q
      = bindP (pMul fl (advance 1 q)) (\<lambda>right. pAddLoop fl (EBinary oper a right))"
    using assms skip by (subst pAddLoop_eq) (auto simp: Let_def peek_rest input_rest)
qed

text \<open>From one level to the next when the printer adds nothing.\<close>

lemma lift_unary:
  assumes p: "rest p = showAt 2 e @ t" and ok: "okNode fl e" and nu: "\<not> (\<exists>oper a. e = EUnary oper a)"
    and same: "pPrimary fl p = Parsed e q"
  shows "pUnary fl p = Parsed e q"
proof -
  note h = showAt_head [OF ok, of 2]
  have "skipSpace p = p" using h p by (intro skipSpace_idle) simp
  with h nu p same show ?thesis by (subst pUnary_eq) (simp add: Let_def peek_rest)
qed

lemma lift_mul:
  assumes "pUnary fl p = Parsed e q"
  shows "pMul fl p = pMulLoop fl e q"
  using assms by (simp add: pMul_eq)

lemma lift_add:
  assumes "pMul fl p = pMulLoop fl e q" and "rest q = t" and "follow t" and "noMul t"
  shows "pAdd fl p = pAddLoop fl e q"
  using assms loops_stop(1) [OF assms(2,3), of fl e] by (simp add: pAdd_eq)

lemma reads_atom:
  assumes ok: "okNode fl e" and nu: "\<not> (\<exists>oper a. e = EUnary oper a)"
    and same: "\<And>l. showAt l e = showAt 0 e"
    and prim: "\<And>p t. follow t \<Longrightarrow> rest p = showAt 0 e @ t \<Longrightarrow> pPrimary fl p = Parsed e (eat (length (showAt 0 e)) e p)"
  shows "reads fl e"
  unfolding reads_def
proof (intro allI impI)
  fix p t assume f: "follow t"
  have u: "pUnary fl p = Parsed e (eat (length (showAt 0 e)) e p)" if r: "rest p = showAt 0 e @ t"
    by (rule lift_unary [of p e t, OF _ ok nu prim [OF f r]]) (use r same [of 2] in simp)
  note m = lift_mul [OF u]
  have a: "pAdd fl p = pAddLoop fl e (eat (length (showAt 0 e)) e p)" if "rest p = showAt 0 e @ t" "noMul t"
    by (rule lift_add [OF m [OF that(1)] _ f that(2)]) (use that in simp)
  show "(rest p = showAt 3 e @ t \<longrightarrow> pPrimary fl p = Parsed e (eat (length (showAt 3 e)) e p))
     \<and> (rest p = showAt 2 e @ t \<longrightarrow> pUnary fl p = Parsed e (eat (length (showAt 2 e)) e p))
     \<and> (rest p = showAt 1 e @ t \<longrightarrow> pMul fl p = pMulLoop fl e (eat (length (showAt 1 e)) e p))
     \<and> (rest p = showAt 0 e @ t \<and> noMul t \<longrightarrow> pAdd fl p = pAddLoop fl e (eat (length (showAt 0 e)) e p))"
    unfolding same [of 3] same [of 2] same [of 1] using prim [OF f] u m a by simp
qed

text \<open>A compound tree in parentheses is a primary.\<close>

lemma paren_primary:
  assumes ok: "okNode fl e" and sh: "showAt l e = CHR ''('' # showAt 0 e @ '')''"
    and add: "\<And>p t. follow t \<Longrightarrow> noMul t \<Longrightarrow> rest p = showAt 0 e @ t
      \<Longrightarrow> pAdd fl p = pAddLoop fl e (eat (length (showAt 0 e)) e p)"
    and r: "rest p = showAt l e @ t"
  shows "pPrimary fl p = Parsed e (eat (length (showAt l e)) e p)"
proof -
  let ?s = "showAt 0 e"
  note h = showAt_head [OF ok, of 0]
  have f: "follow (CHR '')'' # t)" "noMul (CHR '')'' # t)" by (simp_all add: follow_def noMul_def)
  have ra: "rest (advance 1 p) = ?s @ CHR '')'' # t" using r sh by (simp add: rest_advance)
  have "pAdd fl (advance 1 p) = Parsed e (eat (length ?s) e (advance 1 p))"
    unfolding add [OF f ra] by (rule loops_stop(2) [OF _ f(1)]) (simp_all add: ra [unfolded One_nat_def])
  with pPrimary_paren [of p ?s t fl e] r sh h show ?thesis by simp
qed

lemma reads_unary:
  assumes ok: "okNode fl (EUnary oper e)" and e: "reads fl e"
  shows "reads fl (EUnary oper e)"
proof -
  let ?e = "EUnary oper e"
  have oper: "oper = CHR ''+'' \<or> oper = CHR ''-''" using ok by auto
  have u: "pUnary fl p = Parsed ?e (eat (length (showAt 2 ?e)) ?e p)"
    if f: "follow t" and r: "rest p = oper # showAt 2 e @ t" for p t
  proof -
    have skip: "skipSpace p = p" using r oper byte_chars [of oper] by (intro skipSpace_idle) auto
    have ra: "rest (advance 1 p) = showAt 2 e @ t" using r by (simp add: rest_advance)
    have "advance (length (showAt 2 e)) (advance 1 p) = advance (Suc (length (showAt 2 e))) p"
      by (simp add: advance_def)
    then show ?thesis
      using readsD(2) [OF e f ra] r oper
      by (subst pUnary_eq) (auto simp: Let_def skip peek_rest input_rest eat_def advance_def)
  qed
  have same: "showAt 2 ?e = oper # showAt 2 e" "showAt 1 ?e = oper # showAt 2 e" "showAt 0 ?e = oper # showAt 2 e"
    by simp_all
  have m: "pMul fl p = pMulLoop fl ?e (eat (length (showAt 2 ?e)) ?e p)"
    if "follow t" and "rest p = oper # showAt 2 e @ t" for p t
    by (rule lift_mul [OF u [OF that]])
  have a: "pAdd fl p = pAddLoop fl ?e (eat (length (showAt 2 ?e)) ?e p)"
    if "follow t" and "noMul t" and "rest p = oper # showAt 2 e @ t" for p t
    by (rule lift_add [OF m [OF that(1,3)] _ that(1,2)]) (use that(3) in simp)
  have prim: "pPrimary fl p = Parsed ?e (eat (length (showAt 3 ?e)) ?e p)"
    if "rest p = showAt 3 ?e @ t" for p t
    by (rule paren_primary [OF ok _ _ that]) (use a in simp_all)
  show ?thesis
    unfolding reads_def same using prim u m a by simp
qed

lemma reads_mul:
  assumes ok: "okNode fl (EBinary oper a b)" and oper: "oper = CHR ''*'' \<or> oper = CHR ''/''"
    and a: "reads fl a" and b: "reads fl b"
  shows "reads fl (EBinary oper a b)"
proof -
  let ?e = "EBinary oper a b"
  have sh: "showAt 1 ?e = showAt 1 a @ oper # showAt 2 b" "showAt 0 ?e = showAt 1 a @ oper # showAt 2 b"
    "showAt 2 ?e = CHR ''('' # showAt 0 ?e @ '')''" "showAt 3 ?e = CHR ''('' # showAt 0 ?e @ '')''"
    using oper by auto
  have m: "pMul fl p = pMulLoop fl ?e (eat (length (showAt 1 ?e)) ?e p)"
    if f: "follow t" and r: "rest p = showAt 1 ?e @ t" for p t
  proof -
    let ?q = "eat (length (showAt 1 a)) a p"
    have fo: "follow (oper # showAt 2 b @ t)" using oper by (auto simp: follow_def)
    have ra: "rest p = showAt 1 a @ oper # showAt 2 b @ t" using r sh by simp
    have rq: "rest ?q = oper # showAt 2 b @ t" using ra by simp
    have rb: "rest (advance 1 ?q) = showAt 2 b @ t" using rq by (simp add: rest_advance)
    have "pMul fl p = pMulLoop fl a ?q" by (rule readsD(3) [OF a fo ra])
    also have "\<dots> = pMulLoop fl ?e (eat (length (showAt 2 b)) b (advance 1 ?q))"
      unfolding loop_steps(1) [OF rq oper] readsD(2) [OF b f rb] bindP.simps ..
    also have "eat (length (showAt 2 b)) b (advance 1 ?q) = eat (length (showAt 1 ?e)) ?e p"
      using oper by (auto simp: eat_def advance_def)
    finally show ?thesis .
  qed
  have add: "pAdd fl p = pAddLoop fl ?e (eat (length (showAt 0 ?e)) ?e p)"
    if "follow t" and "noMul t" and r: "rest p = showAt 0 ?e @ t" for p t
    using lift_add [OF m _ that(1,2)] r sh that(1) by simp
  have prim: "pPrimary fl p = Parsed ?e (eat (length (showAt l ?e)) ?e p)"
    if "showAt l ?e = CHR ''('' # showAt 0 ?e @ '')''" "rest p = showAt l ?e @ t" for l p t
    by (rule paren_primary [OF ok that(1) _ that(2)]) (rule add)
  have u: "pUnary fl p = Parsed ?e (eat (length (showAt 2 ?e)) ?e p)" if r: "rest p = showAt 2 ?e @ t" for p t
    by (rule lift_unary [OF r ok _ prim [OF sh(3) r]]) simp
  show ?thesis
    unfolding reads_def using prim [OF sh(4)] u m add by blast
qed

lemma reads_add:
  assumes ok: "okNode fl (EBinary oper a b)" and oper: "oper = CHR ''+'' \<or> oper = CHR ''-''"
    and a: "reads fl a" and b: "reads fl b"
  shows "reads fl (EBinary oper a b)"
proof -
  let ?e = "EBinary oper a b"
  have sh: "showAt 0 ?e = showAt 0 a @ oper # showAt 1 b"
    "showAt 1 ?e = CHR ''('' # showAt 0 ?e @ '')''" "showAt 2 ?e = CHR ''('' # showAt 0 ?e @ '')''"
    "showAt 3 ?e = CHR ''('' # showAt 0 ?e @ '')''"
    using oper by auto
  have add: "pAdd fl p = pAddLoop fl ?e (eat (length (showAt 0 ?e)) ?e p)"
    if f: "follow t" and nm: "noMul t" and r: "rest p = showAt 0 ?e @ t" for p t
  proof -
    let ?q = "eat (length (showAt 0 a)) a p"
    have fo: "follow (oper # showAt 1 b @ t)" "noMul (oper # showAt 1 b @ t)"
      using oper by (auto simp: follow_def noMul_def)
    have ra: "rest p = showAt 0 a @ oper # showAt 1 b @ t" using r sh by simp
    have rq: "rest ?q = oper # showAt 1 b @ t" using ra by simp
    have rb: "rest (advance 1 ?q) = showAt 1 b @ t" using rq by (simp add: rest_advance)
    let ?r = "eat (length (showAt 1 b)) b (advance 1 ?q)"
    have "pMul fl (advance 1 ?q) = Parsed b ?r"
      unfolding readsD(3) [OF b f rb] by (rule loops_stop(1) [OF _ f nm]) (use rb in simp)
    then have "pAddLoop fl a ?q = pAddLoop fl ?e ?r"
      unfolding loop_steps(2) [OF rq oper] by simp
    moreover have "pAdd fl p = pAddLoop fl a ?q" by (rule readsD(4) [OF a fo(1) ra fo(2)])
    moreover have "?r = eat (length (showAt 0 ?e)) ?e p"
      using oper by (auto simp: eat_def advance_def)
    ultimately show ?thesis by simp
  qed
  have prim: "pPrimary fl p = Parsed ?e (eat (length (showAt l ?e)) ?e p)"
    if "showAt l ?e = CHR ''('' # showAt 0 ?e @ '')''" "rest p = showAt l ?e @ t" for l p t
    by (rule paren_primary [OF ok that(1) _ that(2)]) (rule add)
  have u: "pUnary fl p = Parsed ?e (eat (length (showAt 2 ?e)) ?e p)" if r: "rest p = showAt 2 ?e @ t" for p t
    by (rule lift_unary [OF r ok _ prim [OF sh(3) r]]) simp
  have m: "pMul fl p = pMulLoop fl ?e (eat (length (showAt 1 ?e)) ?e p)" if r: "rest p = showAt 1 ?e @ t" for p t
  proof -
    have "rest p = showAt 2 ?e @ t" using r sh by simp
    from lift_mul [OF u [OF this]] show ?thesis using sh by simp
  qed
  show ?thesis
    unfolding reads_def using prim [OF sh(4)] u m add by blast
qed

lemma reads_all: "okNode fl e \<Longrightarrow> reads fl e"
proof (induction e)
  case (ERef r)
  show ?case
  proof (rule reads_atom [OF ERef])
    fix p t assume r: "rest p = showAt 0 (ERef r) @ t"
    then have skip: "skipSpace p = p" by (intro skipSpace_idle) (simp add: isSpaceByte_def byte_def)
    have r': "rest p = ''${'' @ r @ CHR ''}'' # t" using r by simp
    have "hasPrefix ''${'' (rest p)" using r' by (simp add: hasPrefix_def)
    then show "pPrimary fl p = Parsed (ERef r) (eat (length (showAt 0 (ERef r))) (ERef r) p)"
      using parse_reference [OF ERef r'] r'
      by (subst pPrimary_eq) (simp add: Let_def skip rest_Nil peek_rest eval_nat_numeral)
  qed simp_all
next
  case (ENum s)
  show ?case
  proof (rule reads_atom [OF ENum])
    fix p t assume f: "follow t" and r: "rest p = showAt 0 (ENum s) @ t"
    note h = number_head [OF ENum] digit_facts [OF number_head(1) [OF ENum]]
    have hd: "rest p \<noteq> []" "hd (rest p) = hd s" using r h(2) by simp_all
    have skip: "skipSpace p = p" using hd h by (intro skipSpace_idle) simp
    have "\<not> hasPrefix ''${'' (rest p)" using hd h(3) by (cases "rest p") (auto simp: hasPrefix_def)
    then show "pPrimary fl p = Parsed (ENum s) (eat (length (showAt 0 (ENum s))) (ENum s) p)"
      using parse_number [OF ENum _ f, of p] r hd h
      by (subst pPrimary_eq) (simp add: Let_def skip rest_Nil peek_rest input_rest)
  qed simp_all
next
  case (EUnary oper e)
  then show ?case by (intro reads_unary) simp_all
next
  case (EBinary oper a b)
  then have "oper = CHR ''*'' \<or> oper = CHR ''/'' \<or> oper = CHR ''+'' \<or> oper = CHR ''-''" by auto
  with EBinary show ?case using reads_mul reads_add by auto
next
  case (ECall f args)
  have sub: "reads fl a" if "a \<in> set args" for a using ECall that by simp
  show ?case
  proof (rule reads_atom [OF ECall.prems])
    fix p t assume r: "rest p = showAt 0 (ECall f args) @ t"
    show "pPrimary fl p = Parsed (ECall f args) (eat (length (showAt 0 (ECall f args))) (ECall f args) p)"
      by (rule pCall_reads [OF ECall.prems _ r]) (use sub in \<open>blast intro: readsD(4)\<close>)
  qed simp_all
qed

end
