(* ===== verification/Expr_Properties.thy ===== *)
theory Expr_Properties
  imports Expr_Roundtrip
begin

text \<open>What the expression language guarantees, for every input string.\<close>

section \<open>Results of the parser\<close>

lemma ParseExpression_Inr:
  assumes "ParseExpression fl text = Some (Inr x)"
  obtains q where "pAdd fl \<lparr>input = trimSpace text, pos = 0, refs = [], calls = []\<rparr> = Parsed (exRoot x) q"
    and "exRefs x = refs q" and "exCalls x = calls q"
  using assms
  by (auto simp: ParseExpression_fuel_free Let_def split: if_splits presult.splits)

lemma parsed_good:
  assumes "ParseExpression fl text = Some (Inr x)"
  shows "okNode fl (exRoot x)" and "exRefs x = addAll [] (nodeRefs (exRoot x))"
    and "exCalls x = addAll [] (nodeCalls (exRoot x))"
proof -
  let ?p = "\<lparr>input = trimSpace text, pos = 0, refs = [], calls = []\<rparr>"
  obtain q where q: "pAdd fl ?p = Parsed (exRoot x) q" "exRefs x = refs q" "exCalls x = calls q"
    using ParseExpression_Inr [OF assms] by blast
  have "goodExpr fl ?p (pAdd fl ?p)" unfolding pAdd_def by (rule parse_good)
  with q have "okNode fl (exRoot x)" "collected ?p q (nodeRefs (exRoot x)) (nodeCalls (exRoot x))"
    by (auto simp: goodExpr_def)
  with q show "okNode fl (exRoot x)" "exRefs x = addAll [] (nodeRefs (exRoot x))"
    "exCalls x = addAll [] (nodeCalls (exRoot x))" by (simp_all add: collected_def)
qed

section \<open>Last bytes of printed trees\<close>

definition plainByte :: "char \<Rightarrow> bool" where
  "plainByte c \<longleftrightarrow> byte c < 128 \<and> byte c \<notin> {9, 10, 11, 12, 13, 32}"

lemma scanNumber_chars: "scanNumber d s = length s \<Longrightarrow> c \<in> set s \<Longrightarrow> isDigit c \<or> c = CHR ''.''"
  by (induction d s rule: scanNumber.induct) (auto split: if_splits)

lemma plain_digit: "isDigit c \<or> c = CHR ''.'' \<Longrightarrow> plainByte c"
  by (auto simp: plainByte_def isDigit_def byte_def)

lemma plain_ops: "c \<in> set ''+-*/(),$}'' \<Longrightarrow> plainByte c"
  by (auto simp: plainByte_def byte_def)

lemma showAt_ends:
  assumes "okNode fl e"
  shows "plainByte (hd (showAt l e)) \<and> plainByte (last (showAt l e))"
  using assms
proof (induction e arbitrary: l)
  case (ERef r)
  then show ?case by (simp add: plain_ops)
next
  case (ENum s)
  then show ?case using scanNumber_chars [of False s] by (simp add: plain_digit)
next
  case (EUnary oper e)
  then have "showAt 2 e \<noteq> []" "plainByte oper" using showAt_head [of fl e 2] plain_ops [of oper] by auto
  with EUnary show ?case by (auto simp: paren_def plain_ops)
next
  case (EBinary oper a b)
  then have "showAt i a \<noteq> []" "showAt i b \<noteq> []" for i
    using showAt_head [of fl a i] showAt_head [of fl b i] by auto
  with EBinary show ?case by (auto simp: paren_def plain_ops)
next
  case (ECall f args)
  then have "f \<in> {''coalesce'', ''nullif'', ''abs'', ''round'', ''safe_divide''}"
    using allowed_names [of f] by (auto split: option.splits)
  then show ?case by (auto simp: plain_ops) (simp_all add: plainByte_def byte_def)
qed

text \<open>A small exact arithmetic to evaluate expressions at: integers with division.\<close>

definition intOps :: "int fops" where
  "intOps = \<lparr>ofInt = (\<lambda>i. i), fadd = (+), fsub = (-), fmul = (*), fdiv = (div), fneg = uminus,
     fabs = (\<lambda>i. if i < 0 then - i else i), feq = (=), fround = (\<lambda>i. i), pow10 = (\<lambda>n. 1), toInt = (\<lambda>i. i),
     parseFloat = (\<lambda>s. if s = ''2'' then Some 2 else None)\<rparr>"

section \<open>Properties\<close>

text \<open>
  C9: \<open>ParseExpression\<close> is total: on every input it returns an expression or an error, for some
  bounded number of calls; the fuel \<open>6 * length + 4\<close> never runs out.
\<close>

theorem parse_total: "\<exists>r. ParseExpression floatOk text = Some r"
  using pAdd_fueled [of floatOk "\<lparr>input = trimSpace text, pos = 0, refs = [], calls = []\<rparr>"]
  by (auto simp: ParseExpression_fuel_free Let_def split: presult.split)

text \<open>
  C10: Precedence and associativity. Every tree the language can express is what the parser returns
  for its text with parentheses only where multiplication over addition, grouping to the left and
  signs need them; the references and functions reported are those of the tree.
\<close>

theorem printed_tree_parses:
  assumes "okNode floatOk e"
  shows "ParseExpression floatOk (showExpr e) = Some (Inr \<lparr>exRoot = e,
     exRefs = addAll [] (nodeRefs e), exCalls = addAll [] (nodeCalls e)\<rparr>)"
proof -
  let ?s = "showAt 0 e"
  let ?p = "\<lparr>input = ?s, pos = 0, refs = [], calls = []\<rparr>"
  let ?q = "eat (length ?s) e ?p"
  have trim: "trimSpace ?s = ?s"
    by (rule trimSpace_id) (use showAt_ends [OF assms, of 0] in \<open>simp add: plainByte_def\<close>)
  have f: "follow []" "noMul []" by (simp_all add: follow_def noMul_def)
  have r: "rest ?p = ?s @ []" by (simp add: rest_def)
  have "pAdd floatOk ?p = Parsed e ?q"
    unfolding readsD(4) [OF reads_all [OF assms] f(1) r f(2)]
    by (rule loops_stop(2) [OF _ f(1)]) (simp_all add: r [simplified])
  moreover have "skipSpace ?q = ?q" by (rule skipSpace_idle) (simp add: r [simplified])
  moreover have "?s \<noteq> []" using showAt_head [OF assms, of 0] by simp
  ultimately show ?thesis
    by (simp add: ParseExpression_fuel_free showExpr_def trim Let_def) (simp add: eat_def)
qed

theorem printed_tree_parses_witness:
  "ParseExpression (\<lambda>_. True) ''(${a}+2)*${b.c}-abs(-3)''
     = Some (Inr \<lparr>exRoot = EBinary CHR ''-''
          (EBinary CHR ''*'' (EBinary CHR ''+'' (ERef ''a'') (ENum ''2'')) (ERef ''b.c''))
          (ECall ''abs'' [EUnary CHR ''-'' (ENum ''3'')]),
        exRefs = [''a'', ''b.c''], exCalls = [''abs'']\<rparr>)"
proof -
  let ?e = "EBinary CHR ''-''
          (EBinary CHR ''*'' (EBinary CHR ''+'' (ERef ''a'') (ENum ''2'')) (ERef ''b.c''))
          (ECall ''abs'' [EUnary CHR ''-'' (ENum ''3'')])"
  have "okNode (\<lambda>_. True) ?e" by code_simp
  from printed_tree_parses [OF this]
  show ?thesis by (simp add: showExpr_def paren_def addSeen_def)
qed

text \<open>
  What is reported is what the tree contains. The references of a parsed expression are exactly
  the references in its tree, each once and in order of first use; so are its functions.
\<close>

theorem parsed_references_exact:
  assumes "ParseExpression floatOk text = Some (Inr x)"
  shows "exRefs x = addAll [] (nodeRefs (exRoot x)) \<and> distinct (exRefs x)
    \<and> set (exRefs x) = set (nodeRefs (exRoot x))
    \<and> distinct (exCalls x) \<and> set (exCalls x) = set (nodeCalls (exRoot x))"
  using parsed_good [OF assms] by (simp add: distinct_addAll)

theorem parsed_references_exact_witness:
  "(case ParseExpression (\<lambda>_. True) '' ${b} * ${a} + ${ b } '' of
      Some (Inr x) \<Rightarrow> exRefs x = [''b'', ''a''] \<and> set (exRefs x) = set (nodeRefs (exRoot x))
    | _ \<Rightarrow> False)"
proof -
  obtain x where x: "ParseExpression (\<lambda>_. True) '' ${b} * ${a} + ${ b } '' = Some (Inr x)" "exRefs x = [''b'', ''a'']"
  proof -
    have "case ParseExpression (\<lambda>_. True) '' ${b} * ${a} + ${ b } '' of
        Some (Inr x) \<Rightarrow> exRefs x = [''b'', ''a''] | _ \<Rightarrow> False" by code_simp
    then show thesis using that by (auto split: option.splits sum.splits)
  qed
  with parsed_references_exact [OF x(1)] show ?thesis by simp
qed

lemma evaluateAll_length: "evaluateAll F env es = Some (Inr vs) \<Longrightarrow> length vs = length es"
  by (induction es arbitrary: vs) (auto split: option.splits sum.splits)

lemma evaluateAll_defined: "(\<And>e. e \<in> set es \<Longrightarrow> evaluate F env e \<noteq> None) \<Longrightarrow> evaluateAll F env es \<noteq> None"
  by (induction es) (auto split: option.splits sum.splits)

lemma sqlAll_length: "sqlAll res es = Some (Inr vs) \<Longrightarrow> length vs = length es"
  by (induction es arbitrary: vs) (auto split: option.splits sum.splits)

lemma sqlAll_defined: "(\<And>e. e \<in> set es \<Longrightarrow> sql res e \<noteq> None) \<Longrightarrow> sqlAll res es \<noteq> None"
  by (induction es) (auto split: option.splits sum.splits)

lemma evalCall_defined:
  assumes "allowedArity f = Some (lo, hi)" and "lo \<le> length vs" and "length vs \<le> hi"
  shows "evalCall F f vs \<noteq> None"
  using assms allowed_names [of f]
  by (cases vs; cases "tl vs") (auto simp: evalCall_def evalRound_def allowedArity_def split: if_splits)

lemma evaluate_defined: "okNode fl e \<Longrightarrow> evaluate F env e \<noteq> None"
proof (induction e)
  case (ECall f args)
  then have "evaluateAll F env args \<noteq> None" by (intro evaluateAll_defined) auto
  moreover obtain lo hi where "allowedArity f = Some (lo, hi)" "lo \<le> length args" "length args \<le> hi"
    using ECall.prems by (auto split: option.splits)
  ultimately show ?case
    using evaluateAll_length [of F env args] evalCall_defined [of f lo hi]
    by (cases "evaluateAll F env args"; cases "the (evaluateAll F env args)") force+
qed (auto split: option.splits sum.splits)

lemma sql_defined: "okNode fl e \<Longrightarrow> sql res e \<noteq> None"
proof (induction e)
  case (ECall f args)
  then have "sqlAll res args \<noteq> None" by (intro sqlAll_defined) auto
  moreover have "length vs = 2" if "f = ''safe_divide''" "sqlAll res args = Some (Inr vs)" for vs
    using ECall.prems that sqlAll_length [OF that(2)] by (auto simp: allowedArity_def)
  ultimately show ?case
    by (auto split: option.splits sum.splits list.splits)
qed (auto split: option.splits sum.splits)

text \<open>
  C11: Neither evaluation nor SQL rendering of a parsed expression indexes past the arguments of a
  call, whatever the references resolve to: the parser's arity check is enough.
\<close>

theorem parsed_expression_never_panics:
  assumes "ParseExpression floatOk text = Some (Inr x)"
  shows "evaluate F env (exRoot x) \<noteq> None \<and> sql res (exRoot x) \<noteq> None"
  using evaluate_defined sql_defined parsed_good(1) [OF assms] by blast

theorem parsed_expression_never_panics_witness:
  "(case ParseExpression (\<lambda>_. True) ''safe_divide(${a}, round(${b}))'' of
      Some (Inr x) \<Rightarrow> sql (\<lambda>r. Inr r :: string + string) (exRoot x) \<noteq> None
    | _ \<Rightarrow> False)"
proof -
  have "case ParseExpression (\<lambda>_. True) ''safe_divide(${a}, round(${b}))'' of
      Some (Inr x) \<Rightarrow> True | _ \<Rightarrow> False" by code_simp
  then obtain x where x: "ParseExpression (\<lambda>_. True) ''safe_divide(${a}, round(${b}))'' = Some (Inr x)"
    by (auto split: option.splits sum.splits)
  have "sql (\<lambda>r. Inr r :: string + string) (exRoot x) \<noteq> None"
    by (rule conjunct2 [OF parsed_expression_never_panics [OF x, where F = intOps and env = "\<lambda>_. Inr GNil"]])
  with x show ?thesis by simp
qed

section \<open>Evaluation\<close>

lemma evaluateAll_cong:
  "(\<And>e. e \<in> set es \<Longrightarrow> evaluate F env e = evaluate F env' e) \<Longrightarrow> evaluateAll F env es = evaluateAll F env' es"
  by (induction es) (auto split: option.split sum.split)

lemma sqlAll_cong: "(\<And>e. e \<in> set es \<Longrightarrow> sql res e = sql res' e) \<Longrightarrow> sqlAll res es = sqlAll res' es"
  by (induction es) (auto split: option.split sum.split)

lemma evaluate_cong:
  "(\<And>r. r \<in> set (nodeRefs e) \<Longrightarrow> env r = env' r) \<Longrightarrow> evaluate F env e = evaluate F env' e"
proof (induction e)
  case (ECall f args)
  then have "evaluateAll F env args = evaluateAll F env' args" by (intro evaluateAll_cong) fastforce
  then show ?case by simp
qed (auto split: option.split sum.split)

lemma sql_cong: "(\<And>r. r \<in> set (nodeRefs e) \<Longrightarrow> res r = res' r) \<Longrightarrow> sql res e = sql res' e"
proof (induction e)
  case (ECall f args)
  then have "sqlAll res args = sqlAll res' args" by (intro sqlAll_cong) fastforce
  then show ?case by simp
qed (auto split: option.split sum.split)

text \<open>
  C12: An expression depends on nothing but the references it reports: two environments that agree
  on them give the same value, the same error and the same SQL. Validation that checks only
  \<open>References()\<close> therefore checks everything the expression will ever resolve.
\<close>

theorem references_determine_meaning:
  assumes "ParseExpression floatOk text = Some (Inr x)"
    and "\<forall>r \<in> set (exRefs x). env r = env' r \<and> res r = res' r"
  shows "evaluate F env (exRoot x) = evaluate F env' (exRoot x) \<and> sql res (exRoot x) = sql res' (exRoot x)"
proof -
  have "set (exRefs x) = set (nodeRefs (exRoot x))" using parsed_good(2) [OF assms(1)] by simp
  with assms(2) show ?thesis using evaluate_cong [of "exRoot x" env env'] sql_cong [of "exRoot x" res res'] by simp
qed

theorem references_determine_meaning_witness:
  "(case ParseExpression (\<lambda>_. True) ''${a} / ${b}'' of
      Some (Inr x) \<Rightarrow> sql (\<lambda>r. Inr r :: string + string) (exRoot x)
        = sql (\<lambda>r. if r = ''c'' then Inl ''unknown'' else Inr r) (exRoot x)
    | _ \<Rightarrow> False)"
proof -
  have "case ParseExpression (\<lambda>_. True) ''${a} / ${b}'' of
      Some (Inr x) \<Rightarrow> exRefs x = [''a'', ''b''] | _ \<Rightarrow> False" by code_simp
  then obtain x where x: "ParseExpression (\<lambda>_. True) ''${a} / ${b}'' = Some (Inr x)" "exRefs x = [''a'', ''b'']"
    by (auto split: option.splits sum.splits)
  have "sql (\<lambda>r. Inr r :: string + string) (exRoot x)
      = sql (\<lambda>r. if r = ''c'' then Inl ''unknown'' else Inr r) (exRoot x)"
    by (rule conjunct2 [OF references_determine_meaning [OF x(1), where env = "\<lambda>_. Inr GNil" and env' = "\<lambda>_. Inr GNil"]])
      (simp add: x(2))
  with x(1) show ?thesis by simp
qed

definition nilOrNumber :: "'f fops \<Rightarrow> 'f gval \<Rightarrow> bool" where
  "nilOrNumber F v \<longleftrightarrow> v = GNil \<or> (\<exists>x. expressionFloat F v = Inr x)"

lemma evalBinary_nil:
  assumes "nilOrNumber F l" and "nilOrNumber F r" and "oper \<in> set ''+-*/''"
  shows "\<exists>v. evalBinary F oper l r = Inr v \<and> nilOrNumber F v \<and> (v = GNil \<longleftrightarrow> l = GNil \<or> r = GNil)"
  using assms by (auto simp: evalBinary_def withFloat_def nilOrNumber_def expressionFloat_def)

lemma evalUnary_nil:
  assumes "nilOrNumber F v"
  shows "\<exists>u. evalUnary F oper v = Inr u \<and> nilOrNumber F u \<and> (u = GNil \<longleftrightarrow> v = GNil)"
  using assms by (auto simp: evalUnary_def withFloat_def nilOrNumber_def expressionFloat_def)

lemma arithmetic_value:
  assumes "\<And>s. fl s \<Longrightarrow> parseFloat F s \<noteq> None"
    and "okNode fl e" and "nodeCalls e = []"
    and "\<And>r. r \<in> set (nodeRefs e) \<Longrightarrow> \<exists>v. env r = Inr v \<and> nilOrNumber F v"
  shows "\<exists>v. evaluate F env e = Some (Inr v) \<and> nilOrNumber F v
    \<and> (v = GNil \<longleftrightarrow> (\<exists>r \<in> set (nodeRefs e). env r = Inr GNil))"
  using assms(2-)
proof (induction e)
  case (ERef r)
  then show ?case by fastforce
next
  case (ENum s)
  then obtain x where "parseFloat F s = Some x" using assms(1) by fastforce
  then show ?case by (simp add: nilOrNumber_def expressionFloat_def)
next
  case (EUnary oper e)
  then obtain v where v: "evaluate F env e = Some (Inr v)" "nilOrNumber F v"
    "v = GNil \<longleftrightarrow> (\<exists>r \<in> set (nodeRefs e). env r = Inr GNil)" by auto
  with evalUnary_nil [OF v(2), of oper] show ?case by auto
next
  case (EBinary oper a b)
  then obtain l where l: "evaluate F env a = Some (Inr l)" "nilOrNumber F l"
    "l = GNil \<longleftrightarrow> (\<exists>r \<in> set (nodeRefs a). env r = Inr GNil)" by auto
  from EBinary obtain r where r: "evaluate F env b = Some (Inr r)" "nilOrNumber F r"
    "r = GNil \<longleftrightarrow> (\<exists>x \<in> set (nodeRefs b). env x = Inr GNil)" by auto
  have "oper \<in> set ''+-*/''" using EBinary.prems(1) by simp
  from evalBinary_nil [OF l(2) r(2) this] l r show ?case by auto
qed simp

text \<open>
  Null propagation. A parsed expression without function calls, whose references resolve to
  numbers or null, always evaluates without an error, and its value is null exactly when one of its
  references is null; a null is never turned into a number, and a number never into null.
\<close>

theorem arithmetic_null_exact:
  assumes "\<And>s. floatOk s \<Longrightarrow> parseFloat F s \<noteq> None"
    and "ParseExpression floatOk text = Some (Inr x)" and "exCalls x = []"
    and "\<And>r. r \<in> set (exRefs x) \<Longrightarrow> \<exists>v. env r = Inr v \<and> nilOrNumber F v"
  shows "\<exists>v. evaluate F env (exRoot x) = Some (Inr v)
    \<and> (v = GNil \<longleftrightarrow> (\<exists>r \<in> set (exRefs x). env r = Inr GNil))"
proof -
  note g = parsed_good [OF assms(2)]
  have refs: "set (exRefs x) = set (nodeRefs (exRoot x))" using g(2) by simp
  have "set (nodeCalls (exRoot x)) = {}" using g(3) assms(3) by (metis list.set(1) set_addAll sup_bot.left_neutral)
  then have "nodeCalls (exRoot x) = []" by simp
  from arithmetic_value [OF assms(1) g(1) this] assms(4) refs show ?thesis by metis
qed

theorem arithmetic_null_exact_witness:
  "(case ParseExpression (\<lambda>s. s = ''2'') ''(${a} + 2) * -${b}'' of
      Some (Inr x) \<Rightarrow> evaluate intOps (\<lambda>r. Inr (if r = ''a'' then GInt 3 else GNil)) (exRoot x) = Some (Inr GNil)
    | _ \<Rightarrow> False)"
proof -
  have "case ParseExpression (\<lambda>s. s = ''2'') ''(${a} + 2) * -${b}'' of
      Some (Inr x) \<Rightarrow> exRefs x = [''a'', ''b''] \<and> exCalls x = [] | _ \<Rightarrow> False" by code_simp
  then obtain x where x: "ParseExpression (\<lambda>s. s = ''2'') ''(${a} + 2) * -${b}'' = Some (Inr x)"
    "exRefs x = [''a'', ''b'']" "exCalls x = []"
    by (auto split: option.splits sum.splits)
  let ?env = "\<lambda>r. Inr (if r = ''a'' then GInt 3 else GNil)"
  obtain v where "evaluate intOps ?env (exRoot x) = Some (Inr v)"
    "v = GNil \<longleftrightarrow> (\<exists>r \<in> set (exRefs x). ?env r = Inr GNil)"
    using arithmetic_null_exact [of "\<lambda>s. s = ''2''" intOps _ x ?env] x
    by (auto simp: intOps_def nilOrNumber_def expressionFloat_def)
  with x show ?thesis by simp
qed

end
