(* ===== verification/Go_Results.thy ===== *)
theory Go_Results
  imports Go_Strings "HOL-Library.Char_ord" "HOL-Library.List_Lexorder"
begin

text \<open>
  Errors and maps of the analytics model. An error is what \<open>fmt.Errorf\<close> is called with: the format,
  its arguments, and the error wrapped by \<open>%w\<close> if there is one. A fallible function returns
  \<open>goError + 'a\<close>. A Go map is an association list with distinct keys, whose order is the order in
  which one \<open>range\<close> loop visits it; Go leaves that order open, so what is proved for every list
  holds for every order. Go compares strings bytewise, which is the order \<open>List_Lexorder\<close> gives.
\<close>

section \<open>Errors\<close>

datatype errArg = Arg string | ArgN int | ArgL "string list"

datatype goError = Errorf string "errArg list" | Wrapf string "errArg list" goError

definition andThen :: "goError + 'a \<Rightarrow> ('a \<Rightarrow> goError + 'b) \<Rightarrow> goError + 'b" where
  "andThen r f = (case r of Inl e \<Rightarrow> Inl e | Inr x \<Rightarrow> f x)"

definition wrapErr :: "string \<Rightarrow> errArg list \<Rightarrow> goError + 'a \<Rightarrow> goError + 'a" where
  "wrapErr format args r = (case r of Inl e \<Rightarrow> Inl (Wrapf format args e) | Inr x \<Rightarrow> Inr x)"

definition failIf :: "bool \<Rightarrow> string \<Rightarrow> errArg list \<Rightarrow> goError + unit" where
  "failIf b format args = (if b then Inl (Errorf format args) else Inr ())"

text \<open>A \<open>range\<close> loop whose body returns on error, and one that also rebuilds the elements.\<close>

fun eachE :: "('a \<Rightarrow> goError + unit) \<Rightarrow> 'a list \<Rightarrow> goError + unit" where
  "eachE f [] = Inr ()"
| "eachE f (x # xs) = andThen (f x) (\<lambda>_. eachE f xs)"

fun mapE :: "('a \<Rightarrow> goError + 'b) \<Rightarrow> 'a list \<Rightarrow> goError + 'b list" where
  "mapE f [] = Inr []"
| "mapE f (x # xs) = andThen (f x) (\<lambda>y. andThen (mapE f xs) (\<lambda>ys. Inr (y # ys)))"

lemma andThen_Inr [simp]: "andThen (Inr x) f = f x"
  and andThen_Inl [simp]: "andThen (Inl e) f = Inl e"
  by (simp_all add: andThen_def)

lemma andThen_eq_Inr: "andThen r f = Inr y \<longleftrightarrow> (\<exists>x. r = Inr x \<and> f x = Inr y)"
  by (cases r) auto

lemma wrapErr_eq_Inr [simp]: "wrapErr fmt args r = Inr x \<longleftrightarrow> r = Inr x"
  by (cases r) (auto simp: wrapErr_def)

lemma failIf_eq_Inr [simp]: "failIf b fmt args = Inr u \<longleftrightarrow> \<not> b"
  by (simp add: failIf_def)

lemma eachE_eq_Inr [simp]: "eachE f xs = Inr u \<longleftrightarrow> (\<forall>x \<in> set xs. f x = Inr ())"
  by (induction xs) (auto simp: andThen_eq_Inr)

lemma mapE_eq_Inr: "mapE f xs = Inr ys \<longleftrightarrow> list_all2 (\<lambda>x y. f x = Inr y) xs ys"
  by (induction xs arbitrary: ys) (auto simp: andThen_eq_Inr list_all2_Cons1)

lemmas resultE = andThen_eq_Inr mapE_eq_Inr

section \<open>Maps\<close>

type_synonym 'a goMap = "(string \<times> 'a) list"

abbreviation get :: "'a goMap \<Rightarrow> string \<Rightarrow> 'a option" where
  "get m k \<equiv> map_of m k"

definition hasKey :: "'a goMap \<Rightarrow> string \<Rightarrow> bool" where
  "hasKey m k \<longleftrightarrow> map_of m k \<noteq> None"

definition goodMap :: "'a goMap \<Rightarrow> bool" where
  "goodMap m \<longleftrightarrow> distinct (map fst m)"

lemma hasKey_iff: "hasKey m k \<longleftrightarrow> k \<in> fst ` set m"
  by (simp add: hasKey_def map_of_eq_None_iff)

definition sortedKeys :: "'a goMap \<Rightarrow> string list" where
  "sortedKeys m = sort (map fst m)"

text \<open>A sequence of guards: the first that fails is the result.\<close>

fun checks :: "(goError + unit) list \<Rightarrow> goError + unit" where
  "checks [] = Inr ()"
| "checks (c # cs) = andThen c (\<lambda>_. checks cs)"

lemma checks_eq_Inr [simp]: "checks cs = Inr u \<longleftrightarrow> (\<forall>c \<in> set cs. c = Inr ())"
  by (induction cs) (auto simp: andThen_eq_Inr)

text \<open>Writing a key.\<close>

fun put :: "string \<Rightarrow> 'a \<Rightarrow> 'a goMap \<Rightarrow> 'a goMap" where
  "put k v [] = [(k, v)]"
| "put k v ((a, b) # m) = (if a = k then (k, v) # m else (a, b) # put k v m)"

lemma get_put [simp]: "get (put k v m) = (get m)(k \<mapsto> v)"
  by (induction k v m rule: put.induct) auto

lemma hasKey_put [simp]: "hasKey (put k v m) a \<longleftrightarrow> a = k \<or> hasKey m a"
  by (simp add: hasKey_def)

lemma hasKey_Cons [simp]: "hasKey ((a, b) # m) k \<longleftrightarrow> k = a \<or> hasKey m k"
  by (simp add: hasKey_def)

lemma goodMap_put: "goodMap m \<Longrightarrow> goodMap (put k v m)"
proof (induction k v m rule: put.induct)
  case (2 k v a b m)
  moreover have "fst ` set (put k v m) = insert k (fst ` set m)"
    by (induction k v m rule: put.induct) auto
  ultimately show ?case by (auto simp: goodMap_def)
qed (simp add: goodMap_def)

text \<open>A loop that rebuilds every value of a map and keeps its keys.\<close>

definition mapValuesE :: "(string \<Rightarrow> 'a \<Rightarrow> goError + 'b) \<Rightarrow> 'a goMap \<Rightarrow> goError + 'b goMap" where
  "mapValuesE f m = mapE (\<lambda>(k, v). andThen (f k v) (\<lambda>w. Inr (k, w))) m"

lemma mapValuesE_eq_Inr:
  "mapValuesE f m = Inr m' \<longleftrightarrow> list_all2 (\<lambda>(k, v) (k', w). k' = k \<and> f k v = Inr w) m m'"
  by (auto simp: mapValuesE_def mapE_eq_Inr andThen_eq_Inr split: prod.splits elim!: list_all2_mono)

lemma mapValuesE_keys:
  assumes "mapValuesE f m = Inr m'"
  shows "map fst m' = map fst m"
  using assms unfolding mapValuesE_eq_Inr by (induction rule: list_all2_induct) auto

lemma mapValuesE_hasKey: "mapValuesE f m = Inr m' \<Longrightarrow> hasKey m' k \<longleftrightarrow> hasKey m k"
  by (drule mapValuesE_keys) (metis hasKey_iff list.set_map)

lemma mapValuesE_get:
  assumes "mapValuesE f m = Inr m'" and "get m' k = Some w"
  shows "\<exists>v. get m k = Some v \<and> f k v = Inr w"
  using assms unfolding mapValuesE_eq_Inr
  by (induction rule: list_all2_induct) (auto split: if_splits)

text \<open>A lookup that fails with an error, and a case split on a result.\<close>

lemma caseOption_eq_Inr [simp]: "case_option (Inl e) f x = Inr z \<longleftrightarrow> (\<exists>y. x = Some y \<and> f y = Inr z)"
  by (cases x) auto

lemma andThen_pair_eq_Inr: "andThen r (\<lambda>(a, b). f a b) = Inr y \<longleftrightarrow> (\<exists>a b. r = Inr (a, b) \<and> f a b = Inr y)"
  by (cases r) auto

end
