(* ===== verification/SQL_Scan.thy ===== *)
theory SQL_Scan
  imports Go_Results
begin

text \<open>
  The relation scanner of \<^verbatim>\<open>internal/analytics/model/model.go\<close> that finds which sources and model
  tables a transform query reads. Positions are indexes into the text, as in the code. The scanner
  is recursive on the bodies of common table expressions and subqueries: \<open>relationList\<close> and
  \<open>cteLoop\<close> return those bodies, and \<open>scanRefs\<close> scans them, which is well-founded because a body
  is shorter than its query. \<open>strings.ToLower\<close> is modelled on ASCII letters.
\<close>

section \<open>Skipping text that is not code\<close>

abbreviation quoteChar :: char where "quoteChar \<equiv> CHR 0x27"
abbreviation doubleQuote :: char where "doubleQuote \<equiv> CHR 0x22"

definition byteIs :: "string \<Rightarrow> nat \<Rightarrow> char \<Rightarrow> bool" where
  "byteIs s i c \<longleftrightarrow> i < length s \<and> s ! i = c"

fun quotedLen :: "string \<Rightarrow> nat" where
  "quotedLen [] = 0"
| "quotedLen (c # s) =
     (if c \<noteq> quoteChar then Suc (quotedLen s)
      else if s \<noteq> [] \<and> hd s = quoteChar then 2 + quotedLen (tl s)
      else 1)"

definition skipSQLSingleQuoted :: "string \<Rightarrow> nat \<Rightarrow> nat" where
  "skipSQLSingleQuoted s index = index + 1 + quotedLen (drop (index + 1) s)"

definition skipSQLLineComment :: "string \<Rightarrow> nat \<Rightarrow> nat" where
  "skipSQLLineComment s index =
     index + length (takeWhile (\<lambda>c. c \<noteq> CHR 0x0A \<and> c \<noteq> CHR 0x0D) (drop index s))"

fun blockLen :: "string \<Rightarrow> nat" where
  "blockLen [] = 0"
| "blockLen (c # s) = (if take 2 (c # s) = ''*/'' then 2 else Suc (blockLen s))"

definition skipSQLBlockComment :: "string \<Rightarrow> nat \<Rightarrow> nat" where
  "skipSQLBlockComment s index = index + blockLen (drop index s)"

text \<open>The \<open>switch\<close> that skips a string literal or a comment.\<close>

definition commentAt :: "string \<Rightarrow> nat \<Rightarrow> nat option" where
  "commentAt s i =
     (if byteIs s i CHR ''-'' \<and> byteIs s (i + 1) CHR ''-'' then Some (skipSQLLineComment s (i + 2))
      else if byteIs s i CHR ''/'' \<and> byteIs s (i + 1) CHR ''*'' then Some (skipSQLBlockComment s (i + 2))
      else None)"

definition opaqueAt :: "string \<Rightarrow> nat \<Rightarrow> nat option" where
  "opaqueAt s i = (if byteIs s i quoteChar then Some (skipSQLSingleQuoted s i) else commentAt s i)"

definition skipSQLSpaces :: "string \<Rightarrow> nat \<Rightarrow> nat" where
  "skipSQLSpaces s index =
     index + length (takeWhile (\<lambda>c. c \<in> {CHR '' '', CHR 0x0A, CHR 0x0D, CHR 0x09, CHR 0x0C}) (drop index s))"

section \<open>Identifiers\<close>

fun quotedIdentifier :: "string \<Rightarrow> (string \<times> nat) option" where
  "quotedIdentifier [] = None"
| "quotedIdentifier (c # s) =
     (if c \<noteq> doubleQuote then map_option (\<lambda>(t, n). (c # t, Suc n)) (quotedIdentifier s)
      else if s \<noteq> [] \<and> hd s = doubleQuote
      then map_option (\<lambda>(t, n). (doubleQuote # t, n + 2)) (quotedIdentifier (tl s))
      else Some ([], 1))"

definition readSQLIdentifier :: "string \<Rightarrow> nat \<Rightarrow> string \<times> nat \<times> bool" where
  "readSQLIdentifier s index =
     (if index \<ge> length s then ('''', index, False)
      else if s ! index = doubleQuote then
        (case quotedIdentifier (drop (index + 1) s) of
           Some (t, n) \<Rightarrow> (t, index + 1 + n, True)
         | None \<Rightarrow> ('''', length s, False))
      else if \<not> identStart (s ! index) then ('''', index, False)
      else let t = takeWhile identPart (drop (index + 1) s) in (s ! index # t, index + 1 + length t, True))"

definition equalFold :: "string \<Rightarrow> string \<Rightarrow> bool" where
  "equalFold s word \<longleftrightarrow> foldCase s = word"

section \<open>Where the scanner may jump\<close>

lemma quotedLen_le: "quotedLen s \<le> length s"
proof (induction s rule: quotedLen.induct)
  case (2 c s)
  then show ?case by (cases s) auto
qed simp

lemma blockLen_le: "blockLen s \<le> length s"
proof (induction s)
  case (Cons c s)
  then show ?case by (cases s) auto
qed simp

lemma quotedIdentifier_le: "quotedIdentifier s = Some (t, n) \<Longrightarrow> 0 < n \<and> n \<le> length s"
proof (induction s arbitrary: t n rule: quotedIdentifier.induct)
  case (2 c s)
  then show ?case by (cases s) (auto split: if_splits)
qed simp

lemma byteIs_less: "byteIs s i c \<Longrightarrow> i < length s"
  by (simp add: byteIs_def)

lemma opaqueAt_bounds:
  assumes "opaqueAt s i = Some j"
  shows "i < j" and "j \<le> length s"
proof -
  have q: "byteIs s i quoteChar \<Longrightarrow> skipSQLSingleQuoted s i \<le> length s"
    using quotedLen_le [of "drop (i + 1) s"] by (auto simp: skipSQLSingleQuoted_def byteIs_def)
  have l: "byteIs s (i + 1) c \<Longrightarrow> skipSQLLineComment s (i + 2) \<le> length s" for c
    using length_takeWhile_le [of "\<lambda>c. c \<noteq> CHR 0x0A \<and> c \<noteq> CHR 0x0D" "drop (i + 2) s"]
    by (auto simp: skipSQLLineComment_def byteIs_def)
  have b: "byteIs s (i + 1) c \<Longrightarrow> skipSQLBlockComment s (i + 2) \<le> length s" for c
    using blockLen_le [of "drop (i + 2) s"] by (auto simp: skipSQLBlockComment_def byteIs_def)
  show "i < j" using assms
    by (auto simp: opaqueAt_def commentAt_def skipSQLSingleQuoted_def skipSQLLineComment_def
        skipSQLBlockComment_def split: if_splits)
  show "j \<le> length s" using assms q l b by (auto simp: opaqueAt_def commentAt_def split: if_splits)
qed

lemma commentAt_bounds:
  assumes "commentAt s i = Some j"
  shows "i < j" and "j \<le> length s"
proof -
  have "\<not> byteIs s i quoteChar" using assms by (auto simp: commentAt_def byteIs_def split: if_splits)
  then have "opaqueAt s i = Some j" using assms by (simp add: opaqueAt_def)
  then show "i < j" "j \<le> length s" by (rule opaqueAt_bounds)+
qed

lemma readSQLIdentifier_bounds:
  assumes "readSQLIdentifier s i = (t, j, ok)"
  shows "ok \<Longrightarrow> i < j" and "i \<le> length s \<Longrightarrow> j \<le> length s" and "i \<le> length s \<Longrightarrow> i \<le> j"
proof -
  have q: "quotedIdentifier (drop (i + 1) s) = Some (u, n) \<Longrightarrow> i + 1 + n \<le> length s" if "i < length s" for u n
    using quotedIdentifier_le [of "drop (i + 1) s" u n] that by auto
  have w: "i + 1 + length (takeWhile identPart (drop (i + 1) s)) \<le> length s" if "i < length s"
    using length_takeWhile_le [of identPart "drop (i + 1) s"] that by auto
  show "ok \<Longrightarrow> i < j" "i \<le> length s \<Longrightarrow> j \<le> length s" "i \<le> length s \<Longrightarrow> i \<le> j"
    using assms q w by (auto simp: readSQLIdentifier_def Let_def split: if_splits option.splits)
qed

lemma skipSQLSpaces_bounds: "i \<le> skipSQLSpaces s i" "i \<le> length s \<Longrightarrow> skipSQLSpaces s i \<le> length s"
  using length_takeWhile_le [of "\<lambda>c. c \<in> {CHR '' '', CHR 0x0A, CHR 0x0D, CHR 0x09, CHR 0x0C}" "drop i s"]
  by (simp_all add: skipSQLSpaces_def)

section \<open>Keywords\<close>

function firstKeywordFrom :: "string \<Rightarrow> nat \<Rightarrow> string \<times> nat \<times> bool" where
  "firstKeywordFrom s index =
     (if index \<ge> length s then ('''', length s, False)
      else case opaqueAt s index of
        Some j \<Rightarrow> firstKeywordFrom s j
      | None \<Rightarrow>
          if identStart (s ! index) then
            (case readSQLIdentifier s index of (keyword, nxt, _) \<Rightarrow> (toLower keyword, nxt, True))
          else firstKeywordFrom s (index + 1))"
  by pat_completeness auto
termination
  by (relation "measure (\<lambda>(s, i). length s - i)") (auto dest: opaqueAt_bounds)

declare firstKeywordFrom.simps [simp del]

definition firstSQLKeyword :: "string \<Rightarrow> string \<times> nat \<times> bool" where
  "firstSQLKeyword s = firstKeywordFrom s 0"

definition relationKeyword :: "string \<Rightarrow> bool" where
  "relationKeyword k \<longleftrightarrow> k \<in> {''from'', ''join''}"

definition relationListTerminator :: "string \<Rightarrow> bool" where
  "relationListTerminator v \<longleftrightarrow> v \<in> set [''set'', ''where'', ''group'', ''order'', ''having'', ''limit'', ''offset'',
     ''qualify'', ''union'', ''except'', ''intersect'', ''join'', ''left'', ''right'', ''full'', ''inner'', ''outer'',
     ''cross'', ''on'', ''using'']"

section \<open>Balanced parentheses\<close>

function balancedFrom :: "string \<Rightarrow> nat \<Rightarrow> int \<Rightarrow> nat \<Rightarrow> string \<times> nat" where
  "balancedFrom s start depth index =
     (if index \<ge> length s then (drop start s, index)
      else if s ! index = quoteChar then balancedFrom s start depth (skipSQLSingleQuoted s index)
      else if s ! index = doubleQuote then
        (case readSQLIdentifier s index of
           (_, nxt, True) \<Rightarrow> balancedFrom s start depth nxt
         | (_, _, False) \<Rightarrow> balancedFrom s start depth (index + 1))
      else case commentAt s index of
        Some j \<Rightarrow> balancedFrom s start depth j
      | None \<Rightarrow>
          if s ! index = CHR ''('' then balancedFrom s start (depth + 1) (index + 1)
          else if s ! index = CHR '')'' then
            (if depth - 1 = 0 then (take (index - start) (drop start s), index + 1)
             else balancedFrom s start (depth - 1) (index + 1))
          else balancedFrom s start depth (index + 1))"
  by pat_completeness auto
termination
  by (relation "measure (\<lambda>(s, start, d, i). length s - i)")
    (auto simp: skipSQLSingleQuoted_def dest: commentAt_bounds readSQLIdentifier_bounds(1) [OF sym])

declare balancedFrom.simps [simp del]

definition readSQLBalancedContent :: "string \<Rightarrow> nat \<Rightarrow> string \<times> nat" where
  "readSQLBalancedContent s index = balancedFrom s (index + 1) 0 index"

definition skipSQLBalanced :: "string \<Rightarrow> nat \<Rightarrow> nat" where
  "skipSQLBalanced s index = snd (readSQLBalancedContent s index)"

lemma balancedFrom_bounds:
  "balancedFrom s start d i = (t, j) \<Longrightarrow> i \<le> length s \<Longrightarrow> i \<le> j \<and> j \<le> length s
     \<and> length t \<le> length s - start \<and> (i < length s \<longrightarrow> i < j)"
proof (induction s start d i arbitrary: t j rule: balancedFrom.induct)
  case (1 s start d i)
  note eq = "1.prems"(1) [unfolded balancedFrom.simps [of s start d i]]
  show ?case
  proof (cases "i < length s")
    case False
    then show ?thesis using eq "1.prems"(2) by auto
  next
    case i: True
    then have ni: "\<not> length s \<le> i" by simp
    have quote: "i < skipSQLSingleQuoted s i" "skipSQLSingleQuoted s i \<le> length s"
      using quotedLen_le [of "drop (i + 1) s"] i by (auto simp: skipSQLSingleQuoted_def)
    have go: ?thesis if "i' \<le> j \<and> j \<le> length s \<and> length t \<le> length s - start \<and> (i' < length s \<longrightarrow> i' < j)"
      and "i < i'" for i' using that by auto
    show ?thesis
    proof (cases "s ! i = quoteChar")
      case True
      have "balancedFrom s start d (skipSQLSingleQuoted s i) = (t, j)" using eq ni True by simp
      from go [OF "1.IH"(1) [OF ni True this quote(2)] quote(1)] show ?thesis .
    next
      case nq: False
      show ?thesis
      proof (cases "s ! i = doubleQuote")
        case dq: True
        obtain u k ok where id: "readSQLIdentifier s i = (u, k, ok)" by (cases "readSQLIdentifier s i") auto
        show ?thesis
        proof (cases ok)
          case True
          with id have id': "readSQLIdentifier s i = (u, k, True)" by simp
          have "balancedFrom s start d k = (t, j)" using eq ni nq dq id' by simp
          moreover have k: "i < k" "k \<le> length s" using readSQLIdentifier_bounds [OF id] True i by auto
          ultimately show ?thesis
            using go [OF "1.IH"(2) [OF ni nq dq id' [symmetric] refl refl _ k(2)] k(1)] by simp
        next
          case False
          with id have id': "readSQLIdentifier s i = (u, k, False)" by simp
          have "balancedFrom s start d (i + 1) = (t, j)" using eq ni nq dq id' by simp
          with i show ?thesis
            using go [OF "1.IH"(3) [OF ni nq dq id' [symmetric] refl refl]] by simp
        qed
      next
        case ndq: False
        show ?thesis
        proof (cases "commentAt s i")
          case (Some k)
          have "balancedFrom s start d k = (t, j)" using eq ni nq ndq Some by simp
          from go [OF "1.IH"(7) [OF ni nq ndq Some this commentAt_bounds(2) [OF Some]] commentAt_bounds(1) [OF Some]]
          show ?thesis .
        next
          case None
          note eq' = eq [unfolded if_not_P [OF ni] if_not_P [OF nq] if_not_P [OF ndq] None option.case]
          have i1: "i + 1 \<le> length s" "i < i + 1" using i by simp_all
          show ?thesis
          proof (cases "s ! i = CHR ''('' ")
            case True
            have "balancedFrom s start (d + 1) (i + 1) = (t, j)" using eq' True by simp
            from go [OF "1.IH"(4) [OF ni nq ndq None True this i1(1)] i1(2)] show ?thesis .
          next
            case no: False
            show ?thesis
            proof (cases "s ! i = CHR '')''")
              case cl: True
              show ?thesis
              proof (cases "d - 1 = 0")
                case True
                then have "t = take (i - start) (drop start s)" "j = i + 1" using eq' no cl by auto
                with i show ?thesis by simp
              next
                case False
                have "balancedFrom s start (d - 1) (i + 1) = (t, j)" using eq' no cl False by simp
                from go [OF "1.IH"(5) [OF ni nq ndq None no cl False this i1(1)] i1(2)] show ?thesis .
              qed
            next
              case False
              have "balancedFrom s start d (i + 1) = (t, j)" using eq' no False by simp
              from go [OF "1.IH"(6) [OF ni nq ndq None no False this i1(1)] i1(2)] show ?thesis .
            qed
          qed
        qed
      qed
    qed
  qed
qed

lemma readSQLBalancedContent_bounds:
  assumes "readSQLBalancedContent s i = (t, j)" and "i < length s"
  shows "i < j" and "j \<le> length s" and "length t < length s"
  using balancedFrom_bounds [of s "i + 1" 0 i t j] assms by (auto simp: readSQLBalancedContent_def)

lemma skipSQLBalanced_bounds: "i < length s \<Longrightarrow> i < skipSQLBalanced s i \<and> skipSQLBalanced s i \<le> length s"
  using readSQLBalancedContent_bounds by (metis prod.collapse skipSQLBalanced_def)

section \<open>Relations after FROM and JOIN\<close>

record sqlRelationRef =
  refNamespace :: string
  refName :: string

datatype relItem = RelRef sqlRelationRef | Subquery string

definition readSQLRelationRef :: "string \<Rightarrow> nat \<Rightarrow> string list \<Rightarrow> (sqlRelationRef \<times> nat) option" where
  "readSQLRelationRef s index locals =
     (case readSQLIdentifier s index of
        (_, _, False) \<Rightarrow> None
      | (first, nxt, True) \<Rightarrow>
          let dot = skipSQLSpaces s nxt in
          if byteIs s dot CHR ''.'' then
            (case readSQLIdentifier s (skipSQLSpaces s (dot + 1)) of
               (_, _, False) \<Rightarrow> None
             | (name, afterName, True) \<Rightarrow>
                 let namespace = toLower first in
                 if namespace = ''source'' \<or> namespace = ''raw'' \<or> namespace = ''model''
                 then Some (\<lparr>refNamespace = namespace, refName = name\<rparr>, afterName)
                 else Some (\<lparr>refNamespace = [], refName = name\<rparr>, afterName))
          else if toLower first \<in> set locals then Some (\<lparr>refNamespace = ''local'', refName = first\<rparr>, nxt)
          else Some (\<lparr>refNamespace = [], refName = first\<rparr>, nxt))"

function skipSQLRelationAlias :: "string \<Rightarrow> nat \<Rightarrow> nat" where
  "skipSQLRelationAlias s index0 =
     (let index = skipSQLSpaces s index0 in
      if index \<ge> length s then index
      else if s ! index = CHR ''('' then skipSQLBalanced s index
      else if s ! index = doubleQuote then
        (case readSQLIdentifier s index of (_, nxt, ok) \<Rightarrow> if ok then nxt else index)
      else if \<not> identStart (s ! index) then index
      else case readSQLIdentifier s index of (val, nxt, _) \<Rightarrow>
        let lower = toLower val in
        if lower = ''as'' then (if index < nxt then skipSQLRelationAlias s nxt else nxt)
        else if relationListTerminator lower then index
        else nxt)"
  by pat_completeness auto
termination
proof (relation "measure (\<lambda>(s, i). length s - i)", goal_cases)
  case (2 s i0 i val y nxt ok lower)
  then have "i0 \<le> i" using skipSQLSpaces_bounds(1) by simp
  with 2 show ?case by simp
qed simp

declare skipSQLRelationAlias.simps [simp del]

text \<open>An identifier that starts at a letter always advances, so the inner guard above never fails.\<close>

lemma readSQLIdentifier_letter:
  assumes "i < length s" and "s ! i \<noteq> doubleQuote" and "identStart (s ! i)"
  shows "\<exists>t j. readSQLIdentifier s i = (t, j, True) \<and> i < j"
  using assms by (simp add: readSQLIdentifier_def Let_def)

lemma readSQLRelationRef_bounds:
  assumes "readSQLRelationRef s i locals = Some (r, j)" and "i \<le> length s"
  shows "i < j" and "j \<le> length s"
proof -
  obtain t k ok where id: "readSQLIdentifier s i = (t, k, ok)" by (cases "readSQLIdentifier s i") auto
  with assms have ok by (auto simp: readSQLRelationRef_def split: bool.splits)
  note b = readSQLIdentifier_bounds [OF id]
  let ?d = "skipSQLSpaces s k"
  let ?n = "skipSQLSpaces s (?d + 1)"
  have k: "i < k" "k \<le> length s" using b \<open>ok\<close> assms(2) by auto
  have d: "k \<le> ?d" "?d \<le> length s" using skipSQLSpaces_bounds k(2) by auto
  have "i < j \<and> j \<le> length s"
  proof (cases "byteIs s ?d CHR ''.''")
    case True
    then have n: "?d + 1 \<le> ?n" "?n \<le> length s" using skipSQLSpaces_bounds byteIs_less [OF True] by auto
    obtain u m ok2 where id2: "readSQLIdentifier s ?n = (u, m, ok2)" by (cases "readSQLIdentifier s ?n") auto
    with assms(1) id \<open>ok\<close> True have "ok2" "j = m"
      by (auto simp: readSQLRelationRef_def Let_def split: bool.splits if_splits)
    with readSQLIdentifier_bounds [OF id2] n d k show ?thesis by auto
  next
    case False
    with assms(1) id \<open>ok\<close> have "j = k"
      by (auto simp: readSQLRelationRef_def Let_def split: if_splits)
    with k show ?thesis by simp
  qed
  then show "i < j" "j \<le> length s" by auto
qed

lemma skipSQLRelationAlias_bounds:
  "i \<le> length s \<Longrightarrow> i \<le> skipSQLRelationAlias s i \<and> skipSQLRelationAlias s i \<le> length s"
proof (induction s i rule: skipSQLRelationAlias.induct)
  case (1 s i0)
  let ?i = "skipSQLSpaces s i0"
  have i: "i0 \<le> ?i" "?i \<le> length s" using skipSQLSpaces_bounds 1(2) by auto
  obtain t j ok where id: "readSQLIdentifier s ?i = (t, j, ok)" by (cases "readSQLIdentifier s ?i") auto
  note b = readSQLIdentifier_bounds [OF id]
  have bal: "?i < length s \<Longrightarrow> ?i < skipSQLBalanced s ?i \<and> skipSQLBalanced s ?i \<le> length s"
    by (rule skipSQLBalanced_bounds)
  have rec: "j \<le> skipSQLRelationAlias s j \<and> skipSQLRelationAlias s j \<le> length s"
    if "\<not> length s \<le> ?i" "s ! ?i \<noteq> CHR ''(''" "s ! ?i \<noteq> doubleQuote" "identStart (s ! ?i)"
      "toLower t = ''as''" "?i < j"
    by (rule 1(1) [OF refl that(1-3) _ id [symmetric] refl refl that(5,6)]) (use that b(2) i in auto)
  show ?case
    by (subst (1 2) skipSQLRelationAlias.simps) (use i b bal rec id in \<open>auto simp: Let_def\<close>)
qed

function relationList :: "string \<Rightarrow> nat \<Rightarrow> string list \<Rightarrow> relItem list \<times> nat" where
  "relationList s index0 locals =
     (let index = skipSQLSpaces s index0 in
      if index \<ge> length s then ([], index)
      else if s ! index = CHR ''('' then
        (case readSQLBalancedContent s index of (inside, nxt) \<Rightarrow> ([Subquery inside], nxt))
      else case readSQLRelationRef s index locals of
        None \<Rightarrow> ([], index)
      | Some (ref, nxt) \<Rightarrow>
          let after = skipSQLSpaces s (skipSQLRelationAlias s nxt) in
          if byteIs s after CHR '','' then
            (case relationList s (after + 1) locals of (items, k) \<Rightarrow> (RelRef ref # items, k))
          else ([RelRef ref], after))"
  by pat_completeness auto
termination
proof (relation "measure (\<lambda>(s, i, l). length s - i)", goal_cases)
  case (2 s i0 l i x ref nxt after)
  then have i: "i < length s" "i0 \<le> i" using skipSQLSpaces_bounds(1) by auto
  have n: "i < nxt" "nxt \<le> length s" using readSQLRelationRef_bounds [of s i l ref nxt] 2 i by auto
  then have "nxt \<le> after" using skipSQLRelationAlias_bounds [OF n(2)] skipSQLSpaces_bounds(1) 2(6) by (metis order_trans)
  with i n byteIs_less [OF 2(7)] show ?case by simp
qed simp

declare relationList.simps [simp del]

definition readSQLRelationList :: "string \<Rightarrow> nat \<Rightarrow> string list \<Rightarrow> relItem list \<times> nat" where
  "readSQLRelationList s index locals = relationList s index locals"

definition itemShorter :: "string \<Rightarrow> relItem \<Rightarrow> bool" where
  "itemShorter s item \<longleftrightarrow> (case item of RelRef _ \<Rightarrow> True | Subquery inside \<Rightarrow> length inside < length s)"

lemma relationList_bounds:
  "relationList s i locals = (items, k) \<Longrightarrow> i \<le> length s \<Longrightarrow> i \<le> k \<and> k \<le> length s \<and> (\<forall>it \<in> set items. itemShorter s it)"
proof (induction s i locals arbitrary: items k rule: relationList.induct)
  case (1 s i0 l)
  let ?i = "skipSQLSpaces s i0"
  note eq = 1(2) [unfolded relationList.simps [of s i0 l] Let_def]
  have i: "i0 \<le> ?i" "?i \<le> length s" using skipSQLSpaces_bounds 1(3) by auto
  show ?case
  proof (cases "length s \<le> ?i")
    case True
    with eq i show ?thesis by auto
  next
    case lt: False
    show ?thesis
    proof (cases "s ! ?i = CHR ''(''")
      case True
      obtain inside nxt where b: "readSQLBalancedContent s ?i = (inside, nxt)" by (cases "readSQLBalancedContent s ?i")
      with eq lt True have "items = [Subquery inside]" "k = nxt" by auto
      with readSQLBalancedContent_bounds [OF b] lt i show ?thesis by (auto simp: itemShorter_def)
    next
      case np: False
      show ?thesis
      proof (cases "readSQLRelationRef s ?i l")
        case None
        with eq lt np i show ?thesis by auto
      next
        case (Some x)
        obtain ref nxt where x: "x = (ref, nxt)" by (cases x)
        let ?a = "skipSQLSpaces s (skipSQLRelationAlias s nxt)"
        have n: "?i < nxt" "nxt \<le> length s" using readSQLRelationRef_bounds [of s ?i l ref nxt] Some x i by auto
        have a: "nxt \<le> ?a" "?a \<le> length s"
          using skipSQLRelationAlias_bounds [OF n(2)] skipSQLSpaces_bounds by (meson order_trans)+
        show ?thesis
        proof (cases "byteIs s ?a CHR '',''")
          case True
          obtain its k' where r: "relationList s (?a + 1) l = (its, k')" by (cases "relationList s (?a + 1) l")
          have "items = RelRef ref # its" "k = k'" using eq lt np Some x True r by auto
          moreover have "?a + 1 \<le> k' \<and> k' \<le> length s \<and> (\<forall>it \<in> set its. itemShorter s it)"
            by (rule 1(1) [OF refl lt np Some x [symmetric] refl True r]) (use byteIs_less [OF True] in simp)
          ultimately show ?thesis using i n a by (auto simp: itemShorter_def)
        next
          case False
          with eq lt np Some x have "items = [RelRef ref]" "k = ?a" by auto
          with i n a show ?thesis by (auto simp: itemShorter_def)
        qed
      qed
    qed
  qed
qed

section \<open>Common table expressions\<close>

function cteLoop :: "string \<Rightarrow> nat \<Rightarrow> string list \<Rightarrow> string list \<times> (string \<times> string list) list \<times> nat" where
  "cteLoop s index locals0 =
     (case readSQLIdentifier s index of
        (_, _, False) \<Rightarrow> (locals0, [], index)
      | (name, afterName, True) \<Rightarrow>
          let locals = toLower name # locals0;
              i1 = skipSQLSpaces s afterName;
              i2 = (if byteIs s i1 CHR ''('' then skipSQLSpaces s (skipSQLBalanced s i1) else i1)
          in case readSQLIdentifier s i2 of (asKeyword, afterAS, ok) \<Rightarrow>
             if \<not> ok \<or> \<not> equalFold asKeyword ''as'' then (locals, [], i2)
             else let i3 = skipSQLSpaces s afterAS in
               if \<not> byteIs s i3 CHR ''('' then (locals, [], i3)
               else case readSQLBalancedContent s i3 of (inside, afterBody) \<Rightarrow>
                 let i4 = skipSQLSpaces s afterBody in
                 if \<not> byteIs s i4 CHR '','' then (locals, [(inside, locals)], i4)
                 else case cteLoop s (skipSQLSpaces s (i4 + 1)) locals of (locals', bodies, k) \<Rightarrow>
                   (locals', (inside, locals) # bodies, k))"
  by pat_completeness auto
termination
proof (relation "measure (\<lambda>(s, i, l). length s - i)", goal_cases)
  case 1
  show ?case by simp
next
  case prems: (2 s i l0 name r afterName z locals i1 i2 asKeyword y afterAS ok i3 inside afterBody i4)
  have id: "readSQLIdentifier s i = (name, afterName, True)" using prems(1-3) by simp
  then have i: "i < length s" by (auto simp: readSQLIdentifier_def split: if_splits)
  have a: "i < afterName" "afterName \<le> length s" using readSQLIdentifier_bounds [OF id] i by auto
  have i1: "afterName \<le> i1" "i1 \<le> length s" using skipSQLSpaces_bounds a(2) prems(5) by auto
  have i2: "i1 \<le> i2" "i2 \<le> length s"
  proof -
    have "i1 < length s \<Longrightarrow> i1 < skipSQLBalanced s i1 \<and> skipSQLBalanced s i1 \<le> length s"
      by (rule skipSQLBalanced_bounds)
    then show "i1 \<le> i2" "i2 \<le> length s"
      using prems(6) i1 byteIs_less [of s i1] skipSQLSpaces_bounds [of "skipSQLBalanced s i1" s]
      by (auto split: if_splits)
  qed
  have as: "i2 < afterAS" "afterAS \<le> length s"
    using readSQLIdentifier_bounds [of s i2 asKeyword afterAS ok] prems(7-9) i2 by auto
  have i3: "afterAS \<le> i3" "i3 < length s" using skipSQLSpaces_bounds(1) prems(10,11) byteIs_less by auto
  have b: "i3 < afterBody" using readSQLBalancedContent_bounds [of s i3 inside afterBody] prems(12) i3 by auto
  have i4: "afterBody \<le> i4" "i4 < length s" using skipSQLSpaces_bounds(1) prems(13,14) byteIs_less by auto
  have "i4 + 1 \<le> skipSQLSpaces s (i4 + 1)" by (rule skipSQLSpaces_bounds)
  with i a i1 i2 as i3 b i4 show ?case by simp
qed

declare cteLoop.simps [simp del]

definition scanSQLCTEs :: "string \<Rightarrow> string list \<Rightarrow> string list \<times> (string \<times> string list) list \<times> nat" where
  "scanSQLCTEs s locals =
     (case firstSQLKeyword s of (keyword, nxt, ok) \<Rightarrow>
        if \<not> ok \<or> keyword \<noteq> ''with'' then (locals, [], 0)
        else let index = skipSQLSpaces s nxt in
          case readSQLIdentifier s index of (rec, afterRec, ok2) \<Rightarrow>
            if ok2 \<and> equalFold rec ''recursive'' then cteLoop s (skipSQLSpaces s afterRec) locals
            else cteLoop s index locals)"

section \<open>The references of a query\<close>

function scanMain :: "string \<Rightarrow> nat \<Rightarrow> string list \<Rightarrow> relItem list" where
  "scanMain s index locals =
     (if index \<ge> length s then []
      else case opaqueAt s index of
        Some j \<Rightarrow> scanMain s j locals
      | None \<Rightarrow>
          if identStart (s ! index) then
            (case readSQLIdentifier s index of (keyword, nxt, _) \<Rightarrow>
               if relationKeyword (toLower keyword) then
                 (case readSQLRelationList s nxt locals of (items, k) \<Rightarrow>
                    items @ (if index < k then scanMain s k locals else []))
               else if index < nxt then scanMain s nxt locals else [])
          else scanMain s (index + 1) locals)"
  by pat_completeness auto
termination
  by (relation "measure (\<lambda>(s, i, l). length s - i)") (auto dest: opaqueAt_bounds)

declare scanMain.simps [simp del]

text \<open>The two guards \<open>index < \<dots>\<close> above are there for the termination proof only: they always hold.\<close>

lemma scanMain_advances:
  assumes "i < length s" and "identStart (s ! i)" and "readSQLIdentifier s i = (t, j, ok)"
  shows "i < j" and "readSQLRelationList s j l = (items, k) \<Longrightarrow> i < k"
proof -
  have nq: "s ! i \<noteq> doubleQuote"
    using assms(2) by (auto simp: identStart_def isAsciiLetter_def byte_def)
  from readSQLIdentifier_letter [OF assms(1) nq assms(2)] assms(3) show j: "i < j" by auto
  have "j \<le> length s" using readSQLIdentifier_bounds(2) [OF assms(3)] assms(1) by simp
  then show "readSQLRelationList s j l = (items, k) \<Longrightarrow> i < k"
    using relationList_bounds [of s j l items k] j by (simp add: readSQLRelationList_def)
qed

lemma scanMain_shorter: "it \<in> set (scanMain s i l) \<Longrightarrow> itemShorter s it"
proof (induction s i l rule: scanMain.induct)
  case (1 s i l)
  show ?case
  proof (cases "i < length s")
    case False
    with 1 show ?thesis by (simp add: scanMain.simps [of s i])
  next
    case True
    obtain t j ok where id: "readSQLIdentifier s i = (t, j, ok)" by (cases "readSQLIdentifier s i") auto
    obtain items k where r: "readSQLRelationList s j l = (items, k)" by (cases "readSQLRelationList s j l")
    have "j \<le> length s" using readSQLIdentifier_bounds(2) [OF id] True by simp
    then have items: "it \<in> set items \<Longrightarrow> itemShorter s it"
      using relationList_bounds [of s j l items k] r by (simp add: readSQLRelationList_def)
    from 1 True id r items show ?thesis
      by (auto simp: scanMain.simps [of s i] split: option.splits if_splits)
  qed
qed

lemma cteLoop_bounds:
  "cteLoop s i l = (ls, bodies, k) \<Longrightarrow> i \<le> length s \<Longrightarrow>
     k \<le> length s \<and> (\<forall>b \<in> set bodies. length (fst b) < length s)"
proof (induction s i l arbitrary: ls bodies k rule: cteLoop.induct)
  case (1 s i l)
  obtain name a ok where id: "readSQLIdentifier s i = (name, a, ok)" by (cases "readSQLIdentifier s i") auto
  note eq = 1(2) [unfolded cteLoop.simps [of s i l] id prod.case]
  show ?case
  proof (cases ok)
    case False
    with eq 1(3) show ?thesis by auto
  next
    case okT: True
    with id have id': "readSQLIdentifier s i = (name, a, True)" by simp
    define i1 where "i1 = skipSQLSpaces s a"
    define i2 where "i2 = (if byteIs s i1 CHR ''('' then skipSQLSpaces s (skipSQLBalanced s i1) else i1)"
    have a: "a \<le> length s" using readSQLIdentifier_bounds(2) [OF id] 1(3) by simp
    then have i1: "i1 \<le> length s" using skipSQLSpaces_bounds i1_def by simp
    then have i2: "i2 \<le> length s"
      using i2_def skipSQLSpaces_bounds(2) skipSQLBalanced_bounds byteIs_less by auto
    obtain kw b ok2 where id2: "readSQLIdentifier s i2 = (kw, b, ok2)" by (cases "readSQLIdentifier s i2") auto
    have b: "b \<le> length s" using readSQLIdentifier_bounds(2) [OF id2 i2] .
    define i3 where "i3 = skipSQLSpaces s b"
    have i3: "i3 \<le> length s" using skipSQLSpaces_bounds b i3_def by simp
    note eq1 = eq [unfolded okT Let_def i1_def [symmetric], folded i2_def, unfolded bool.case id2 prod.case i3_def [symmetric]]
    show ?thesis
    proof (cases "ok2 \<and> equalFold kw ''as'' \<and> byteIs s i3 CHR ''(''")
      case False
      with eq1 okT i2 i3 show ?thesis by (auto split: if_splits)
    next
      case asK: True
      then have lt: "i3 < length s" using byteIs_less by auto
      obtain u c where bal: "readSQLBalancedContent s i3 = (u, c)" by (cases "readSQLBalancedContent s i3")
      note bb = readSQLBalancedContent_bounds [OF bal lt]
      define i4 where "i4 = skipSQLSpaces s c"
      have i4: "i4 \<le> length s" using skipSQLSpaces_bounds bb(2) i4_def by simp
      show ?thesis
      proof (cases "byteIs s i4 CHR '',''")
        case False
        with eq1 okT asK bal i4 bb show ?thesis by (auto simp: i4_def)
      next
        case comma: True
        then have "i4 + 1 \<le> length s" using byteIs_less by fastforce
        then have n: "skipSQLSpaces s (i4 + 1) \<le> length s" by (rule skipSQLSpaces_bounds)
        obtain ls' bs k' where rec: "cteLoop s (skipSQLSpaces s (i4 + 1)) (toLower name # l) = (ls', bs, k')"
          by (cases "cteLoop s (skipSQLSpaces s (i4 + 1)) (toLower name # l)") auto
        have ih: "k' \<le> length s \<and> (\<forall>b \<in> set bs. length (fst b) < length s)"
          by (rule 1(1) [OF id' [symmetric] refl refl refl i1_def i2_def id2 [symmetric] refl _ i3_def
                _ bal [symmetric] i4_def _ rec n]) (use asK comma in auto)
        from eq1 okT asK bal comma rec have "bodies = (u, toLower name # l) # bs" "k = k'"
          by (auto simp: i4_def)
        with ih bb show ?thesis by auto
      qed
    qed
  qed
qed

lemma firstKeywordFrom_bounds:
  "firstKeywordFrom s i = (t, j, ok) \<Longrightarrow> i \<le> length s \<Longrightarrow> j \<le> length s"
proof (induction s i rule: firstKeywordFrom.induct)
  case (1 s i)
  show ?case
  proof (cases "i < length s")
    case False
    with 1(3) show ?thesis by (simp add: firstKeywordFrom.simps [of s i])
  next
    case True
    obtain u k ok2 where id: "readSQLIdentifier s i = (u, k, ok2)" by (cases "readSQLIdentifier s i") auto
    have "k \<le> length s" using readSQLIdentifier_bounds(2) [OF id] True by simp
    with 1 True id show ?thesis
      by (auto simp: firstKeywordFrom.simps [of s i] dest: opaqueAt_bounds split: option.splits if_splits)
  qed
qed

lemma scanSQLCTEs_bounds:
  assumes "scanSQLCTEs s l = (ls, bodies, k)"
  shows "k \<le> length s" and "b \<in> set bodies \<Longrightarrow> length (fst b) < length s"
proof -
  obtain kw j ok where f: "firstSQLKeyword s = (kw, j, ok)" by (cases "firstSQLKeyword s") auto
  then have "j \<le> length s" using firstKeywordFrom_bounds [of s 0 kw j ok] by (simp add: firstSQLKeyword_def)
  then have i: "skipSQLSpaces s j \<le> length s" by (rule skipSQLSpaces_bounds)
  obtain u a ok2 where id: "readSQLIdentifier s (skipSQLSpaces s j) = (u, a, ok2)"
    by (cases "readSQLIdentifier s (skipSQLSpaces s j)") auto
  have a: "skipSQLSpaces s a \<le> length s"
    using skipSQLSpaces_bounds readSQLIdentifier_bounds(2) [OF id i] by simp
  have "k \<le> length s \<and> (\<forall>b \<in> set bodies. length (fst b) < length s)"
    using assms cteLoop_bounds [OF _ i] cteLoop_bounds [OF _ a] f id
    by (auto simp: scanSQLCTEs_def Let_def split: if_splits)
  then show "k \<le> length s" "b \<in> set bodies \<Longrightarrow> length (fst b) < length s" by auto
qed

function scanRefs :: "string \<Rightarrow> string list \<Rightarrow> sqlRelationRef list" where
  "scanRefs s locals0 =
     (case scanSQLCTEs s (map toLower locals0) of (locals, bodies, start) \<Rightarrow>
        concat (map (\<lambda>b. scanRefs (fst b) (snd b)) bodies) @
        concat (map (\<lambda>item. case item of
            RelRef ref \<Rightarrow> [ref]
          | Subquery inside \<Rightarrow> scanRefs inside locals) (scanMain s start locals)))"
  by pat_completeness auto
termination
  by (relation "measure (\<lambda>(s, l). length s)")
    (auto dest!: scanSQLCTEs_bounds(2) [OF sym] scanMain_shorter simp: itemShorter_def)

declare scanRefs.simps [simp del]

definition scanSQLRelationRefs :: "string \<Rightarrow> sqlRelationRef list" where
  "scanSQLRelationRefs s = scanRefs s []"

definition sortedStringSet :: "string list \<Rightarrow> string list" where
  "sortedStringSet values = sort (remdups values)"

definition refNames :: "string \<Rightarrow> sqlRelationRef list \<Rightarrow> string list" where
  "refNames namespace rs = sortedStringSet (map refName (filter (\<lambda>r. refNamespace r = namespace) rs))"

definition modelSQLSourceRefs :: "string \<Rightarrow> string list \<times> string list \<times> string list" where
  "modelSQLSourceRefs sql =
     (if sql = [] then ([], [], [])
      else let rs = scanSQLRelationRefs sql in
        (refNames ''source'' rs, refNames ''raw'' rs, refNames [] rs))"

definition isSelect :: "string \<times> nat \<times> bool \<Rightarrow> bool" where
  "isSelect k \<longleftrightarrow> (case k of (keyword, _, ok) \<Rightarrow> ok \<and> keyword = ''select'')"

definition validateModelSQLQuery :: "string \<Rightarrow> string \<Rightarrow> goError + unit" where
  "validateModelSQLQuery tableName sql =
     (case firstSQLKeyword sql of (keyword, _, ok) \<Rightarrow>
        if \<not> ok \<or> keyword \<noteq> ''select'' \<and> keyword \<noteq> ''with''
        then Inl (Errorf ''model table %q transform.sql must be a read-only SELECT or WITH query'' [Arg tableName])
        else if keyword = ''with'' \<and> \<not> (case scanSQLCTEs sql [] of (_, _, start) \<Rightarrow> isSelect (firstSQLKeyword (drop start sql)))
        then Inl (Errorf ''model table %q transform.sql must be a read-only SELECT or WITH query'' [Arg tableName])
        else Inr ())"

end
