(* ===== verification/SQL_Fragment.thy ===== *)
theory SQL_Fragment
  imports SQL_Scan
begin

text \<open>
  A fragment of the query language with its printer, and what the relation scanner finds in a printed
  query. A segment is a word, a string literal with any content, a line comment, another symbol, a
  parenthesised group, a relation list after FROM, or a subquery after FROM. The lemmas read the text
  at a position: \<open>drop i s = t @ r\<close> says that \<open>t\<close> stands at position \<open>i\<close> of \<open>s\<close>.
\<close>

section \<open>The fragment\<close>

datatype tableRef = TableRef "string option" string "string option"

datatype segment =
    Word string
  | Literal string
  | LineComment string
  | Symbol char
  | Group "segment list"
  | FromTables "tableRef list"
  | FromQuery "segment list"

definition showTable :: "tableRef \<Rightarrow> string" where
  "showTable t = (case t of TableRef ns n al \<Rightarrow>
     (case ns of None \<Rightarrow> [] | Some q \<Rightarrow> q @ ''.'') @ n @ (case al of None \<Rightarrow> [] | Some a \<Rightarrow> '' '' @ a))"

fun doubled :: "string \<Rightarrow> string" where
  "doubled [] = []"
| "doubled (c # s) = (if c = quoteChar then [c, c] else [c]) @ doubled s"

fun showTables :: "tableRef list \<Rightarrow> string" where
  "showTables [] = []"
| "showTables [t] = showTable t"
| "showTables (t # u # ts) = showTable t @ '', '' @ showTables (u # ts)"

fun showSegment :: "segment \<Rightarrow> string" and showSegments :: "segment list \<Rightarrow> string" where
  "showSegment (Word w) = w @ '' ''"
| "showSegment (Literal t) = quoteChar # doubled t @ [quoteChar, CHR '' '']"
| "showSegment (LineComment t) = ''--'' @ t @ [CHR 0x0A]"
| "showSegment (Symbol c) = [c, CHR '' '']"
| "showSegment (Group g) = ''('' @ showSegments g @ '') ''"
| "showSegment (FromTables ts) = ''from '' @ showTables ts @ '' where ''"
| "showSegment (FromQuery q) = ''from (select '' @ showSegments q @ '') where ''"
| "showSegments [] = []"
| "showSegments (x # xs) = showSegment x @ showSegments xs"

definition okName :: "string \<Rightarrow> bool" where
  "okName n \<longleftrightarrow> semanticIdentifier n"

definition okAlias :: "string \<Rightarrow> bool" where
  "okAlias a \<longleftrightarrow> semanticIdentifier a \<and> toLower a \<noteq> ''as'' \<and> \<not> relationListTerminator (toLower a)"

definition okTable :: "tableRef \<Rightarrow> bool" where
  "okTable t \<longleftrightarrow> (case t of TableRef ns n al \<Rightarrow>
     okName n \<and> (case ns of None \<Rightarrow> True | Some q \<Rightarrow> okName q) \<and> (case al of None \<Rightarrow> True | Some a \<Rightarrow> okAlias a))"

fun okSegment :: "segment \<Rightarrow> bool" and okSegments :: "segment list \<Rightarrow> bool" where
  "okSegment (Word w) \<longleftrightarrow> semanticIdentifier w \<and> \<not> relationKeyword (toLower w)"
| "okSegment (Literal t) \<longleftrightarrow> True"
| "okSegment (LineComment t) \<longleftrightarrow> CHR 0x0A \<notin> set t \<and> CHR 0x0D \<notin> set t"
| "okSegment (Symbol c) \<longleftrightarrow> \<not> identStart c \<and> c \<notin> {quoteChar, doubleQuote, CHR ''('', CHR '')''}"
| "okSegment (Group g) \<longleftrightarrow> okSegments g"
| "okSegment (FromTables ts) \<longleftrightarrow> ts \<noteq> [] \<and> list_all okTable ts"
| "okSegment (FromQuery q) \<longleftrightarrow> okSegments q"
| "okSegments [] \<longleftrightarrow> True"
| "okSegments (x # xs) \<longleftrightarrow> okSegment x \<and> okSegments xs"

text \<open>The relations a reader of the query would list, in order.\<close>

definition tableRefOf :: "tableRef \<Rightarrow> sqlRelationRef" where
  "tableRefOf t = (case t of TableRef ns n al \<Rightarrow>
     \<lparr>refNamespace = (case ns of None \<Rightarrow> [] | Some q \<Rightarrow>
        if toLower q \<in> {''source'', ''raw'', ''model''} then toLower q else []), refName = n\<rparr>)"

fun segmentRefs :: "segment \<Rightarrow> sqlRelationRef list" and segmentsRefs :: "segment list \<Rightarrow> sqlRelationRef list" where
  "segmentRefs (Group g) = segmentsRefs g"
| "segmentRefs (FromTables ts) = map tableRefOf ts"
| "segmentRefs (FromQuery q) = segmentsRefs q"
| "segmentRefs (Word w) = []"
| "segmentRefs (Literal t) = []"
| "segmentRefs (LineComment t) = []"
| "segmentRefs (Symbol c) = []"
| "segmentsRefs [] = []"
| "segmentsRefs (x # xs) = segmentRefs x @ segmentsRefs xs"

section \<open>Reading at a position\<close>

lemma at_Cons:
  assumes "drop i s = c # r"
  shows "i < length s" and "s ! i = c" and "drop (i + 1) s = r" and "byteIs s i d \<longleftrightarrow> c = d"
proof -
  show i: "i < length s" using assms by (metis drop_eq_Nil linorder_not_le list.distinct(1))
  show n: "s ! i = c" using assms i by (metis hd_drop_conv_nth list.sel(1))
  show "drop (i + 1) s = r" using assms by (metis Suc_eq_plus1 drop_Suc list.sel(3) tl_drop)
  show "byteIs s i d \<longleftrightarrow> c = d" using i n by (simp add: byteIs_def)
qed

lemma at_append: "drop i s = a @ r \<Longrightarrow> drop (i + length a) s = r"
  by (metis add.commute append_eq_conv_conj drop_drop)

abbreviation sqlSpace :: "char \<Rightarrow> bool" where
  "sqlSpace c \<equiv> c \<in> {CHR '' '', CHR 0x0A, CHR 0x0D, CHR 0x09, CHR 0x0C}"

lemma skipSpaces_none: "drop i s = c # r \<Longrightarrow> \<not> sqlSpace c \<Longrightarrow> skipSQLSpaces s i = i"
  by (simp add: skipSQLSpaces_def)

lemma skipSpaces_one: "drop i s = CHR '' '' # c # r \<Longrightarrow> \<not> sqlSpace c \<Longrightarrow> skipSQLSpaces s i = i + 1"
  by (simp add: skipSQLSpaces_def)

lemma identStart_facts:
  assumes "identStart c"
  shows "\<not> sqlSpace c" and "c \<noteq> quoteChar" and "c \<noteq> doubleQuote" and "c \<noteq> CHR ''-''" and "c \<noteq> CHR ''/''"
    and "c \<noteq> CHR ''(''" and "c \<noteq> CHR '')''" and "c \<noteq> CHR ''.''" and "c \<noteq> CHR '',''"
  using assms by (auto simp: identStart_def isAsciiLetter_def byte_def)

lemma identPart_facts:
  assumes "identPart c"
  shows "c \<noteq> quoteChar" and "c \<noteq> doubleQuote" and "c \<noteq> CHR ''-''" and "c \<noteq> CHR ''/''"
    and "c \<noteq> CHR ''(''" and "c \<noteq> CHR '')''"
  using assms by (auto simp: identPart_def isDigit_def identStart_def isAsciiLetter_def byte_def)

lemma semanticIdentifier_Cons:
  assumes "semanticIdentifier w"
  obtains c t where "w = c # t" and "identStart c" and "list_all identPart t"
  using assms by (cases w) (auto simp: semanticIdentifier_def)

lemma readIdentifier_at:
  assumes "semanticIdentifier w" and "drop i s = w @ c # r" and "\<not> identPart c"
  shows "readSQLIdentifier s i = (w, i + length w, True)"
proof -
  obtain d t where w: "w = d # t" "identStart d" "list_all identPart t"
    using assms(1) by (rule semanticIdentifier_Cons)
  with assms(2) have "drop i s = d # t @ c # r" by simp
  note at = at_Cons [OF this]
  have "takeWhile identPart (t @ c # r) = t"
    using w(3) assms(3) by (simp add: list_all_iff takeWhile_append2)
  then show ?thesis using at w identStart_facts [OF w(2)] by (simp add: readSQLIdentifier_def Let_def)
qed

lemma plain_at:
  assumes "drop i s = c # r" and "c \<noteq> quoteChar" and "c \<noteq> CHR ''-''" and "c \<noteq> CHR ''/''"
  shows "opaqueAt s i = None" and "commentAt s i = None"
  using at_Cons [OF assms(1)] assms(2-4) by (simp_all add: opaqueAt_def commentAt_def)

lemma symbol_at:
  assumes "drop i s = c # CHR '' '' # r" and "c \<noteq> quoteChar"
  shows "opaqueAt s i = None" and "commentAt s i = None"
proof -
  have "drop (i + 1) s = CHR '' '' # r" using at_Cons [OF assms(1)] by simp
  from at_Cons(4) [OF this] show "opaqueAt s i = None" "commentAt s i = None"
    using at_Cons [OF assms(1)] assms(2) by (simp_all add: opaqueAt_def commentAt_def)
qed

lemma quotedLen_doubled: "c \<noteq> quoteChar \<Longrightarrow> quotedLen (doubled t @ quoteChar # c # r) = length (doubled t) + 1"
  by (induction t) auto

lemma literal_at:
  assumes "drop i s = quoteChar # doubled t @ quoteChar # CHR '' '' # r"
  shows "skipSQLSingleQuoted s i = i + length (doubled t) + 2"
  using at_Cons(3) [OF assms] by (simp add: skipSQLSingleQuoted_def quotedLen_doubled)

lemma comment_at:
  assumes "drop i s = CHR ''-'' # CHR ''-'' # t @ CHR 0x0A # r" and "CHR 0x0A \<notin> set t" and "CHR 0x0D \<notin> set t"
  shows "commentAt s i = Some (i + 2 + length t)" and "opaqueAt s i = Some (i + 2 + length t)"
proof -
  note a = at_Cons [OF assms(1)]
  note b = at_Cons [OF a(3)]
  have "drop (i + 2) s = t @ CHR 0x0A # r" using b(3) by (simp add: add.assoc)
  moreover have "takeWhile (\<lambda>c. c \<noteq> CHR 0x0A \<and> c \<noteq> CHR 0x0D) (t @ CHR 0x0A # r) = t"
    using assms(2,3) by (subst takeWhile_append2) auto
  ultimately have "skipSQLLineComment s (i + 2) = i + 2 + length t" by (simp add: skipSQLLineComment_def)
  then show "commentAt s i = Some (i + 2 + length t)" "opaqueAt s i = Some (i + 2 + length t)"
    using a b by (simp_all add: commentAt_def opaqueAt_def)
qed

section \<open>Balanced parentheses of a printed query\<close>

definition plainChar :: "char \<Rightarrow> bool" where
  "plainChar c \<longleftrightarrow> c \<notin> {quoteChar, doubleQuote, CHR ''-'', CHR ''/'', CHR ''('', CHR '')''}"

lemma balanced_step:
  assumes "drop i s = c # r" and "opaqueAt s i = None" and "c \<notin> {doubleQuote, CHR ''('', CHR '')''}"
  shows "balancedFrom s st d i = balancedFrom s st d (i + 1)"
proof -
  note at = at_Cons [OF assms(1)]
  have "c \<noteq> quoteChar" "commentAt s i = None"
    using assms(2) at by (auto simp: opaqueAt_def byteIs_def split: if_splits)
  with at assms(3) show ?thesis by (subst balancedFrom.simps) simp
qed

lemma balanced_plain:
  "drop i s = t @ r \<Longrightarrow> list_all plainChar t \<Longrightarrow> balancedFrom s st d i = balancedFrom s st d (i + length t)"
proof (induction t arbitrary: i)
  case (Cons c t)
  then have c: "plainChar c" and at: "drop i s = c # t @ r" by simp_all
  have "balancedFrom s st d i = balancedFrom s st d (i + 1)"
    by (rule balanced_step [OF at plain_at(1) [OF at]]) (use c in \<open>auto simp: plainChar_def\<close>)
  also have "\<dots> = balancedFrom s st d (i + 1 + length t)"
    using Cons.prems(2) by (intro Cons.IH at_Cons(3) [OF at]) simp
  finally show ?case by simp
qed simp

lemma plain_ident: "semanticIdentifier w \<Longrightarrow> list_all plainChar w"
  by (erule semanticIdentifier_Cons) (auto simp: list_all_iff plainChar_def dest: identPart_facts identStart_facts)

lemma plain_table: "okTable t \<Longrightarrow> list_all plainChar (showTable t)"
  by (auto simp: okTable_def showTable_def okName_def okAlias_def plain_ident split: tableRef.splits option.splits)
    (simp_all add: plainChar_def)

lemma plain_tables: "list_all okTable ts \<Longrightarrow> list_all plainChar (showTables ts)"
  by (induction ts rule: showTables.induct) (auto simp: plain_table, simp_all add: plainChar_def)

lemma balanced_segments:
  "okSegment x \<Longrightarrow> 0 < d \<Longrightarrow> drop i s = showSegment x @ r \<Longrightarrow>
     balancedFrom s st d i = balancedFrom s st d (i + length (showSegment x))"
  "okSegments xs \<Longrightarrow> 0 < d \<Longrightarrow> drop i s = showSegments xs @ r \<Longrightarrow>
     balancedFrom s st d i = balancedFrom s st d (i + length (showSegments xs))"
proof (induction x and xs arbitrary: d i r and d i r rule: showSegment_showSegments.induct)
  case (1 w)
  have "list_all plainChar (w @ '' '')" using 1 plain_ident [of w] by (simp add: plainChar_def)
  with 1 balanced_plain [of i s "w @ '' ''" r st d] show ?case by simp
next
  case (2 t)
  then have at: "drop i s = quoteChar # doubled t @ quoteChar # CHR '' '' # r" by simp
  note q = at_Cons [OF at]
  have j: "skipSQLSingleQuoted s i = i + length (doubled t) + 2" by (rule literal_at [OF at])
  have "balancedFrom s st d i = balancedFrom s st d (i + length (doubled t) + 2)"
    using q j by (subst balancedFrom.simps) simp
  moreover have "drop (i + length (doubled t) + 2) s = '' '' @ r"
    using at_append [of i s "quoteChar # doubled t @ [quoteChar]" "CHR '' '' # r"] at by (simp add: add.assoc)
  from balanced_plain [OF this]
  have "balancedFrom s st d (i + length (doubled t) + 2) = balancedFrom s st d (i + length (doubled t) + 3)"
    by (simp add: plainChar_def eval_nat_numeral)
  ultimately show ?case by (simp add: eval_nat_numeral)
next
  case (3 t)
  then have at: "drop i s = CHR ''-'' # CHR ''-'' # t @ CHR 0x0A # r" and
    t: "CHR 0x0A \<notin> set t" "CHR 0x0D \<notin> set t" by simp_all
  note q = at_Cons [OF at]
  have "balancedFrom s st d i = balancedFrom s st d (i + 2 + length t)"
    using q comment_at(1) [OF at t] by (subst balancedFrom.simps) simp
  moreover have "drop (i + 2 + length t) s = [CHR 0x0A] @ r"
    using at_append [of i s "''--'' @ t" "CHR 0x0A # r"] at by (simp add: add.assoc)
  from balanced_plain [OF this]
  have "balancedFrom s st d (i + 2 + length t) = balancedFrom s st d (i + 3 + length t)"
    by (simp add: plainChar_def eval_nat_numeral)
  ultimately show ?case by (simp add: eval_nat_numeral)
next
  case (4 c)
  then have at: "drop i s = c # CHR '' '' # r" by simp
  have "balancedFrom s st d i = balancedFrom s st d (i + 1)"
    by (rule balanced_step [OF at symbol_at(1) [OF at]]) (use 4 in auto)
  moreover have "drop (i + 1) s = '' '' @ r" using at_Cons(3) [OF at] by simp
  from balanced_plain [OF this] have "balancedFrom s st d (i + 1) = balancedFrom s st d (i + 2)"
    by (simp add: plainChar_def)
  ultimately show ?case by (simp add: eval_nat_numeral)
next
  case (5 g)
  then have at: "drop i s = CHR ''('' # showSegments g @ CHR '')'' # CHR '' '' # r" by simp
  note q = at_Cons [OF at]
  let ?j = "i + 1 + length (showSegments g)"
  have "balancedFrom s st d i = balancedFrom s st (d + 1) (i + 1)"
    using q plain_at [OF at] by (subst balancedFrom.simps) simp
  also have "\<dots> = balancedFrom s st (d + 1) ?j" using 5 q(3) by (intro "5.IH") auto
  also have "\<dots> = balancedFrom s st d (?j + 1)"
  proof -
    have cl: "drop ?j s = CHR '')'' # CHR '' '' # r" using at_append [OF q(3)] .
    show ?thesis using at_Cons [OF cl] plain_at [OF cl] 5(3) by (subst balancedFrom.simps) simp
  qed
  also have "\<dots> = balancedFrom s st d (?j + 2)"
  proof -
    have "drop (?j + 1) s = '' '' @ r" using at_Cons(3) [OF at_append [OF q(3)]] by simp
    from balanced_plain [OF this] show ?thesis by (simp add: plainChar_def)
  qed
  finally show ?case by (simp add: eval_nat_numeral)
next
  case (6 ts)
  have "list_all plainChar (''from '' @ showTables ts @ '' where '')"
    using 6 plain_tables [of ts] by (simp add: plainChar_def)
  with 6 balanced_plain [of i s "''from '' @ showTables ts @ '' where ''" r st d] show ?case by simp
next
  case (7 q)
  then have at: "drop i s = ''from '' @ CHR ''('' # ''select '' @ showSegments q @ CHR '')'' # '' where '' @ r" by simp
  have p1: "list_all plainChar ''from ''" and p2: "list_all plainChar ''select ''" and p3: "list_all plainChar '' where ''"
    by (simp_all add: plainChar_def)
  have "balancedFrom s st d i = balancedFrom s st d (i + 5)" using balanced_plain [OF at p1] by (simp add: eval_nat_numeral)
  also have op: "drop (i + 5) s = CHR ''('' # ''select '' @ showSegments q @ CHR '')'' # '' where '' @ r"
    using at_append [OF at] by (simp add: eval_nat_numeral)
  note q = at_Cons [OF op]
  have "balancedFrom s st d (i + 5) = balancedFrom s st (d + 1) (i + 6)"
    using q plain_at [OF op] by (subst balancedFrom.simps) (simp add: eval_nat_numeral)
  also have a6: "drop (i + 6) s = ''select '' @ showSegments q @ CHR '')'' # '' where '' @ r"
    using q(3) by (simp add: eval_nat_numeral)
  have "balancedFrom s st (d + 1) (i + 6) = balancedFrom s st (d + 1) (i + 13)"
    using balanced_plain [OF a6 p2] by (simp add: eval_nat_numeral)
  also have a13: "drop (i + 13) s = showSegments q @ CHR '')'' # '' where '' @ r"
    using at_append [OF a6] by (simp add: eval_nat_numeral)
  let ?j = "i + 13 + length (showSegments q)"
  have "balancedFrom s st (d + 1) (i + 13) = balancedFrom s st (d + 1) ?j"
    using 7 a13 by (intro "7.IH") auto
  also have cl: "drop ?j s = CHR '')'' # '' where '' @ r" using at_append [OF a13] .
  have "balancedFrom s st (d + 1) ?j = balancedFrom s st d (?j + 1)"
    using at_Cons [OF cl] plain_at [OF cl] 7(3) by (subst balancedFrom.simps) simp
  also have "\<dots> = balancedFrom s st d (?j + 8)"
    using balanced_plain [OF at_Cons(3) [OF cl] p3] by (simp add: eval_nat_numeral)
  finally show ?case by (simp add: eval_nat_numeral)
next
  case 8
  then show ?case by simp
next
  case (9 x xs)
  then have at: "drop i s = showSegment x @ showSegments xs @ r" by simp
  from 9 at at_append [OF at] show ?case by (metis add.assoc append.assoc length_append okSegments.simps(2) showSegments.simps(2))
qed

section \<open>Relation lists of a printed query\<close>

lemma where_at:
  assumes "drop i s = ''where '' @ r"
  shows "readSQLIdentifier s i = (''where'', i + 5, True)"
  using readIdentifier_at [of "''where''" i s "CHR '' ''" r] assms
  by (simp add: semanticIdentifier_def identPart_def identStart_def isAsciiLetter_def isDigit_def byte_def)

lemma alias_stops_at_where:
  assumes "drop i s = ''where '' @ r" and "skipSQLSpaces s j = i"
  shows "skipSQLRelationAlias s j = i"
proof -
  have at: "drop i s = CHR ''w'' # ''here '' @ r" using assms(1) by simp
  note q = at_Cons [OF at]
  have w: "toLower ''where'' = ''where''" "identStart CHR ''w''"
    by (simp_all add: toLower_def lowerByte_def byte_def identStart_def isAsciiLetter_def)
  show ?thesis using q assms(2) where_at [OF assms(1)] w
    by (subst skipSQLRelationAlias.simps) (simp add: Let_def relationListTerminator_def)
qed

lemma alias_stops_at_comma:
  assumes "drop i s = CHR '','' # r"
  shows "skipSQLRelationAlias s i = i"
proof -
  note q = at_Cons [OF assms]
  have "skipSQLSpaces s i = i" by (rule skipSpaces_none [OF assms]) simp
  moreover have "\<not> identStart CHR '',''" by (simp add: identStart_def isAsciiLetter_def byte_def)
  ultimately show ?thesis using q by (subst skipSQLRelationAlias.simps) (simp add: Let_def)
qed

lemma alias_reads_name:
  assumes "okAlias a" and "drop i s = CHR '' '' # a @ c # r" and "\<not> identPart c"
  shows "skipSQLRelationAlias s i = i + 1 + length a"
proof -
  have sem: "semanticIdentifier a" using assms(1) by (simp add: okAlias_def)
  then obtain d t where a: "a = d # t" "identStart d" "list_all identPart t" by (rule semanticIdentifier_Cons)
  have at: "drop (i + 1) s = a @ c # r" using at_Cons(3) [OF assms(2)] .
  have "drop (i + 1) s = d # t @ c # r" using at a by simp
  note q = at_Cons [OF this]
  have "skipSQLSpaces s i = i + 1"
    by (rule skipSpaces_one [of _ _ d "t @ c # r"]) (use assms(2) a identStart_facts(1) in auto)
  with q readIdentifier_at [OF sem at assms(3)] identStart_facts [OF a(2)] assms(1) a(2) show ?thesis
    by (subst skipSQLRelationAlias.simps) (simp add: Let_def okAlias_def)
qed

definition listTail :: "string \<Rightarrow> bool" where
  "listTail t \<longleftrightarrow> take 2 t = '', '' \<or> take 7 t = '' where ''"

lemma listTail_cases:
  assumes "listTail t"
  obtains (comma) r where "t = CHR '','' # CHR '' '' # r" | (clause) r where "t = CHR '' '' # ''where '' @ r"
proof -
  have "take 2 t = '', '' \<Longrightarrow> t = '', '' @ drop 2 t" "take 7 t = '' where '' \<Longrightarrow> t = '' where '' @ drop 7 t"
    by (metis append_take_drop_id)+
  with assms that show thesis by (auto simp: listTail_def)
qed

definition tailSkip :: "string \<Rightarrow> nat" where
  "tailSkip t = (if take 1 t = '','' then 0 else 1)"

lemma not_part: "\<not> identPart CHR '' ''" "\<not> identPart CHR '',''" "\<not> identPart CHR ''.''"
  by (simp_all add: identPart_def identStart_def isAsciiLetter_def isDigit_def byte_def)

lemma alias_at:
  assumes "case al of None \<Rightarrow> True | Some a \<Rightarrow> okAlias a" and "listTail tail"
    and "drop i s = (case al of None \<Rightarrow> [] | Some a \<Rightarrow> '' '' @ a) @ tail"
  shows "skipSQLSpaces s (skipSQLRelationAlias s i)
    = i + length (case al of None \<Rightarrow> [] | Some a \<Rightarrow> '' '' @ a) + tailSkip tail"
proof (cases al)
  case None
  with assms(3) have at: "drop i s = tail" by simp
  from assms(2) show ?thesis
  proof (cases rule: listTail_cases)
    case (comma r)
    with at alias_stops_at_comma [of i s "CHR '' '' # r"] skipSpaces_none [of i s "CHR '',''" "CHR '' '' # r"] None
    show ?thesis by (simp add: tailSkip_def)
  next
    case (clause r)
    with at have sp: "drop i s = CHR '' '' # CHR ''w'' # ''here '' @ r" by simp
    have one: "skipSQLSpaces s i = i + 1" by (rule skipSpaces_one [OF sp]) simp
    have w: "drop (i + 1) s = ''where '' @ r" using at_Cons(3) [OF sp] by simp
    have "skipSQLSpaces s (i + 1) = i + 1"
      by (rule skipSpaces_none [of _ _ "CHR ''w''" "''here '' @ r"]) (use w in simp_all)
    with alias_stops_at_where [OF w one] None clause show ?thesis by (simp add: tailSkip_def)
  qed
next
  case (Some a)
  with assms(1,3) have ok: "okAlias a" and at: "drop i s = CHR '' '' # a @ tail" by simp_all
  have at2: "drop (i + 1 + length a) s = tail" using at_append [OF at_Cons(3) [OF at]] .
  from assms(2) show ?thesis
  proof (cases rule: listTail_cases)
    case (comma r)
    with at have "skipSQLRelationAlias s i = i + 1 + length a"
      by (intro alias_reads_name [OF ok _ not_part(2)]) simp
    moreover have "skipSQLSpaces s (i + 1 + length a) = i + 1 + length a"
      by (rule skipSpaces_none [of _ _ "CHR '',''" "CHR '' '' # r"]) (use at2 comma in simp_all)
    ultimately show ?thesis using Some comma by (simp add: tailSkip_def)
  next
    case (clause r)
    with at have "skipSQLRelationAlias s i = i + 1 + length a"
      by (intro alias_reads_name [OF ok _ not_part(1)]) simp
    moreover have "skipSQLSpaces s (i + 1 + length a) = i + 1 + length a + 1"
      by (rule skipSpaces_one [of _ _ "CHR ''w''" "''here '' @ r"]) (use at2 clause in simp_all)
    ultimately show ?thesis using Some clause by (simp add: tailSkip_def)
  qed
qed

lemma ident_start_at:
  assumes "semanticIdentifier n" and "drop i s = n @ r"
  shows "skipSQLSpaces s i = i" and "i < length s" and "s ! i \<noteq> CHR ''(''" and "\<not> byteIs s i CHR ''.''"
proof -
  obtain d t where n: "n = d # t" "identStart d" "list_all identPart t" using assms(1) by (rule semanticIdentifier_Cons)
  with assms(2) have at: "drop i s = d # t @ r" by simp
  show "skipSQLSpaces s i = i" by (rule skipSpaces_none [OF at identStart_facts(1) [OF n(2)]])
  show "i < length s" "s ! i \<noteq> CHR ''(''" "\<not> byteIs s i CHR ''.''"
    using at_Cons [OF at] identStart_facts [OF n(2)] by simp_all
qed

lemma no_dot_after:
  assumes "case al of None \<Rightarrow> True | Some a \<Rightarrow> okAlias a" and "listTail tail"
    and "drop i s = (case al of None \<Rightarrow> [] | Some a \<Rightarrow> '' '' @ a) @ tail"
  shows "\<not> byteIs s (skipSQLSpaces s i) CHR ''.''"
    and "\<exists>c r. drop i s = c # r \<and> \<not> identPart c"
proof -
  have sp: "\<not> byteIs s (skipSQLSpaces s i) CHR ''.''"
    if "drop i s = CHR '' '' # c # r" "\<not> sqlSpace c" "c \<noteq> CHR ''.''" for c r
    using skipSpaces_one [OF that(1,2)] at_Cons(4) [OF at_Cons(3) [OF that(1)]] that(3) by simp
  have "\<not> byteIs s (skipSQLSpaces s i) CHR ''.'' \<and> (\<exists>c r. drop i s = c # r \<and> \<not> identPart c)"
  proof (cases al)
    case None
    from assms(2) show ?thesis
    proof (cases rule: listTail_cases)
      case (comma r)
      with assms(3) None have at: "drop i s = CHR '','' # CHR '' '' # r" by simp
      with skipSpaces_none [OF at] at_Cons(4) [OF at] not_part show ?thesis by auto
    next
      case (clause r)
      with assms(3) None sp [of "CHR ''w''" "''here '' @ r"] not_part show ?thesis by auto
    qed
  next
    case (Some a)
    with assms(1) have "semanticIdentifier a" by (simp add: okAlias_def)
    then obtain d t where a: "a = d # t" "identStart d" by (rule semanticIdentifier_Cons)
    with assms(3) Some sp [of d "t @ tail"] identStart_facts [OF a(2)] not_part show ?thesis by auto
  qed
  then show "\<not> byteIs s (skipSQLSpaces s i) CHR ''.''" "\<exists>c r. drop i s = c # r \<and> \<not> identPart c" by auto
qed

lemma ref_at:
  assumes "okTable t" and "listTail tail" and "drop i s = showTable t @ tail"
  obtains j where "readSQLRelationRef s i [] = Some (tableRefOf t, j)"
    and "skipSQLSpaces s (skipSQLRelationAlias s j) = i + length (showTable t) + tailSkip tail"
proof -
  obtain ns n al where t: "t = TableRef ns n al" by (cases t)
  let ?al = "case al of None \<Rightarrow> [] | Some a \<Rightarrow> '' '' @ a"
  have n: "semanticIdentifier n" and al: "case al of None \<Rightarrow> True | Some a \<Rightarrow> okAlias a"
    using assms(1) t by (simp_all add: okTable_def okName_def)
  have name: "readSQLIdentifier s k = (n, k + length n, True)
      \<and> skipSQLSpaces s (skipSQLRelationAlias s (k + length n)) = k + length n + length ?al + tailSkip tail
      \<and> \<not> byteIs s (skipSQLSpaces s (k + length n)) CHR ''.''"
    if k: "drop k s = n @ ?al @ tail" for k
  proof -
    have j: "drop (k + length n) s = ?al @ tail" using at_append [OF k] .
    from no_dot_after(2) [OF al assms(2) j] obtain c r where c: "drop (k + length n) s = c # r" "\<not> identPart c" by auto
    have "readSQLIdentifier s k = (n, k + length n, True)"
      using readIdentifier_at [OF n, of k s c r] k j c by simp
    with no_dot_after(1) [OF al assms(2) j] alias_at [OF al assms(2) j] show ?thesis by simp
  qed
  show thesis
  proof (cases ns)
    case None
    with assms(3) t have at: "drop i s = n @ ?al @ tail" by (simp add: showTable_def)
    show thesis
      by (rule that [of "i + length n"])
        (use name [OF at] None t in \<open>simp_all add: readSQLRelationRef_def Let_def tableRefOf_def showTable_def\<close>)
  next
    case (Some q)
    have q: "semanticIdentifier q" using assms(1) t Some by (simp add: okTable_def okName_def)
    have at: "drop i s = q @ CHR ''.'' # n @ ?al @ tail" using assms(3) t Some by (simp add: showTable_def)
    have id: "readSQLIdentifier s i = (q, i + length q, True)" by (rule readIdentifier_at [OF q at not_part(3)])
    note dot = at_append [OF at]
    have sp: "skipSQLSpaces s (i + length q) = i + length q" by (rule skipSpaces_none [OF dot]) simp
    note dotAt = at_Cons [OF dot]
    have sp2: "skipSQLSpaces s (i + length q + 1) = i + length q + 1" by (rule ident_start_at(1) [OF n dotAt(3)])
    have "showTable t = q @ CHR ''.'' # n @ ?al" using t Some by (simp add: showTable_def)
    with name [OF dotAt(3)] id sp sp2 dotAt(4) t Some show thesis
      by (intro that [of "i + length q + 1 + length n"])
        (simp_all add: readSQLRelationRef_def Let_def tableRefOf_def)
  qed
qed

lemma showTable_ident:
  assumes "okTable t"
  obtains n r where "semanticIdentifier n" and "showTable t = n @ r"
  using assms by (auto simp: okTable_def showTable_def okName_def split: tableRef.splits option.splits)

lemma tables_at:
  assumes "list_all okTable ts" and "ts \<noteq> []" and "drop i s = showTables ts @ '' where '' @ r"
    and "skipSQLSpaces s i0 = i"
  shows "relationList s i0 [] = (map (RelRef \<circ> tableRefOf) ts, i + length (showTables ts) + 1)"
  using assms
proof (induction ts arbitrary: i i0 rule: showTables.induct)
  case (2 t)
  then have ok: "okTable t" and at: "drop i s = showTable t @ '' where '' @ r" by simp_all
  obtain n x where n: "semanticIdentifier n" "showTable t = n @ x" by (rule showTable_ident [OF ok])
  with at have "drop i s = n @ x @ '' where '' @ r" by simp
  note st = ident_start_at [OF n(1) this]
  have lt: "listTail ('' where '' @ r)" by (simp add: listTail_def)
  obtain j where j: "readSQLRelationRef s i [] = Some (tableRefOf t, j)"
    "skipSQLSpaces s (skipSQLRelationAlias s j) = i + length (showTable t) + tailSkip ('' where '' @ r)"
    by (rule ref_at [OF ok lt at])
  have "drop (i + length (showTable t) + 1) s = CHR ''w'' # ''here '' @ r"
    using at_Cons(3) [of "i + length (showTable t)" s "CHR '' ''" "''where '' @ r"] at_append [OF at] by simp
  from at_Cons(4) [OF this] have "\<not> byteIs s (i + length (showTable t) + 1) CHR '',''" by simp
  with j st 2(4) show ?case by (subst relationList.simps) (simp add: Let_def tailSkip_def)
next
  case (3 t u ts)
  then have ok: "okTable t" and at: "drop i s = showTable t @ '', '' @ showTables (u # ts) @ '' where '' @ r"
    and oku: "okTable u" by simp_all
  obtain n x where n: "semanticIdentifier n" "showTable t = n @ x" by (rule showTable_ident [OF ok])
  with at have "drop i s = n @ x @ '', '' @ showTables (u # ts) @ '' where '' @ r" by simp
  note st = ident_start_at [OF n(1) this]
  have lt: "listTail ('', '' @ showTables (u # ts) @ '' where '' @ r)" by (simp add: listTail_def)
  obtain j where j: "readSQLRelationRef s i [] = Some (tableRefOf t, j)"
    "skipSQLSpaces s (skipSQLRelationAlias s j)
      = i + length (showTable t) + tailSkip ('', '' @ showTables (u # ts) @ '' where '' @ r)"
    by (rule ref_at [OF ok lt at])
  let ?k = "i + length (showTable t)"
  have comma: "drop ?k s = CHR '','' # CHR '' '' # showTables (u # ts) @ '' where '' @ r" using at_append [OF at] by simp
  note c = at_Cons [OF comma]
  obtain m y where m: "semanticIdentifier m" "showTable u = m @ y" by (rule showTable_ident [OF oku])
  then obtain z where "showTables (u # ts) = m @ z" by (cases ts) auto
  moreover obtain e w where e: "m = e # w" "identStart e" using m(1) by (rule semanticIdentifier_Cons)
  ultimately have sp: "skipSQLSpaces s (?k + 1) = ?k + 2"
    using skipSpaces_one [of "?k + 1" s e "w @ z @ '' where '' @ r"] c(3) identStart_facts(1) [OF e(2)] by simp
  have "drop (?k + 2) s = showTables (u # ts) @ '' where '' @ r" using at_Cons(3) [OF c(3)] by simp
  from "3.IH" [OF _ _ this sp] "3.prems"(1)
  have "relationList s (?k + 1) [] = (map (RelRef \<circ> tableRefOf) (u # ts), ?k + 2 + length (showTables (u # ts)) + 1)"
    by simp
  with j st 3(5) c(4) show ?case by (subst relationList.simps) (simp add: Let_def tailSkip_def)
qed simp

section \<open>Scanning a printed query\<close>

fun segmentItems :: "segment \<Rightarrow> relItem list" and segmentsItems :: "segment list \<Rightarrow> relItem list" where
  "segmentItems (Group g) = segmentsItems g"
| "segmentItems (FromTables ts) = map (RelRef \<circ> tableRefOf) ts"
| "segmentItems (FromQuery q) = [Subquery (''select '' @ showSegments q)]"
| "segmentItems (Word w) = []"
| "segmentItems (Literal t) = []"
| "segmentItems (LineComment t) = []"
| "segmentItems (Symbol c) = []"
| "segmentsItems [] = []"
| "segmentsItems (x # xs) = segmentItems x @ segmentsItems xs"

lemma scan_symbol:
  assumes "drop i s = c # r" and "opaqueAt s i = None" and "\<not> identStart c"
  shows "scanMain s i l = scanMain s (i + 1) l"
  using at_Cons [OF assms(1)] assms(2,3) by (subst scanMain.simps) simp

lemma scan_space: "drop i s = CHR '' '' # r \<Longrightarrow> scanMain s i l = scanMain s (i + 1) l"
  by (rule scan_symbol [of i s "CHR '' ''" r])
    (auto simp: plain_at identStart_def isAsciiLetter_def byte_def)

lemma scan_word:
  assumes "semanticIdentifier w" and "\<not> relationKeyword (toLower w)" and "drop i s = w @ CHR '' '' # r"
  shows "scanMain s i l = scanMain s (i + length w + 1) l"
proof -
  obtain d t where w: "w = d # t" "identStart d" using assms(1) by (rule semanticIdentifier_Cons)
  with assms(3) have at: "drop i s = d # t @ CHR '' '' # r" by simp
  have "scanMain s i l = scanMain s (i + length w) l"
    using at_Cons [OF at] plain_at(1) [OF at] identStart_facts [OF w(2)] w(2)
      readIdentifier_at [OF assms(1,3) not_part(1)] assms(2) w(1)
    by (subst scanMain.simps) simp
  with scan_space [OF at_append [OF assms(3)]] show ?thesis by simp
qed

lemma scan_from:
  assumes "drop i s = ''from '' @ r" and "relationList s (i + 4) l = (items, k)" and "i < k"
  shows "scanMain s i l = items @ scanMain s k l"
proof -
  have at: "drop i s = CHR ''f'' # ''rom '' @ r" using assms(1) by simp
  have st: "identStart CHR ''f''" by (simp add: identStart_def isAsciiLetter_def byte_def)
  have sem: "semanticIdentifier ''from''"
    by (simp add: semanticIdentifier_def identPart_def identStart_def isAsciiLetter_def isDigit_def byte_def)
  have "readSQLIdentifier s i = (''from'', i + 4, True)"
    using readIdentifier_at [OF sem, of i s "CHR '' ''" r] assms(1) not_part(1) by simp
  moreover have "relationKeyword (toLower ''from'')" by (simp add: relationKeyword_def toLower_def lowerByte_def byte_def)
  ultimately show ?thesis using at_Cons [OF at] plain_at(1) [OF at] st assms(2,3)
    by (subst scanMain.simps) (simp add: readSQLRelationList_def)
qed

lemma identifier_words:
  "semanticIdentifier ''where''" "semanticIdentifier ''select''"
  "toLower ''where'' = ''where''" "toLower ''select'' = ''select''"
  by (simp_all add: semanticIdentifier_def identPart_def identStart_def isAsciiLetter_def isDigit_def byte_def
      toLower_def lowerByte_def)

lemma scan_where:
  assumes "drop i s = ''where '' @ r"
  shows "scanMain s i l = scanMain s (i + 6) l"
  using scan_word [of "''where''" i s r l] assms identifier_words
  by (simp add: relationKeyword_def eval_nat_numeral)

lemma scan_segments:
  "okSegment x \<Longrightarrow> drop i s = showSegment x @ r \<Longrightarrow>
     scanMain s i [] = segmentItems x @ scanMain s (i + length (showSegment x)) []"
  "okSegments xs \<Longrightarrow> drop i s = showSegments xs @ r \<Longrightarrow>
     scanMain s i [] = segmentsItems xs @ scanMain s (i + length (showSegments xs)) []"
proof (induction x and xs arbitrary: i r and i r rule: showSegment_showSegments.induct)
  case (1 w)
  with scan_word [of w i s r "[]"] show ?case by simp
next
  case (2 t)
  then have at: "drop i s = quoteChar # doubled t @ quoteChar # CHR '' '' # r" by simp
  have j: "skipSQLSingleQuoted s i = i + length (doubled t) + 2" by (rule literal_at [OF at])
  have "drop (i + length (doubled t) + 2) s = CHR '' '' # r"
    using at_append [of i s "quoteChar # doubled t @ [quoteChar]" "CHR '' '' # r"] at by (simp add: add.assoc)
  from scan_space [OF this] at_Cons [OF at] j
  have "scanMain s i [] = scanMain s (i + length (doubled t) + 2 + 1) []"
    by (subst scanMain.simps) (simp add: opaqueAt_def)
  then show ?case by (simp add: eval_nat_numeral)
next
  case (3 t)
  then have at: "drop i s = CHR ''-'' # CHR ''-'' # t @ CHR 0x0A # r" and
    t: "CHR 0x0A \<notin> set t" "CHR 0x0D \<notin> set t" by simp_all
  have nl: "drop (i + 2 + length t) s = CHR 0x0A # r"
    using at_append [of i s "''--'' @ t" "CHR 0x0A # r"] at by (simp add: add.assoc)
  have "scanMain s i [] = scanMain s (i + 2 + length t) []"
    using at_Cons [OF at] comment_at(2) [OF at t] by (subst scanMain.simps) simp
  also have "\<dots> = scanMain s (i + 2 + length t + 1) []"
    by (rule scan_symbol [OF nl]) (use plain_at(1) [OF nl] in \<open>auto simp: identStart_def isAsciiLetter_def byte_def\<close>)
  finally show ?case by (simp add: eval_nat_numeral)
next
  case (4 c)
  then have at: "drop i s = c # CHR '' '' # r" by simp
  have "scanMain s i [] = scanMain s (i + 1) []"
    by (rule scan_symbol [OF at symbol_at(1) [OF at]]) (use 4 in auto)
  with scan_space [OF at_Cons(3) [OF at]] show ?case by (simp add: eval_nat_numeral)
next
  case (5 g)
  then have at: "drop i s = CHR ''('' # showSegments g @ CHR '')'' # CHR '' '' # r" by simp
  have ns: "\<not> identStart CHR ''(''" "\<not> identStart CHR '')''" by (simp_all add: identStart_def isAsciiLetter_def byte_def)
  have "scanMain s i [] = scanMain s (i + 1) []"
    by (rule scan_symbol [OF at plain_at(1) [OF at] ns(1)]) simp_all
  also have "\<dots> = segmentsItems g @ scanMain s (i + 1 + length (showSegments g)) []"
    using 5 at_Cons(3) [OF at] by (intro "5.IH") auto
  finally have *: "scanMain s i [] = \<dots>" .
  have cl: "drop (i + 1 + length (showSegments g)) s = CHR '')'' # CHR '' '' # r"
    using at_append [OF at_Cons(3) [OF at]] .
  have "scanMain s (i + 1 + length (showSegments g)) [] = scanMain s (i + 1 + length (showSegments g) + 1) []"
    by (rule scan_symbol [OF cl plain_at(1) [OF cl] ns(2)]) simp_all
  with * scan_space [OF at_Cons(3) [OF cl]] show ?case by (simp add: eval_nat_numeral)
next
  case (6 ts)
  then have ok: "list_all okTable ts" "ts \<noteq> []" and at: "drop i s = ''from '' @ showTables ts @ '' where '' @ r" by simp_all
  have a5: "drop (i + 5) s = showTables ts @ '' where '' @ r" using at_append [OF at] by (simp add: eval_nat_numeral)
  have a4: "drop (i + 4) s = CHR '' '' # showTables ts @ '' where '' @ r"
    using at_append [of i s "''from''"] at by (simp add: eval_nat_numeral)
  obtain t0 tr where t0: "ts = t0 # tr" using ok(2) by (cases ts) auto
  then have "okTable t0" using ok by simp
  then obtain m y where m: "semanticIdentifier m" "showTable t0 = m @ y" by (rule showTable_ident)
  then obtain z where z: "showTables ts = m @ z" using t0 by (cases tr) auto
  obtain e w where e: "m = e # w" "identStart e" using m(1) by (rule semanticIdentifier_Cons)
  have "skipSQLSpaces s (i + 4) = i + 4 + 1"
    by (rule skipSpaces_one [of _ _ e "w @ z @ '' where '' @ r"]) (use a4 z e identStart_facts(1) [OF e(2)] in auto)
  then have sp: "skipSQLSpaces s (i + 4) = i + 5" by simp
  let ?k = "i + 5 + length (showTables ts) + 1"
  have "scanMain s i [] = map (RelRef \<circ> tableRefOf) ts @ scanMain s ?k []"
    by (rule scan_from [OF at tables_at [OF ok a5 sp]]) simp
  moreover have "drop ?k s = ''where '' @ r"
    using at_append [of "i + 5" s "showTables ts @ '' ''" "''where '' @ r"] a5 by (simp add: add.assoc)
  ultimately show ?case using scan_where [of ?k s r] by (simp add: eval_nat_numeral)
next
  case (7 q)
  then have at: "drop i s = ''from '' @ CHR ''('' # ''select '' @ showSegments q @ CHR '')'' # '' where '' @ r" by simp
  have a4: "drop (i + 4) s = CHR '' '' # CHR ''('' # ''select '' @ showSegments q @ CHR '')'' # '' where '' @ r"
    using at_append [of i s "''from''"] at by (simp add: eval_nat_numeral)
  have "skipSQLSpaces s (i + 4) = i + 4 + 1" by (rule skipSpaces_one [OF a4]) simp
  then have sp: "skipSQLSpaces s (i + 4) = i + 5" by simp
  have op: "drop (i + 5) s = CHR ''('' # ''select '' @ showSegments q @ CHR '')'' # '' where '' @ r"
    using at_Cons(3) [OF a4] by (simp add: eval_nat_numeral)
  note o = at_Cons [OF op]
  let ?body = "''select '' @ showSegments q"
  let ?j = "i + 6 + length ?body"
  have a6: "drop (i + 6) s = showSegments (Word ''select'' # q) @ CHR '')'' # '' where '' @ r"
    using o(3) by (simp add: eval_nat_numeral)
  have okq: "okSegments (Word ''select'' # q)" using 7 identifier_words by (simp add: relationKeyword_def)
  have cl: "drop ?j s = CHR '')'' # '' where '' @ r"
    using at_append [of "i + 6" s ?body] a6 by (simp add: eval_nat_numeral)
  have "balancedFrom s (i + 6) 0 (i + 5) = balancedFrom s (i + 6) 1 (i + 6)"
    using o plain_at [OF op] by (subst balancedFrom.simps) (simp add: eval_nat_numeral)
  also have "\<dots> = balancedFrom s (i + 6) 1 ?j"
    using balanced_segments(2) [OF okq _ a6, of 1] by (simp add: eval_nat_numeral)
  also have "\<dots> = (take (?j - (i + 6)) (drop (i + 6) s), ?j + 1)"
    using at_Cons [OF cl] plain_at [OF cl] by (subst balancedFrom.simps) simp
  also have "take (?j - (i + 6)) (drop (i + 6) s) = ?body"
  proof -
    have "drop (i + 6) s = ?body @ CHR '')'' # '' where '' @ r" using a6 by simp
    then show ?thesis by (metis add_diff_cancel_left' append_eq_conv_conj)
  qed
  finally have bal: "readSQLBalancedContent s (i + 5) = (?body, ?j + 1)"
    by (simp add: readSQLBalancedContent_def eval_nat_numeral)
  have "relationList s (i + 4) [] = ([Subquery ?body], ?j + 1)"
    using sp o bal by (subst relationList.simps) (simp add: Let_def)
  from scan_from [OF at this]
  have "scanMain s i [] = [Subquery ?body] @ scanMain s (?j + 1) []" by simp
  moreover have w: "drop (?j + 1) s = CHR '' '' # ''where '' @ r" using at_Cons(3) [OF cl] by simp
  ultimately show ?case using scan_space [OF w] scan_where [OF at_Cons(3) [OF w]] by (simp add: eval_nat_numeral)
next
  case 8
  then show ?case by simp
next
  case (9 x xs)
  then have at: "drop i s = showSegment x @ showSegments xs @ r" by simp
  from 9 at at_append [OF at] show ?case by (metis add.assoc append.assoc length_append okSegments.simps(2)
        segmentsItems.simps(2) showSegments.simps(2))
qed

end
