(* ===== verification/SQL_Properties.thy ===== *)
theory SQL_Properties
  imports SQL_Fragment
begin

text \<open>
  What the relation scanner promises on printed queries, and what the read-only check of a transform
  query does and does not see.
\<close>

lemma select_first: "firstSQLKeyword (''select '' @ t) = (''select'', 6, True)"
proof -
  let ?s = "''select '' @ t"
  have at: "drop 0 ?s = CHR ''s'' # ''elect '' @ t" by simp
  have st: "identStart CHR ''s''" by (simp add: identStart_def isAsciiLetter_def byte_def)
  have "readSQLIdentifier ?s 0 = (''select'', 6, True)"
    using readIdentifier_at [of "''select''" 0 ?s "CHR '' ''" t] identifier_words not_part(1) by simp
  with plain_at(1) [OF at] st identifier_words show ?thesis
    unfolding firstSQLKeyword_def by (subst firstKeywordFrom.simps) simp
qed

lemma select_has_no_ctes: "scanSQLCTEs (''select '' @ t) l = (l, [], 0)"
  unfolding scanSQLCTEs_def select_first by simp

definition itemRefs :: "relItem \<Rightarrow> sqlRelationRef list" where
  "itemRefs item = (case item of RelRef ref \<Rightarrow> [ref] | Subquery inside \<Rightarrow> scanRefs inside [])"

lemma scanRefs_select: "scanRefs (''select '' @ t) [] = concat (map itemRefs (scanMain (''select '' @ t) 0 []))"
  unfolding scanRefs.simps [of "''select '' @ t"] list.map select_has_no_ctes itemRefs_def prod.case by simp

lemma scanMain_end: "length s \<le> i \<Longrightarrow> scanMain s i l = []"
  by (subst scanMain.simps) simp

lemma scanMain_printed:
  assumes "okSegments xs"
  shows "scanMain (''select '' @ showSegments xs) 0 [] = segmentsItems xs"
proof -
  let ?s = "''select '' @ showSegments xs"
  have ok: "okSegments (Word ''select'' # xs)" using assms identifier_words by (simp add: relationKeyword_def)
  have "scanMain ?s 0 [] = segmentsItems (Word ''select'' # xs) @ scanMain ?s (0 + length (showSegments (Word ''select'' # xs))) []"
    by (rule scan_segments(2) [OF ok]) simp
  then show ?thesis by (simp add: scanMain_end)
qed

lemma items_of_segments:
  "okSegment x \<Longrightarrow> concat (map itemRefs (segmentItems x)) = segmentRefs x"
  "okSegments xs \<Longrightarrow> concat (map itemRefs (segmentsItems xs)) = segmentsRefs xs"
proof (induction x and xs rule: showSegment_showSegments.induct)
  case (6 ts)
  have "concat (map itemRefs (map (RelRef \<circ> tableRefOf) ts)) = map tableRefOf ts"
    by (induction ts) (simp_all add: itemRefs_def)
  then show ?case by simp
next
  case (7 q)
  then have "scanRefs (''select '' @ showSegments q) [] = segmentsRefs q"
    using scanRefs_select [of "showSegments q"] scanMain_printed [of q] by simp
  then show ?case by (simp add: itemRefs_def)
qed simp_all

text \<open>
  C13: On a printed SELECT query of the fragment, the scanner returns exactly the relations the query
  reads, in order, with their namespaces: subqueries and parenthesised groups are searched, and
  neither string literals of any content nor comments ever contribute or hide a relation.
\<close>

theorem printed_query_relations:
  assumes "okSegments xs"
  shows "scanSQLRelationRefs (''select '' @ showSegments xs) = segmentsRefs xs"
  using scanRefs_select [of "showSegments xs"] scanMain_printed [OF assms] items_of_segments(2) [OF assms]
  by (simp add: scanSQLRelationRefs_def)

theorem printed_query_relations_witness:
  "scanSQLRelationRefs (''select '' @ showSegments
      [Word ''total'', Literal (''it'' @ [quoteChar] @ ''s from raw.x''),
       FromQuery [Symbol (CHR ''*''), FromTables [TableRef (Some ''source'') ''orders'' (Some ''o''), TableRef None ''tmp'' None]],
       Group [Word ''a'', LineComment ''from model.hidden'', FromTables [TableRef (Some ''Model'') ''days'' None]]])
   = [\<lparr>refNamespace = ''source'', refName = ''orders''\<rparr>, \<lparr>refNamespace = [], refName = ''tmp''\<rparr>,
      \<lparr>refNamespace = ''model'', refName = ''days''\<rparr>]"
  by (subst printed_query_relations)
    (simp_all add: okTable_def okName_def okAlias_def semanticIdentifier_def identPart_def identStart_def
      isAsciiLetter_def isDigit_def byte_def relationKeyword_def relationListTerminator_def toLower_def
      lowerByte_def tableRefOf_def char_of_def bit_Suc_0_iff)

text \<open>
  The read-only check of a transform query decides on the first word alone: whatever follows it,
  a text whose first word is not WITH is accepted exactly when that word is SELECT, in any case. So
  further statements after a semicolon pass.
\<close>

theorem readonly_check_reads_first_word:
  assumes "semanticIdentifier w" and "\<not> identPart c" and "toLower w \<noteq> ''with''"
  shows "validateModelSQLQuery name (w @ c # t) = Inr () \<longleftrightarrow> toLower w = ''select''"
proof -
  let ?s = "w @ c # t"
  obtain d u where w: "w = d # u" "identStart d" using assms(1) by (rule semanticIdentifier_Cons)
  then have at: "drop 0 ?s = d # u @ c # t" by simp
  have "readSQLIdentifier ?s 0 = (w, length w, True)"
    using readIdentifier_at [OF assms(1), of 0 ?s c t] assms(2) by simp
  then have "firstSQLKeyword ?s = (toLower w, length w, True)"
    using plain_at(1) [OF at] identStart_facts [OF w(2)] w at_Cons [OF at]
    unfolding firstSQLKeyword_def by (subst firstKeywordFrom.simps) simp
  with assms(3) show ?thesis by (auto simp: validateModelSQLQuery_def)
qed

theorem readonly_check_reads_first_word_witness:
  "validateModelSQLQuery ''m'' ''Select 1; drop table orders'' = Inr ()
   \<and> validateModelSQLQuery ''m'' ''delete from orders'' \<noteq> Inr ()"
  using readonly_check_reads_first_word [of "''Select''" "CHR '' ''" "''m''" "''1; drop table orders''"]
    readonly_check_reads_first_word [of "''delete''" "CHR '' ''" "''m''" "''from orders''"]
  by (simp add: semanticIdentifier_def identPart_def identStart_def isAsciiLetter_def isDigit_def byte_def
      toLower_def lowerByte_def char_of_def bit_Suc_0_iff)

lemma quotedLen_open: "quoteChar \<notin> set t \<Longrightarrow> quotedLen t = length t"
  by (induction t) auto

lemma scan_open_literal:
  assumes "drop i s = quoteChar # t" and "quoteChar \<notin> set t"
  shows "scanMain s i l = []"
proof -
  have "length s = i + Suc (length t)"
    using arg_cong [OF assms(1), of length] at_Cons(1) [OF assms(1)] by simp
  then have "skipSQLSingleQuoted s i = length s"
    using quotedLen_open [OF assms(2)] at_Cons(3) [OF assms(1)] by (simp add: skipSQLSingleQuoted_def)
  with at_Cons [OF assms(1)] show ?thesis
    by (subst scanMain.simps) (simp add: opaqueAt_def scanMain_end)
qed

lemma scan_name_part:
  assumes "w = [] \<or> semanticIdentifier w \<and> \<not> relationKeyword (toLower w)" and "drop i s = w @ quoteChar # t"
  shows "scanMain s i l = scanMain s (i + length w) l"
proof (cases "w = []")
  case False
  with assms(1) have w: "semanticIdentifier w" "\<not> relationKeyword (toLower w)" by auto
  obtain d u where d: "w = d # u" "identStart d" using w(1) by (rule semanticIdentifier_Cons)
  with assms(2) have at: "drop i s = d # u @ quoteChar # t" by simp
  have "\<not> identPart quoteChar" by (simp add: identPart_def identStart_def isAsciiLetter_def isDigit_def byte_def)
  from readIdentifier_at [OF w(1) assms(2) this] show ?thesis
    using at_Cons [OF at] plain_at(1) [OF at] identStart_facts [OF d(2)] d w(2)
    by (subst scanMain.simps) simp
qed simp

text \<open>
  C14: In a query that starts with any printed part xs and then has a double-quoted name with an
  apostrophe in it, before which the name is empty or a plain identifier w that is no relation keyword, and
  that has no further apostrophe, neither in the rest u of the name nor in the rest v of the query, the scanner
  takes the apostrophe for the start of a string literal: it returns the relations of xs and none of
  those after the name, so the checks on raw and unqualified relations and on declared sources do not
  see them, and the read-only check accepts the query.
\<close>

theorem quoted_apostrophe_hides_relations:
  assumes "okSegments xs" and "w = [] \<or> semanticIdentifier w \<and> \<not> relationKeyword (toLower w)"
    and "quoteChar \<notin> set u" and "quoteChar \<notin> set v"
    and "s = ''select '' @ showSegments xs @ [doubleQuote] @ w @ [quoteChar] @ u @ [doubleQuote] @ v"
  shows "scanSQLRelationRefs s = segmentsRefs xs \<and> validateModelSQLQuery name s = Inr ()"
proof -
  let ?t = "u @ doubleQuote # v" and ?xs = "Word ''select'' # xs"
  let ?i = "length (showSegments ?xs)"
  have ok: "okSegments ?xs" using assms(1) identifier_words by (simp add: relationKeyword_def)
  have s: "drop 0 s = showSegments ?xs @ doubleQuote # w @ quoteChar # ?t" using assms(5) by simp
  have i: "drop ?i s = doubleQuote # w @ quoteChar # ?t" using at_append [OF s] by simp
  have "scanMain s 0 [] = segmentsItems ?xs @ scanMain s ?i []"
    using scan_segments(2) [OF ok s] by simp
  also have "scanMain s ?i [] = scanMain s (?i + 1) []"
    by (rule scan_symbol [OF i plain_at(1) [OF i]]) (simp_all add: identStart_def isAsciiLetter_def byte_def)
  also have "\<dots> = scanMain s (?i + 1 + length w) []"
    by (rule scan_name_part [OF assms(2) at_Cons(3) [OF i]])
  also have "\<dots> = []"
    by (rule scan_open_literal [OF at_append [OF at_Cons(3) [OF i]]]) (use assms(3,4) in simp)
  finally have "scanMain s 0 [] = segmentsItems xs" by simp
  moreover have "scanSQLRelationRefs s = concat (map itemRefs (scanMain s 0 []))"
    using scanRefs_select assms(5) by (simp add: scanSQLRelationRefs_def)
  moreover have "validateModelSQLQuery name s = Inr ()"
    using select_first assms(5) by (simp add: validateModelSQLQuery_def)
  ultimately show ?thesis using items_of_segments(2) [OF assms(1)] by simp
qed

theorem quoted_apostrophe_hides_relations_witness:
  "scanSQLRelationRefs (''select '' @ showSegments [] @ [doubleQuote] @ ''o'' @ [quoteChar] @ ''brien'' @ [doubleQuote]
       @ '' from raw.secrets'') = []
   \<and> validateModelSQLQuery ''m'' (''select '' @ showSegments [] @ [doubleQuote] @ ''o'' @ [quoteChar] @ ''brien''
       @ [doubleQuote] @ '' from raw.secrets'') = Inr ()"
  using quoted_apostrophe_hides_relations [of "[]" "''o''" "''brien''" "'' from raw.secrets''" _ "''m''", OF _ _ _ _ refl]
  by (simp add: semanticIdentifier_def identPart_def identStart_def isAsciiLetter_def isDigit_def byte_def
      relationKeyword_def toLower_def lowerByte_def)

end
