(* ===== verification/Connectors.thy ===== *)
theory Connectors
  imports Go_Results
begin

text \<open>
  The connector registry of \<^verbatim>\<open>internal/analytics/connectors/registry.go\<close>: file formats, connection
  kinds, and the scope check of source paths; with the functions of \<open>path\<close> and \<open>path/filepath\<close> it
  uses, on Unix paths. \<open>url.Parse\<close> is the argument \<open>parseURL\<close>: its scheme, host and decoded path,
  or \<open>None\<close> on an error.
\<close>

section \<open>Specifications\<close>

record Format =
  fmtName :: string
  fmtExtensions :: "string list"
  fmtScanKind :: string
  fmtScanFunction :: string
  fmtRequiredExtension :: string
  fmtAllowsOptions :: bool
  fmtSourceSecretType :: string
  fmtTableLike :: bool

record ConnectionSpec =
  csKind :: string
  csSecretType :: string
  csRequiredExtension :: string
  csAllowsPathSource :: bool
  csAllowsObjectSource :: bool
  csAllowsPath :: bool
  csRequiresPath :: bool
  csAllowedOptions :: "string list"
  csAuthKeys :: "string list"
  csRequiredAuthSets :: "string list list"
  csAllowNoAuth :: bool
  csAttachKind :: string
  csObjectRelation :: string

definition formats :: "Format goMap" where
  "formats =
    [(''csv'', \<lparr>fmtName = ''csv'', fmtExtensions = [''.csv'', ''.csv.gz''],
        fmtScanKind = ''table_function'',
       fmtScanFunction = ''read_csv'', fmtRequiredExtension = [], fmtAllowsOptions = True,
       fmtSourceSecretType = [], fmtTableLike = False\<rparr>),
     (''json'', \<lparr>fmtName = ''json'', fmtExtensions = [''.json'', ''.jsonl'', ''.ndjson''],
        fmtScanKind = ''table_function'',
       fmtScanFunction = ''read_json'', fmtRequiredExtension = [], fmtAllowsOptions = True,
       fmtSourceSecretType = [], fmtTableLike = False\<rparr>),
     (''parquet'', \<lparr>fmtName = ''parquet'', fmtExtensions = [''.parquet''],
        fmtScanKind = ''table_function'',
       fmtScanFunction = ''read_parquet'', fmtRequiredExtension = [], fmtAllowsOptions = True,
       fmtSourceSecretType = [], fmtTableLike = False\<rparr>),
     (''excel'', \<lparr>fmtName = ''excel'', fmtExtensions = [''.xlsx''], fmtScanKind = ''table_function'',
       fmtScanFunction = ''read_xlsx'', fmtRequiredExtension = ''excel'', fmtAllowsOptions = True,
       fmtSourceSecretType = [], fmtTableLike = False\<rparr>),
     (''text'', \<lparr>fmtName = ''text'', fmtExtensions = [''.txt''], fmtScanKind = ''table_function'',
       fmtScanFunction = ''read_text'', fmtRequiredExtension = [], fmtAllowsOptions = True,
       fmtSourceSecretType = [], fmtTableLike = False\<rparr>),
     (''blob'', \<lparr>fmtName = ''blob'', fmtExtensions = [''.blob''], fmtScanKind = ''table_function'',
       fmtScanFunction = ''read_blob'', fmtRequiredExtension = [], fmtAllowsOptions = True,
       fmtSourceSecretType = [], fmtTableLike = False\<rparr>),
     (''vortex'', \<lparr>fmtName = ''vortex'', fmtExtensions = [''.vortex''],
        fmtScanKind = ''table_function'',
       fmtScanFunction = ''read_vortex'', fmtRequiredExtension = ''vortex'', fmtAllowsOptions = True,
       fmtSourceSecretType = [], fmtTableLike = False\<rparr>),
     (''delta'', \<lparr>fmtName = ''delta'', fmtExtensions = [], fmtScanKind = ''table_function'',
       fmtScanFunction = ''delta_scan'', fmtRequiredExtension = ''delta'', fmtAllowsOptions = True,
       fmtSourceSecretType = [], fmtTableLike = True\<rparr>),
     (''iceberg'', \<lparr>fmtName = ''iceberg'', fmtExtensions = [], fmtScanKind = ''table_function'',
       fmtScanFunction = ''iceberg_scan'', fmtRequiredExtension = ''iceberg'', fmtAllowsOptions = True,
       fmtSourceSecretType = [], fmtTableLike = True\<rparr>),
     (''lance'', \<lparr>fmtName = ''lance'', fmtExtensions = [''.lance''], fmtScanKind = ''replacement'',
       fmtScanFunction = [], fmtRequiredExtension = ''lance'', fmtAllowsOptions = False,
       fmtSourceSecretType = ''lance'', fmtTableLike = True\<rparr>)]"

definition connections :: "ConnectionSpec goMap" where
  "connections =
    [(''managed'', \<lparr>csKind = ''managed'', csSecretType = [], csRequiredExtension = [],
       csAllowsPathSource = True, csAllowsObjectSource = False, csAllowsPath = False, csRequiresPath = False,
       csAllowedOptions = [],
       csAuthKeys = [],
       csRequiredAuthSets = [],
       csAllowNoAuth = True, csAttachKind = [], csObjectRelation = []\<rparr>),
     (''s3'', \<lparr>csKind = ''s3'', csSecretType = ''s3'', csRequiredExtension = ''httpfs'',
       csAllowsPathSource = True, csAllowsObjectSource = False, csAllowsPath = False, csRequiresPath = False,
       csAllowedOptions = [],
       csAuthKeys = [''access_key_id'', ''secret_access_key'', ''session_token'', ''region'', ''endpoint'',
        ''url_style'', ''use_ssl''],
       csRequiredAuthSets = [[''access_key_id'', ''secret_access_key'']],
       csAllowNoAuth = False, csAttachKind = [], csObjectRelation = []\<rparr>),
     (''r2'', \<lparr>csKind = ''r2'', csSecretType = ''r2'', csRequiredExtension = ''httpfs'',
       csAllowsPathSource = True, csAllowsObjectSource = False, csAllowsPath = False, csRequiresPath = False,
       csAllowedOptions = [],
       csAuthKeys = [''access_key_id'', ''secret_access_key'', ''account_id'', ''region''],
       csRequiredAuthSets = [[''access_key_id'', ''secret_access_key'', ''account_id'']],
       csAllowNoAuth = False, csAttachKind = [], csObjectRelation = []\<rparr>),
     (''gcs'', \<lparr>csKind = ''gcs'', csSecretType = ''gcs'', csRequiredExtension = ''httpfs'',
       csAllowsPathSource = True, csAllowsObjectSource = False, csAllowsPath = False, csRequiresPath = False,
       csAllowedOptions = [],
       csAuthKeys = [''access_key_id'', ''secret_access_key'', ''endpoint''],
       csRequiredAuthSets = [[''access_key_id'', ''secret_access_key'']],
       csAllowNoAuth = False, csAttachKind = [], csObjectRelation = []\<rparr>),
     (''http'', \<lparr>csKind = ''http'', csSecretType = ''http'', csRequiredExtension = ''httpfs'',
       csAllowsPathSource = True, csAllowsObjectSource = False, csAllowsPath = False, csRequiresPath = False,
       csAllowedOptions = [],
       csAuthKeys = [],
       csRequiredAuthSets = [],
       csAllowNoAuth = True, csAttachKind = [], csObjectRelation = []\<rparr>),
     (''azure_blob'', \<lparr>csKind = ''azure_blob'', csSecretType = ''azure'',
        csRequiredExtension = ''azure'',
       csAllowsPathSource = True, csAllowsObjectSource = False, csAllowsPath = False, csRequiresPath = False,
       csAllowedOptions = [],
       csAuthKeys = [''connection_string'', ''account_name'', ''tenant_id'', ''client_id'',
        ''client_secret''],
       csRequiredAuthSets = [[''connection_string''], [''account_name'', ''tenant_id'', ''client_id'',
        ''client_secret'']],
       csAllowNoAuth = False, csAttachKind = [], csObjectRelation = []\<rparr>),
     (''postgres'', \<lparr>csKind = ''postgres'', csSecretType = ''postgres'',
        csRequiredExtension = ''postgres'',
       csAllowsPathSource = False, csAllowsObjectSource = True, csAllowsPath = False, csRequiresPath = False,
       csAllowedOptions = [],
       csAuthKeys = [''connection_string''],
       csRequiredAuthSets = [[''connection_string'']],
       csAllowNoAuth = False, csAttachKind = ''database'', csObjectRelation = ''attach''\<rparr>),
     (''mysql'', \<lparr>csKind = ''mysql'', csSecretType = ''mysql'', csRequiredExtension = ''mysql'',
       csAllowsPathSource = False, csAllowsObjectSource = True, csAllowsPath = False, csRequiresPath = False,
       csAllowedOptions = [],
       csAuthKeys = [''connection_string''],
       csRequiredAuthSets = [[''connection_string'']],
       csAllowNoAuth = False, csAttachKind = ''database'', csObjectRelation = ''attach''\<rparr>),
     (''sqlite'', \<lparr>csKind = ''sqlite'', csSecretType = ''sqlite'', csRequiredExtension = ''sqlite'',
       csAllowsPathSource = False, csAllowsObjectSource = True, csAllowsPath = False, csRequiresPath = False,
       csAllowedOptions = [''path''],
       csAuthKeys = [''path''],
       csRequiredAuthSets = [[''path'']],
       csAllowNoAuth = True, csAttachKind = ''database'', csObjectRelation = ''attach''\<rparr>),
     (''ducklake'', \<lparr>csKind = ''ducklake'', csSecretType = ''ducklake'',
        csRequiredExtension = ''ducklake'',
       csAllowsPathSource = False, csAllowsObjectSource = True, csAllowsPath = True, csRequiresPath = True,
       csAllowedOptions = [''data_path''],
       csAuthKeys = [''access_key_id'', ''secret_access_key'', ''session_token'', ''region'', ''endpoint'',
        ''url_style'', ''use_ssl'', ''account_id'', ''connection_string'', ''account_name'', ''tenant_id'',
        ''client_id'', ''client_secret''],
       csRequiredAuthSets = [[''access_key_id'', ''secret_access_key''], [''connection_string''],
        [''account_name'', ''tenant_id'', ''client_id'', ''client_secret'']],
       csAllowNoAuth = True, csAttachKind = ''ducklake'', csObjectRelation = ''attach''\<rparr>)]"

definition LookupFormat :: "string \<Rightarrow> Format option" where
  "LookupFormat name = get formats name"

definition LookupConnection :: "string \<Rightarrow> ConnectionSpec option" where
  "LookupConnection kind = get connections kind"

definition FormatNames :: "string list" where
  "FormatNames = sortedKeys formats"

definition ConnectionKinds :: "string list" where
  "ConnectionKinds = sortedKeys connections"

definition hasSuffix :: "string \<Rightarrow> string \<Rightarrow> bool" where
  "hasSuffix suf s \<longleftrightarrow> hasPrefix (rev suf) (rev s)"

definition InferFormat :: "string \<Rightarrow> string option" where
  "InferFormat path =
     map_option (\<lambda>f. case get formats f of Some spec \<Rightarrow> fmtName spec | None \<Rightarrow> [])
       (find (\<lambda>f. case get formats f of
            Some spec \<Rightarrow> list_ex (\<lambda>ext. hasSuffix ext (toLower path)) (fmtExtensions spec)
          | None \<Rightarrow> False) FormatNames)"

section \<open>Paths\<close>

definition IsLocalPath :: "string \<Rightarrow> bool" where
  "IsLocalPath path \<longleftrightarrow>
     \<not> list_ex (\<lambda>p. hasPrefix p path)
       [''s3://'', ''r2://'', ''gcs://'', ''gs://'', ''az://'', ''azure://'', ''abfss://'', ''http://'', ''https://'', ''file://'']
     \<and> \<not> containsText path ''://''"

definition trimLeftByte :: "char \<Rightarrow> string \<Rightarrow> string" where
  "trimLeftByte c s = dropWhile (\<lambda>x. x = c) s"

definition trimRightByte :: "char \<Rightarrow> string \<Rightarrow> string" where
  "trimRightByte c s = rev (dropWhile (\<lambda>x. x = c) (rev s))"

definition JoinScope :: "string \<Rightarrow> string \<Rightarrow> string" where
  "JoinScope scope path = trimRightByte CHR ''/'' scope @ ''/'' @ trimLeftByte CHR ''/'' path"

text \<open>\<open>Clean\<close>: the elements that remain when empty ones, dots and parents are resolved.\<close>

definition isAbs :: "string \<Rightarrow> bool" where
  "isAbs path \<longleftrightarrow> hasPrefix ''/'' path"

fun pushPart :: "bool \<Rightarrow> string list \<Rightarrow> string \<Rightarrow> string list" where
  "pushPart rooted stack p =
     (if p = [] \<or> p = ''.'' then stack
      else if p = ''..'' then
        (case stack of
           [] \<Rightarrow> if rooted then [] else [p]
         | prev # below \<Rightarrow> if prev = ''..'' then p # stack else below)
      else p # stack)"

definition cleanParts :: "string \<Rightarrow> string list" where
  "cleanParts path = rev (foldl (pushPart (isAbs path)) [] (splitOn CHR ''/'' path))"

definition cleanPath :: "string \<Rightarrow> string" where
  "cleanPath path =
     (if isAbs path then CHR ''/'' # joinWith ''/'' (cleanParts path)
      else if cleanParts path = [] then ''.''
      else joinWith ''/'' (cleanParts path))"

text \<open>\<open>filepath.Rel\<close> on two cleaned paths, by their elements.\<close>

fun relParts :: "string list \<Rightarrow> string list \<Rightarrow> string list option" where
  "relParts [] ts = Some ts"
| "relParts bs [] = Some (replicate (length bs) ''..'')"
| "relParts (b # bs) (t # ts) =
     (if b = t then relParts bs ts
      else if b = ''..'' then None
      else Some (replicate (Suc (length bs)) ''..'' @ t # ts))"

definition relPath :: "string \<Rightarrow> string \<Rightarrow> string option" where
  "relPath base target =
     (if cleanPath base = cleanPath target then Some ''.''
      else if isAbs base \<noteq> isAbs target then None
      else map_option (joinWith ''/'') (relParts (cleanParts base)
        (if cleanPath target = ''.'' then [''.''] else cleanParts target)))"

definition joinPath :: "string \<Rightarrow> string \<Rightarrow> string" where
  "joinPath a b = cleanPath (joinWith ''/'' (filter (\<lambda>e. e \<noteq> []) [a, b]))"

section \<open>Scopes of remote locations\<close>

record URL =
  urlScheme :: string
  urlHost :: string
  urlPath :: string

definition cleanRemotePath :: "string \<Rightarrow> string" where
  "cleanRemotePath v = (if v = [] then ''/'' else cleanPath (''/'' @ trimLeftByte CHR ''/'' v))"

definition plainWithin :: "string \<Rightarrow> string \<Rightarrow> bool" where
  "plainWithin scope path =
     (let s = trimRightByte CHR ''/'' scope; p = trimRightByte CHR ''/'' path in
      p = s \<or> hasPrefix (s @ ''/'') p)"

definition WithinScope :: "(string \<Rightarrow> URL option) \<Rightarrow> string \<Rightarrow> string \<Rightarrow> bool" where
  "WithinScope parseURL scope path =
     (case (parseURL scope, parseURL path) of
        (Some su, Some pu) \<Rightarrow>
          if urlScheme su \<noteq> [] \<or> urlScheme pu \<noteq> [] then
            urlScheme su \<noteq> [] \<and> urlScheme pu \<noteq> []
            \<and> foldCase (urlScheme su) = foldCase (urlScheme pu) \<and> foldCase (urlHost su) = foldCase (urlHost pu)
            \<and> (let scopePath = cleanRemotePath (urlPath su); candidatePath = cleanRemotePath (urlPath pu) in
                scopePath = ''/'' \<or> candidatePath = scopePath \<or> hasPrefix (scopePath @ ''/'') candidatePath)
          else plainWithin scope path
      | _ \<Rightarrow> plainWithin scope path)"

definition StorageExtension :: "string \<Rightarrow> string option" where
  "StorageExtension path =
     (if list_ex (\<lambda>p. hasPrefix p path) [''s3://'', ''r2://'', ''gcs://'', ''gs://'', ''http://'', ''https://'']
      then Some ''httpfs''
      else if list_ex (\<lambda>p. hasPrefix p path) [''az://'', ''azure://'', ''abfss://''] then Some ''azure''
      else None)"

end
