(* ===== verification/Model_Types.thy ===== *)
theory Model_Types
  imports Connectors Expr_Eval SQL_Scan
begin

text \<open>
  The authored semantic model of \<^verbatim>\<open>internal/analytics/model/types.go\<close>, and the references into it of
  \<^verbatim>\<open>fields.go\<close>. Go maps are association lists (\<open>goMap\<close>); a nil map or slice is the empty list.
\<close>

section \<open>Authored values\<close>

text \<open>
  A value of type \<open>any\<close>: \<open>AnyText\<close> stands for a value that is neither nil nor a string, by the text
  \<open>fmt.Sprint\<close> prints for it.
\<close>

datatype anyValue = AnyNil | AnyString string | AnyText string

definition sprint :: "anyValue \<Rightarrow> string" where
  "sprint v = (case v of AnyNil \<Rightarrow> ''<nil>'' | AnyString s \<Rightarrow> s | AnyText s \<Rightarrow> s)"

record ConnectionCredentials =
  crProvider :: string
  crSecret :: string
  crRegion :: string
  crEndpoint :: string
  crAccountName :: string

type_synonym ConnectionAuth = "anyValue goMap"

record ConnectionDefaults =
  cdOptions :: "anyValue goMap"

record Connection =
  cnKind :: string
  cnDescription :: string
  cnPath :: string
  cnRoot :: string
  cnScope :: string
  cnHost :: string
  cnPort :: int
  cnDatabase :: string
  cnUsername :: string
  cnSSLMode :: string
  cnAuth :: ConnectionAuth
  cnCredentials :: ConnectionCredentials
  cnOptions :: "anyValue goMap"
  cnDefaults :: ConnectionDefaults

record ColumnSchema =
  colName :: string
  colOrdinal :: int
  colPhysicalType :: string
  colNullable :: "bool option"
  colDefault :: string
  colComment :: string
  colPrimaryKey :: bool

record TableSchema =
  tsColumns :: "ColumnSchema list"

record SourceField =
  sfField :: string
  sfTable :: string
  sfName :: string
  sfType :: string
  sfDescription :: string

record Source =
  soFormat :: string
  soDescription :: string
  soPath :: string
  soConnection :: string
  soObject :: string
  soOptions :: "anyValue goMap"
  soFields :: "SourceField goMap"
  soSchema :: TableSchema

record ModelColumn =
  mcField :: string
  mcName :: string
  mcSourceField :: string
  mcDescription :: string
  mcType :: string

record MetricDimension =
  mdField :: string
  mdTable :: string
  mdName :: string
  mdLabel :: string
  mdDescription :: string
  mdType :: string
  mdExpr :: string
  mdExpression :: string

record Transform =
  trSQL :: string

record Table =
  taSource :: string
  taSources :: "string list"
  taSourceReads :: "string list goMap"
  taSQL :: string
  taTransform :: Transform
  taColumns :: "ModelColumn goMap"
  taPrimaryKey :: string
  taGrain :: string
  taDimensions :: "MetricDimension goMap"
  taDescription :: string
  taSchema :: TableSchema
  taSourceDependencies :: "string list"
  taModelDependencies :: "string list"

record MeasureInput =
  miField :: string
  miExpression :: string

record MeasureFilter =
  mfField :: string
  mfOperator :: string
  mfValues :: "anyValue list"

record MetricMeasure =
  meField :: string
  meName :: string
  meFact :: string
  meLabel :: string
  meDescription :: string
  meAggregation :: string
  meInput :: MeasureInput
  meFilters :: "MeasureFilter list"
  meEmpty :: string
  meUnit :: string
  meFormat :: string
  meHidden :: bool

record DimensionBinding =
  dbField :: string
  dbPath :: "string list"

record SemanticDimension =
  sdName :: string
  sdLabel :: string
  sdDescription :: string
  sdType :: string
  sdGrains :: "string list"
  sdBindings :: "DimensionBinding goMap"

record Metric =
  mtName :: string
  mtLabel :: string
  mtDescription :: string
  mtExpression :: string
  mtUnit :: string
  mtFormat :: string
  mtHidden :: bool

record Relationship =
  rlID :: string
  rlDescription :: string
  rlFrom :: string
  rlTo :: string
  rlCardinality :: string

record Model =
  mName :: string
  mTitle :: string
  mDescription :: string
  mDefaultConnection :: string
  mConnections :: "Connection goMap"
  mSources :: "Source goMap"
  mTables :: "Table goMap"
  mRelationships :: "Relationship list"
  mMeasures :: "MetricMeasure goMap"
  mDimensions :: "SemanticDimension goMap"
  mMetrics :: "Metric goMap"

section \<open>References into the model\<close>

definition validateSemanticIdentifier :: "string \<Rightarrow> goError + unit" where
  "validateSemanticIdentifier v =
     failIf (\<not> semanticIdentifier v) ''must match %s'' [Arg ''^[A-Za-z_][A-Za-z0-9_]*$'']"

definition splitSemanticField :: "string \<Rightarrow> goError + string \<times> string" where
  "splitSemanticField ref =
     (case splitOn CHR ''.'' ref of
        [a, b] \<Rightarrow>
          andThen (checks
            [wrapErr ''table %q is invalid: %w'' [Arg a] (validateSemanticIdentifier a),
             wrapErr ''field %q is invalid: %w'' [Arg b] (validateSemanticIdentifier b)])
            (\<lambda>_. Inr (a, b))
      | _ \<Rightarrow> Inl (Errorf ''field %q must be qualified as table.field'' [Arg ref]))"

text \<open>The table that a reference names; the code ignores the error and has the empty name then.\<close>

definition refTable :: "string \<Rightarrow> string" where
  "refTable ref = (case splitSemanticField ref of Inr (t, _) \<Rightarrow> t | Inl _ \<Rightarrow> [])"

definition ResolveDimension :: "Model \<Rightarrow> string \<Rightarrow> goError + MetricDimension" where
  "ResolveDimension m ref =
     (if CHR ''.'' \<notin> set ref then Inl (Errorf ''semantic dimension %q is not a physical field'' [Arg ref])
      else andThen (splitSemanticField ref) (\<lambda>(tableName, fieldName).
        case get (mTables m) tableName of
          None \<Rightarrow> Inl (Errorf ''unknown table %q'' [Arg tableName])
        | Some table \<Rightarrow>
            (case get (taDimensions table) fieldName of
               None \<Rightarrow> Inl (Errorf ''unknown field %q on table %q'' [Arg fieldName, Arg tableName])
             | Some dimension \<Rightarrow> Inr (dimension\<lparr>mdField := ref, mdTable := tableName, mdName := fieldName\<rparr>))))"

definition ResolveRelationshipEndpoint :: "Model \<Rightarrow> string \<Rightarrow> goError + MetricDimension" where
  "ResolveRelationshipEndpoint m ref =
     andThen (splitSemanticField ref) (\<lambda>(tableName, fieldName).
       case get (mTables m) tableName of
         None \<Rightarrow> Inl (Errorf ''unknown table %q'' [Arg tableName])
       | Some table \<Rightarrow>
           (case get (taDimensions table) fieldName of
              Some dimension \<Rightarrow> Inr (dimension\<lparr>mdField := ref, mdTable := tableName, mdName := fieldName\<rparr>)
            | None \<Rightarrow> Inl (Errorf ''unknown relationship endpoint field %q on table %q'' [Arg fieldName, Arg tableName])))"

definition ResolveMeasure :: "Model \<Rightarrow> string \<Rightarrow> goError + MetricMeasure" where
  "ResolveMeasure m ref =
     (case get (mMeasures m) ref of
        None \<Rightarrow> Inl (Errorf ''unknown measure %q'' [Arg ref])
      | Some ms \<Rightarrow> Inr (ms\<lparr>meField := ref, meName := ref\<rparr>))"

definition ResolveSemanticDimension :: "Model \<Rightarrow> string \<Rightarrow> goError + SemanticDimension" where
  "ResolveSemanticDimension m ref =
     (case get (mDimensions m) ref of
        None \<Rightarrow> Inl (Errorf ''unknown semantic dimension %q'' [Arg ref])
      | Some dimension \<Rightarrow> Inr (dimension\<lparr>sdName := ref\<rparr>))"

definition ValidateQueryDimension :: "Model \<Rightarrow> string \<Rightarrow> goError + unit" where
  "ValidateQueryDimension m ref =
     (if hasKey (mDimensions m) ref then Inr () else andThen (ResolveDimension m ref) (\<lambda>_. Inr ()))"

definition ValidateAggregateMember :: "Model \<Rightarrow> string \<Rightarrow> goError + unit" where
  "ValidateAggregateMember m ref =
     failIf (\<not> hasKey (mMeasures m) ref \<and> \<not> hasKey (mMetrics m) ref) ''unknown measure or metric %q'' [Arg ref]"

datatype fieldMatch = FieldDimension MetricDimension | FieldMeasure MetricMeasure

definition ResolveField :: "Model \<Rightarrow> string \<Rightarrow> goError + fieldMatch" where
  "ResolveField m ref =
     (case ResolveDimension m ref of
        Inr dimension \<Rightarrow> Inr (FieldDimension dimension)
      | Inl _ \<Rightarrow>
          (case ResolveMeasure m ref of
             Inr ms \<Rightarrow> Inr (FieldMeasure ms)
           | Inl _ \<Rightarrow> Inl (Errorf ''unknown field %q'' [Arg ref])))"

definition SQLExpression :: "MetricDimension \<Rightarrow> string" where
  "SQLExpression d = mdName d"

lemma splitSemanticField_Inr:
  "splitSemanticField ref = Inr (t, f) \<longleftrightarrow> splitOn CHR ''.'' ref = [t, f] \<and> semanticIdentifier t \<and> semanticIdentifier f"
  by (auto simp: splitSemanticField_def andThen_eq_Inr validateSemanticIdentifier_def split: list.splits)

lemma ResolveDimension_Inr:
  "ResolveDimension m ref = Inr d \<longleftrightarrow>
     (\<exists>t f table d0. splitOn CHR ''.'' ref = [t, f] \<and> semanticIdentifier t \<and> semanticIdentifier f
        \<and> get (mTables m) t = Some table \<and> get (taDimensions table) f = Some d0
        \<and> d = d0\<lparr>mdField := ref, mdTable := t, mdName := f\<rparr>)"
proof -
  have "CHR ''.'' \<in> set ref" if "splitOn CHR ''.'' ref = [t, f]" for t f
    using joinWith_splitOn [of "CHR ''.''" ref] that by auto
  then show ?thesis
    by (auto simp: ResolveDimension_def andThen_pair_eq_Inr splitSemanticField_Inr)
qed

end
