(* ===== verification/Model_Paths.thy ===== *)
theory Model_Paths
  imports Model_Types
begin

text \<open>
  Relationship paths (\<^verbatim>\<open>relationships.go\<close>): the search for the one safe join path between two tables.
  \<open>walk\<close> is the code's search, which stops once it has found two paths. \<open>simplePaths\<close> enumerates all
  paths, and \<open>safeChain\<close> says what a path is; the search is equivalent to taking two of them.
\<close>

section \<open>Safe edges\<close>

record relationshipEdge =
  edTable :: string
  edRelationship :: Relationship

definition semanticSafeCardinality :: "string \<Rightarrow> bool" where
  "semanticSafeCardinality c \<longleftrightarrow> c = ''many_to_one'' \<or> c = ''one_to_one''"

definition semanticSafeEdgeFrom :: "string \<Rightarrow> Relationship \<Rightarrow> relationshipEdge option" where
  "semanticSafeEdgeFrom table r =
     (case (splitSemanticField (rlFrom r), splitSemanticField (rlTo r)) of
        (Inr (fromTable, _), Inr (toTable, _)) \<Rightarrow>
          if fromTable = table \<and> semanticSafeCardinality (rlCardinality r)
          then Some \<lparr>edTable = toTable, edRelationship = r\<rparr>
          else if rlCardinality r = ''one_to_one'' \<and> toTable = table
          then Some \<lparr>edTable = fromTable, edRelationship = r\<rparr>
          else None
      | _ \<Rightarrow> None)"

definition edgeKey :: "relationshipEdge \<Rightarrow> string list" where
  "edgeKey e = [edTable e, rlID (edRelationship e), rlFrom (edRelationship e), rlTo (edRelationship e)]"

definition safeEdgesFrom :: "Relationship list \<Rightarrow> string \<Rightarrow> relationshipEdge list" where
  "safeEdgesFrom rels table = sort_key edgeKey (List.map_filter (semanticSafeEdgeFrom table) rels)"

lemma set_safeEdgesFrom:
  "e \<in> set (safeEdgesFrom rels table) \<longleftrightarrow> (\<exists>r \<in> set rels. semanticSafeEdgeFrom table r = Some e)"
  by (force simp: safeEdgesFrom_def List.map_filter_def)

lemma safeEdge_relationship: "semanticSafeEdgeFrom table r = Some e \<Longrightarrow> edRelationship e = r"
  by (auto simp: semanticSafeEdgeFrom_def split: sum.splits if_splits)

definition edgeTables :: "Relationship list \<Rightarrow> string set" where
  "edgeTables rels = refTable ` rlFrom ` set rels \<union> refTable ` rlTo ` set rels"

lemma safeEdge_table:
  "semanticSafeEdgeFrom table r = Some e \<Longrightarrow> edTable e = refTable (rlTo r) \<or> edTable e = refTable (rlFrom r)"
  by (auto simp: semanticSafeEdgeFrom_def refTable_def split: sum.splits if_splits)

lemma edge_in_edgeTables: "e \<in> set (safeEdgesFrom rels table) \<Longrightarrow> edTable e \<in> edgeTables rels"
  using safeEdge_table by (auto simp: set_safeEdgesFrom edgeTables_def) blast

lemma edge_of_relationship:
  "e \<in> set (safeEdgesFrom rels table) \<Longrightarrow> semanticSafeEdgeFrom table (edRelationship e) = Some e"
  by (auto simp: set_safeEdgesFrom dest: safeEdge_relationship)

lemma finite_edgeTables [simp]: "finite (edgeTables rels)"
  by (simp add: edgeTables_def)

lemma unvisited_decreases:
  assumes "e \<in> set (safeEdgesFrom rels table)" and "edTable e \<notin> set visited"
  shows "card (edgeTables rels - set (edTable e # visited)) < card (edgeTables rels - set visited)"
  using edge_in_edgeTables [OF assms(1)] assms(2) by (intro psubset_card_mono) auto

section \<open>The search\<close>

text \<open>
  \<open>candidate.Table\<close>, \<open>candidate.Path\<close> and \<open>candidate.Visited\<close> are the arguments \<open>table\<close>, \<open>path\<close>
  and \<open>visited\<close>; the closure's \<open>matches\<close> is passed through.
\<close>

function walk :: "Relationship list \<Rightarrow> string \<Rightarrow> string \<Rightarrow> Relationship list \<Rightarrow> string list
    \<Rightarrow> Relationship list list \<Rightarrow> Relationship list list" where
  "walk rels target table path visited matches =
     (if length matches > 1 then matches
      else foldl (\<lambda>found e.
          if length found > 1 then found
          else if edTable e \<in> set visited then found
          else if edTable e = target then found @ [path @ [edRelationship e]]
          else walk rels target (edTable e) (path @ [edRelationship e]) (edTable e # visited) found)
        matches (safeEdgesFrom rels table))"
  by pat_completeness auto
termination
  by (relation "measure (\<lambda>(rels, target, table, path, visited, matches). card (edgeTables rels - set visited))")
    (auto intro: unvisited_decreases [simplified])

declare walk.simps [simp del]

definition safeRelationshipPaths :: "Relationship list \<Rightarrow> string \<Rightarrow> string \<Rightarrow> Relationship list list" where
  "safeRelationshipPaths rels base target = walk rels target base [] [base] []"

definition SafeRelationshipPath :: "Model \<Rightarrow> string \<Rightarrow> string \<Rightarrow> goError + Relationship list" where
  "SafeRelationshipPath m base target =
     (if base = target then Inr []
      else case safeRelationshipPaths (mRelationships m) base target of
        [] \<Rightarrow> Inl (Errorf ''no safe relationship path from %q to %q'' [Arg base, Arg target])
      | [path] \<Rightarrow> Inr path
      | _ \<Rightarrow> Inl (Errorf ''ambiguous relationship path from %q to %q'' [Arg base, Arg target]))"

definition CanReachField :: "Model \<Rightarrow> string \<Rightarrow> string \<Rightarrow> goError + unit" where
  "CanReachField m factTable field =
     andThen (ResolveDimension m field) (\<lambda>dimension.
     andThen (SafeRelationshipPath m factTable (mdTable dimension)) (\<lambda>_. Inr ()))"

section \<open>All simple paths\<close>

function simplePaths :: "Relationship list \<Rightarrow> string \<Rightarrow> string \<Rightarrow> string list \<Rightarrow> Relationship list list" where
  "simplePaths rels target table visited =
     concat (map (\<lambda>e.
       if edTable e \<in> set visited then []
       else if edTable e = target then [[edRelationship e]]
       else map (\<lambda>p. edRelationship e # p) (simplePaths rels target (edTable e) (edTable e # visited)))
       (safeEdgesFrom rels table))"
  by pat_completeness auto
termination
  by (relation "measure (\<lambda>(rels, target, table, visited). card (edgeTables rels - set visited))")
    (auto intro: unvisited_decreases [simplified])

declare simplePaths.simps [simp del]

text \<open>A path of relationships, each followed in a direction in which it has at most one match.\<close>

inductive safeChain :: "Relationship list \<Rightarrow> string \<Rightarrow> string \<Rightarrow> string list \<Rightarrow> Relationship list \<Rightarrow> bool" where
  last_step: "r \<in> set rels \<Longrightarrow> semanticSafeEdgeFrom table r = Some e \<Longrightarrow> edTable e \<notin> set visited \<Longrightarrow>
    edTable e = target \<Longrightarrow> safeChain rels target table visited [r]"
| more_steps: "r \<in> set rels \<Longrightarrow> semanticSafeEdgeFrom table r = Some e \<Longrightarrow> edTable e \<notin> set visited \<Longrightarrow>
    edTable e \<noteq> target \<Longrightarrow> safeChain rels target (edTable e) (edTable e # visited) p \<Longrightarrow>
    safeChain rels target table visited (r # p)"

inductive_cases safeChain_ConsE: "safeChain rels target table visited (r # p)"
inductive_simps safeChain_Nil [simp]: "safeChain rels target table visited []"

lemma simplePaths_safeChain:
  "p \<in> set (simplePaths rels target table visited) \<longleftrightarrow> safeChain rels target table visited p"
proof (induction rels target table visited arbitrary: p rule: simplePaths.induct)
  case (1 rels target table visited)
  show ?case
  proof
    assume "p \<in> set (simplePaths rels target table visited)"
    then obtain e where e: "e \<in> set (safeEdgesFrom rels table)" "edTable e \<notin> set visited"
      "edTable e = target \<and> p = [edRelationship e] \<or>
       edTable e \<noteq> target \<and> (\<exists>q \<in> set (simplePaths rels target (edTable e) (edTable e # visited)). p = edRelationship e # q)"
      unfolding simplePaths.simps [of rels target table visited] by (auto split: if_splits)
    from e(1) obtain r where r: "r \<in> set rels" "semanticSafeEdgeFrom table r = Some e"
      by (auto simp: set_safeEdgesFrom)
    note er = safeEdge_relationship [OF r(2)]
    from e(3) show "safeChain rels target table visited p"
    proof (elim disjE conjE bexE)
      assume "edTable e = target" "p = [edRelationship e]"
      with last_step [OF r e(2)] er show ?thesis by simp
    next
      fix q assume q: "edTable e \<noteq> target" "q \<in> set (simplePaths rels target (edTable e) (edTable e # visited))"
        "p = edRelationship e # q"
      with 1 [OF e(1,2) q(1)] more_steps [OF r e(2) q(1)] er show ?thesis by simp
    qed
  next
    assume "safeChain rels target table visited p"
    then show "p \<in> set (simplePaths rels target table visited)"
    proof cases
      case (last_step r e)
      then have "e \<in> set (safeEdgesFrom rels table)" by (auto simp: set_safeEdgesFrom)
      with last_step safeEdge_relationship [OF last_step(3)] show ?thesis
        by (subst simplePaths.simps) (auto intro!: bexI [of _ e])
    next
      case (more_steps r e q)
      then have e: "e \<in> set (safeEdgesFrom rels table)" by (auto simp: set_safeEdgesFrom)
      have "q \<in> set (simplePaths rels target (edTable e) (edTable e # visited))"
        using 1 [OF e more_steps(4,5)] more_steps(6) by simp
      with e more_steps safeEdge_relationship [OF more_steps(3)] show ?thesis
        by (subst simplePaths.simps) (auto intro!: bexI [of _ e])
    qed
  qed
qed

lemma foldl_take2:
  assumes "\<And>found e. e \<in> set es \<Longrightarrow> length found \<le> 2 \<Longrightarrow> f found e = take 2 (found @ g e)"
    and "length found \<le> 2"
  shows "foldl f found es = take 2 (found @ concat (map g es))"
  using assms
proof (induction es arbitrary: found)
  case (Cons e es)
  have "foldl f (f found e) es = take 2 (f found e @ concat (map g es))"
    by (rule Cons.IH) (use Cons.prems in auto)
  also have "\<dots> = take 2 (take 2 (found @ g e) @ concat (map g es))" using Cons.prems by simp
  also have "\<dots> = take 2 (found @ g e @ concat (map g es))"
    by (cases "length (found @ g e) \<le> 2") (simp_all add: min_def)
  finally show ?case by simp
qed simp

text \<open>The search is the first two of all simple paths.\<close>

lemma walk_simplePaths:
  "length matches \<le> 2 \<Longrightarrow>
     walk rels target table path visited matches
       = take 2 (matches @ map (\<lambda>p. path @ p) (simplePaths rels target table visited))"
proof (induction rels target table path visited matches rule: walk.induct)
  case (1 rels target table path visited matches)
  let ?g = "\<lambda>e. map (\<lambda>p. path @ p)
       (if edTable e \<in> set visited then []
        else if edTable e = target then [[edRelationship e]]
        else map (\<lambda>p. edRelationship e # p) (simplePaths rels target (edTable e) (edTable e # visited)))"
  show ?case
  proof (cases "length matches > 1")
    case True
    with 1(2) show ?thesis by (simp add: walk.simps [of _ _ table])
  next
    case False
    have "foldl (\<lambda>found e.
          if length found > 1 then found
          else if edTable e \<in> set visited then found
          else if edTable e = target then found @ [path @ [edRelationship e]]
          else walk rels target (edTable e) (path @ [edRelationship e]) (edTable e # visited) found)
        matches (safeEdgesFrom rels table)
      = take 2 (matches @ concat (map ?g (safeEdgesFrom rels table)))"
    proof (rule foldl_take2 [OF _ 1(2)])
      fix found :: "Relationship list list" and e
      assume e: "e \<in> set (safeEdgesFrom rels table)" "length found \<le> 2"
      show "(if length found > 1 then found
          else if edTable e \<in> set visited then found
          else if edTable e = target then found @ [path @ [edRelationship e]]
          else walk rels target (edTable e) (path @ [edRelationship e]) (edTable e # visited) found)
        = take 2 (found @ ?g e)"
        using 1(1) [OF False e(1), of found] e(2) by (simp add: comp_def)
    qed
    also have "concat (map ?g (safeEdgesFrom rels table))
        = map (\<lambda>p. path @ p) (simplePaths rels target table visited)"
      by (simp add: simplePaths.simps [of rels target table visited] map_concat comp_def)
    finally show ?thesis using False by (simp add: walk.simps [of _ _ table])
  qed
qed

lemma distinct_safeEdges: "distinct rels \<Longrightarrow> distinct (safeEdgesFrom rels table)"
proof -
  have "distinct rels \<Longrightarrow> distinct (List.map_filter (semanticSafeEdgeFrom table) rels)"
  proof (induction rels)
    case (Cons r rels)
    have "\<forall>e. semanticSafeEdgeFrom table r = Some e \<longrightarrow> e \<notin> set (List.map_filter (semanticSafeEdgeFrom table) rels)"
      using Cons.prems safeEdge_relationship by (auto simp: List.map_filter_def) metis
    with Cons show ?case by (auto simp: List.map_filter_simps split: option.split)
  qed (simp add: List.map_filter_simps)
  then show "distinct rels \<Longrightarrow> distinct (safeEdgesFrom rels table)" by (simp add: safeEdgesFrom_def)
qed

lemma distinct_simplePaths:
  "distinct rels \<Longrightarrow> distinct (simplePaths rels target table visited)"
proof (induction rels target table visited rule: simplePaths.induct)
  case (1 rels target table visited)
  have same: "x = y" if "x \<in> set (safeEdgesFrom rels table)" "y \<in> set (safeEdgesFrom rels table)"
    "edRelationship x = edRelationship y" for x y
    by (metis edge_of_relationship option.inject that)
  show ?case
    unfolding simplePaths.simps [of rels target table visited]
  proof (rule distinct_concat_map)
    show "distinct (safeEdgesFrom rels table)" using 1(2) by (rule distinct_safeEdges)
  next
    fix e assume e: "e \<in> set (safeEdgesFrom rels table)"
    show "distinct (if edTable e \<in> set visited then [] else if edTable e = target then [[edRelationship e]]
        else map (\<lambda>p. edRelationship e # p) (simplePaths rels target (edTable e) (edTable e # visited)))"
      using 1(1) [OF e _ _ 1(2)] by (simp add: distinct_map)
  next
    fix x y p
    have h: "hd p = edRelationship e"
      if "p \<in> set (if edTable e \<in> set visited then [] else if edTable e = target then [[edRelationship e]]
          else map (\<lambda>p. edRelationship e # p) (simplePaths rels target (edTable e) (edTable e # visited)))" for e
    proof -
      have "p = [edRelationship e] \<or> (\<exists>q. p = edRelationship e # q)" using that by (force split: if_splits)
      then show ?thesis by auto
    qed
    assume xy: "x \<in> set (safeEdgesFrom rels table)" "y \<in> set (safeEdgesFrom rels table)"
      and px: "p \<in> set (if edTable x \<in> set visited then [] else if edTable x = target then [[edRelationship x]]
          else map (\<lambda>p. edRelationship x # p) (simplePaths rels target (edTable x) (edTable x # visited)))"
      and py: "p \<in> set (if edTable y \<in> set visited then [] else if edTable y = target then [[edRelationship y]]
          else map (\<lambda>p. edRelationship y # p) (simplePaths rels target (edTable y) (edTable y # visited)))"
    have "edRelationship x = edRelationship y" using h [OF px] h [OF py] by (rule trans [OF sym])
    then show "x = y" by (rule same [OF xy])
  qed
qed

lemma SafeRelationshipPath_unique:
  assumes "distinct (mRelationships m)" and "base \<noteq> target"
  shows "SafeRelationshipPath m base target = Inr p \<longleftrightarrow>
    (\<forall>q. safeChain (mRelationships m) target base [base] q \<longleftrightarrow> q = p)"
proof -
  let ?ps = "simplePaths (mRelationships m) target base [base]"
  have d: "distinct ?ps" using assms(1) by (rule distinct_simplePaths)
  have s: "safeRelationshipPaths (mRelationships m) base target = take 2 ?ps"
    by (simp add: safeRelationshipPaths_def walk_simplePaths)
  have m: "safeChain (mRelationships m) target base [base] q \<longleftrightarrow> q \<in> set ?ps" for q
    by (simp add: simplePaths_safeChain)
  consider "?ps = []" | a where "?ps = [a]" | a b c where "?ps = a # b # c"
    by (metis neq_Nil_conv)
  then show ?thesis
  proof cases
    case 1
    with s m assms(2) show ?thesis by (simp add: SafeRelationshipPath_def)
  next
    case (2 a)
    with s m assms(2) show ?thesis by (auto simp: SafeRelationshipPath_def)
  next
    case (3 a b c)
    have "a \<noteq> b" "a \<in> set ?ps" "b \<in> set ?ps" using d 3 by auto
    moreover have "SafeRelationshipPath m base target \<noteq> Inr p" using 3 s assms(2) by (simp add: SafeRelationshipPath_def)
    ultimately show ?thesis unfolding m by metis
  qed
qed

end
