(* ===== verification/Model_Semantics.thy ===== *)
theory Model_Semantics
  imports Model_Paths
begin

text \<open>
  The semantic definitions of a model (\<^verbatim>\<open>semantic_validation.go\<close>): measures, semantic dimensions with
  their bindings to fact tables, and metrics. \<open>visit\<close> is the depth-first search for dependency cycles
  among metrics; it runs on fuel, and one more than the number of metrics is enough
  (\<open>validateMetrics_total\<close>). \<open>floatOk\<close> is the argument of \<open>ParseExpression\<close>.
\<close>

section \<open>Expressions\<close>

definition exprMessage :: "expr_error \<Rightarrow> goError" where
  "exprMessage e = (case e of
      ExpressionRequired \<Rightarrow> Errorf ''expression is required'' []
    | UnexpectedToken n \<Rightarrow> Errorf ''unexpected token at position %d'' [ArgN (int n)]
    | UnexpectedEnd \<Rightarrow> Errorf ''unexpected end of expression'' []
    | MissingParenthesis n \<Rightarrow> Errorf ''missing closing parenthesis at position %d'' [ArgN (int n)]
    | UnexpectedCharacter c n \<Rightarrow> Errorf ''unexpected character %q at position %d'' [Arg [c], ArgN (int n)]
    | UnterminatedReference n \<Rightarrow> Errorf ''unterminated reference at position %d'' [ArgN (int n)]
    | EmptyReference n \<Rightarrow> Errorf ''empty reference at position %d'' [ArgN (int n)]
    | InvalidReference r \<Rightarrow> Errorf ''invalid reference %q'' [Arg r]
    | InvalidNumber r \<Rightarrow> Errorf ''invalid number %q'' [Arg r]
    | BareIdentifier \<Rightarrow> Errorf ''bare identifier %q is not allowed; use ${%s}'' []
    | UnsupportedFunction \<Rightarrow> Errorf ''unsupported expression function %q'' []
    | ExpectedComma n \<Rightarrow> Errorf ''expected comma or closing parenthesis at position %d'' [ArgN (int n)]
    | WrongArity f lo hi \<Rightarrow> Errorf ''function %q expects %d..%d arguments'' [Arg f, ArgN (int lo), ArgN (int hi)])"

definition parseExpr :: "(string \<Rightarrow> bool) \<Rightarrow> string \<Rightarrow> goError + Expression" where
  "parseExpr floatOk text =
     (case ParseExpression floatOk text of
        Some (Inr e) \<Rightarrow> Inr e
      | Some (Inl e) \<Rightarrow> Inl (exprMessage e)
      | None \<Rightarrow> Inl (Errorf [] []))"

section \<open>Labels\<close>

definition defaultString :: "string \<Rightarrow> string \<Rightarrow> string" where
  "defaultString v fallback = (if v \<noteq> [] then v else fallback)"

definition titleFromIdentifier :: "string \<Rightarrow> string" where
  "titleFromIdentifier v0 =
     (let v = replaceByte CHR ''_'' CHR '' '' v0 in
      if v = [] then v else toUpper (take 1 v) @ drop 1 v)"

section \<open>Measures\<close>

definition supportedAggregations :: "string list" where
  "supportedAggregations = [''sum'', ''count'', ''count_distinct'', ''avg'', ''min'', ''max'']"

definition supportedSemanticDimensionTypes :: "string list" where
  "supportedSemanticDimensionTypes = [''string'', ''number'', ''boolean'', ''date'', ''timestamp'']"

definition supportedTimeGrains :: "string list" where
  "supportedTimeGrains = [''day'', ''week'', ''month'', ''quarter'', ''year'']"

definition FactNames :: "Model \<Rightarrow> string list" where
  "FactNames m = sortedStringSet (filter (\<lambda>f. f \<noteq> []) (map (meFact \<circ> snd) (mMeasures m)))"

definition validateMeasureFilter :: "MeasureFilter \<Rightarrow> goError + unit" where
  "validateMeasureFilter flt = checks
     [failIf (mfOperator flt \<notin> set [''equals'', ''in'', ''contains'', ''starts_with'', ''greater_than_or_equal'', ''less_than''])
        ''unsupported operator %q'' [Arg (mfOperator flt)],
      failIf (mfValues flt = []) ''filter values are required'' []]"

text \<open>The references of a measure's input; an input expression is parsed and may not call \<open>safe_divide\<close>.\<close>

definition inputRefs :: "(string \<Rightarrow> bool) \<Rightarrow> string \<Rightarrow> MetricMeasure \<Rightarrow> goError + string list" where
  "inputRefs floatOk name meas =
     (let fieldRefs = (if trimSpace (miField (meInput meas)) \<noteq> [] then [miField (meInput meas)] else []) in
      if trimSpace (miExpression (meInput meas)) \<noteq> [] then
        andThen (wrapErr ''semantic measure %q input expression: %w'' [Arg name] (parseExpr floatOk (miExpression (meInput meas))))
          (\<lambda>expression. andThen
             (eachE (\<lambda>f. failIf (f = ''safe_divide'')
                ''semantic measure %q input expression function %q is metric-only'' [Arg name, Arg f]) (exCalls expression))
             (\<lambda>_. Inr (fieldRefs @ exRefs expression)))
      else Inr fieldRefs)"

definition validateMeasure :: "(string \<Rightarrow> bool) \<Rightarrow> Model \<Rightarrow> string \<Rightarrow> MetricMeasure \<Rightarrow> goError + unit" where
  "validateMeasure floatOk m name meas =
     (let hasField = trimSpace (miField (meInput meas)) \<noteq> [];
          hasExpression = trimSpace (miExpression (meInput meas)) \<noteq> [] in
      andThen (checks
        [failIf (\<not> hasKey (mTables m) (meFact meas))
           ''semantic measure %q references unknown fact table %q'' [Arg name, Arg (meFact meas)],
         failIf (meAggregation meas \<notin> set supportedAggregations)
           ''semantic measure %q has unsupported aggregation %q'' [Arg name, Arg (meAggregation meas)],
         failIf (meEmpty meas \<noteq> ''zero'' \<and> meEmpty meas \<noteq> ''null'')
           ''semantic measure %q empty must be zero or null'' [Arg name],
         failIf ((meAggregation meas = ''count'' \<or> meAggregation meas = ''count_distinct'') \<and> meEmpty meas \<noteq> ''zero'')
           ''semantic measure %q aggregation %s requires empty: zero'' [Arg name, Arg (meAggregation meas)],
         if meAggregation meas = ''count'' then
           failIf (hasField \<or> hasExpression) ''semantic measure %q count must not define input'' [Arg name]
         else failIf (hasField = hasExpression)
           ''semantic measure %q requires exactly one input field or expression'' [Arg name]])
      (\<lambda>_. andThen (inputRefs floatOk name meas) (\<lambda>refs. checks
        [eachE (\<lambda>ref. andThen (wrapErr ''semantic measure %q input: %w'' [Arg name] (ResolveDimension m ref))
           (\<lambda>dimension. failIf (mdTable dimension \<noteq> meFact meas)
              ''semantic measure %q input field %q is not owned by fact %q'' [Arg name, Arg ref, Arg (meFact meas)])) refs,
         eachE (\<lambda>(index, flt).
           andThen (wrapErr ''semantic measure %q filter %d: %w'' [Arg name, ArgN (int index)] (ResolveDimension m (mfField flt)))
             (\<lambda>dimension. checks
               [wrapErr ''semantic measure %q filter %d: %w'' [Arg name, ArgN (int index)] (validateMeasureFilter flt),
                andThen (wrapErr ''semantic measure %q filter %d: %w'' [Arg name, ArgN (int index)]
                  (SafeRelationshipPath m (meFact meas) (mdTable dimension))) (\<lambda>_. Inr ())]))
           (List.enumerate 0 (meFilters meas))])))"

section \<open>Dimension bindings\<close>

definition canonicalDimensionType :: "string \<Rightarrow> string" where
  "canonicalDimensionType value0 =
     (let v = toLower (trimSpace value0); has = (\<lambda>sub. containsText v sub) in
      if v = ''string'' \<or> has ''char'' \<or> has ''text'' \<or> v = ''uuid'' then ''string''
      else if v = ''number'' \<or> has ''int'' \<or> has ''decimal'' \<or> has ''numeric'' \<or> has ''double'' \<or> has ''float'' \<or> has ''real''
      then ''number''
      else if v = ''boolean'' \<or> has ''bool'' then ''boolean''
      else if v = ''date'' then ''date''
      else if has ''timestamp'' \<or> has ''datetime'' then ''timestamp''
      else [])"

definition compatibleDimensionTypes :: "string \<Rightarrow> string \<Rightarrow> bool" where
  "compatibleDimensionTypes canonical physical \<longleftrightarrow>
     canonical = physical
     \<or> (canonical = ''date'' \<or> canonical = ''timestamp'') \<and> (physical = ''date'' \<or> physical = ''timestamp'')"

definition RelationshipByID :: "Model \<Rightarrow> string \<Rightarrow> Relationship option" where
  "RelationshipByID m rid = find (\<lambda>r. rlID r = rid) (mRelationships m)"

text \<open>The loop over \<open>binding.Path\<close>: \<open>current\<close> is where the path has led so far.\<close>

fun followPath :: "Model \<Rightarrow> string \<Rightarrow> string list \<Rightarrow> goError + string \<times> Relationship list" where
  "followPath m current [] = Inr (current, [])"
| "followPath m current (rid # ids) =
     (case RelationshipByID m rid of
        None \<Rightarrow> Inl (Errorf ''unknown relationship %q'' [Arg rid])
      | Some r \<Rightarrow>
          let fromTable = refTable (rlFrom r); toTable = refTable (rlTo r) in
          if current = fromTable \<or> rlCardinality r = ''one_to_one'' \<and> current = toTable then
            andThen (followPath m (if current = fromTable then toTable else fromTable) ids)
              (\<lambda>(end, path). Inr (end, r # path))
          else Inl (Errorf ''relationship %q does not safely continue from %q'' [Arg rid, Arg current]))"

definition ResolveBindingPath :: "Model \<Rightarrow> string \<Rightarrow> DimensionBinding \<Rightarrow> goError + Relationship list" where
  "ResolveBindingPath m factTable binding =
     andThen (ResolveDimension m (dbField binding)) (\<lambda>dimension.
       if dbPath binding = [] then SafeRelationshipPath m factTable (mdTable dimension)
       else andThen (followPath m factTable (dbPath binding)) (\<lambda>(current, path).
         if current \<noteq> mdTable dimension
         then Inl (Errorf ''relationship path ends at %q, want %q'' [Arg current, Arg (mdTable dimension)])
         else Inr path))"

definition validateBinding :: "Model \<Rightarrow> string list \<Rightarrow> string \<Rightarrow> SemanticDimension \<Rightarrow> string \<Rightarrow> DimensionBinding
    \<Rightarrow> goError + unit" where
  "validateBinding m facts name dim factTable binding =
     andThen (failIf (factTable \<notin> set facts)
       ''semantic dimension %q binding references non-fact table %q'' [Arg name, Arg factTable]) (\<lambda>_.
     andThen (wrapErr ''semantic dimension %q binding for fact %q: %w'' [Arg name, Arg factTable]
       (ResolveDimension m (dbField binding))) (\<lambda>physical.
     let physicalType = canonicalDimensionType (mdType physical) in checks
       [failIf (physicalType \<noteq> [] \<and> \<not> compatibleDimensionTypes (sdType dim) physicalType)
          ''semantic dimension %q type %q is incompatible with binding %q type %q''
          [Arg name, Arg (sdType dim), Arg (dbField binding), Arg (mdType physical)],
        andThen (wrapErr ''semantic dimension %q binding for fact %q: %w'' [Arg name, Arg factTable]
          (ResolveBindingPath m factTable binding)) (\<lambda>_. Inr ())]))"

definition validateDimension :: "Model \<Rightarrow> string list \<Rightarrow> string \<Rightarrow> SemanticDimension \<Rightarrow> goError + SemanticDimension" where
  "validateDimension m facts name dim0 =
     andThen (wrapErr ''semantic dimension %q is invalid: %w'' [Arg name] (validateSemanticIdentifier name)) (\<lambda>_.
     let dim = dim0\<lparr>sdName := name, sdLabel := defaultString (sdLabel dim0) (titleFromIdentifier name)\<rparr> in
     andThen (checks
       [failIf (sdType dim \<notin> set supportedSemanticDimensionTypes)
          ''semantic dimension %q has unsupported type %q'' [Arg name, Arg (sdType dim)],
        failIf (sdGrains dim \<noteq> [] \<and> sdType dim \<noteq> ''date'' \<and> sdType dim \<noteq> ''timestamp'')
          ''semantic dimension %q defines time grains for type %q'' [Arg name, Arg (sdType dim)],
        eachE (\<lambda>grain. failIf (grain \<notin> set supportedTimeGrains)
          ''semantic dimension %q has unsupported time grain %q'' [Arg name, Arg grain]) (sdGrains dim),
        failIf (sdBindings dim = []) ''semantic dimension %q requires bindings'' [Arg name],
        eachE (\<lambda>(factTable, binding). validateBinding m facts name dim factTable binding) (sdBindings dim)])
       (\<lambda>_. Inr dim))"

section \<open>Metrics\<close>

definition validateMetric :: "(string \<Rightarrow> bool) \<Rightarrow> Model \<Rightarrow> string \<Rightarrow> Metric \<Rightarrow> goError + Metric \<times> Expression" where
  "validateMetric floatOk m name metric0 =
     andThen (wrapErr ''semantic metric %q is invalid: %w'' [Arg name] (validateSemanticIdentifier name)) (\<lambda>_.
     let metric = metric0\<lparr>mtName := name, mtLabel := defaultString (mtLabel metric0) (titleFromIdentifier name)\<rparr> in
     andThen (wrapErr ''semantic metric %q: %w'' [Arg name] (parseExpr floatOk (mtExpression metric))) (\<lambda>expression.
     andThen (eachE (\<lambda>ref. failIf (\<not> hasKey (mMeasures m) ref \<and> \<not> hasKey (mMetrics m) ref)
         ''semantic metric %q references unknown measure or metric %q'' [Arg name, Arg ref]) (exRefs expression))
       (\<lambda>_. Inr (metric, expression))))"

definition refsOf :: "Expression goMap \<Rightarrow> string \<Rightarrow> string list" where
  "refsOf parsed name = (case get parsed name of None \<Rightarrow> [] | Some e \<Rightarrow> exRefs e)"

function visit :: "nat \<Rightarrow> Expression goMap \<Rightarrow> (string \<Rightarrow> int) \<Rightarrow> string \<Rightarrow> (goError + (string \<Rightarrow> int)) option"
  and visitRefs :: "nat \<Rightarrow> Expression goMap \<Rightarrow> (string \<Rightarrow> int) \<Rightarrow> string list \<Rightarrow> (goError + (string \<Rightarrow> int)) option" where
  "visit 0 parsed state name = None"
| "visit (Suc n) parsed state name =
     (if state name = 1 then Some (Inl (Errorf ''semantic metric dependency cycle includes %q'' [Arg name]))
      else if state name = 2 then Some (Inr state)
      else case visitRefs n parsed (state(name := 1)) (refsOf parsed name) of
        None \<Rightarrow> None
      | Some (Inl e) \<Rightarrow> Some (Inl e)
      | Some (Inr after) \<Rightarrow> Some (Inr (after(name := 2))))"
| "visitRefs n parsed state [] = Some (Inr state)"
| "visitRefs n parsed state (ref # rs) =
     (if hasKey parsed ref then
        case visit n parsed state ref of
          None \<Rightarrow> None
        | Some (Inl e) \<Rightarrow> Some (Inl e)
        | Some (Inr after) \<Rightarrow> visitRefs n parsed after rs
      else visitRefs n parsed state rs)"
  by pat_completeness auto
termination
  by (relation "measures [case_sum (\<lambda>(n, p, s, x). n) (\<lambda>(n, p, s, rs). n),
      case_sum (\<lambda>(n, p, s, x). 0) (\<lambda>(n, p, s, rs). Suc (length rs))]") auto

definition validateMetrics :: "(string \<Rightarrow> bool) \<Rightarrow> Model \<Rightarrow> (goError + Model) option" where
  "validateMetrics floatOk m =
     (case mapValuesE (validateMetric floatOk m) (mMetrics m) of
        Inl e \<Rightarrow> Some (Inl e)
      | Inr both \<Rightarrow>
          let parsed = map (\<lambda>(name, _, expression). (name, expression)) both;
              metrics = map (\<lambda>(name, metric, _). (name, metric)) both in
          (case visitRefs (Suc (length parsed)) parsed (\<lambda>_. 0) (map fst parsed) of
             None \<Rightarrow> None
           | Some (Inl e) \<Rightarrow> Some (Inl e)
           | Some (Inr _) \<Rightarrow> Some (Inr (m\<lparr>mMetrics := metrics\<rparr>))))"

section \<open>All semantic definitions\<close>

definition validateNamedMeasure :: "(string \<Rightarrow> bool) \<Rightarrow> Model \<Rightarrow> string \<Rightarrow> MetricMeasure \<Rightarrow> goError + MetricMeasure" where
  "validateNamedMeasure floatOk m name meas0 =
     andThen (wrapErr ''semantic model measure %q is invalid: %w'' [Arg name] (validateSemanticIdentifier name)) (\<lambda>_.
     let meas = meas0\<lparr>meName := name, meField := name, meLabel := defaultString (meLabel meas0) (titleFromIdentifier name)\<rparr> in
     andThen (validateMeasure floatOk m name meas) (\<lambda>_. Inr meas))"

definition validateSemanticDefinitions :: "(string \<Rightarrow> bool) \<Rightarrow> Model \<Rightarrow> (goError + Model) option" where
  "validateSemanticDefinitions floatOk m0 =
     (case mapValuesE (validateNamedMeasure floatOk m0) (mMeasures m0) of
        Inl e \<Rightarrow> Some (Inl e)
      | Inr measures' \<Rightarrow>
          let m1 = m0\<lparr>mMeasures := measures'\<rparr> in
          (case mapValuesE (validateDimension m1 (FactNames m1)) (mDimensions m1) of
             Inl e \<Rightarrow> Some (Inl e)
           | Inr dimensions \<Rightarrow> validateMetrics floatOk (m1\<lparr>mDimensions := dimensions\<rparr>)))"

end
