(* ===== verification/Model_Cycles.thy ===== *)
theory Model_Cycles
  imports Model_Semantics
begin

text \<open>
  The cycle check among metrics. \<open>grounded\<close> says that a metric can be unfolded: every metric it refers
  to is grounded. The search marks a metric 1 while it is on the stack and 2 when it is done; the
  invariant is that done metrics are grounded and metrics on the stack lead to the current one.
\<close>

definition uses :: "Expression goMap \<Rightarrow> (string \<times> string) set" where
  "uses parsed = {(a, b). hasKey parsed a \<and> b \<in> set (refsOf parsed a) \<and> hasKey parsed b}"

inductive grounded :: "Expression goMap \<Rightarrow> string \<Rightarrow> bool" for parsed where
  ground: "(\<And>b. (a, b) \<in> uses parsed \<Longrightarrow> grounded parsed b) \<Longrightarrow> grounded parsed a"

inductive_cases groundedE: "grounded parsed a"

lemma grounded_trancl: "(a, b) \<in> (uses parsed)\<^sup>+ \<Longrightarrow> grounded parsed a \<Longrightarrow> grounded parsed b"
  by (induction rule: trancl_induct) (auto elim: groundedE)

lemma grounded_no_cycle: "grounded parsed a \<Longrightarrow> (a, a) \<notin> (uses parsed)\<^sup>+"
proof (induction rule: grounded.induct)
  case (ground a)
  show ?case
  proof
    assume "(a, a) \<in> (uses parsed)\<^sup>+"
    then obtain b where b: "(a, b) \<in> uses parsed" "(b, a) \<in> (uses parsed)\<^sup>*" by (metis tranclD)
    then have "(b, b) \<in> (uses parsed)\<^sup>+" by (meson rtrancl_into_trancl1)
    with ground(2) [OF b(1)] show False by simp
  qed
qed

section \<open>The search\<close>

definition white :: "Expression goMap \<Rightarrow> (string \<Rightarrow> int) \<Rightarrow> string set" where
  "white parsed state = {k. hasKey parsed k \<and> state k = 0}"

lemma finite_keys [simp]: "finite {k. hasKey parsed k \<and> P k}"
  by (rule finite_subset [of _ "fst ` set parsed"]) (auto simp: hasKey_iff)

lemma finite_white [simp]: "finite (white parsed state)"
  by (simp add: white_def)

text \<open>What holds between the state before and after a call that found no cycle.\<close>

definition progressed :: "Expression goMap \<Rightarrow> (string \<Rightarrow> int) \<Rightarrow> (string \<Rightarrow> int) \<Rightarrow> bool" where
  "progressed parsed st st' \<longleftrightarrow>
     (\<forall>k. st' k \<in> {0, 1, 2}) \<and> (\<forall>k. st' k = 1 \<longleftrightarrow> st k = 1) \<and> (\<forall>k. st k = 2 \<longrightarrow> st' k = 2)
     \<and> (\<forall>k. st' k = 2 \<longrightarrow> grounded parsed k)"

definition marks_ok :: "Expression goMap \<Rightarrow> (string \<Rightarrow> int) \<Rightarrow> bool" where
  "marks_ok parsed st \<longleftrightarrow> (\<forall>k. st k \<in> {0, 1, 2}) \<and> (\<forall>k. st k = 2 \<longrightarrow> grounded parsed k)"

lemma progressed_refl: "marks_ok parsed st \<Longrightarrow> progressed parsed st st"
  by (simp add: progressed_def marks_ok_def)

lemma progressed_ok: "progressed parsed st st' \<Longrightarrow> marks_ok parsed st'"
  unfolding progressed_def marks_ok_def by blast

lemma progressed_trans: "progressed parsed a b \<Longrightarrow> progressed parsed b c \<Longrightarrow> progressed parsed a c"
  unfolding progressed_def by blast

lemma progressed_white: "marks_ok parsed st \<Longrightarrow> progressed parsed st st' \<Longrightarrow> white parsed st' \<subseteq> white parsed st"
proof
  fix k assume ok: "marks_ok parsed st" and st': "progressed parsed st st'" and "k \<in> white parsed st'"
  then have k: "hasKey parsed k" "st' k = 0" by (simp_all add: white_def)
  have "st k = 0 \<or> st k = 1 \<or> st k = 2" using ok by (auto simp: marks_ok_def)
  moreover have "st k = 1 \<Longrightarrow> st' k = 1" "st k = 2 \<Longrightarrow> st' k = 2" using st' by (auto simp: progressed_def)
  ultimately show "k \<in> white parsed st" using k by (auto simp: white_def)
qed

definition cyclic :: "Expression goMap \<Rightarrow> bool" where
  "cyclic parsed \<longleftrightarrow> (\<exists>k. (k, k) \<in> (uses parsed)\<^sup>+)"

lemma visit_correct:
  "hasKey parsed name \<Longrightarrow> marks_ok parsed st \<Longrightarrow> card (white parsed st) < n \<Longrightarrow>
     (\<forall>g. st g = 1 \<longrightarrow> (g, name) \<in> (uses parsed)\<^sup>+) \<Longrightarrow>
     (\<exists>e. visit n parsed st name = Some (Inl e) \<and> cyclic parsed) \<or>
     (\<exists>st'. visit n parsed st name = Some (Inr st') \<and> progressed parsed st st' \<and> st' name = 2)"
  "marks_ok parsed st \<Longrightarrow> card (white parsed st) < n \<Longrightarrow>
     (\<forall>g r. st g = 1 \<longrightarrow> r \<in> set refs0 \<longrightarrow> hasKey parsed r \<longrightarrow> (g, r) \<in> (uses parsed)\<^sup>+) \<Longrightarrow>
     (\<exists>e. visitRefs n parsed st refs0 = Some (Inl e) \<and> cyclic parsed) \<or>
     (\<exists>st'. visitRefs n parsed st refs0 = Some (Inr st') \<and> progressed parsed st st'
        \<and> (\<forall>r \<in> set refs0. hasKey parsed r \<longrightarrow> st' r = 2))"
proof (induction n parsed st name and n parsed st refs0 rule: visit_visitRefs.induct)
  case (1 parsed st name)
  then show ?case by simp
next
  case (2 n parsed st name)
  consider "st name = 1" | "st name = 2" | "st name = 0" using 2(3) by (auto simp: marks_ok_def)
  then show ?case
  proof cases
    case 1
    with 2(5) show ?thesis by (auto simp: cyclic_def)
  next
    case 2
    with "2.prems" show ?thesis by (simp add: progressed_refl)
  next
    case 3
    let ?st = "st(name := 1)"
    have ok: "marks_ok parsed ?st" using 2(3) by (auto simp: marks_ok_def)
    have "white parsed ?st = white parsed st - {name}" by (auto simp: white_def)
    moreover have "name \<in> white parsed st" using 2(2) 3 by (simp add: white_def)
    ultimately have "card (white parsed ?st) < card (white parsed st)"
      using card_Diff1_less [OF finite_white] by metis
    then have less: "card (white parsed ?st) < n" using 2(4) by simp
    have edge: "r \<in> set (refsOf parsed name) \<Longrightarrow> hasKey parsed r \<Longrightarrow> (name, r) \<in> uses parsed" for r
      using 2(2) by (simp add: uses_def)
    have stack: "\<forall>g r. ?st g = 1 \<longrightarrow> r \<in> set (refsOf parsed name) \<longrightarrow> hasKey parsed r \<longrightarrow> (g, r) \<in> (uses parsed)\<^sup>+"
      using 2(5) edge by (auto intro: trancl_into_trancl)
    have n12: "st name \<noteq> 1" "st name \<noteq> 2" using 3 by simp_all
    from "2.IH" [OF n12 ok less stack]
    consider e where "visitRefs n parsed ?st (refsOf parsed name) = Some (Inl e)" "cyclic parsed"
      | st' where "visitRefs n parsed ?st (refsOf parsed name) = Some (Inr st')" "progressed parsed ?st st'"
        "\<forall>r \<in> set (refsOf parsed name). hasKey parsed r \<longrightarrow> st' r = 2" by blast
    then show ?thesis
    proof cases
      case 1
      with 3 show ?thesis by simp
    next
      case (2 st')
      have "grounded parsed name"
        by (rule ground) (use 2 in \<open>auto simp: uses_def progressed_def\<close>)
      then have "progressed parsed st (st'(name := 2))"
        using 2(2) 3 unfolding progressed_def by auto
      with 2 3 show ?thesis by simp
    qed
  qed
next
  case (3 n parsed st)
  then show ?case by (simp add: progressed_refl)
next
  case (4 n parsed st ref rs)
  show ?case
  proof (cases "hasKey parsed ref")
    case False
    with 4(3) [OF False 4(4,5)] 4(6) show ?thesis by auto
  next
    case True
    have "\<forall>g. st g = 1 \<longrightarrow> (g, ref) \<in> (uses parsed)\<^sup>+"
      using 4(6) True by simp
    from 4(1) [OF True True 4(4,5) this]
    consider e where "visit n parsed st ref = Some (Inl e)" "cyclic parsed"
      | st' where "visit n parsed st ref = Some (Inr st')" "progressed parsed st st'" "st' ref = 2" by auto
    then show ?thesis
    proof cases
      case 1
      with True show ?thesis by simp
    next
      case (2 st')
      have less: "card (white parsed st') < n"
        using card_mono [OF finite_white progressed_white [OF 4(4) 2(2)]] 4(5) by simp
      have stack: "\<forall>g r. st' g = 1 \<longrightarrow> r \<in> set rs \<longrightarrow> hasKey parsed r \<longrightarrow> (g, r) \<in> (uses parsed)\<^sup>+"
        using 4(6) 2(2) by (simp add: progressed_def)
      have "(\<exists>e. visitRefs n parsed st' rs = Some (Inl e) \<and> cyclic parsed) \<or>
          (\<exists>st''. visitRefs n parsed st' rs = Some (Inr st'') \<and> progressed parsed st' st''
             \<and> (\<forall>r \<in> set rs. hasKey parsed r \<longrightarrow> st'' r = 2))"
        by (rule 4(2) [OF True 2(1) refl progressed_ok [OF 2(2)] less stack])
      then show ?thesis
      proof (elim disjE exE conjE)
        fix st'' assume *: "visitRefs n parsed st' rs = Some (Inr st'')" "progressed parsed st' st''"
          "\<forall>r \<in> set rs. hasKey parsed r \<longrightarrow> st'' r = 2"
        moreover have "st'' ref = 2" using 2(3) *(2) by (simp add: progressed_def)
        ultimately show ?thesis using True 2 progressed_trans [OF 2(2)] by auto
      qed (use True 2 in simp)
    qed
  qed
qed

section \<open>The check\<close>

text \<open>Among finitely many metrics, all are grounded exactly when none depends on itself.\<close>

lemma finite_uses: "finite (uses parsed)"
proof -
  have "finite {k. hasKey parsed k}" using finite_keys [of parsed "\<lambda>_. True"] by simp
  moreover have "uses parsed \<subseteq> {k. hasKey parsed k} \<times> {k. hasKey parsed k}" by (auto simp: uses_def)
  ultimately show ?thesis by (meson finite_SigmaI finite_subset)
qed

lemma all_grounded_iff: "(\<forall>k. hasKey parsed k \<longrightarrow> grounded parsed k) \<longleftrightarrow> acyclic (uses parsed)"
proof
  assume all: "\<forall>k. hasKey parsed k \<longrightarrow> grounded parsed k"
  show "acyclic (uses parsed)"
    unfolding acyclic_def
  proof (intro allI notI)
    fix k assume k: "(k, k) \<in> (uses parsed)\<^sup>+"
    then obtain b where "(k, b) \<in> uses parsed" by (metis tranclD)
    then have "hasKey parsed k" by (simp add: uses_def)
    with all k grounded_no_cycle show False by metis
  qed
next
  assume "acyclic (uses parsed)"
  then have "wf (converse (uses parsed))" using finite_uses by (simp add: finite_acyclic_wf_converse)
  then have "grounded parsed k" for k
  proof (induction k rule: wf_induct_rule)
    case (less k)
    show ?case
    proof (rule ground)
      fix b assume "(k, b) \<in> uses parsed"
      then have "(b, k) \<in> converse (uses parsed)" by (rule converseI)
      then show "grounded parsed b" by (rule less)
    qed
  qed
  then show "\<forall>k. hasKey parsed k \<longrightarrow> grounded parsed k" by simp
qed

definition parsedMetrics :: "(string \<times> Metric \<times> Expression) list \<Rightarrow> Expression goMap" where
  "parsedMetrics both = map (\<lambda>(name, _, expression). (name, expression)) both"

lemma roots_correct:
  assumes "n > card {k. hasKey parsed k}"
  shows "visitRefs n parsed (\<lambda>_. 0) (map fst parsed) \<noteq> None"
    and "(\<exists>st. visitRefs n parsed (\<lambda>_. 0) (map fst parsed) = Some (Inr st)) \<longleftrightarrow> (\<forall>k. hasKey parsed k \<longrightarrow> grounded parsed k)"
proof -
  have w: "white parsed (\<lambda>_. 0) = {k. hasKey parsed k}" by (simp add: white_def)
  have "(\<exists>e. visitRefs n parsed (\<lambda>_. 0) (map fst parsed) = Some (Inl e) \<and> cyclic parsed) \<or>
     (\<exists>st'. visitRefs n parsed (\<lambda>_. 0) (map fst parsed) = Some (Inr st') \<and> progressed parsed (\<lambda>_. 0) st'
        \<and> (\<forall>r \<in> set (map fst parsed). hasKey parsed r \<longrightarrow> st' r = 2))"
    by (rule visit_correct(2)) (use assms w in \<open>simp_all add: marks_ok_def\<close>)
  moreover have False if "cyclic parsed" "\<forall>k. hasKey parsed k \<longrightarrow> grounded parsed k"
  proof -
    from that(1) obtain k where k: "(k, k) \<in> (uses parsed)\<^sup>+" by (auto simp: cyclic_def)
    then obtain b where "(k, b) \<in> uses parsed" by (metis tranclD)
    then have "hasKey parsed k" by (simp add: uses_def)
    with that(2) k grounded_no_cycle show False by metis
  qed
  moreover have "grounded parsed k" if "progressed parsed (\<lambda>_. 0) st'" "hasKey parsed k"
    "\<forall>r \<in> set (map fst parsed). hasKey parsed r \<longrightarrow> st' r = 2" for st' k
    using that by (force simp: progressed_def hasKey_iff)
  ultimately show "visitRefs n parsed (\<lambda>_. 0) (map fst parsed) \<noteq> None"
    "(\<exists>st. visitRefs n parsed (\<lambda>_. 0) (map fst parsed) = Some (Inr st)) \<longleftrightarrow> (\<forall>k. hasKey parsed k \<longrightarrow> grounded parsed k)"
    by auto
qed

lemma keys_fuel: "card {k. hasKey parsed k} < Suc (length parsed)"
proof -
  have "{k. hasKey parsed k} = set (map fst parsed)" by (auto simp: hasKey_iff)
  then show ?thesis using card_length [of "map fst parsed"] by simp
qed

lemma validateMetrics_run:
  assumes "mapValuesE (validateMetric floatOk m) (mMetrics m) = Inr both"
  shows "validateMetrics floatOk m
    = (case visitRefs (Suc (length (parsedMetrics both))) (parsedMetrics both) (\<lambda>_. 0) (map fst (parsedMetrics both)) of
        None \<Rightarrow> None
      | Some (Inl e) \<Rightarrow> Some (Inl e)
      | Some (Inr _) \<Rightarrow> Some (Inr (m\<lparr>mMetrics := map (\<lambda>(name, metric, _). (name, metric)) both\<rparr>)))"
  by (simp add: validateMetrics_def assms Let_def parsedMetrics_def)

lemma validateMetrics_total: "validateMetrics floatOk m \<noteq> None"
proof (cases "mapValuesE (validateMetric floatOk m) (mMetrics m)")
  case (Inr both)
  with roots_correct(1) [OF keys_fuel [of "parsedMetrics both"]] show ?thesis
    unfolding validateMetrics_run [OF Inr] by (auto split: sum.split)
qed (simp add: validateMetrics_def)

lemma validateMetrics_Inr:
  "validateMetrics floatOk m = Some (Inr m') \<longleftrightarrow>
     (\<exists>both. mapValuesE (validateMetric floatOk m) (mMetrics m) = Inr both
        \<and> (\<forall>k. hasKey (parsedMetrics both) k \<longrightarrow> grounded (parsedMetrics both) k)
        \<and> m' = m\<lparr>mMetrics := map (\<lambda>(name, metric, _). (name, metric)) both\<rparr>)"
proof (cases "mapValuesE (validateMetric floatOk m) (mMetrics m)")
  case (Inr both)
  let ?p = "parsedMetrics both"
  note r = roots_correct [OF keys_fuel [of ?p]]
  note eq = validateMetrics_run [OF Inr]
  show ?thesis
  proof (cases "visitRefs (Suc (length ?p)) ?p (\<lambda>_. 0) (map fst ?p)")
    case None
    with r(1) show ?thesis by simp
  next
    case (Some x)
    then show ?thesis using r(2) Inr unfolding eq by (cases x) auto
  qed
qed (simp add: validateMetrics_def)

end
