(* ===== verification/Model_Validate.thy ===== *)
theory Model_Validate
  imports Model_Semantics
begin

text \<open>
  \<open>Model.Validate\<close> and what it calls (\<^verbatim>\<open>model.go\<close>): connections and their credentials, sources and
  their scopes, model tables with their dependencies and columns, and the relationship graph. The
  code updates the model in place; here each function returns the part it has resolved, and on an
  error the partly updated model is not returned, as callers discard it.
\<close>

section \<open>Connections\<close>

definition validateConnectionCredentials :: "string \<Rightarrow> string \<Rightarrow> string \<Rightarrow> ConnectionCredentials \<Rightarrow> goError + unit" where
  "validateConnectionCredentials name kind scope c =
     (if crProvider c = [] \<and> crSecret c = [] \<and> crRegion c = [] \<and> crEndpoint c = [] \<and> crAccountName c = []
      then Inr ()
      else if crProvider c = [] then Inl (Errorf ''connection %q credentials require provider'' [Arg name])
      else if crProvider c = ''none'' then
        failIf (crSecret c \<noteq> [] \<or> crRegion c \<noteq> [] \<or> crEndpoint c \<noteq> [] \<or> crAccountName c \<noteq> [])
          ''connection %q none credentials cannot set credential values'' [Arg name]
      else if crProvider c = ''env'' then checks
        [failIf (crSecret c = []) ''connection %q env credentials require secret'' [Arg name],
         failIf (crRegion c \<noteq> [] \<or> crEndpoint c \<noteq> [] \<or> crAccountName c \<noteq> [])
           ''connection %q env credentials cannot set ambient metadata'' [Arg name]]
      else if crProvider c = ''ambient'' then checks
        [failIf (crSecret c \<noteq> []) ''connection %q ambient credentials cannot set secret'' [Arg name],
         failIf (trimSpace scope = []) ''connection %q ambient credentials require a path scope'' [Arg name],
         if kind = ''s3'' then
           failIf (crAccountName c \<noteq> []) ''connection %q s3 ambient credentials cannot set accountName'' [Arg name]
         else if kind = ''azure_blob'' then checks
           [failIf (trimSpace (crAccountName c) = [])
              ''connection %q azure_blob ambient credentials require accountName'' [Arg name],
            failIf (crRegion c \<noteq> [] \<or> crEndpoint c \<noteq> [])
              ''connection %q azure_blob ambient credentials accept only accountName'' [Arg name]]
         else Inl (Errorf ''connection %q kind %q does not support ambient credentials'' [Arg name, Arg kind])]
      else Inl (Errorf ''connection %q has unsupported credentials provider %q'' [Arg name, Arg (crProvider c)]))"

definition connectionAllowsOption :: "ConnectionSpec \<Rightarrow> string \<Rightarrow> bool" where
  "connectionAllowsOption spec opt \<longleftrightarrow> opt \<in> set (csAllowedOptions spec)"

definition connectionAllowsAuthKey :: "ConnectionSpec \<Rightarrow> string \<Rightarrow> bool" where
  "connectionAllowsAuthKey spec key \<longleftrightarrow> key \<in> set (csAuthKeys spec)"

definition connectionHasRequiredAuth :: "ConnectionAuth \<Rightarrow> string list list \<Rightarrow> bool" where
  "connectionHasRequiredAuth auth requiredSets \<longleftrightarrow>
     requiredSets = [] \<or>
     list_ex (list_all (\<lambda>key. case get auth key of None \<Rightarrow> False | Some v \<Rightarrow> sprint v \<noteq> [])) requiredSets"

definition duckLakeNeedsAuth :: "Connection \<Rightarrow> bool" where
  "duckLakeNeedsAuth c \<longleftrightarrow>
     cnScope c \<noteq> [] \<and> \<not> IsLocalPath (cnScope c)
     \<or> cnPath c \<noteq> [] \<and> \<not> IsLocalPath (cnPath c)
     \<or> (case get (cnOptions c) ''data_path'' of None \<Rightarrow> False | Some v \<Rightarrow> \<not> IsLocalPath (sprint v))"

definition validateConnectionAuth :: "string \<Rightarrow> Connection \<Rightarrow> ConnectionSpec \<Rightarrow> goError + ConnectionAuth" where
  "validateConnectionAuth name c spec =
     (if cnAuth c = [] then
        (let provider = crProvider (cnCredentials c) in
         if provider = ''ambient'' \<or> provider = ''env'' then Inr []
         else if provider = ''none'' \<and> cnKind c = ''s3'' then Inr []
         else if cnKind c = ''ducklake'' \<and> duckLakeNeedsAuth c
         then Inl (Errorf ''connection %q ducklake remote path requires auth'' [Arg name])
         else if cnKind c = ''sqlite'' \<and> get (cnOptions c) ''path'' \<notin> {None, Some AnyNil} then Inr []
         else if csAllowNoAuth spec then Inr []
         else Inl (Errorf ''connection %q %s requires auth'' [Arg name, Arg (cnKind c)]))
      else andThen (checks
        [eachE (\<lambda>(key, _). checks
           [wrapErr ''connection %q auth key %q is invalid: %w'' [Arg name, Arg key] (validateSemanticIdentifier key),
            failIf (\<not> connectionAllowsAuthKey spec key)
              ''connection %q has unsupported auth key %q'' [Arg name, Arg key]]) (cnAuth c),
         failIf (\<not> connectionHasRequiredAuth (cnAuth c) (csRequiredAuthSets spec))
           ''connection %q %s auth is missing required credentials'' [Arg name, Arg (cnKind c)]])
        (\<lambda>_. Inr (cnAuth c)))"

definition validateConnection :: "string \<Rightarrow> Connection \<Rightarrow> goError + Connection" where
  "validateConnection name c =
     andThen (checks
       [wrapErr ''connection %q has invalid name: %w'' [Arg name] (validateSemanticIdentifier name),
        failIf (cnKind c = []) ''connection %q requires kind'' [Arg name],
        validateConnectionCredentials name (cnKind c) (cnScope c) (cnCredentials c)]) (\<lambda>_.
     case LookupConnection (cnKind c) of
       None \<Rightarrow> Inl (Errorf ''connection %q has unsupported kind %q'' [Arg name, Arg (cnKind c)])
     | Some spec \<Rightarrow>
         andThen (checks
           [failIf (cnKind c = ''managed'' \<and> (trimSpace (cnRoot c) \<noteq> [] \<or> trimSpace (cnScope c) \<noteq> []))
              ''connection %q managed physical location is supplied by the active revision and cannot be authored'' [Arg name],
            if csRequiresPath spec then failIf (cnPath c = []) ''connection %q %s requires path'' [Arg name, Arg (cnKind c)]
            else failIf (cnPath c \<noteq> [] \<and> \<not> csAllowsPath spec)
              ''connection %q path is only supported for path-backed connections'' [Arg name]]) (\<lambda>_.
         andThen (validateConnectionAuth name c spec) (\<lambda>auth.
         andThen (checks
           [eachE (\<lambda>(key, _). failIf (\<not> connectionAllowsOption spec key)
              ''connection %q has unsupported option %q'' [Arg name, Arg key]) (cnOptions c),
            eachE (\<lambda>(key, _). wrapErr ''connection %q default option %q is invalid: %w'' [Arg name, Arg key]
              (validateSemanticIdentifier key)) (cdOptions (cnDefaults c))])
           (\<lambda>_. Inr (c\<lparr>cnAuth := auth\<rparr>)))))"

definition ResolveConnectionAuth :: "Connection \<Rightarrow> ConnectionAuth" where
  "ResolveConnectionAuth c =
     (if cnAuth c \<noteq> [] then cnAuth c
      else if crProvider (cnCredentials c) = ''ambient'' then
        (let k = cnCredentials c in
           (if crRegion k \<noteq> [] then [(''region'', AnyString (crRegion k))] else [])
         @ (if crEndpoint k \<noteq> [] then [(''endpoint'', AnyString (crEndpoint k))] else [])
         @ (if crAccountName k \<noteq> [] then [(''account_name'', AnyString (crAccountName k))] else []))
      else [])"

definition ConnectionCredentialsConfigured :: "Connection \<Rightarrow> bool" where
  "ConnectionCredentialsConfigured c \<longleftrightarrow>
     cnAuth c \<noteq> [] \<or> crProvider (cnCredentials c) \<noteq> [] \<and> crProvider (cnCredentials c) \<noteq> ''none''"

section \<open>Sources\<close>

definition sourceKind :: "Source \<Rightarrow> string" where
  "sourceKind s =
     (if (soPath s \<noteq> []) = (soObject s \<noteq> []) then []
      else if soPath s \<noteq> [] then ''path'' else ''object'')"

definition sourceRole :: "Source \<Rightarrow> string" where
  "sourceRole s =
     (if sourceKind s = ''path'' then soFormat s else if sourceKind s = ''object'' then ''object'' else ''source'')"

definition mergeOptions :: "anyValue goMap \<Rightarrow> anyValue goMap \<Rightarrow> anyValue goMap" where
  "mergeOptions defaults opts = foldl (\<lambda>m (k, v). put k v m) defaults opts"

definition resolveSource :: "string \<Rightarrow> Connection goMap \<Rightarrow> Source \<Rightarrow> goError + Source" where
  "resolveSource defaultConnection conns s0 =
     (if sourceKind s0 = [] then Inr s0
      else
        let s1 = (if soConnection s0 = [] then s0\<lparr>soConnection := defaultConnection\<rparr> else s0) in
        if soConnection s1 = [] then Inl (Errorf ''requires connection'' [])
        else case get conns (soConnection s1) of
          None \<Rightarrow> Inl (Errorf ''references unknown connection %q'' [Arg (soConnection s1)])
        | Some c \<Rightarrow>
            if soPath s1 = [] then Inr s1
            else
              let s2 = (if cdOptions (cnDefaults c) \<noteq> []
                        then s1\<lparr>soOptions := mergeOptions (cdOptions (cnDefaults c)) (soOptions s1)\<rparr> else s1) in
              if soFormat s2 = [] then
                (case InferFormat (soPath s2) of
                   None \<Rightarrow> Inl (Errorf ''path %q requires format'' [Arg (soPath s2)])
                 | Some f \<Rightarrow> Inr (s2\<lparr>soFormat := f\<rparr>))
              else Inr s2)"

definition firstNonEmpty :: "string list \<Rightarrow> string" where
  "firstNonEmpty values = (case find (\<lambda>v. trimSpace v \<noteq> []) values of None \<Rightarrow> [] | Some v \<Rightarrow> v)"

definition traversal :: "string \<Rightarrow> bool" where
  "traversal p \<longleftrightarrow> p = ''..'' \<or> hasPrefix ''../'' p"

definition sourceWithinConnectionScope :: "(string \<Rightarrow> URL option) \<Rightarrow> Connection \<Rightarrow> string \<Rightarrow> bool" where
  "sourceWithinConnectionScope parseURL c sourcePath =
     (let scope = firstNonEmpty [cnScope c, cnRoot c] in
      if scope = [] then True
      else if \<not> IsLocalPath scope \<or> \<not> IsLocalPath sourcePath then
        WithinScope parseURL scope (if IsLocalPath sourcePath then JoinScope scope sourcePath else sourcePath)
      else
        let cleanScope = cleanPath scope;
            cleaned = cleanPath sourcePath;
            full = (if \<not> isAbs cleaned then cleanPath (joinPath cleanScope cleaned) else cleaned)
        in case relPath cleanScope full of
             None \<Rightarrow> False
           | Some rel \<Rightarrow> rel = ''.'' \<or> \<not> traversal rel)"

definition validateSource :: "(string \<Rightarrow> URL option) \<Rightarrow> string \<Rightarrow> Connection goMap \<Rightarrow> Source \<Rightarrow> goError + unit" where
  "validateSource parseURL name conns s =
     andThen (checks
       [wrapErr ''source %q has invalid name: %w'' [Arg name] (validateSemanticIdentifier name),
        eachE (\<lambda>(key, _). wrapErr ''source %q option %q is invalid: %w'' [Arg name, Arg key]
          (validateSemanticIdentifier key)) (soOptions s)]) (\<lambda>_.
     if sourceKind s = ''path'' then
       (if soConnection s = [] then Inl (Errorf ''source %q requires connection'' [Arg name])
        else case get conns (soConnection s) of
          None \<Rightarrow> Inl (Errorf ''source %q references unknown connection %q'' [Arg name, Arg (soConnection s)])
        | Some c \<Rightarrow>
            (case LookupConnection (cnKind c) of
               None \<Rightarrow> Inl (Errorf ''source %q path cannot use %s connection %q'' [Arg name, Arg (cnKind c), Arg (soConnection s)])
             | Some spec \<Rightarrow> andThen (checks
                 [failIf (\<not> csAllowsPathSource spec)
                    ''source %q path cannot use %s connection %q'' [Arg name, Arg (cnKind c), Arg (soConnection s)],
                  failIf (cnKind c = ''managed'' \<and> \<not> IsLocalPath (soPath s))
                    ''source %q %s connection %q cannot use remote path %q''
                    [Arg name, Arg (cnKind c), Arg (soConnection s), Arg (soPath s)],
                  failIf (cnKind c = ''managed'' \<and> (isAbs (soPath s) \<or> traversal (cleanPath (soPath s))))
                    ''source %q managed path %q must be relative and cannot contain traversal'' [Arg name, Arg (soPath s)],
                  failIf (\<not> sourceWithinConnectionScope parseURL c (soPath s))
                    ''source %q path %q escapes connection scope'' [Arg name, Arg (soPath s)],
                  failIf (csAllowsPathSource spec \<and> cnKind c \<noteq> ''managed'' \<and> IsLocalPath (soPath s) \<and> cnScope c = [])
                    ''source %q remote connection %q requires scope for relative path %q''
                    [Arg name, Arg (soConnection s), Arg (soPath s)],
                  failIf (soFormat s = []) ''source %q path requires format'' [Arg name]]) (\<lambda>_.
                 case LookupFormat (soFormat s) of
                   None \<Rightarrow> Inl (Errorf ''source %q has unsupported format %q'' [Arg name, Arg (soFormat s)])
                 | Some fspec \<Rightarrow> failIf (\<not> fmtAllowsOptions fspec \<and> soOptions s \<noteq> [])
                     ''source %q %s path cannot set options'' [Arg name, Arg (soFormat s)])))
     else if sourceKind s = ''object'' then
       andThen (checks
         [failIf (soConnection s = []) ''source %q object requires connection'' [Arg name],
          failIf (soFormat s \<noteq> [] \<or> soOptions s \<noteq> []) ''source %q object cannot set format or options'' [Arg name]]) (\<lambda>_.
         case get conns (soConnection s) of
           None \<Rightarrow> Inl (Errorf ''source %q references unknown connection %q'' [Arg name, Arg (soConnection s)])
         | Some c \<Rightarrow>
             failIf (case LookupConnection (cnKind c) of None \<Rightarrow> True | Some spec \<Rightarrow> \<not> csAllowsObjectSource spec)
               ''source %q object cannot use %s connection %q'' [Arg name, Arg (cnKind c), Arg (soConnection s)])
     else Inl (Errorf ''source %q requires exactly one of path or object'' [Arg name]))"

definition validateNamedSource :: "(string \<Rightarrow> URL option) \<Rightarrow> Model \<Rightarrow> string \<Rightarrow> Source \<Rightarrow> goError + Source" where
  "validateNamedSource parseURL m name s0 =
     andThen (wrapErr ''source %q: %w'' [Arg name] (resolveSource (mDefaultConnection m) (mConnections m) s0)) (\<lambda>s.
     andThen (validateSource parseURL name (mConnections m) s) (\<lambda>_.
     andThen (mapValuesE (\<lambda>field sf.
         andThen (wrapErr ''source %q field %q is invalid: %w'' [Arg name, Arg field] (validateSemanticIdentifier field))
           (\<lambda>_. Inr (sf\<lparr>sfField := name @ ''.'' @ field, sfTable := name, sfName := field\<rparr>))) (soFields s))
       (\<lambda>fields. Inr (s\<lparr>soFields := fields\<rparr>))))"

section \<open>Model tables\<close>

definition tableSQL :: "Table \<Rightarrow> string" where
  "tableSQL t =
     (let sql = trimSpace (trSQL (taTransform t)) in if sql = [] then trimSpace (taSQL t) else sql)"

text \<open>The closure \<open>add\<close>: a declared source that is not blank must exist.\<close>

definition addSource :: "Model \<Rightarrow> string \<Rightarrow> string \<Rightarrow> goError + string list" where
  "addSource m tableName source0 =
     (let src = trimSpace source0 in
      if src = [] then Inr []
      else if \<not> hasKey (mSources m) src
      then Inl (Errorf ''model table %q references unknown source %q'' [Arg tableName, Arg src])
      else Inr [src])"

definition modelTableSourceDependencies :: "Model \<Rightarrow> string \<Rightarrow> Table \<Rightarrow> goError + string list" where
  "modelTableSourceDependencies m tableName t =
     (let sql = tableSQL t; hasSQL = (sql \<noteq> []) in
      andThen (if hasSQL then checks
          [failIf (taSource t \<noteq> [])
             ''model table %q uses transform.sql and must declare sources instead of source'' [Arg tableName],
           validateModelSQLQuery tableName sql]
        else failIf (taSource t = []) ''model table %q requires source or transform.sql'' [Arg tableName]) (\<lambda>_.
      andThen (mapE (addSource m tableName) (taSource t # taSources t)) (\<lambda>added.
      case modelSQLSourceRefs sql of (inferred, rawRefs, unqualifiedRefs) \<Rightarrow>
        let result = sortedStringSet (concat added) in
        andThen (checks
          [failIf (rawRefs \<noteq> [])
             ''model table %q model SQL must reference sources through source.<name>; raw.<name> is internal'' [Arg tableName],
           failIf (unqualifiedRefs \<noteq> [])
             ''model table %q SQL must reference sources through source.<name>; found unqualified relation %q''
             [Arg tableName, Arg (hd unqualifiedRefs)],
           eachE (\<lambda>src. failIf (\<not> hasKey (mSources m) src)
             ''model table %q SQL references unknown source %q'' [Arg tableName, Arg src]) inferred,
           failIf (hasSQL \<and> result \<noteq> inferred \<and> result = [] \<and> inferred \<noteq> [])
             ''model table %q uses transform.sql and requires sources'' [Arg tableName],
           failIf (hasSQL \<and> result \<noteq> inferred)
             ''model table %q SQL source references %v do not match declared sources %v''
             [Arg tableName, ArgL inferred, ArgL result]])
          (\<lambda>_. Inr result))))"

definition modelTableModelDependencies :: "Model \<Rightarrow> string \<Rightarrow> Table \<Rightarrow> goError + string list" where
  "modelTableModelDependencies m tableName t =
     (let sql = tableSQL t in
      if sql = [] then Inr []
      else
        let names = map refName (filter (\<lambda>r. refNamespace r = ''model'') (scanSQLRelationRefs sql)) in
        andThen (eachE (\<lambda>name. checks
          [failIf (name = tableName) ''model table %q cannot read itself'' [Arg tableName],
           failIf (\<not> hasKey (mTables m) name)
             ''model table %q SQL references unknown model table %q'' [Arg tableName, Arg name]]) names)
          (\<lambda>_. Inr (sortedStringSet names)))"

definition validateRequiredModelColumns :: "string \<Rightarrow> Table \<Rightarrow> ModelColumn goMap \<Rightarrow> goError + unit" where
  "validateRequiredModelColumns tableName t columns =
     (let require = (\<lambda>field reason. failIf (field \<noteq> [] \<and> \<not> hasKey columns field)
            ''model table %q column contract missing %s %q'' [Arg tableName, Arg reason, Arg field]) in
      checks [require (taPrimaryKey t) ''primary_key'',
              eachE (\<lambda>field. require field ''field'') (map fst (taDimensions t))])"

text \<open>\<open>strings.Cut(ref, ".")\<close> when the separator occurs.\<close>

definition cutDot :: "string \<Rightarrow> (string \<times> string) option" where
  "cutDot ref = map_option (\<lambda>k. (take k ref, drop (Suc k) ref)) (indexByte CHR ''.'' ref)"

definition measureFields :: "(string \<Rightarrow> bool) \<Rightarrow> string \<Rightarrow> MetricMeasure \<Rightarrow> string list" where
  "measureFields floatOk tableName meas =
     (if meFact meas \<noteq> tableName then []
      else
        let inputs = miField (meInput meas) #
              (if miExpression (meInput meas) \<noteq> [] then
                 (case parseExpr floatOk (miExpression (meInput meas)) of Inr e \<Rightarrow> exRefs e | Inl _ \<Rightarrow> [])
               else [])
        in List.map_filter (\<lambda>ref. case cutDot ref of
             Some (refT, refField) \<Rightarrow> if refT = tableName then Some refField else None
           | None \<Rightarrow> None) inputs)"

definition addColumn :: "string \<Rightarrow> ModelColumn goMap \<Rightarrow> string \<Rightarrow> ModelColumn goMap" where
  "addColumn tableName columns name =
     (if name = [] then columns
      else put name \<lparr>mcField = tableName @ ''.'' @ name, mcName = name, mcSourceField = name,
                     mcDescription = [], mcType = []\<rparr> columns)"

definition resolveModelColumns :: "(string \<Rightarrow> bool) \<Rightarrow> Model \<Rightarrow> string \<Rightarrow> Table \<Rightarrow> goError + ModelColumn goMap" where
  "resolveModelColumns floatOk m tableName t =
     (if taColumns t \<noteq> [] then
        andThen (mapValuesE (\<lambda>name column0.
          andThen (wrapErr ''model table %q column %q is invalid: %w'' [Arg tableName, Arg name] (validateSemanticIdentifier name)) (\<lambda>_.
          let column = (if mcSourceField column0 = [] then column0\<lparr>mcSourceField := name\<rparr> else column0) in
          andThen (if taSource t \<noteq> [] \<and> trSQL (taTransform t) = [] then
              wrapErr ''model table %q column %q source_field %q is invalid: %w''
                [Arg tableName, Arg name, Arg (mcSourceField column)] (validateSemanticIdentifier (mcSourceField column))
            else Inr ())
            (\<lambda>_. Inr (column\<lparr>mcName := name, mcField := tableName @ ''.'' @ name\<rparr>)))) (taColumns t)) (\<lambda>columns.
        andThen (validateRequiredModelColumns tableName t columns) (\<lambda>_. Inr columns))
      else
        let columns = foldl (addColumn tableName) []
              (taPrimaryKey t # map fst (taDimensions t)
               @ concat (map (\<lambda>(_, meas). measureFields floatOk tableName meas) (mMeasures m)))
        in andThen (validateRequiredModelColumns tableName t columns) (\<lambda>_. Inr columns))"

definition validateTable :: "(string \<Rightarrow> bool) \<Rightarrow> Model \<Rightarrow> string \<Rightarrow> Table \<Rightarrow> goError + Table" where
  "validateTable floatOk m name t0 =
     andThen (wrapErr ''model table %q has invalid name: %w'' [Arg name] (validateSemanticIdentifier name)) (\<lambda>_.
     let t1 = (if taSQL t0 \<noteq> [] \<and> trSQL (taTransform t0) = []
               then t0\<lparr>taTransform := (taTransform t0)\<lparr>trSQL := taSQL t0\<rparr>\<rparr> else t0) in
     andThen (checks
       [failIf (taSource t1 = [] \<and> trSQL (taTransform t1) = [])
          ''model table %q requires source or transform.sql'' [Arg name],
        failIf (taSource t1 \<noteq> [] \<and> \<not> hasKey (mSources m) (taSource t1))
          ''model table %q references unknown source %q'' [Arg name, Arg (taSource t1)],
        failIf (taSourceReads t1 \<noteq> [])
          ''model table %q source_reads is no longer supported; source reads are inferred from transform.sql'' [Arg name]]) (\<lambda>_.
     andThen (modelTableSourceDependencies m name t1) (\<lambda>deps.
     andThen (modelTableModelDependencies m name t1) (\<lambda>mdeps.
     let t2 = t1\<lparr>taSourceDependencies := deps, taModelDependencies := mdeps\<rparr> in
     andThen (failIf (taPrimaryKey t2 = []) ''model table %q requires primary_key'' [Arg name]) (\<lambda>_.
     let t3 = (if taGrain t2 = [] then t2\<lparr>taGrain := taPrimaryKey t2\<rparr> else t2) in
     andThen (failIf (taGrain t3 = []) ''model table %q requires grain'' [Arg name]) (\<lambda>_.
     andThen (mapValuesE (\<lambda>field d0.
       andThen (wrapErr ''model table %q field %q is invalid: %w'' [Arg name, Arg field] (validateSemanticIdentifier field))
         (\<lambda>_. let d = d0\<lparr>mdField := name @ ''.'' @ field, mdTable := name, mdName := field\<rparr> in
           Inr (if mdLabel d = [] then d\<lparr>mdLabel := titleFromIdentifier field\<rparr> else d))) (taDimensions t3)) (\<lambda>dims.
     let t4 = t3\<lparr>taDimensions := dims\<rparr> in
     andThen (resolveModelColumns floatOk m name t4) (\<lambda>columns. Inr (t4\<lparr>taColumns := columns\<rparr>)))))))))"

section \<open>Relationships\<close>

text \<open>The loop over the relationships with the set of identifiers it has seen; \<open>index\<close> counts them.\<close>

fun validateRelationshipIDs :: "nat \<Rightarrow> string list \<Rightarrow> Relationship list \<Rightarrow> goError + unit" where
  "validateRelationshipIDs index seen [] = Inr ()"
| "validateRelationshipIDs index seen (r # rs) =
     (if rlID r = [] \<or> rlFrom r = [] \<or> rlTo r = []
      then Inl (Errorf ''relationship %d requires id, from, and to'' [ArgN (int index)])
      else if rlID r \<in> set seen then Inl (Errorf ''duplicate relationship id %q'' [Arg (rlID r)])
      else validateRelationshipIDs (Suc index) (rlID r # seen) rs)"

definition validateRelationshipEndpoint :: "Model \<Rightarrow> string \<Rightarrow> string \<Rightarrow> goError + string" where
  "validateRelationshipEndpoint m role endpoint =
     andThen (wrapErr ''relationship %s %q: %w'' [Arg role, Arg endpoint] (splitSemanticField endpoint)) (\<lambda>(tableName, fieldName).
       case get (mTables m) tableName of
         None \<Rightarrow> Inl (Errorf ''relationship %s %q references unknown table %q'' [Arg role, Arg endpoint, Arg tableName])
       | Some t \<Rightarrow>
           if \<not> hasKey (taDimensions t) fieldName
           then Inl (Errorf ''relationship %s %q references unknown field %q on table %q''
                  [Arg role, Arg endpoint, Arg fieldName, Arg tableName])
           else Inr tableName)"

definition validateSemanticGraph :: "(string \<Rightarrow> bool) \<Rightarrow> Model \<Rightarrow> (goError + Model) option" where
  "validateSemanticGraph floatOk m =
     (case eachE (\<lambda>r. checks
         [failIf (rlCardinality r \<noteq> ''many_to_one'' \<and> rlCardinality r \<noteq> ''one_to_one'')
            ''unsafe relationship path: cardinality %q from %q to %q'' [Arg (rlCardinality r), Arg (rlFrom r), Arg (rlTo r)],
          andThen (validateRelationshipEndpoint m ''from'' (rlFrom r)) (\<lambda>_. Inr ()),
          andThen (validateRelationshipEndpoint m ''to'' (rlTo r)) (\<lambda>_. Inr ())]) (mRelationships m) of
        Inl e \<Rightarrow> Some (Inl e)
      | Inr _ \<Rightarrow> validateSemanticDefinitions floatOk m)"

section \<open>The whole model\<close>

definition validateModel :: "(string \<Rightarrow> URL option) \<Rightarrow> (string \<Rightarrow> bool) \<Rightarrow> Model \<Rightarrow> (goError + Model) option" where
  "validateModel parseURL floatOk m0 =
     (case andThen (checks
         [failIf (mName m0 = []) ''semantic model name is required'' [],
          failIf (mSources m0 = []) ''semantic model %q has no sources'' [Arg (mName m0)]]) (\<lambda>_.
       andThen (mapValuesE validateConnection (mConnections m0)) (\<lambda>conns.
       let m1 = m0\<lparr>mConnections := conns\<rparr> in
       andThen (if mDefaultConnection m1 \<noteq> [] then checks
           [wrapErr ''default_connection %q is invalid: %w'' [Arg (mDefaultConnection m1)]
              (validateSemanticIdentifier (mDefaultConnection m1)),
            failIf (\<not> hasKey (mConnections m1) (mDefaultConnection m1))
              ''default_connection %q references unknown connection'' [Arg (mDefaultConnection m1)]]
         else Inr ()) (\<lambda>_.
       andThen (mapValuesE (validateNamedSource parseURL m1) (mSources m1)) (\<lambda>sources'.
       let m2 = m1\<lparr>mSources := sources'\<rparr> in
       andThen (failIf (mTables m2 = []) ''semantic model %q has no model tables'' [Arg (mName m2)]) (\<lambda>_.
       andThen (mapValuesE (validateTable floatOk m2) (mTables m2)) (\<lambda>tables'.
       let m3 = m2\<lparr>mTables := tables'\<rparr> in
       andThen (validateRelationshipIDs 0 [] (mRelationships m3)) (\<lambda>_. Inr m3))))))) of
        Inl e \<Rightarrow> Some (Inl e)
      | Inr m3 \<Rightarrow> validateSemanticGraph floatOk m3)"

definition TableNames :: "Model \<Rightarrow> string list" where
  "TableNames m = sortedKeys (mTables m)"

section \<open>Discovered schemas\<close>

definition schemaColumns :: "TableSchema \<Rightarrow> string list" where
  "schemaColumns s = map colName (tsColumns s)"

definition ValidateDiscoveredSourceSchemas :: "Model option \<Rightarrow> goError + unit" where
  "ValidateDiscoveredSourceSchemas mo =
     (case mo of
        None \<Rightarrow> Inl (Errorf ''semantic model is required'' [])
      | Some m \<Rightarrow> eachE (\<lambda>(sourceName, s). checks
          [failIf (schemaColumns (soSchema s) = []) ''source %q has no discovered schema'' [Arg sourceName],
           eachE (\<lambda>field. failIf (field \<notin> set (schemaColumns (soSchema s)))
             ''source %q field %q is not in discovered schema'' [Arg sourceName, Arg field]) (map fst (soFields s))])
          (mSources m))"

definition ValidateDiscoveredSchemas :: "(string \<Rightarrow> bool) \<Rightarrow> Model option \<Rightarrow> goError + unit" where
  "ValidateDiscoveredSchemas floatOk mo =
     (case mo of
        None \<Rightarrow> Inl (Errorf ''semantic model is required'' [])
      | Some m \<Rightarrow> checks
          [ValidateDiscoveredSourceSchemas mo,
           eachE (\<lambda>(tableName, t). checks
             [failIf (schemaColumns (taSchema t) = []) ''model table %q has no discovered schema'' [Arg tableName],
              failIf (taPrimaryKey t \<notin> set (schemaColumns (taSchema t)))
                ''model table %q primary_key %q is not in discovered schema'' [Arg tableName, Arg (taPrimaryKey t)],
              eachE (\<lambda>field. failIf (field \<notin> set (schemaColumns (taSchema t)))
                ''model table %q field %q is not in discovered schema'' [Arg tableName, Arg field]) (map fst (taDimensions t))])
             (mTables m),
           eachE (\<lambda>(measureName, meas).
             andThen (if miExpression (meInput meas) \<noteq> [] then
                 wrapErr ''measure %q input expression: %w'' [Arg measureName] (map_sum id exRefs (parseExpr floatOk (miExpression (meInput meas))))
               else Inr []) (\<lambda>exprRefs.
             eachE (\<lambda>ref. if ref = [] then Inr ()
                else case ResolveDimension m ref of
                  Inl _ \<Rightarrow> Inl (Errorf ''measure %q references unknown field %q'' [Arg measureName, Arg ref])
                | Inr _ \<Rightarrow> Inr ()) (miField (meInput meas) # exprRefs))) (mMeasures m)])"

end
