(* ===== verification/Model_Joins.thy ===== *)
theory Model_Joins
  imports Model_Cycles Model_Validate
begin

text \<open>
  What validation means for the joins a query will make. \<open>data r\<close> is the set of row pairs a
  relationship joins; \<open>joinAlong\<close> composes the joins of a path from a table. A path is good when it
  is single valued: a row of the fact table meets at most one row at its end, so a join never
  multiplies fact rows.
\<close>

section \<open>Joins along a path\<close>

fun joinAlong :: "(Relationship \<Rightarrow> ('r \<times> 'r) set) \<Rightarrow> string \<Rightarrow> Relationship list \<Rightarrow> ('r \<times> 'r) set" where
  "joinAlong data table [] = Id"
| "joinAlong data table (r # p) =
     (if refTable (rlFrom r) = table then data r O joinAlong data (refTable (rlTo r)) p
      else converse (data r) O joinAlong data (refTable (rlFrom r)) p)"

fun pathEnd :: "string \<Rightarrow> Relationship list \<Rightarrow> string" where
  "pathEnd table [] = table"
| "pathEnd table (r # p) = pathEnd (if refTable (rlFrom r) = table then refTable (rlTo r) else refTable (rlFrom r)) p"

text \<open>The data keeps the declared cardinalities.\<close>

definition keepsCardinality :: "(Relationship \<Rightarrow> ('r \<times> 'r) set) \<Rightarrow> bool" where
  "keepsCardinality data \<longleftrightarrow> (\<forall>r. (semanticSafeCardinality (rlCardinality r) \<longrightarrow> single_valued (data r))
     \<and> (rlCardinality r = ''one_to_one'' \<longrightarrow> single_valued (converse (data r))))"

lemma one_to_one_safe: "c = ''one_to_one'' \<Longrightarrow> semanticSafeCardinality c"
  by (simp add: semanticSafeCardinality_def)

lemma safeEdge_cases:
  assumes "semanticSafeEdgeFrom table r = Some e"
  obtains (forward) "refTable (rlFrom r) = table" "semanticSafeCardinality (rlCardinality r)" "edTable e = refTable (rlTo r)"
  | (backward) "refTable (rlFrom r) \<noteq> table" "rlCardinality r = ''one_to_one''" "refTable (rlTo r) = table"
      "edTable e = refTable (rlFrom r)"
proof -
  from assms obtain f g where split: "splitSemanticField (rlFrom r) = Inr f" "splitSemanticField (rlTo r) = Inr g"
    by (auto simp: semanticSafeEdgeFrom_def split: sum.splits)
  then have refs: "refTable (rlFrom r) = fst f" "refTable (rlTo r) = fst g"
    by (simp_all add: refTable_def case_prod_unfold)
  show thesis
  proof (cases "fst f = table \<and> semanticSafeCardinality (rlCardinality r)")
    case True
    with assms split refs show thesis by (intro forward) (auto simp: semanticSafeEdgeFrom_def case_prod_unfold)
  next
    case False
    with assms split have "rlCardinality r = ''one_to_one''" "fst g = table" "edTable e = fst f"
      by (auto simp: semanticSafeEdgeFrom_def case_prod_unfold split: if_splits)
    with False refs one_to_one_safe show thesis by (intro backward) auto
  qed
qed

lemma safeChain_single_valued:
  "safeChain rels target table visited p \<Longrightarrow> keepsCardinality data \<Longrightarrow> single_valued (joinAlong data table p)"
proof (induction rule: safeChain.induct)
  case (last_step r table e visited)
  from last_step(2) show ?case
    using last_step(5) by (cases rule: safeEdge_cases) (auto simp: keepsCardinality_def)
next
  case (more_steps r table e visited p)
  from more_steps(2) show ?case
    using more_steps by (cases rule: safeEdge_cases) (auto simp: keepsCardinality_def intro: single_valued_relcomp)
qed

lemma safeChain_end: "safeChain rels target table visited p \<Longrightarrow> pathEnd table p = target"
proof (induction rule: safeChain.induct)
  case (last_step r table e visited)
  from last_step(2) show ?case using last_step(4) by (cases rule: safeEdge_cases) auto
next
  case (more_steps r table e visited p)
  from more_steps(2) show ?case using more_steps(6) by (cases rule: safeEdge_cases) auto
qed

lemma safeChain_distinct:
  "safeChain rels target table visited p \<Longrightarrow> target \<notin> set visited \<Longrightarrow> set p \<subseteq> set rels"
  by (induction rule: safeChain.induct) auto

lemma SafeRelationshipPath_chain:
  assumes "SafeRelationshipPath m base target = Inr p" and "base \<noteq> target"
  shows "safeChain (mRelationships m) target base [base] p"
proof -
  have "safeRelationshipPaths (mRelationships m) base target = [p]"
    using assms by (auto simp: SafeRelationshipPath_def split: list.splits)
  then have "take 2 (simplePaths (mRelationships m) target base [base]) = [p]"
    by (simp add: safeRelationshipPaths_def walk_simplePaths)
  then have "p \<in> set (simplePaths (mRelationships m) target base [base])"
    by (metis in_set_takeD list.set_intros(1))
  then show ?thesis by (simp add: simplePaths_safeChain)
qed

lemma followPath_joins:
  assumes "keepsCardinality data"
  shows "followPath m table ids = Inr (final, p) \<Longrightarrow>
    \<forall>r \<in> set (mRelationships m). semanticSafeCardinality (rlCardinality r) \<Longrightarrow>
    single_valued (joinAlong data table p) \<and> pathEnd table p = final \<and> map rlID p = ids"
proof (induction m table ids arbitrary: final p rule: followPath.induct)
  case (2 m current rid ids)
  then obtain r where r: "RelationshipByID m rid = Some r" by (auto split: option.splits)
  let ?next = "if current = refTable (rlFrom r) then refTable (rlTo r) else refTable (rlFrom r)"
  have dir: "current = refTable (rlFrom r) \<or> rlCardinality r = ''one_to_one'' \<and> current = refTable (rlTo r)"
    using 2(2) r by (auto simp: Let_def split: if_splits)
  then obtain p' where p': "followPath m ?next ids = Inr (final, p')" "p = r # p'"
    using 2(2) r by (auto simp: Let_def andThen_eq_Inr split: if_splits)
  have mem: "r \<in> set (mRelationships m)" "rlID r = rid"
    using r by (auto simp: RelationshipByID_def find_Some_iff)
  have ih: "single_valued (joinAlong data ?next p') \<and> pathEnd ?next p' = final \<and> map rlID p' = ids"
    by (rule 2(1) [OF r refl refl dir p'(1) 2(3)])
  show ?case
  proof (cases "current = refTable (rlFrom r)")
    case True
    have "single_valued (data r)" using assms mem(1) 2(3) unfolding keepsCardinality_def by blast
    with True ih p' mem show ?thesis by (auto intro: single_valued_relcomp)
  next
    case False
    with dir have "single_valued (converse (data r))" using assms by (auto simp: keepsCardinality_def)
    with False ih p' mem show ?thesis by (auto intro: single_valued_relcomp)
  qed
qed simp

section \<open>What a validated model is made of\<close>

lemma ResolveDimension_cong:
  "mTables m = mTables m' \<Longrightarrow> ResolveDimension m ref = ResolveDimension m' ref"
  by (simp add: ResolveDimension_def)

lemma SafeRelationshipPath_cong:
  "mRelationships m = mRelationships m' \<Longrightarrow> SafeRelationshipPath m a b = SafeRelationshipPath m' a b"
  by (simp add: SafeRelationshipPath_def)

lemma followPath_cong:
  "mRelationships m = mRelationships m' \<Longrightarrow> followPath m a ids = followPath m' a ids"
  by (induction ids arbitrary: a) (simp_all add: RelationshipByID_def Let_def cong: if_cong option.case_cong)

lemma ResolveBindingPath_cong:
  "mTables m = mTables m' \<Longrightarrow> mRelationships m = mRelationships m' \<Longrightarrow>
     ResolveBindingPath m f b = ResolveBindingPath m' f b"
  using ResolveDimension_cong [of m m'] SafeRelationshipPath_cong [of m m'] followPath_cong [of m m']
  by (simp add: ResolveBindingPath_def cong: if_cong)

lemma relationshipIDs_distinct:
  "validateRelationshipIDs i seen rs = Inr u \<Longrightarrow> distinct (map rlID rs) \<and> set (map rlID rs) \<inter> set seen = {}"
proof (induction i seen rs rule: validateRelationshipIDs.induct)
  case (2 i seen r rs)
  then have r: "validateRelationshipIDs (Suc i) (rlID r # seen) rs = Inr u" "rlID r \<notin> set seen"
    and ne: "\<not> (rlID r = [] \<or> rlFrom r = [] \<or> rlTo r = [])"
    by (auto split: if_splits)
  from 2(1) [OF ne r(2,1)] r(2) show ?case by auto
qed simp

text \<open>\<open>m3\<close> is the model with connections, sources and tables resolved.\<close>

definition resolvedFrom :: "(string \<Rightarrow> bool) \<Rightarrow> Model \<Rightarrow> MetricMeasure goMap \<Rightarrow> SemanticDimension goMap
    \<Rightarrow> (string \<times> Metric \<times> Expression) list \<Rightarrow> Model \<Rightarrow> bool" where
  "resolvedFrom fl m3 meas dims both m \<longleftrightarrow>
     validateRelationshipIDs 0 [] (mRelationships m3) = Inr ()
     \<and> (\<forall>r \<in> set (mRelationships m3). semanticSafeCardinality (rlCardinality r)
         \<and> (\<exists>a. validateRelationshipEndpoint m3 ''from'' (rlFrom r) = Inr a)
         \<and> (\<exists>b. validateRelationshipEndpoint m3 ''to'' (rlTo r) = Inr b))
     \<and> mapValuesE (validateNamedMeasure fl m3) (mMeasures m3) = Inr meas
     \<and> mapValuesE (validateDimension (m3\<lparr>mMeasures := meas\<rparr>) (FactNames (m3\<lparr>mMeasures := meas\<rparr>))) (mDimensions m3) = Inr dims
     \<and> mapValuesE (validateMetric fl (m3\<lparr>mMeasures := meas, mDimensions := dims\<rparr>)) (mMetrics m3) = Inr both
     \<and> (\<forall>k. hasKey (parsedMetrics both) k \<longrightarrow> grounded (parsedMetrics both) k)
     \<and> m = m3\<lparr>mMeasures := meas, mDimensions := dims, mMetrics := map (\<lambda>(name, metric, _). (name, metric)) both\<rparr>"

lemma validateModel_parts:
  assumes "validateModel pu fl m0 = Some (Inr m)"
  obtains m3 meas dims both where "resolvedFrom fl m3 meas dims both m"
proof -
  from assms obtain conns srcs tabs where
    ids0: "validateRelationshipIDs 0 [] (mRelationships m0) = Inr ()"
    and graph0: "validateSemanticGraph fl (m0\<lparr>mConnections := conns, mSources := srcs, mTables := tabs\<rparr>) = Some (Inr m)"
    by (auto simp: validateModel_def Let_def andThen_eq_Inr split: sum.splits)
  define m3 where "m3 = m0\<lparr>mConnections := conns, mSources := srcs, mTables := tabs\<rparr>"
  have ids: "validateRelationshipIDs 0 [] (mRelationships m3) = Inr ()" using ids0 by (simp add: m3_def)
  have graph: "validateSemanticGraph fl m3 = Some (Inr m)" using graph0 by (simp add: m3_def)
  from graph have rels: "\<forall>r \<in> set (mRelationships m3). semanticSafeCardinality (rlCardinality r)
       \<and> (\<exists>a. validateRelationshipEndpoint m3 ''from'' (rlFrom r) = Inr a)
       \<and> (\<exists>b. validateRelationshipEndpoint m3 ''to'' (rlTo r) = Inr b)"
    and defs: "validateSemanticDefinitions fl m3 = Some (Inr m)"
    by (auto simp: validateSemanticGraph_def andThen_eq_Inr semanticSafeCardinality_def split: sum.splits)
  from defs obtain meas where meas: "mapValuesE (validateNamedMeasure fl m3) (mMeasures m3) = Inr meas"
    by (auto simp: validateSemanticDefinitions_def split: sum.splits)
  with defs obtain dims where
    dims: "mapValuesE (validateDimension (m3\<lparr>mMeasures := meas\<rparr>) (FactNames (m3\<lparr>mMeasures := meas\<rparr>))) (mDimensions m3) = Inr dims"
    and metrics: "validateMetrics fl (m3\<lparr>mMeasures := meas, mDimensions := dims\<rparr>) = Some (Inr m)"
    by (auto simp: validateSemanticDefinitions_def Let_def split: sum.splits)
  from metrics obtain both where
    "mapValuesE (validateMetric fl (m3\<lparr>mMeasures := meas, mDimensions := dims\<rparr>)) (mMetrics m3) = Inr both"
    "\<forall>k. hasKey (parsedMetrics both) k \<longrightarrow> grounded (parsedMetrics both) k"
    "m = m3\<lparr>mMeasures := meas, mDimensions := dims, mMetrics := map (\<lambda>(name, metric, _). (name, metric)) both\<rparr>"
    unfolding validateMetrics_Inr by auto
  with ids rels meas dims have "resolvedFrom fl m3 meas dims both m" unfolding resolvedFrom_def by blast
  then show thesis by (rule that)
qed

lemma validated_relationships:
  assumes "validateModel pu fl m0 = Some (Inr m)"
  shows "distinct (map rlID (mRelationships m))"
    and "r \<in> set (mRelationships m) \<Longrightarrow> semanticSafeCardinality (rlCardinality r)"
    and "r \<in> set (mRelationships m) \<Longrightarrow> \<exists>d. ResolveDimension m (rlFrom r) = Inr d"
    and "r \<in> set (mRelationships m) \<Longrightarrow> \<exists>d. ResolveDimension m (rlTo r) = Inr d"
proof -
  obtain m3 meas dims both where p: "resolvedFrom fl m3 meas dims both m"
    by (rule validateModel_parts [OF assms])
  then have ids: "validateRelationshipIDs 0 [] (mRelationships m3) = Inr ()"
    and rels: "\<forall>r \<in> set (mRelationships m3). semanticSafeCardinality (rlCardinality r)
         \<and> (\<exists>a. validateRelationshipEndpoint m3 ''from'' (rlFrom r) = Inr a)
         \<and> (\<exists>b. validateRelationshipEndpoint m3 ''to'' (rlTo r) = Inr b)"
    and same: "mRelationships m = mRelationships m3" "mTables m = mTables m3"
    by (simp_all add: resolvedFrom_def)
  have ends: "\<exists>d. ResolveDimension m e = Inr d" if "validateRelationshipEndpoint m3 role e = Inr a" for role e a
    using that same(2) unfolding ResolveDimension_Inr
    by (auto simp: validateRelationshipEndpoint_def andThen_pair_eq_Inr splitSemanticField_Inr hasKey_def split: if_splits)
  show "distinct (map rlID (mRelationships m))" using relationshipIDs_distinct [OF ids] same by simp
  assume "r \<in> set (mRelationships m)"
  with same rels ends show "semanticSafeCardinality (rlCardinality r)" "\<exists>d. ResolveDimension m (rlFrom r) = Inr d"
    "\<exists>d. ResolveDimension m (rlTo r) = Inr d" by auto
qed

end
