(* ===== verification/Model_Properties.thy ===== *)
theory Model_Properties
  imports Model_Joins
begin

text \<open>
  The properties of the semantic model: which metrics are accepted, which joins a validated model
  allows, and what validation promises to the query planner.
\<close>

section \<open>A model that validates\<close>

definition demoConnection :: Connection where
  "demoConnection = \<lparr>cnKind = ''managed'', cnDescription = [], cnPath = [], cnRoot = [], cnScope = [], cnHost = [],
     cnPort = 0, cnDatabase = [], cnUsername = [], cnSSLMode = [], cnAuth = [],
     cnCredentials = \<lparr>crProvider = [], crSecret = [], crRegion = [], crEndpoint = [], crAccountName = []\<rparr>,
     cnOptions = [], cnDefaults = \<lparr>cdOptions = []\<rparr>\<rparr>"

definition demoSource :: "string \<Rightarrow> Source" where
  "demoSource path = \<lparr>soFormat = ''csv'', soDescription = [], soPath = path, soConnection = ''c'', soObject = [],
     soOptions = [], soFields = [], soSchema = \<lparr>tsColumns = []\<rparr>\<rparr>"

definition demoDimension :: MetricDimension where
  "demoDimension = \<lparr>mdField = [], mdTable = [], mdName = [], mdLabel = [], mdDescription = [], mdType = [],
     mdExpr = [], mdExpression = []\<rparr>"

definition demoTable :: "string \<Rightarrow> string list \<Rightarrow> string \<Rightarrow> string list \<Rightarrow> Table" where
  "demoTable source declared query fs = \<lparr>taSource = source, taSources = declared, taSourceReads = [], taSQL = [],
     taTransform = \<lparr>trSQL = query\<rparr>, taColumns = [], taPrimaryKey = ''id'', taGrain = [],
     taDimensions = map (\<lambda>f. (f, demoDimension)) fs, taDescription = [], taSchema = \<lparr>tsColumns = []\<rparr>,
     taSourceDependencies = [], taModelDependencies = []\<rparr>"

definition demoMeasure :: MetricMeasure where
  "demoMeasure = \<lparr>meField = [], meName = [], meFact = ''o'', meLabel = [], meDescription = [], meAggregation = ''count'',
     meInput = \<lparr>miField = [], miExpression = []\<rparr>, meFilters = [], meEmpty = ''zero'', meUnit = [], meFormat = [],
     meHidden = False\<rparr>"

definition demoMetric :: "string \<Rightarrow> Metric" where
  "demoMetric e = \<lparr>mtName = [], mtLabel = [], mtDescription = [], mtExpression = e, mtUnit = [], mtFormat = [], mtHidden = False\<rparr>"

definition demoRelationship :: Relationship where
  "demoRelationship = \<lparr>rlID = ''r'', rlDescription = [], rlFrom = ''o.k'', rlTo = ''k.id'', rlCardinality = ''many_to_one''\<rparr>"

definition demoBinding :: DimensionBinding where
  "demoBinding = \<lparr>dbField = ''k.id'', dbPath = []\<rparr>"

definition demoModel :: Model where
  "demoModel = \<lparr>mName = ''m'', mTitle = [], mDescription = [], mDefaultConnection = [],
     mConnections = [(''c'', demoConnection)],
     mSources = [(''so'', demoSource ''o.csv''), (''sk'', demoSource ''k.csv'')],
     mTables = [(''o'', demoTable ''so'' [] [] [''id'', ''k'']),
       (''k'', demoTable [] [''sk''] ''select id from source.sk'' [''id''])],
     mRelationships = [demoRelationship],
     mMeasures = [(''n'', demoMeasure)],
     mDimensions = [(''d'', \<lparr>sdName = [], sdLabel = [], sdDescription = [], sdType = ''number'', sdGrains = [],
        sdBindings = [(''o'', demoBinding)]\<rparr>)],
     mMetrics = [(''x'', demoMetric ''${n} / 2'')]\<rparr>"

definition demoChecks :: "Model \<Rightarrow> bool" where
  "demoChecks m \<longleftrightarrow>
     ResolveBindingPath m ''o'' demoBinding = Inr [demoRelationship]
     \<and> map_option sdBindings (get (mDimensions m) ''d'') = Some [(''o'', demoBinding)]
     \<and> map_option tableSQL (get (mTables m) ''k'') = Some ''select id from source.sk''
     \<and> hasKey (mMetrics m) ''x''"

text \<open>The one evaluation that the witnesses about validated models share.\<close>

lemma demo_validates: "\<exists>m. validateModel (\<lambda>_. None) (\<lambda>_. True) demoModel = Some (Inr m) \<and> demoChecks m"
proof -
  have "case validateModel (\<lambda>_. None) (\<lambda>_. True) demoModel of Some (Inr m) \<Rightarrow> demoChecks m | _ \<Rightarrow> False"
    by code_simp
  then show ?thesis by (auto split: option.splits sum.splits)
qed

text \<open>Validation keeps which dimensions and bindings there are.\<close>

lemma validated_dimension_origin:
  assumes "resolvedFrom fl m3 meas dims both m" and "get (mDimensions m) name = Some dim"
  obtains dim0 where "get (mDimensions m3) name = Some dim0"
    "validateDimension (m3\<lparr>mMeasures := meas\<rparr>) (FactNames (m3\<lparr>mMeasures := meas\<rparr>)) name dim0 = Inr dim"
proof -
  from assms have "mapValuesE (validateDimension (m3\<lparr>mMeasures := meas\<rparr>) (FactNames (m3\<lparr>mMeasures := meas\<rparr>))) (mDimensions m3)
    = Inr dims" "get dims name = Some dim" by (simp_all add: resolvedFrom_def)
  from mapValuesE_get [OF this] that show thesis by blast
qed

lemma validateDimension_binding:
  assumes "validateDimension m facts name dim0 = Inr dim" and "(f, b) \<in> set (sdBindings dim)"
  shows "\<exists>p. ResolveBindingPath m f b = Inr p" and "f \<in> set facts"
proof -
  from assms(1) have "eachE (\<lambda>(f, b). validateBinding m facts name dim f b) (sdBindings dim) = Inr ()"
    by (auto simp: validateDimension_def Let_def andThen_eq_Inr)
  with assms(2) have "validateBinding m facts name dim f b = Inr ()" by auto
  then show "\<exists>p. ResolveBindingPath m f b = Inr p" "f \<in> set facts"
    by (auto simp: validateBinding_def Let_def andThen_eq_Inr)
qed

lemma bindings_resolve:
  assumes "validateModel pu fl m0 = Some (Inr m)" and "get (mDimensions m) name = Some dim"
    and "(f, b) \<in> set (sdBindings dim)"
  shows "\<exists>p. ResolveBindingPath m f b = Inr p"
proof -
  obtain m3 meas dims both where p: "resolvedFrom fl m3 meas dims both m"
    by (rule validateModel_parts [OF assms(1)])
  obtain dim0 where "validateDimension (m3\<lparr>mMeasures := meas\<rparr>) (FactNames (m3\<lparr>mMeasures := meas\<rparr>)) name dim0 = Inr dim"
    by (rule validated_dimension_origin [OF p assms(2)])
  from validateDimension_binding(1) [OF this assms(3)]
  have "\<exists>p. ResolveBindingPath (m3\<lparr>mMeasures := meas\<rparr>) f b = Inr p" .
  moreover have "ResolveBindingPath m f b = ResolveBindingPath (m3\<lparr>mMeasures := meas\<rparr>) f b"
    using p by (intro ResolveBindingPath_cong) (simp_all add: resolvedFrom_def)
  ultimately show ?thesis by simp
qed

lemma binding_path_joins:
  assumes "\<And>r. r \<in> set (mRelationships m) \<Longrightarrow> semanticSafeCardinality (rlCardinality r)"
    and "ResolveBindingPath m f b = Inr p" and "keepsCardinality data"
  shows "single_valued (joinAlong data f p)"
    and "\<exists>d. ResolveDimension m (dbField b) = Inr d \<and> pathEnd f p = mdTable d"
proof -
  from assms(2) obtain d where d: "ResolveDimension m (dbField b) = Inr d"
    and path: "(dbPath b = [] \<and> SafeRelationshipPath m f (mdTable d) = Inr p) \<or>
      followPath m f (dbPath b) = Inr (mdTable d, p)"
    by (auto simp: ResolveBindingPath_def andThen_pair_eq_Inr andThen_eq_Inr split: if_splits)
  from path have "single_valued (joinAlong data f p) \<and> pathEnd f p = mdTable d"
  proof (elim disjE conjE)
    assume path: "SafeRelationshipPath m f (mdTable d) = Inr p"
    show ?thesis
    proof (cases "f = mdTable d")
      case True
      with path show ?thesis by (simp add: SafeRelationshipPath_def)
    next
      case False
      note chain = SafeRelationshipPath_chain [OF path False]
      from safeChain_single_valued [OF chain assms(3)] safeChain_end [OF chain] show ?thesis by simp
    qed
  next
    assume "followPath m f (dbPath b) = Inr (mdTable d, p)"
    from followPath_joins [OF assms(3) this] assms(1) show ?thesis by simp
  qed
  with d show "single_valued (joinAlong data f p)"
    "\<exists>d. ResolveDimension m (dbField b) = Inr d \<and> pathEnd f p = mdTable d" by auto
qed

section \<open>Joins\<close>

text \<open>
  C17: The path that \<open>SafeRelationshipPath\<close> returns is the only simple chain of safe relationships from
  the one table to the other, and it is returned whenever there is exactly one: the search, which
  stops at the second match, is equivalent to looking at all paths.
\<close>

theorem safe_path_is_the_only_one:
  assumes "distinct (mRelationships m)" and "base \<noteq> target"
  shows "SafeRelationshipPath m base target = Inr p \<longleftrightarrow>
    (\<forall>q. safeChain (mRelationships m) target base [base] q \<longleftrightarrow> q = p)"
  using assms by (rule SafeRelationshipPath_unique)

theorem safe_path_is_the_only_one_witness:
  "\<forall>q. safeChain (mRelationships demoModel) ''k'' ''o'' [''o''] q \<longleftrightarrow> q = [demoRelationship]"
proof -
  have "SafeRelationshipPath demoModel ''o'' ''k'' = Inr [demoRelationship]" by code_simp
  moreover have "distinct (mRelationships demoModel)" by (simp add: demoModel_def)
  ultimately show ?thesis using safe_path_is_the_only_one [of demoModel "''o''" "''k''" "[demoRelationship]"] by simp
qed

text \<open>
  C15: In a validated model a dimension binding never multiplies fact rows: on data that keeps the
  declared cardinalities, whichever path the binding resolves to, declared or inferred, joins a row
  of the fact table with at most one row, and it ends at the table that owns the bound field.
\<close>

theorem binding_path_never_multiplies_rows:
  assumes "validateModel pu fl m0 = Some (Inr m)" and "ResolveBindingPath m f b = Inr p"
    and "keepsCardinality data"
  shows "single_valued (joinAlong data f p)
    \<and> (\<exists>d. ResolveDimension m (dbField b) = Inr d \<and> pathEnd f p = mdTable d)"
  using binding_path_joins [OF validated_relationships(2) [OF assms(1)] assms(2,3)] by simp

theorem binding_path_never_multiplies_rows_witness:
  "\<exists>m. validateModel (\<lambda>_. None) (\<lambda>_. True) demoModel = Some (Inr m)
     \<and> single_valued (joinAlong (\<lambda>r. if r = demoRelationship then {(1 :: nat, 2), (3, 2)} else {}) ''o'' [demoRelationship])"
proof -
  let ?data = "\<lambda>r. if r = demoRelationship then {(1 :: nat, 2 :: nat), (3, 2)} else {}"
  obtain m where m: "validateModel (\<lambda>_. None) (\<lambda>_. True) demoModel = Some (Inr m)"
    and path: "ResolveBindingPath m ''o'' demoBinding = Inr [demoRelationship]"
    using demo_validates by (auto simp: demoChecks_def)
  have "keepsCardinality ?data"
    by (auto simp: keepsCardinality_def single_valued_def demoRelationship_def)
  from binding_path_never_multiplies_rows [OF m path this] m show ?thesis by blast
qed

text \<open>
  C19: In a validated model every binding of every semantic dimension resolves to a join path, so the
  planner never meets a dimension it cannot join to a fact that claims it.
\<close>

theorem validated_bindings_resolve:
  assumes "validateModel pu fl m0 = Some (Inr m)" and "get (mDimensions m) name = Some dim"
    and "(f, b) \<in> set (sdBindings dim)"
  shows "\<exists>p. ResolveBindingPath m f b = Inr p"
  using assms by (rule bindings_resolve)

theorem validated_bindings_resolve_witness:
  "\<exists>m p. validateModel (\<lambda>_. None) (\<lambda>_. True) demoModel = Some (Inr m) \<and> ResolveBindingPath m ''o'' demoBinding = Inr p"
proof -
  obtain m dim where m: "validateModel (\<lambda>_. None) (\<lambda>_. True) demoModel = Some (Inr m)"
    and "get (mDimensions m) ''d'' = Some dim" "sdBindings dim = [(''o'', demoBinding)]"
    using demo_validates by (auto simp: demoChecks_def)
  then show ?thesis using validated_bindings_resolve [OF m, of "''d''" dim "''o''" demoBinding] by simp
qed

section \<open>Metrics\<close>

text \<open>
  C16: The metrics of a model are accepted exactly when each has a valid name, parses and refers to
  known measures and metrics only, and no metric depends on itself through any chain of references.
\<close>

theorem metrics_accepted_iff_acyclic:
  "(\<exists>m'. validateMetrics floatOk m = Some (Inr m')) \<longleftrightarrow>
     (\<exists>both. mapValuesE (validateMetric floatOk m) (mMetrics m) = Inr both \<and> acyclic (uses (parsedMetrics both)))"
proof -
  have g: "(\<forall>k. hasKey p k \<longrightarrow> grounded p k) \<longleftrightarrow> acyclic (uses p)" for p
    by (rule all_grounded_iff)
  show ?thesis unfolding validateMetrics_Inr g by auto
qed

section \<open>Termination\<close>

text \<open>Validation always ends with a model or an error: the fuel of the cycle check is enough.\<close>

theorem validateModel_total: "\<exists>r. validateModel parseURL floatOk m = Some r"
  using validateMetrics_total
  by (auto simp: validateModel_def validateSemanticGraph_def validateSemanticDefinitions_def Let_def split: sum.split)

section \<open>Transform queries\<close>

lemma validateTable_queries:
  assumes "validateTable fl m name t0 = Inr t"
  obtains t1 where "modelTableSourceDependencies m name t1 = Inr (taSourceDependencies t)"
    "modelTableModelDependencies m name t1 = Inr (taModelDependencies t)" "tableSQL t1 = tableSQL t"
proof -
  define t1 where "t1 = (if taSQL t0 \<noteq> [] \<and> trSQL (taTransform t0) = []
               then t0\<lparr>taTransform := (taTransform t0)\<lparr>trSQL := taSQL t0\<rparr>\<rparr> else t0)"
  from assms obtain deps mdeps dims columns where d: "modelTableSourceDependencies m name t1 = Inr deps"
    "modelTableModelDependencies m name t1 = Inr mdeps"
    and t: "t = (let t2 = t1\<lparr>taSourceDependencies := deps, taModelDependencies := mdeps\<rparr>;
        t3 = (if taGrain t2 = [] then t2\<lparr>taGrain := taPrimaryKey t2\<rparr> else t2)
      in t3\<lparr>taDimensions := dims, taColumns := columns\<rparr>)"
    unfolding validateTable_def t1_def [symmetric] by (auto simp: Let_def andThen_eq_Inr)
  show thesis by (rule that [of t1]) (use d t in \<open>auto simp: Let_def tableSQL_def\<close>)
qed

lemma sourceDependencies_queries:
  assumes "modelTableSourceDependencies m name t = Inr deps" and "tableSQL t \<noteq> []"
  shows "refNames ''raw'' (scanSQLRelationRefs (tableSQL t)) = []"
    and "refNames [] (scanSQLRelationRefs (tableSQL t)) = []"
    and "refNames ''source'' (scanSQLRelationRefs (tableSQL t)) = deps"
    and "src \<in> set deps \<Longrightarrow> hasKey (mSources m) src"
  using assms by (auto simp: modelTableSourceDependencies_def modelSQLSourceRefs_def Let_def andThen_eq_Inr split: if_splits)

lemma modelDependencies_queries:
  assumes "modelTableModelDependencies m name t = Inr deps" and "tableSQL t \<noteq> []"
  shows "refNames ''model'' (scanSQLRelationRefs (tableSQL t)) = deps"
    and "r \<in> set (scanSQLRelationRefs (tableSQL t)) \<Longrightarrow> refNamespace r = ''model'' \<Longrightarrow>
      hasKey (mTables m) (refName r) \<and> refName r \<noteq> name"
  using assms by (auto simp: modelTableModelDependencies_def Let_def andThen_eq_Inr refNames_def)

lemma set_refNames: "set (refNames ns rs) = refName ` {r \<in> set rs. refNamespace r = ns}"
  by (auto simp: refNames_def sortedStringSet_def)

lemma validateModel_tables:
  assumes "validateModel pu fl m0 = Some (Inr m)" and "get (mTables m) name = Some t"
  obtains m2 t0 where "validateTable fl m2 name t0 = Inr t"
    "\<And>k. hasKey (mSources m2) k \<longleftrightarrow> hasKey (mSources m) k" "\<And>k. hasKey (mTables m2) k \<longleftrightarrow> hasKey (mTables m) k"
proof -
  from assms(1) obtain conns srcs tabs where
    tabs: "mapValuesE (validateTable fl (m0\<lparr>mConnections := conns, mSources := srcs\<rparr>)) (mTables m0) = Inr tabs"
    and graph: "validateSemanticGraph fl (m0\<lparr>mConnections := conns, mSources := srcs, mTables := tabs\<rparr>) = Some (Inr m)"
    by (auto simp: validateModel_def Let_def andThen_eq_Inr split: sum.splits)
  from graph have same: "mTables m = tabs" "mSources m = srcs"
    by (auto simp: validateSemanticGraph_def validateSemanticDefinitions_def validateMetrics_Inr Let_def split: sum.splits)
  with assms(2) tabs obtain t0 where "validateTable fl (m0\<lparr>mConnections := conns, mSources := srcs\<rparr>) name t0 = Inr t"
    using mapValuesE_get [OF tabs] by auto
  from that [OF this] same mapValuesE_hasKey [OF tabs] show thesis by simp
qed

text \<open>
  C18: In a validated model the dependencies recorded for a table are exactly the relations the scanner
  finds in its query: its source dependencies are the names found in the source schema, all of them
  declared sources, and its model dependencies those found in the model schema, all of them other tables
  of the model. No relation found is unqualified or from the raw schema.
\<close>

theorem validated_queries_read_declared:
  assumes "validateModel pu fl m0 = Some (Inr m)" and "get (mTables m) name = Some t"
    and "tableSQL t \<noteq> []"
  shows "set (taSourceDependencies t)
        = refName ` {r \<in> set (scanSQLRelationRefs (tableSQL t)). refNamespace r = ''source''}
    \<and> set (taModelDependencies t)
        = refName ` {r \<in> set (scanSQLRelationRefs (tableSQL t)). refNamespace r = ''model''}
    \<and> (\<forall>d\<in>set (taSourceDependencies t). hasKey (mSources m) d)
    \<and> (\<forall>d\<in>set (taModelDependencies t). hasKey (mTables m) d \<and> d \<noteq> name)
    \<and> (\<forall>r\<in>set (scanSQLRelationRefs (tableSQL t)). refNamespace r \<noteq> ''raw'' \<and> refNamespace r \<noteq> [])"
proof -
  obtain m2 t0 where t0: "validateTable fl m2 name t0 = Inr t"
    "\<And>k. hasKey (mSources m2) k \<longleftrightarrow> hasKey (mSources m) k" "\<And>k. hasKey (mTables m2) k \<longleftrightarrow> hasKey (mTables m) k"
    by (rule validateModel_tables [OF assms(1,2)]) blast
  obtain t1 where t1: "modelTableSourceDependencies m2 name t1 = Inr (taSourceDependencies t)"
    "modelTableModelDependencies m2 name t1 = Inr (taModelDependencies t)" "tableSQL t1 = tableSQL t"
    by (rule validateTable_queries [OF t0(1)])
  have sql: "tableSQL t1 \<noteq> []" using assms(3) t1(3) by simp
  note src = sourceDependencies_queries [OF t1(1) sql, unfolded t1(3)]
  note mod = modelDependencies_queries [OF t1(2) sql, unfolded t1(3)]
  note names = src(1-3) [THEN arg_cong [where f = set], unfolded set_refNames]
    mod(1) [THEN arg_cong [where f = set], unfolded set_refNames]
  from names(1,2) have "\<forall>r\<in>set (scanSQLRelationRefs (tableSQL t)). refNamespace r \<noteq> ''raw'' \<and> refNamespace r \<noteq> []"
    by auto
  moreover have "\<forall>d\<in>set (taModelDependencies t). hasKey (mTables m) d \<and> d \<noteq> name"
    unfolding names(4) [symmetric] using mod(2) t0(3) by auto
  ultimately show ?thesis using names(3,4) src(4) t0(2) by simp
qed

theorem validated_queries_read_declared_witness:
  "\<exists>m t. validateModel (\<lambda>_. None) (\<lambda>_. True) demoModel = Some (Inr m) \<and> get (mTables m) ''k'' = Some t
     \<and> set (taSourceDependencies t) = {''sk''}"
proof -
  obtain m t where m: "validateModel (\<lambda>_. None) (\<lambda>_. True) demoModel = Some (Inr m)"
    and t: "get (mTables m) ''k'' = Some t" "tableSQL t = ''select id from source.sk''"
    using demo_validates by (auto simp: demoChecks_def)
  have "scanSQLRelationRefs ''select id from source.sk'' = [\<lparr>refNamespace = ''source'', refName = ''sk''\<rparr>]"
    by code_simp
  with validated_queries_read_declared [OF m t(1)] t m show ?thesis by auto
qed

end
