(* ===== verification/Scope_Properties.thy ===== *)
theory Scope_Properties
  imports Model_Validate
begin

text \<open>
  Paths and scopes: \<open>Clean\<close> as a normal form, and which source paths the scope check lets through.
\<close>

section \<open>Clean is a normal form\<close>

definition goodPart :: "string \<Rightarrow> bool" where
  "goodPart p \<longleftrightarrow> p \<noteq> [] \<and> p \<noteq> ''.'' \<and> CHR ''/'' \<notin> set p"

text \<open>Parents stand only at the front, and not at all in a rooted path.\<close>

definition cleanList :: "bool \<Rightarrow> string list \<Rightarrow> bool" where
  "cleanList rooted ps \<longleftrightarrow> (\<exists>n qs. ps = replicate n ''..'' @ qs \<and> (rooted \<longrightarrow> n = 0)
     \<and> ''..'' \<notin> set qs \<and> list_all goodPart qs)"

lemma goodPart_dots: "goodPart ''..''"
  by (simp add: goodPart_def)

lemma cleanList_good: "cleanList rooted ps \<Longrightarrow> list_all goodPart ps"
  by (auto simp: cleanList_def list_all_iff goodPart_dots)

lemma cleanList_Nil [simp]: "cleanList rooted []"
  by (auto simp: cleanList_def)

lemma cleanList_snoc:
  assumes "cleanList rooted ps" and "goodPart p" and "p = ''..'' \<Longrightarrow> \<not> rooted \<and> (ps = [] \<or> last ps = ''..'')"
  shows "cleanList rooted (ps @ [p])"
proof -
  from assms(1) obtain n qs where ps: "ps = replicate n ''..'' @ qs" "rooted \<longrightarrow> n = 0" "''..'' \<notin> set qs" "list_all goodPart qs"
    by (auto simp: cleanList_def)
  show ?thesis
  proof (cases "p = ''..''")
    case False
    with ps assms(2) show ?thesis
      unfolding cleanList_def by (intro exI [of _ n] exI [of _ "qs @ [p]"]) auto
  next
    case True
    have "qs = []"
    proof (rule ccontr)
      assume "qs \<noteq> []"
      then have "last ps \<in> set qs" "ps \<noteq> []" using ps(1) by auto
      with assms(3) [OF True] ps(3) show False by auto
    qed
    with ps True assms(3) [OF True] show ?thesis
      unfolding cleanList_def by (intro exI [of _ "Suc n"] exI [of _ "[]"]) (simp add: replicate_append_same)
  qed
qed

lemma cleanList_butlast: "cleanList rooted (ps @ [p]) \<Longrightarrow> cleanList rooted ps"
proof -
  assume "cleanList rooted (ps @ [p])"
  then obtain n qs where *: "ps @ [p] = replicate n ''..'' @ qs" "rooted \<longrightarrow> n = 0" "''..'' \<notin> set qs" "list_all goodPart qs"
    by (auto simp: cleanList_def)
  show ?thesis
  proof (cases qs rule: rev_cases)
    case Nil
    then obtain k where "n = Suc k" using *(1) by (cases n) auto
    with * Nil have "ps = replicate k ''..''" by (simp flip: replicate_append_same)
    with * \<open>n = Suc k\<close> show ?thesis by (auto simp: cleanList_def intro!: exI [of _ k] exI [of _ "[]"])
  next
    case (snoc rs q)
    with * show ?thesis unfolding cleanList_def by (intro exI [of _ n] exI [of _ rs]) auto
  qed
qed

lemma pushPart_clean:
  assumes "cleanList rooted (rev stack)" and "CHR ''/'' \<notin> set p"
  shows "cleanList rooted (rev (pushPart rooted stack p))"
proof (cases "p = [] \<or> p = ''.''")
  case False
  then have g: "goodPart p" using assms(2) by (simp add: goodPart_def)
  show ?thesis
  proof (cases "p = ''..''")
    case False
    with g assms(1) \<open>\<not> (p = [] \<or> p = ''.'')\<close> cleanList_snoc [of rooted "rev stack" p] show ?thesis by simp
  next
    case True
    show ?thesis
    proof (cases stack)
      case Nil
      with True g cleanList_snoc [of rooted "[]" p] show ?thesis by (cases rooted) auto
    next
      case (Cons q qs)
      with assms(1) have qs: "cleanList rooted (rev qs @ [q])" by simp
      show ?thesis
      proof (cases "q = ''..''")
        case True
        have "\<not> rooted"
        proof
          assume rooted
          with qs True show False by (auto simp: cleanList_def)
        qed
        with True \<open>p = ''..''\<close> Cons qs g cleanList_snoc [of rooted "rev qs @ [q]" p] show ?thesis by simp
      next
        case False
        with \<open>p = ''..''\<close> Cons cleanList_butlast [OF qs] show ?thesis by simp
      qed
    qed
  qed
qed (use assms in auto)

lemma foldl_pushPart_clean:
  "cleanList rooted (rev stack) \<Longrightarrow> \<forall>p \<in> set ps. CHR ''/'' \<notin> set p \<Longrightarrow>
     cleanList rooted (rev (foldl (pushPart rooted) stack ps))"
  by (induction ps arbitrary: stack) (simp_all add: pushPart_clean del: pushPart.simps)

lemma cleanParts_clean: "cleanList (isAbs p) (cleanParts p)"
  unfolding cleanParts_def using foldl_pushPart_clean [of "isAbs p" "[]"] splitOn_parts by simp

lemma pushPart_last:
  assumes "cleanList rooted (ps @ [p])"
  shows "pushPart rooted (rev ps) p = p # rev ps"
proof -
  have g: "goodPart p" using cleanList_good [OF assms] by simp
  show ?thesis
  proof (cases "p = ''..''")
    case False
    with g show ?thesis by (simp add: goodPart_def)
  next
    case True
    from assms obtain n qs where *: "ps @ [p] = replicate n ''..'' @ qs" "rooted \<longrightarrow> n = 0" "''..'' \<notin> set qs"
      by (auto simp: cleanList_def)
    have "qs = []" using * True by (cases qs rule: rev_cases) auto
    with * have "n \<noteq> 0" "ps = replicate (n - 1) ''..''" by (cases n; simp flip: replicate_append_same)+
    with *(2) True show ?thesis by (cases "n - 1") (auto simp: replicate_append_same)
  qed
qed

lemma foldl_pushPart_id: "cleanList rooted ps \<Longrightarrow> foldl (pushPart rooted) [] ps = rev ps"
  by (induction ps rule: rev_induct) (simp_all add: cleanList_butlast pushPart_last del: pushPart.simps)

lemma splitOn_joinWith:
  "ps \<noteq> [] \<Longrightarrow> \<forall>p \<in> set ps. c \<notin> set p \<Longrightarrow> splitOn c (joinWith [c] ps) = ps"
proof (induction "[c]" ps rule: joinWith.induct)
  case (2 s)
  then show ?case by (simp add: splitOn_no_sep)
next
  case (3 s t ss)
  then show ?case by (simp add: splitOn_sep)
qed simp

lemma isAbs_iff: "isAbs s \<longleftrightarrow> (\<exists>t. s = CHR ''/'' # t)"
  by (cases s) (auto simp: isAbs_def hasPrefix_def)

lemma joinWith_relative: "list_all goodPart ps \<Longrightarrow> \<not> isAbs (joinWith ''/'' ps)"
proof (cases ps)
  case (Cons p qs)
  moreover assume "list_all goodPart ps"
  ultimately obtain c t where "p = c # t" "c \<noteq> CHR ''/''" by (cases p) (auto simp: goodPart_def)
  with Cons show ?thesis by (cases qs) (auto simp: isAbs_iff)
qed (simp add: isAbs_iff)

lemma isAbs_cleanPath [simp]: "isAbs (cleanPath p) \<longleftrightarrow> isAbs p"
  using joinWith_relative [OF cleanList_good [OF cleanParts_clean [of p]]]
  by (auto simp: cleanPath_def isAbs_iff)

lemma cleanParts_cleanPath [simp]: "cleanParts (cleanPath p) = cleanParts p"
proof -
  let ?ps = "cleanParts p"
  have clean: "cleanList (isAbs p) ?ps" by (rule cleanParts_clean)
  then have sep: "\<forall>q \<in> set ?ps. CHR ''/'' \<notin> set q" using cleanList_good by (fastforce simp: list_all_iff goodPart_def)
  have again: "cleanParts (cleanPath p) = rev (foldl (pushPart (isAbs p)) [] (splitOn CHR ''/'' (cleanPath p)))"
    by (subst cleanParts_def) simp
  show ?thesis
  proof (cases "?ps = []")
    case True
    then show ?thesis unfolding again by (auto simp: cleanPath_def)
  next
    case False
    then have s: "splitOn CHR ''/'' (joinWith ''/'' ?ps) = ?ps" using sep by (rule splitOn_joinWith)
    show ?thesis
    proof (cases "isAbs p")
      case True
      then have "splitOn CHR ''/'' (cleanPath p) = [] # ?ps" using s by (simp add: cleanPath_def)
      then show ?thesis unfolding again using foldl_pushPart_id [OF clean] by simp
    next
      case False
      then have "splitOn CHR ''/'' (cleanPath p) = ?ps" using s \<open>?ps \<noteq> []\<close> by (simp add: cleanPath_def)
      then show ?thesis unfolding again using foldl_pushPart_id [OF clean] by simp
    qed
  qed
qed

lemma cleanPath_idem: "cleanPath (cleanPath p) = cleanPath p"
  by (simp add: cleanPath_def [of "cleanPath p"]) (simp add: cleanPath_def)

lemma cleanPath_eq_iff: "cleanPath p = cleanPath q \<longleftrightarrow> isAbs p = isAbs q \<and> cleanParts p = cleanParts q"
  by (metis cleanParts_cleanPath cleanPath_def isAbs_cleanPath)

section \<open>Scopes\<close>

lemma relParts_prefix [simp]: "relParts bs (bs @ us) = Some us"
  by (induction bs) (cases us; simp)+

lemma relParts_cases: "relParts bs ts = Some rs \<Longrightarrow> ts = bs @ rs \<or> (\<exists>us. rs = ''..'' # us)"
  by (induction bs ts rule: relParts.induct) (auto split: if_splits)

lemma hasPrefix_iff: "hasPrefix a s \<longleftrightarrow> (\<exists>t. s = a @ t)"
  by (metis append_eq_conv_conj hasPrefix_def)

lemma traversal_iff:
  assumes "list_all goodPart us"
  shows "traversal (joinWith ''/'' us) \<longleftrightarrow> us \<noteq> [] \<and> hd us = ''..''"
proof (cases "us = []")
  case True
  then show ?thesis by (simp add: traversal_def hasPrefix_def)
next
  case False
  have sep: "\<forall>p \<in> set us. CHR ''/'' \<notin> set p" using assms by (auto simp: list_all_iff goodPart_def)
  note split = splitOn_joinWith [OF False sep]
  have pre: "splitOn CHR ''/'' (''../'' @ t) = ''..'' # splitOn CHR ''/'' t" for t
    using splitOn_sep [of "CHR ''/''" "''..''" t] by simp
  show ?thesis
  proof
    assume "traversal (joinWith ''/'' us)"
    then consider "joinWith ''/'' us = ''..''" | t where "joinWith ''/'' us = ''../'' @ t"
      by (auto simp: traversal_def hasPrefix_iff)
    then show "us \<noteq> [] \<and> hd us = ''..''"
    proof cases
      case 1
      then have "us = [''..'']" using split by (simp add: splitOn_no_sep)
      then show ?thesis by simp
    next
      case (2 t)
      with split pre [of t] show ?thesis by (metis list.sel(1) list.distinct(1))
    qed
  next
    assume "us \<noteq> [] \<and> hd us = ''..''"
    then show "traversal (joinWith ''/'' us)"
      by (cases us; cases "tl us") (auto simp: traversal_def hasPrefix_iff)
  qed
qed

lemma traversal_dots: "traversal (joinWith ''/'' (''..'' # us))"
  by (cases us) (auto simp: traversal_def hasPrefix_iff)

lemma joinWith_dot: "list_all goodPart us \<Longrightarrow> joinWith ''/'' us \<noteq> ''.''"
proof
  assume good: "list_all goodPart us" and dot: "joinWith ''/'' us = ''.''"
  then have "us \<noteq> []" "\<forall>p \<in> set us. CHR ''/'' \<notin> set p" by (auto simp: list_all_iff goodPart_def)
  then have "splitOn CHR ''/'' (joinWith ''/'' us) = us" by (rule splitOn_joinWith)
  with dot have "us = [''.'']" by (simp add: splitOn_no_sep)
  with good show False by (simp add: goodPart_def)
qed

lemma cleanPath_dot: "cleanPath p = ''.'' \<longleftrightarrow> \<not> isAbs p \<and> cleanParts p = []"
  using joinWith_dot [OF cleanList_good [OF cleanParts_clean [of p]]] by (auto simp: cleanPath_def)

lemma cleanList_suffix:
  assumes "cleanList rooted (bs @ ts)" and "ts \<noteq> []" and "hd ts \<noteq> ''..''"
  shows "''..'' \<notin> set ts"
proof -
  from assms(1) obtain n qs where *: "bs @ ts = replicate n ''..'' @ qs" "''..'' \<notin> set qs"
    by (auto simp: cleanList_def)
  have "n \<le> length bs"
  proof (rule ccontr)
    assume "\<not> n \<le> length bs"
    then have "(bs @ ts) ! length bs = ''..''" using * by (simp add: nth_append)
    with assms(2,3) show False by (simp add: hd_conv_nth nth_append)
  qed
  then have "ts = drop (length bs - n) qs"
    using arg_cong [OF *(1), of "drop (length bs)"] by simp
  with *(2) show ?thesis by (metis in_set_dropD)
qed

definition scopedPath :: "string \<Rightarrow> string \<Rightarrow> string" where
  "scopedPath scope path = (if isAbs path then path else cleanPath scope @ ''/'' @ cleanPath path)"

lemma relPath_within:
  "(case relPath (cleanPath scope) (cleanPath full) of None \<Rightarrow> False | Some rel \<Rightarrow> rel = ''.'' \<or> \<not> traversal rel) \<longleftrightarrow>
     isAbs full = isAbs scope \<and> (\<exists>ts. cleanParts full = cleanParts scope @ ts \<and> ''..'' \<notin> set ts)"
proof (cases "cleanPath scope = cleanPath full")
  case True
  then show ?thesis by (auto simp: relPath_def cleanPath_idem cleanPath_eq_iff)
next
  case ne: False
  show ?thesis
  proof (cases "isAbs full = isAbs scope")
    case False
    then show ?thesis using ne by (simp add: relPath_def cleanPath_idem)
  next
    case abs: True
    let ?ts = "if cleanPath full = ''.'' then [''.''] else cleanParts full"
    have rel: "relPath (cleanPath scope) (cleanPath full) = map_option (joinWith ''/'') (relParts (cleanParts scope) ?ts)"
      using ne abs by (simp add: relPath_def cleanPath_idem)
    have clean: "cleanList (isAbs full) (cleanParts full)" by (rule cleanParts_clean)
    show ?thesis
    proof (cases "cleanPath full = ''.''")
      case True
      then have full: "cleanParts full = []" by (simp add: cleanPath_dot)
      with ne abs obtain b bs where scope: "cleanParts scope = b # bs"
        by (cases "cleanParts scope") (auto simp: cleanPath_eq_iff)
      then have "b \<noteq> ''.''" using cleanList_good [OF cleanParts_clean [of scope]] by (simp add: goodPart_def)
      with rel scope True have "relPath (cleanPath scope) (cleanPath full) = None
          \<or> (\<exists>us. relPath (cleanPath scope) (cleanPath full) = Some (joinWith ''/'' (''..'' # us)))"
        by auto
      moreover have nd: "joinWith ''/'' (''..'' # us) \<noteq> ''.''" for us by (cases us) auto
      ultimately have "(case relPath (cleanPath scope) (cleanPath full) of None \<Rightarrow> False
          | Some rel \<Rightarrow> rel = ''.'' \<or> \<not> traversal rel) = False"
      proof (elim disjE exE)
        fix us assume some: "relPath (cleanPath scope) (cleanPath full) = Some (joinWith ''/'' (''..'' # us))"
        show ?thesis unfolding some option.case using nd [of us] traversal_dots [of us] by (simp only: simp_thms)
      next
        assume none: "relPath (cleanPath scope) (cleanPath full) = None"
        show ?thesis unfolding none by simp
      qed
      moreover have "(\<exists>ts. cleanParts full = cleanParts scope @ ts \<and> ''..'' \<notin> set ts) = False"
        using full scope by simp
      ultimately show ?thesis by (simp only: simp_thms)
    next
      case False
      show ?thesis
      proof (cases "relParts (cleanParts scope) (cleanParts full)")
        case None
        then have "cleanParts full \<noteq> cleanParts scope @ ts" for ts by (metis option.distinct(1) relParts_prefix)
        with rel False None show ?thesis by simp
      next
        case (Some rs)
        have unique: "cleanParts full = cleanParts scope @ ts \<Longrightarrow> ts = rs" for ts using Some by auto
        from relParts_cases [OF Some] show ?thesis
        proof (elim disjE exE)
          assume full: "cleanParts full = cleanParts scope @ rs"
          then have good: "list_all goodPart rs" using cleanList_good [OF clean] by simp
          have "rs \<noteq> []" using full ne abs by (auto simp: cleanPath_eq_iff)
          then have "traversal (joinWith ''/'' rs) \<longleftrightarrow> ''..'' \<in> set rs"
            using traversal_iff [OF good] cleanList_suffix [of "isAbs full" "cleanParts scope" rs] clean full
            by (metis hd_in_set)
          moreover have "relPath (cleanPath scope) (cleanPath full) = Some (joinWith ''/'' rs)" using rel False Some by simp
          moreover have "(\<exists>ts. cleanParts full = cleanParts scope @ ts \<and> ''..'' \<notin> set ts) \<longleftrightarrow> ''..'' \<notin> set rs"
            using full by auto
          ultimately show ?thesis using joinWith_dot [OF good] abs by simp
        next
          fix us assume rs: "rs = ''..'' # us"
          have "joinWith ''/'' rs \<noteq> ''.''" unfolding rs by (cases us) auto
          moreover have "relPath (cleanPath scope) (cleanPath full) = Some (joinWith ''/'' rs)" using rel False Some by simp
          moreover have "\<not> (\<exists>ts. cleanParts full = cleanParts scope @ ts \<and> ''..'' \<notin> set ts)"
            using unique rs by (metis list.set_intros(1))
          ultimately show ?thesis using traversal_dots [of us] rs by simp
        qed
      qed
    qed
  qed
qed

lemma cleanPath_nonempty: "cleanPath p \<noteq> []"
proof -
  have "joinWith ''/'' (q # qs) = [] \<Longrightarrow> q = []" for q qs by (cases qs) auto
  then show ?thesis using cleanList_good [OF cleanParts_clean [of p]]
    by (cases "cleanParts p") (auto simp: cleanPath_def goodPart_def)
qed

text \<open>
  C20: A local source path passes the scope check of its connection exactly when, once cleaned and
  resolved against the scope, it lies in the scope: the elements of the scope come first and no
  parent element follows them.
\<close>

theorem local_scope_contains:
  assumes "scope = firstNonEmpty [cnScope c, cnRoot c]" and "scope \<noteq> []"
    and "IsLocalPath scope" and "IsLocalPath path"
  shows "sourceWithinConnectionScope parseURL c path \<longleftrightarrow>
    isAbs (scopedPath scope path) = isAbs scope
    \<and> (\<exists>ts. cleanParts (scopedPath scope path) = cleanParts scope @ ts \<and> ''..'' \<notin> set ts)"
proof -
  have full: "(if \<not> isAbs (cleanPath path) then cleanPath (joinPath (cleanPath scope) (cleanPath path)) else cleanPath path)
    = cleanPath (scopedPath scope path)"
    using cleanPath_nonempty by (simp add: scopedPath_def joinPath_def cleanPath_idem)
  have "sourceWithinConnectionScope parseURL c path \<longleftrightarrow>
      (case relPath (cleanPath scope) (cleanPath (scopedPath scope path)) of
         None \<Rightarrow> False | Some rel \<Rightarrow> rel = ''.'' \<or> \<not> traversal rel)"
    unfolding sourceWithinConnectionScope_def Let_def assms(1) [symmetric] full [symmetric]
    using assms(2-4) by (simp cong: option.case_cong)
  with relPath_within show ?thesis by simp
qed

theorem local_scope_contains_witness:
  "sourceWithinConnectionScope (\<lambda>_. None) \<lparr>cnKind = ''http'', cnDescription = [], cnPath = [], cnRoot = [], cnScope = ''data'',
     cnHost = [], cnPort = 0, cnDatabase = [], cnUsername = [], cnSSLMode = [], cnAuth = [],
     cnCredentials = \<lparr>crProvider = [], crSecret = [], crRegion = [], crEndpoint = [], crAccountName = []\<rparr>,
     cnOptions = [], cnDefaults = \<lparr>cdOptions = []\<rparr>\<rparr> ''a/../b.csv''"
  by (subst local_scope_contains [of "''data''"]) (code_simp, code_simp, code_simp, code_simp, (rule conjI, code_simp, rule exI [of _ "[''b.csv'']"], code_simp))

text \<open>
  C21: When \<open>url.Parse\<close> rejects the path, the scope check falls back to comparing prefixes of the raw
  text, so parent elements are not resolved: every continuation of the scope passes, also one that
  climbs out of it.
\<close>

theorem unparsed_url_escapes_scope:
  assumes "parseURL (scope @ ''/../'' @ other) = None" and "scope \<noteq> []" and "last scope \<noteq> CHR ''/''"
    and "other \<noteq> []" and "last other \<noteq> CHR ''/''"
  shows "WithinScope parseURL scope (scope @ ''/../'' @ other)"
proof -
  have trim: "trimRightByte CHR ''/'' s = s" if "s \<noteq> []" "last s \<noteq> CHR ''/''" for s
    using that by (cases s rule: rev_cases) (simp_all add: trimRightByte_def)
  have "plainWithin scope (scope @ ''/../'' @ other)"
    using trim [OF assms(2,3)] trim [of "scope @ ''/../'' @ other"] assms(4,5)
    by (simp add: plainWithin_def Let_def hasPrefix_def)
  with assms(1) show ?thesis by (simp add: WithinScope_def split: option.split)
qed

theorem unparsed_url_escapes_scope_witness:
  "WithinScope (\<lambda>u. if CHR ''%'' \<in> set u then None else Some \<lparr>urlScheme = ''s3'', urlHost = ''b'', urlPath = ''/team''\<rparr>)
     ''s3://b/team'' (''s3://b/team'' @ ''/../'' @ ''other/%zz'')"
  by (rule unparsed_url_escapes_scope) simp_all

end
