(* ===== verification/Lease_Heap.thy ===== *)
theory Lease_Heap
  imports LV_Prelude
begin

text \<open>
  Reference-counted results (\<^verbatim>\<open>internal/analytics/arrowresult/result.go\<close>). The heap holds the results
  and leases that have been created, in order of creation; a reference is an index. A released
  lease has no result. Every operation is one atomic step, as its compare-and-swap, \<open>sync.Once\<close> or
  mutex makes it; 64-bit counters count objects and bytes that exist and are \<open>int\<close> here. Arrow schemas
  and record batches are type parameters, and what the builder asks of the Arrow library is \<open>arrowLib\<close>.
\<close>

section \<open>Heap\<close>

record 'b resultCell =
  rcRefs :: int
  rcOwnerReleased :: bool
  rcRecords :: "'b list option"
  rcRows :: int
  rcBytes :: int

record arrowStats =
  asResults :: int
  asLeases :: int
  asBytes :: int
  asTransient :: int

record 'b resultHeap =
  hpResults :: "'b resultCell list"
  hpLeases :: "nat option list"
  hpStats :: arrowStats

datatype arrowError =
    ErrSchemaRequired
  | ErrSchemaAlreadySet
  | ErrBuilderFinished
  | ErrResultReleased
  | SchemaMismatch
  | CopyFailed string

definition emptyHeap :: "'b resultHeap" where
  "emptyHeap = \<lparr>hpResults = [], hpLeases = [], hpStats = \<lparr>asResults = 0, asLeases = 0, asBytes = 0, asTransient = 0\<rparr>\<rparr>"

section \<open>Results and leases\<close>

definition resultAcquire :: "nat \<Rightarrow> 'b resultHeap \<Rightarrow> (arrowError + nat) \<times> 'b resultHeap" where
  "resultAcquire r h =
     (let cell = hpResults h ! r in
      if rcRefs cell \<le> 0 then (Inl ErrResultReleased, h)
      else (Inr (length (hpLeases h)),
        h\<lparr>hpResults := (hpResults h)[r := cell\<lparr>rcRefs := rcRefs cell + 1\<rparr>],
          hpLeases := hpLeases h @ [Some r],
          hpStats := (hpStats h)\<lparr>asLeases := asLeases (hpStats h) + 1\<rparr>\<rparr>))"

definition releaseRef :: "nat \<Rightarrow> 'b resultHeap \<Rightarrow> 'b resultHeap" where
  "releaseRef r h =
     (let cell = (hpResults h ! r)\<lparr>rcRefs := rcRefs (hpResults h ! r) - 1\<rparr> in
      if rcRefs cell \<noteq> 0 then h\<lparr>hpResults := (hpResults h)[r := cell]\<rparr>
      else h\<lparr>hpResults := (hpResults h)[r := cell\<lparr>rcRecords := None\<rparr>],
             hpStats := (hpStats h)\<lparr>asResults := asResults (hpStats h) - 1, asBytes := asBytes (hpStats h) - rcBytes cell\<rparr>\<rparr>)"

definition resultRelease :: "nat \<Rightarrow> 'b resultHeap \<Rightarrow> 'b resultHeap" where
  "resultRelease r h =
     (if rcOwnerReleased (hpResults h ! r) then h
      else releaseRef r (h\<lparr>hpResults := (hpResults h)[r := (hpResults h ! r)\<lparr>rcOwnerReleased := True\<rparr>]\<rparr>))"

definition leaseAcquire :: "nat \<Rightarrow> 'b resultHeap \<Rightarrow> (arrowError + nat) \<times> 'b resultHeap" where
  "leaseAcquire l h =
     (case hpLeases h ! l of None \<Rightarrow> (Inl ErrResultReleased, h) | Some r \<Rightarrow> resultAcquire r h)"

definition leaseRelease :: "nat \<Rightarrow> 'b resultHeap \<Rightarrow> 'b resultHeap" where
  "leaseRelease l h =
     (case hpLeases h ! l of
        None \<Rightarrow> h
      | Some r \<Rightarrow>
          (releaseRef r (h\<lparr>hpStats := (hpStats h)\<lparr>asLeases := asLeases (hpStats h) - 1\<rparr>\<rparr>))\<lparr>hpLeases := (hpLeases h)[l := None]\<rparr>)"

definition leaseRows :: "nat \<Rightarrow> 'b resultHeap \<Rightarrow> int" where
  "leaseRows l h = (case hpLeases h ! l of None \<Rightarrow> 0 | Some r \<Rightarrow> rcRows (hpResults h ! r))"

definition leaseBytes :: "nat \<Rightarrow> 'b resultHeap \<Rightarrow> int" where
  "leaseBytes l h = (case hpLeases h ! l of None \<Rightarrow> 0 | Some r \<Rightarrow> rcBytes (hpResults h ! r))"

text \<open>The records a visit goes through; a freed result has none left.\<close>

definition leaseRecords :: "nat \<Rightarrow> 'b resultHeap \<Rightarrow> arrowError + 'b list" where
  "leaseRecords l h =
     (case hpLeases h ! l of
        None \<Rightarrow> Inl ErrResultReleased
      | Some r \<Rightarrow> Inr (case rcRecords (hpResults h ! r) of None \<Rightarrow> [] | Some records \<Rightarrow> records))"

fun visitRecords :: "('b \<Rightarrow> 's \<Rightarrow> ('e + 's)) \<Rightarrow> 'b list \<Rightarrow> 's \<Rightarrow> 'e + 's" where
  "visitRecords visit [] s = Inr s"
| "visitRecords visit (x # xs) s = (case visit x s of Inl e \<Rightarrow> Inl e | Inr s' \<Rightarrow> visitRecords visit xs s')"

section \<open>Builder\<close>

record ('s, 'b) arrowLib =
  alSchemaOf :: "'b \<Rightarrow> 's"
  alCopy :: "'b \<Rightarrow> string + 'b"
  alNumRows :: "'b \<Rightarrow> int"
  alRecordBytes :: "'b \<Rightarrow> int"
  alSchemaBytes :: "'s \<Rightarrow> int"

record ('s, 'b) builder =
  buSchema :: "'s option"
  buRecords :: "'b list"
  buRows :: int
  buTransient :: int
  buFinished :: bool

definition NewBuilder :: "('s, 'b) builder" where
  "NewBuilder = \<lparr>buSchema = None, buRecords = [], buRows = 0, buTransient = 0, buFinished = False\<rparr>"

definition WriteSchema :: "'s option \<Rightarrow> ('s, 'b) builder \<Rightarrow> arrowError + ('s, 'b) builder" where
  "WriteSchema schema b =
     (if buFinished b then Inl ErrBuilderFinished
      else case schema of
        None \<Rightarrow> Inl ErrSchemaRequired
      | Some s \<Rightarrow> if buSchema b \<noteq> None then Inl ErrSchemaAlreadySet else Inr (b\<lparr>buSchema := Some s\<rparr>))"

definition WriteRecord :: "('s, 'b) arrowLib \<Rightarrow> 'b option \<Rightarrow> ('s, 'b) builder \<Rightarrow> 'b resultHeap
    \<Rightarrow> arrowError + ('s, 'b) builder \<times> 'b resultHeap" where
  "WriteRecord lib rec b h =
     (if buFinished b then Inl ErrBuilderFinished
      else case buSchema b of
        None \<Rightarrow> Inl ErrSchemaRequired
      | Some s \<Rightarrow>
          (case rec of
             None \<Rightarrow> Inr (b, h)
           | Some x \<Rightarrow>
               if s \<noteq> alSchemaOf lib x then Inl SchemaMismatch
               else case alCopy lib x of
                 Inl e \<Rightarrow> Inl (CopyFailed e)
               | Inr copied \<Rightarrow>
                   let n = alRecordBytes lib copied in
                   Inr (b\<lparr>buRecords := buRecords b @ [copied], buRows := buRows b + alNumRows lib x,
                          buTransient := buTransient b + n\<rparr>,
                        h\<lparr>hpStats := (hpStats h)\<lparr>asTransient := asTransient (hpStats h) + n\<rparr>\<rparr>)))"

definition Finish :: "('s, 'b) arrowLib \<Rightarrow> ('s, 'b) builder \<Rightarrow> 'b resultHeap
    \<Rightarrow> (arrowError + nat) \<times> ('s, 'b) builder \<times> 'b resultHeap" where
  "Finish lib b h =
     (if buFinished b then (Inl ErrBuilderFinished, b, h)
      else case buSchema b of
        None \<Rightarrow> (Inl ErrSchemaRequired, b, h)
      | Some s \<Rightarrow>
          let retained = alSchemaBytes lib s + buTransient b;
              cell = \<lparr>rcRefs = 1, rcOwnerReleased = False, rcRecords = Some (buRecords b), rcRows = buRows b, rcBytes = retained\<rparr>;
              stats = hpStats h
          in (Inr (length (hpResults h)),
              b\<lparr>buFinished := True, buSchema := None, buRecords := [], buTransient := 0\<rparr>,
              h\<lparr>hpResults := hpResults h @ [cell],
                hpStats := stats\<lparr>asResults := asResults stats + 1, asBytes := asBytes stats + retained,
                                 asTransient := asTransient stats - buTransient b\<rparr>\<rparr>))"

definition Abort :: "('s, 'b) builder \<Rightarrow> 'b resultHeap \<Rightarrow> ('s, 'b) builder \<times> 'b resultHeap" where
  "Abort b h =
     (if buFinished b then (b, h)
      else (b\<lparr>buFinished := True, buTransient := 0, buSchema := None, buRecords := []\<rparr>,
            h\<lparr>hpStats := (hpStats h)\<lparr>asTransient := asTransient (hpStats h) - buTransient b\<rparr>\<rparr>))"

section \<open>Invariant\<close>

definition holders :: "nat \<Rightarrow> 'b resultHeap \<Rightarrow> nat" where
  "holders r h = count_list (hpLeases h) (Some r)"

definition liveLeases :: "'b resultHeap \<Rightarrow> nat" where
  "liveLeases h = length (filter (\<lambda>l. l \<noteq> None) (hpLeases h))"

definition cell_ok :: "nat \<Rightarrow> 'b resultCell \<Rightarrow> bool" where
  "cell_ok n cell \<longleftrightarrow> rcRefs cell = int n + (if rcOwnerReleased cell then 0 else 1)
     \<and> (rcRecords cell = None \<longleftrightarrow> rcRefs cell = 0)"

definition retainedBytes :: "'b resultHeap \<Rightarrow> int" where
  "retainedBytes h = (\<Sum>cell \<leftarrow> hpResults h. if rcRecords cell = None then 0 else rcBytes cell)"

definition retainedResults :: "'b resultHeap \<Rightarrow> int" where
  "retainedResults h = (\<Sum>cell \<leftarrow> hpResults h. if rcRecords cell = None then 0 else 1)"

definition heap_ok :: "'b resultHeap \<Rightarrow> bool" where
  "heap_ok h \<longleftrightarrow>
     (\<forall>r < length (hpResults h). cell_ok (holders r h) (hpResults h ! r))
     \<and> (\<forall>r. Some r \<in> set (hpLeases h) \<longrightarrow> r < length (hpResults h))
     \<and> asLeases (hpStats h) = int (liveLeases h)
     \<and> asResults (hpStats h) = retainedResults h
     \<and> asBytes (hpStats h) = retainedBytes h"

lemma heap_ok_empty: "heap_ok emptyHeap"
  by (simp add: heap_ok_def emptyHeap_def liveLeases_def retainedResults_def retainedBytes_def)

lemma sum_list_replace:
  "i < length xs \<Longrightarrow> (\<Sum>x \<leftarrow> xs[i := y]. f x) = (\<Sum>x \<leftarrow> xs. f x) - f (xs ! i) + (f y :: int)"
proof (induction xs arbitrary: i)
  case (Cons x xs)
  then show ?case by (cases i) auto
qed simp

lemma count_list_update:
  "i < length xs \<Longrightarrow> int (count_list (xs[i := y]) a)
     = int (count_list xs a) - (if xs ! i = a then 1 else 0) + (if y = a then 1 else 0)"
proof (induction xs arbitrary: i)
  case (Cons x xs)
  show ?case
  proof (cases i)
    case (Suc j)
    with Cons.prems have "j < length xs" by simp
    from Cons.IH [OF this] Suc show ?thesis by (simp split: if_splits)
  qed simp
qed simp

lemma live_update:
  "i < length xs \<Longrightarrow> xs ! i \<noteq> None \<Longrightarrow>
     int (length (filter (\<lambda>l. l \<noteq> None) (xs[i := None]))) = int (length (filter (\<lambda>l. l \<noteq> None) xs)) - 1"
proof (induction xs arbitrary: i)
  case (Cons x xs)
  then show ?case by (cases i) auto
qed simp

lemma holders_pos: "l < length (hpLeases h) \<Longrightarrow> hpLeases h ! l = Some r \<Longrightarrow> 0 < holders r h"
  unfolding holders_def by (metis count_list_0_iff gr_zeroI nth_mem)

lemma resultAcquire_ok:
  assumes "heap_ok h" and "r < length (hpResults h)" and "resultAcquire r h = (res, h')"
  shows "heap_ok h'" and "rcRefs (hpResults h ! r) > 0 \<Longrightarrow> res = Inr (length (hpLeases h)) \<and> hpLeases h' = hpLeases h @ [Some r]"
    and "rcRefs (hpResults h ! r) \<le> 0 \<Longrightarrow> res = Inl ErrResultReleased \<and> h' = h"
proof -
  let ?cell = "hpResults h ! r"
  show "rcRefs ?cell > 0 \<Longrightarrow> res = Inr (length (hpLeases h)) \<and> hpLeases h' = hpLeases h @ [Some r]"
    "rcRefs ?cell \<le> 0 \<Longrightarrow> res = Inl ErrResultReleased \<and> h' = h"
    using assms(3) by (auto simp: resultAcquire_def Let_def split: if_splits)
  show "heap_ok h'"
  proof (cases "rcRefs ?cell \<le> 0")
    case True
    with assms show ?thesis by (simp add: resultAcquire_def Let_def)
  next
    case False
    have c: "cell_ok (holders r h) ?cell" using assms(1,2) by (simp add: heap_ok_def)
    with False have rec: "rcRecords ?cell \<noteq> None" by (auto simp: cell_ok_def)
    have h': "h' = h\<lparr>hpResults := (hpResults h)[r := ?cell\<lparr>rcRefs := rcRefs ?cell + 1\<rparr>],
          hpLeases := hpLeases h @ [Some r], hpStats := (hpStats h)\<lparr>asLeases := asLeases (hpStats h) + 1\<rparr>\<rparr>"
      using assms(3) False by (auto simp: resultAcquire_def Let_def)
    have "cell_ok (holders q h') (hpResults h' ! q)" if "q < length (hpResults h')" for q
    proof (cases "q = r")
      case True
      then show ?thesis using c assms(2) False rec h' by (auto simp: cell_ok_def holders_def)
    next
      case False
      with that h' assms(1) show ?thesis by (simp add: heap_ok_def holders_def)
    qed
    moreover have "retainedBytes h' = retainedBytes h" "retainedResults h' = retainedResults h"
      using sum_list_replace [OF assms(2)] rec h' by (auto simp: retainedBytes_def retainedResults_def)
    ultimately show ?thesis using assms(1,2) h' by (auto simp: heap_ok_def liveLeases_def)
  qed
qed

text \<open>Dropping one reference: either a lease is cleared or the owner's flag is set with it.\<close>

lemma releaseRef_fields:
  "hpLeases (releaseRef r h) = hpLeases h" "length (hpResults (releaseRef r h)) = length (hpResults h)"
  "asLeases (hpStats (releaseRef r h)) = asLeases (hpStats h)"
  "q \<noteq> r \<Longrightarrow> hpResults (releaseRef r h) ! q = hpResults h ! q"
  by (auto simp: releaseRef_def Let_def)

lemma releaseRef_cell:
  "r < length (hpResults h) \<Longrightarrow> hpResults (releaseRef r h) ! r
     = (let cell = (hpResults h ! r)\<lparr>rcRefs := rcRefs (hpResults h ! r) - 1\<rparr> in
        if rcRefs cell \<noteq> 0 then cell else cell\<lparr>rcRecords := None\<rparr>)"
  by (auto simp: releaseRef_def Let_def)

lemma releaseRef_totals:
  assumes "r < length (hpResults h)" and "rcRecords (hpResults h ! r) \<noteq> None"
  shows "asResults (hpStats (releaseRef r h)) - retainedResults (releaseRef r h) = asResults (hpStats h) - retainedResults h"
    and "asBytes (hpStats (releaseRef r h)) - retainedBytes (releaseRef r h) = asBytes (hpStats h) - retainedBytes h"
  using assms sum_list_replace [OF assms(1)]
  by (auto simp: releaseRef_def Let_def retainedResults_def retainedBytes_def)

lemma leaseRelease_ok:
  assumes "heap_ok h" and "l < length (hpLeases h)"
  shows "heap_ok (leaseRelease l h)"
proof (cases "hpLeases h ! l")
  case None
  with assms show ?thesis by (simp add: leaseRelease_def)
next
  case (Some r)
  then have r: "r < length (hpResults h)" using assms by (metis heap_ok_def nth_mem)
  have c: "cell_ok (holders r h) (hpResults h ! r)" using assms(1) r by (simp add: heap_ok_def)
  have pos: "0 < holders r h" using assms(2) Some by (rule holders_pos)
  then have rec: "rcRecords (hpResults h ! r) \<noteq> None" using c by (auto simp: cell_ok_def split: if_splits)
  let ?g = "h\<lparr>hpStats := (hpStats h)\<lparr>asLeases := asLeases (hpStats h) - 1\<rparr>\<rparr>"
  define h' where "h' = (releaseRef r ?g)\<lparr>hpLeases := (hpLeases h)[l := None]\<rparr>"
  have eq: "leaseRelease l h = h'" by (simp add: leaseRelease_def Some h'_def)
  have hold: "int (holders q h') = int (holders q h) - (if q = r then 1 else 0)" for q
    using count_list_update [OF assms(2), of None "Some q"] Some by (auto simp: holders_def h'_def)
  have "cell_ok (holders q h') (hpResults h' ! q)" if "q < length (hpResults h')" for q
  proof (cases "q = r")
    case True
    have "hpResults h' ! r = (let cell = (hpResults h ! r)\<lparr>rcRefs := rcRefs (hpResults h ! r) - 1\<rparr> in
        if rcRefs cell \<noteq> 0 then cell else cell\<lparr>rcRecords := None\<rparr>)"
      using releaseRef_cell [of r ?g] r by (simp add: h'_def)
    with c rec pos hold [of r] True show ?thesis by (auto simp: cell_ok_def Let_def)
  next
    case False
    have "length (hpResults h') = length (hpResults h)" by (simp add: h'_def releaseRef_fields)
    then show ?thesis using that False assms(1) hold [of q] releaseRef_fields(4) [of q r ?g]
      by (simp add: heap_ok_def h'_def)
  qed
  moreover have "asLeases (hpStats h') = int (liveLeases h')"
    using live_update [OF assms(2)] Some assms(1) by (simp add: h'_def liveLeases_def heap_ok_def releaseRef_fields)
  moreover have "asResults (hpStats h') = retainedResults h'" "asBytes (hpStats h') = retainedBytes h'"
    using releaseRef_totals [of r ?g] r rec assms(1)
    by (simp_all add: h'_def heap_ok_def retainedResults_def retainedBytes_def)
  moreover have "Some q \<in> set (hpLeases h') \<Longrightarrow> q < length (hpResults h')" for q
    using assms(1) set_update_subset_insert [of "hpLeases h" l None]
    by (auto simp: h'_def heap_ok_def releaseRef_fields)
  ultimately show ?thesis unfolding eq heap_ok_def by blast
qed

lemma resultRelease_ok:
  assumes "heap_ok h" and "r < length (hpResults h)"
  shows "heap_ok (resultRelease r h)"
proof (cases "rcOwnerReleased (hpResults h ! r)")
  case True
  with assms show ?thesis by (simp add: resultRelease_def)
next
  case False
  have c: "cell_ok (holders r h) (hpResults h ! r)" using assms by (simp add: heap_ok_def)
  then have rec: "rcRecords (hpResults h ! r) \<noteq> None" using False by (auto simp: cell_ok_def)
  let ?g = "h\<lparr>hpResults := (hpResults h)[r := (hpResults h ! r)\<lparr>rcOwnerReleased := True\<rparr>]\<rparr>"
  define h' where "h' = releaseRef r ?g"
  have eq: "resultRelease r h = h'" using False by (simp add: resultRelease_def h'_def)
  have same: "retainedResults ?g = retainedResults h" "retainedBytes ?g = retainedBytes h"
    using sum_list_replace [OF assms(2)] by (simp_all add: retainedResults_def retainedBytes_def)
  have len: "length (hpResults h') = length (hpResults h)" by (simp add: h'_def releaseRef_fields)
  have "cell_ok (holders q h') (hpResults h' ! q)" if "q < length (hpResults h')" for q
  proof (cases "q = r")
    case True
    have "hpResults h' ! r = (let cell = (hpResults ?g ! r)\<lparr>rcRefs := rcRefs (hpResults ?g ! r) - 1\<rparr> in
        if rcRefs cell \<noteq> 0 then cell else cell\<lparr>rcRecords := None\<rparr>)"
      using releaseRef_cell [of r ?g] assms(2) by (simp add: h'_def)
    with c rec False True assms(2) show ?thesis by (auto simp: cell_ok_def Let_def holders_def h'_def releaseRef_fields)
  next
    case nq: False
    have "holders q h' = holders q h" by (simp add: holders_def h'_def releaseRef_fields)
    then show ?thesis using that nq assms(1) releaseRef_fields(4) [of q r ?g] len
      by (simp add: heap_ok_def h'_def)
  qed
  moreover have "asResults (hpStats h') = retainedResults h'" "asBytes (hpStats h') = retainedBytes h'"
    using releaseRef_totals [of r ?g] assms rec same by (simp_all add: h'_def heap_ok_def)
  moreover have "asLeases (hpStats h') = int (liveLeases h')" "Some q \<in> set (hpLeases h') \<Longrightarrow> q < length (hpResults h')" for q
    using assms(1) by (simp_all add: h'_def heap_ok_def releaseRef_fields liveLeases_def)
  ultimately show ?thesis unfolding eq heap_ok_def by blast
qed

section \<open>What a holder of leases relies on\<close>

text \<open>
  The contract the result cache and its flights use: dropping a live lease ends that lease and no
  other one, and what every other lease reads stays the same.
\<close>

locale lease_store =
  fixes ok :: "'h \<Rightarrow> bool"
    and live :: "'l \<Rightarrow> 'h \<Rightarrow> bool"
    and content :: "'l \<Rightarrow> 'h \<Rightarrow> 'v"
    and release :: "'l \<Rightarrow> 'h \<Rightarrow> 'h"
  assumes release_ok: "ok h \<Longrightarrow> live l h \<Longrightarrow> ok (release l h)"
    and release_live: "ok h \<Longrightarrow> live l h \<Longrightarrow> live k (release l h) \<longleftrightarrow> live k h \<and> k \<noteq> l"
    and release_content: "ok h \<Longrightarrow> live l h \<Longrightarrow> live k h \<Longrightarrow> k \<noteq> l \<Longrightarrow> content k (release l h) = content k h"
begin

lemma release_all:
  assumes "ok h" and "distinct ls" and "\<forall>l \<in> set ls. live l h"
  shows "ok (fold release ls h)"
    and "live k (fold release ls h) \<longleftrightarrow> live k h \<and> k \<notin> set ls"
    and "live k h \<Longrightarrow> k \<notin> set ls \<Longrightarrow> content k (fold release ls h) = content k h"
  using assms
proof (induction ls arbitrary: h)
  case (Cons l ls)
  {
    case 1
    then show ?case using Cons.IH(1) [of "release l h"] by (auto simp: release_ok release_live)
  next
    case 2
    then show ?case using Cons.IH(2) [of "release l h"] by (auto simp: release_ok release_live)
  next
    case 3
    then show ?case using Cons.IH(3) [of "release l h"]
      by (auto simp: release_ok release_live release_content)
  }
qed auto

end

definition leaseLive :: "nat \<Rightarrow> 'b resultHeap \<Rightarrow> bool" where
  "leaseLive l h \<longleftrightarrow> l < length (hpLeases h) \<and> hpLeases h ! l \<noteq> None"

lemma leaseLive_cell:
  assumes "heap_ok h" and "leaseLive l h" and "hpLeases h ! l = Some r"
  shows "r < length (hpResults h)" and "0 < rcRefs (hpResults h ! r)" and "rcRecords (hpResults h ! r) \<noteq> None"
proof -
  show r: "r < length (hpResults h)" using assms by (metis heap_ok_def leaseLive_def nth_mem)
  have "cell_ok (holders r h) (hpResults h ! r)" using assms(1) r by (simp add: heap_ok_def)
  moreover have "0 < holders r h" using assms(2,3) holders_pos by (metis leaseLive_def)
  ultimately show "0 < rcRefs (hpResults h ! r)" "rcRecords (hpResults h ! r) \<noteq> None"
    by (auto simp: cell_ok_def split: if_splits)
qed

lemma releaseRef_records:
  assumes "q \<noteq> r \<or> 1 < rcRefs (hpResults h ! r)"
  shows "rcRecords (hpResults (releaseRef r h) ! q) = rcRecords (hpResults h ! q)"
  using assms
  by (cases "r < length (hpResults h)"; cases "q = r")
     (simp_all add: releaseRef_def Let_def list_update_beyond not_less)

lemma releaseRef_sizes:
  "rcRows (hpResults (releaseRef r h) ! q) = rcRows (hpResults h ! q)"
  "rcBytes (hpResults (releaseRef r h) ! q) = rcBytes (hpResults h ! q)"
  by (cases "r < length (hpResults h)"; cases "q = r";
      simp add: releaseRef_def Let_def list_update_beyond not_less)+

lemma two_holders:
  assumes "l < length (hpLeases h)" "k < length (hpLeases h)" "k \<noteq> l"
    and "hpLeases h ! l = Some r" "hpLeases h ! k = Some r"
  shows "2 \<le> holders r h"
proof -
  have "0 < count_list ((hpLeases h)[l := None]) (Some r)"
    using assms by (metis count_list_0_iff gr_zeroI length_list_update nth_list_update_neq nth_mem)
  then show ?thesis using count_list_update [OF assms(1), of None "Some r"] assms(4) by (simp add: holders_def)
qed

lemma leaseRelease_keeps:
  assumes "heap_ok h" "leaseLive l h" "leaseLive k h" "k \<noteq> l"
  shows "leaseRecords k (leaseRelease l h) = leaseRecords k h"
proof -
  obtain r q where r: "hpLeases h ! l = Some r" and q: "hpLeases h ! k = Some q"
    using assms(2,3) by (auto simp: leaseLive_def)
  have "q \<noteq> r \<or> 1 < rcRefs (hpResults h ! r)"
  proof (cases "q = r")
    case True
    then have "2 \<le> holders r h" using two_holders assms r q by (metis leaseLive_def)
    moreover have "cell_ok (holders r h) (hpResults h ! r)"
      using assms(1) leaseLive_cell(1) [OF assms(1,2) r] by (simp add: heap_ok_def)
    ultimately show ?thesis by (auto simp: cell_ok_def split: if_splits)
  qed simp
  then show ?thesis using r q assms(4)
    by (simp add: leaseRecords_def leaseRelease_def releaseRef_records)
qed

interpretation arrow_leases: lease_store heap_ok leaseLive leaseRecords leaseRelease
proof
  fix h :: "'b resultHeap" and k l
  assume h: "heap_ok h" "leaseLive l h"
  then show "heap_ok (leaseRelease l h)" by (simp add: leaseRelease_ok leaseLive_def)
  show "leaseLive k (leaseRelease l h) \<longleftrightarrow> leaseLive k h \<and> k \<noteq> l"
    using h by (auto simp: leaseLive_def leaseRelease_def nth_list_update split: if_splits)
qed (rule leaseRelease_keeps)

lemma acquire_facts:
  assumes "resultAcquire r h = (Inr l, h')"
  shows "l = length (hpLeases h)" and "hpLeases h' = hpLeases h @ [Some r]"
    and "rcRecords (hpResults h' ! q) = rcRecords (hpResults h ! q)"
    and "rcBytes (hpResults h' ! q) = rcBytes (hpResults h ! q)"
    and "length (hpResults h') = length (hpResults h)"
  using assms
  by (cases "r < length (hpResults h)"; cases "q = r";
      auto simp: resultAcquire_def Let_def list_update_beyond not_less split: if_splits)+

lemma acquire_leases:
  assumes "resultAcquire r h = (Inr l, h')"
  shows "leaseLive k h' \<longleftrightarrow> leaseLive k h \<or> k = l"
    and "leaseLive k h \<Longrightarrow> leaseRecords k h' = leaseRecords k h"
    and "rcRecords (hpResults h ! r) = Some rs \<Longrightarrow> leaseRecords l h' = Inr rs"
  using acquire_facts [OF assms]
  by (auto simp: leaseLive_def leaseRecords_def nth_append less_Suc_eq)

lemma leaseRelease_results:
  "length (hpResults (leaseRelease l h)) = length (hpResults h)"
  "rcBytes (hpResults (leaseRelease l h) ! q) = rcBytes (hpResults h ! q)"
  "length (hpLeases (leaseRelease l h)) = length (hpLeases h)"
  by (auto simp: leaseRelease_def releaseRef_fields releaseRef_sizes split: option.split)

lemma leaseAcquire_live:
  assumes "heap_ok h" and "leaseLive l h"
  obtains l' h' where "leaseAcquire l h = (Inr l', h')" and "heap_ok h'" and "leaseLive l' h'"
    and "leaseRecords l' h' = leaseRecords l h"
    and "\<And>k. leaseLive k h' \<longleftrightarrow> leaseLive k h \<or> k = l'"
    and "\<And>k. leaseLive k h \<Longrightarrow> leaseRecords k h' = leaseRecords k h" and "\<not> leaseLive l' h"
proof -
  obtain r where r: "hpLeases h ! l = Some r" using assms(2) by (auto simp: leaseLive_def)
  note cell = leaseLive_cell [OF assms r]
  obtain res h' where acq: "resultAcquire r h = (res, h')" by fastforce
  note ok = resultAcquire_ok [OF assms(1) cell(1) acq]
  obtain rs where rs: "rcRecords (hpResults h ! r) = Some rs" using cell(3) by auto
  have acq': "resultAcquire r h = (Inr (length (hpLeases h)), h')" using acq ok(2) cell(2) by simp
  show thesis
  proof (rule that [of "length (hpLeases h)" h'])
    show "leaseAcquire l h = (Inr (length (hpLeases h)), h')" using r acq' by (simp add: leaseAcquire_def)
    show "leaseRecords (length (hpLeases h)) h' = leaseRecords l h"
      using acquire_leases(3) [OF acq' rs] r rs by (simp add: leaseRecords_def)
  qed (use ok(1) acquire_leases [OF acq'] in \<open>auto simp: leaseLive_def\<close>)
qed

section \<open>Runs\<close>

text \<open>
  Any interleaving of the operations of all builders, results and leases. The label is the lease a
  step releases.
\<close>

inductive heapStep :: "('s, 'b) arrowLib \<Rightarrow> nat option \<Rightarrow> 'b resultHeap \<Rightarrow> 'b resultHeap \<Rightarrow> bool" for lib where
  stepWrite: "WriteRecord lib x b h = Inr (b', h') \<Longrightarrow> heapStep lib None h h'"
| stepFinish: "Finish lib b h = (res, b', h') \<Longrightarrow> heapStep lib None h h'"
| stepAbort: "Abort (b :: ('s, 'b) builder) h = (b', h') \<Longrightarrow> heapStep lib None h h'"
| stepAcquire: "r < length (hpResults h) \<Longrightarrow> resultAcquire r h = (res, h') \<Longrightarrow> heapStep lib None h h'"
| stepSibling: "l < length (hpLeases h) \<Longrightarrow> leaseAcquire l h = (res, h') \<Longrightarrow> heapStep lib None h h'"
| stepOwner: "r < length (hpResults h) \<Longrightarrow> heapStep lib None h (resultRelease r h)"
| stepRelease: "l < length (hpLeases h) \<Longrightarrow> heapStep lib (Some l) h (leaseRelease l h)"

inductive heapRun :: "('s, 'b) arrowLib \<Rightarrow> nat set \<Rightarrow> 'b resultHeap \<Rightarrow> 'b resultHeap \<Rightarrow> bool" for lib where
  runNil: "heapRun lib {} h h"
| runStep: "heapRun lib L h h' \<Longrightarrow> heapStep lib x h' h'' \<Longrightarrow> heapRun lib (L \<union> set_option x) h h''"

inductive_cases heapStepE: "heapStep lib x h h'"

lemma WriteRecord_heap:
  assumes "WriteRecord lib x b h = Inr (b', h')"
  shows "hpResults h' = hpResults h" and "hpLeases h' = hpLeases h" and "asResults (hpStats h') = asResults (hpStats h)"
    and "asBytes (hpStats h') = asBytes (hpStats h)" and "asLeases (hpStats h') = asLeases (hpStats h)"
  using assms by (auto simp: WriteRecord_def Let_def split: if_splits option.splits sum.splits)

lemma Abort_heap:
  assumes "Abort b h = (b', h')"
  shows "hpResults h' = hpResults h" and "hpLeases h' = hpLeases h" and "asResults (hpStats h') = asResults (hpStats h)"
    and "asBytes (hpStats h') = asBytes (hpStats h)" and "asLeases (hpStats h') = asLeases (hpStats h)"
  using assms by (auto simp: Abort_def split: if_splits)

lemma Finish_heap:
  assumes "Finish lib b h = (res, b', h')"
  shows "h' = h \<or> (\<exists>bs n m. hpResults h' = hpResults h @ [\<lparr>rcRefs = 1, rcOwnerReleased = False, rcRecords = Some bs, rcRows = m, rcBytes = n\<rparr>]
     \<and> hpLeases h' = hpLeases h \<and> asResults (hpStats h') = asResults (hpStats h) + 1
     \<and> asBytes (hpStats h') = asBytes (hpStats h) + n \<and> asLeases (hpStats h') = asLeases (hpStats h))"
  using assms by (auto simp: Finish_def Let_def split: if_splits option.splits)

lemma heap_ok_same:
  assumes "heap_ok h" and "hpResults h' = hpResults h" and "hpLeases h' = hpLeases h" and "asResults (hpStats h') = asResults (hpStats h)"
    and "asBytes (hpStats h') = asBytes (hpStats h)" and "asLeases (hpStats h') = asLeases (hpStats h)"
  shows "heap_ok h'"
  using assms by (simp add: heap_ok_def holders_def liveLeases_def retainedResults_def retainedBytes_def)

lemma Finish_ok:
  assumes "heap_ok h" and "Finish lib b h = (res, b', h')"
  shows "heap_ok h'"
proof (cases "h' = h")
  case False
  then obtain bs n m where h': "hpResults h' = hpResults h @ [\<lparr>rcRefs = 1, rcOwnerReleased = False, rcRecords = Some bs, rcRows = m, rcBytes = n\<rparr>]"
    and same: "hpLeases h' = hpLeases h" and st: "asResults (hpStats h') = asResults (hpStats h) + 1"
     "asBytes (hpStats h') = asBytes (hpStats h) + n" "asLeases (hpStats h') = asLeases (hpStats h)"
    using Finish_heap [OF assms(2)] by blast
  have "holders (length (hpResults h)) h' = 0"
    using assms(1) same unfolding heap_ok_def holders_def count_list_0_iff by (metis less_irrefl)
  moreover have "holders q h' = holders q h" for q using same by (simp add: holders_def)
  ultimately have "cell_ok (holders q h') (hpResults h' ! q)" if "q < length (hpResults h')" for q
    using that h' assms(1) by (cases "q = length (hpResults h)") (auto simp: heap_ok_def cell_ok_def nth_append)
  then show ?thesis using assms(1) h' same st
    by (auto simp: heap_ok_def liveLeases_def retainedResults_def retainedBytes_def less_SucI)
qed (use assms in simp)

lemma heapStep_ok:
  assumes "heapStep lib x h h'" and "heap_ok h"
  shows "heap_ok h'"
  using assms
proof cases
  case (stepSibling l res)
  show ?thesis
  proof (cases "hpLeases h ! l")
    case (Some r)
    then have "r < length (hpResults h)" using assms(2) stepSibling(2) by (metis heap_ok_def nth_mem)
    then show ?thesis using resultAcquire_ok(1) [OF assms(2)] stepSibling Some by (simp add: leaseAcquire_def)
  qed (use stepSibling assms in \<open>simp add: leaseAcquire_def\<close>)
next
  case (stepWrite y b b')
  show ?thesis by (rule heap_ok_same [OF assms(2) WriteRecord_heap [OF stepWrite(2)]])
next
  case (stepAbort b b')
  show ?thesis by (rule heap_ok_same [OF assms(2) Abort_heap [OF stepAbort(2)]])
qed (auto intro: Finish_ok resultAcquire_ok(1) resultRelease_ok leaseRelease_ok)

lemma heapStep_reads:
  assumes "heapStep lib x h h'" and "heap_ok h" and "leaseLive l h" and "x \<noteq> Some l"
  shows "leaseLive l h' \<and> leaseRecords l h' = leaseRecords l h"
  using assms(1)
proof cases
  case (stepWrite y b b')
  then show ?thesis using WriteRecord_heap [OF stepWrite(2)] assms(3) by (simp add: leaseLive_def leaseRecords_def cong: option.case_cong)
next
  case (stepAbort b b')
  then show ?thesis using Abort_heap [OF stepAbort(2)] assms(3) by (simp add: leaseLive_def leaseRecords_def cong: option.case_cong)
next
  case (stepFinish b res b')
  obtain r where r: "hpLeases h ! l = Some r" using assms(3) by (auto simp: leaseLive_def)
  note cell = leaseLive_cell(1) [OF assms(2,3) r]
  from Finish_heap [OF stepFinish(2)] show ?thesis
    using assms(3) r cell by (auto simp: leaseLive_def leaseRecords_def nth_append)
next
  case (stepAcquire r res)
  then show ?thesis
    using assms(3) acquire_leases resultAcquire_ok(3) [OF assms(2) stepAcquire(2,3)] resultAcquire_ok(2) [OF assms(2) stepAcquire(2,3)]
    by (metis not_le)
next
  case (stepSibling k res)
  show ?thesis
  proof (cases "leaseLive k h")
    case True
    then show ?thesis using leaseAcquire_live [OF assms(2) True] stepSibling(3) assms(3) by (metis Pair_inject)
  next
    case False
    then show ?thesis using stepSibling assms(3) by (simp add: leaseLive_def leaseAcquire_def)
  qed
next
  case (stepOwner r)
  obtain q where q: "hpLeases h ! l = Some q" using assms(3) by (auto simp: leaseLive_def)
  note cell = leaseLive_cell [OF assms(2,3) q]
  have "0 < holders q h" using assms(3) q holders_pos by (metis leaseLive_def)
  then have two: "rcOwnerReleased (hpResults h ! q) \<or> 1 < rcRefs (hpResults h ! q)"
    using assms(2) cell(1) by (auto simp: heap_ok_def cell_ok_def)
  show ?thesis
  proof (cases "rcOwnerReleased (hpResults h ! r)")
    case True
    then show ?thesis using stepOwner(2) assms(3) by (simp add: resultRelease_def)
  next
    case False
    let ?g = "h\<lparr>hpResults := (hpResults h)[r := (hpResults h ! r)\<lparr>rcOwnerReleased := True\<rparr>]\<rparr>"
    have "q \<noteq> r \<or> 1 < rcRefs (hpResults ?g ! r)" using two False cell(1) by auto
    from releaseRef_records [OF this] have "rcRecords (hpResults h' ! q) = rcRecords (hpResults ?g ! q)"
      using stepOwner(2) False by (simp add: resultRelease_def)
    also have "\<dots> = rcRecords (hpResults h ! q)" by (cases "q = r") (use stepOwner(3) in auto)
    finally show ?thesis using stepOwner(2) False assms(3) q
      by (simp add: leaseLive_def leaseRecords_def resultRelease_def releaseRef_fields)
  qed
next
  case (stepRelease k)
  then show ?thesis
  proof (cases "leaseLive k h")
    case True
    then show ?thesis using arrow_leases.release_live [OF assms(2) True, of l] arrow_leases.release_content [OF assms(2) True assms(3)] stepRelease assms(3,4) by auto
  next
    case False
    then show ?thesis using stepRelease assms(3) by (simp add: leaseLive_def leaseRelease_def)
  qed
qed

lemma heapRun_ok:
  assumes "heapRun lib L h h'" and "heap_ok h"
  shows "heap_ok h'"
  using assms by induction (auto intro: heapStep_ok)

lemma heapRun_reads:
  assumes "heapRun lib L h h'" and "heap_ok h" and "leaseLive l h" and "l \<notin> L"
  shows "leaseLive l h' \<and> leaseRecords l h' = leaseRecords l h"
  using assms
proof induction
  case (runStep L h h' x h'')
  then have ih: "leaseLive l h'" "leaseRecords l h' = leaseRecords l h" by auto
  have "x \<noteq> Some l" using runStep.prems(3) by auto
  from heapStep_reads [OF runStep.hyps(2) heapRun_ok [OF runStep.hyps(1) runStep.prems(1)] ih(1) this] ih(2)
  show ?case by simp
qed simp

lemma unheld_freed:
  assumes "heap_ok h" and "r < length (hpResults h)"
  shows "rcRecords (hpResults h ! r) = None \<longleftrightarrow> rcOwnerReleased (hpResults h ! r) \<and> Some r \<notin> set (hpLeases h)"
proof -
  have "cell_ok (holders r h) (hpResults h ! r)" using assms by (simp add: heap_ok_def)
  then show ?thesis by (auto simp: cell_ok_def holders_def count_list_0_iff split: if_splits)
qed

end
