(* ===== verification/Cache_Pool.thy ===== *)
theory Cache_Pool
  imports Lease_Heap Go_Results "HOL-Library.Word"
begin

text \<open>
  The node-wide cache of query results (\<^verbatim>\<open>internal/analytics/resultcache/pool.go\<close>). The pool and the
  heap of results are the state; each operation runs under the pool's mutex and is one step. A list
  element of the LRU list is its number and its value, which is never written after \<open>PushFront\<close>. The
  front of \<open>plLru\<close> is the most recently used entry. A scope handle is the scope's key. The counters
  of entries, bytes, evictions and stores count objects that exist and are \<open>int\<close>.
\<close>

section \<open>State\<close>

datatype constraintKind = ConstraintRuntime | ConstraintWorkspace | ConstraintNode

datatype storeOutcome = StoreStored | StoreOversized | StoreStale | StoreClosed

record cacheLimits =
  clRuntimeEntries :: int
  clRuntimeBytes :: int
  clWorkspaceEntries :: int
  clWorkspaceBytes :: int
  clNodeEntries :: int
  clNodeBytes :: int

definition validateLimits :: "cacheLimits \<Rightarrow> goError + unit" where
  "validateLimits l = checks
     [failIf (clRuntimeEntries l \<le> 0 \<or> clWorkspaceEntries l \<le> 0 \<or> clNodeEntries l \<le> 0
        \<or> clRuntimeBytes l \<le> 0 \<or> clWorkspaceBytes l \<le> 0 \<or> clNodeBytes l \<le> 0)
        ''query cache limits must be positive'' [],
      failIf (clRuntimeEntries l > clWorkspaceEntries l \<or> clWorkspaceEntries l > clNodeEntries l)
        ''query cache entry limits must satisfy runtime <= workspace <= node'' [],
      failIf (clRuntimeBytes l > clWorkspaceBytes l \<or> clWorkspaceBytes l > clNodeBytes l)
        ''query cache byte limits must satisfy runtime <= workspace <= node'' []]"

record scopeID =
  siWorkspace :: string
  siRuntime :: string

type_synonym token = "64 word"

record metadata =
  mdSQL :: string
  mdTotalRows :: int
  mdTotalRowsKnown :: bool
  mdWarnings :: "string list"

record usage =
  usEntries :: int
  usBytes :: int

record cacheEntry =
  ceComposite :: string
  ceKey :: string
  ceScope :: string
  ceResult :: nat
  ceHold :: nat
  ceMetadata :: metadata
  ceBytes :: int

type_synonym element = "nat \<times> cacheEntry"

record scopeState =
  ssId :: scopeID
  ssGeneration :: token
  ssClosed :: bool
  ssEntries :: "string list"
  ssUsage :: usage

record pool =
  plLimits :: cacheLimits
  plClosed :: bool
  plEntries :: "element goMap"
  plLru :: "element list"
  plScopes :: "scopeState goMap"
  plWorkspaces :: "usage goMap"
  plBytes :: int
  plEvictions :: "constraintKind \<Rightarrow> int"
  plStores :: "storeOutcome \<Rightarrow> int"
  plNext :: nat

type_synonym 'b cacheState = "pool \<times> 'b resultHeap"

definition newPool :: "cacheLimits \<Rightarrow> goError + pool" where
  "newPool limits = andThen (validateLimits limits) (\<lambda>_. Inr
     \<lparr>plLimits = limits, plClosed = False, plEntries = [], plLru = [], plScopes = [], plWorkspaces = [],
      plBytes = 0, plEvictions = (\<lambda>_. 0), plStores = (\<lambda>_. 0), plNext = 0\<rparr>)"

definition del :: "string \<Rightarrow> 'a goMap \<Rightarrow> 'a goMap" where
  "del k m = filter (\<lambda>(a, _). a \<noteq> k) m"

lemma get_del [simp]: "get (del k m) a = (if a = k then None else get m a)"
  by (induction m) (auto simp: del_def)

lemma goodMap_del [simp]: "goodMap m \<Longrightarrow> goodMap (del k m)"
  by (simp add: goodMap_def del_def distinct_map_filter)

lemma hasKey_del [simp]: "hasKey (del k m) a \<longleftrightarrow> a \<noteq> k \<and> hasKey m a"
  by (simp add: hasKey_def)

section \<open>Keys and sizes\<close>

definition nul :: string where
  "nul = [CHR 0x00]"

definition scopeKey :: "scopeID \<Rightarrow> string" where
  "scopeKey i = siWorkspace i @ nul @ siRuntime i"

definition compositeKey :: "string \<Rightarrow> string \<Rightarrow> string" where
  "compositeKey scope key = scope @ nul @ key"

definition metadataBytes :: "metadata \<Rightarrow> int" where
  "metadataBytes m = int (length (mdSQL m) + 16) + (\<Sum>w \<leftarrow> mdWarnings m. int (length w + 16))"

section \<open>Removal and eviction\<close>

definition workspaceLocked :: "string \<Rightarrow> pool \<Rightarrow> usage" where
  "workspaceLocked w p = (case get (plWorkspaces p) w of None \<Rightarrow> \<lparr>usEntries = 0, usBytes = 0\<rparr> | Some u \<Rightarrow> u)"

definition addUsage :: "int \<Rightarrow> int \<Rightarrow> usage \<Rightarrow> usage" where
  "addUsage n b u = \<lparr>usEntries = usEntries u + n, usBytes = usBytes u + b\<rparr>"

definition removeLocked :: "element option \<Rightarrow> constraintKind option \<Rightarrow> 'b cacheState \<Rightarrow> 'b cacheState" where
  "removeLocked element c s =
     (case element of
        None \<Rightarrow> s
      | Some (i, e) \<Rightarrow>
          let p = fst s;
              h = leaseRelease (ceHold e) (snd s);
              p1 = p\<lparr>plEntries := del (ceComposite e) (plEntries p),
                     plLru := filter (\<lambda>x. fst x \<noteq> i) (plLru p),
                     plBytes := plBytes p - ceBytes e\<rparr>;
              p2 = (case get (plScopes p) (ceScope e) of
                      None \<Rightarrow> p1
                    | Some st \<Rightarrow>
                        let w = siWorkspace (ssId st) in
                        p1\<lparr>plScopes := put (ceScope e)
                             (st\<lparr>ssEntries := filter (\<lambda>x. x \<noteq> ceComposite e) (ssEntries st),
                                 ssUsage := addUsage (- 1) (- ceBytes e) (ssUsage st)\<rparr>) (plScopes p),
                           plWorkspaces := put w (addUsage (- 1) (- ceBytes e) (workspaceLocked w p)) (plWorkspaces p)\<rparr>);
              p3 = (case c of None \<Rightarrow> p2 | Some k \<Rightarrow> p2\<lparr>plEvictions := (plEvictions p)(k := plEvictions p k + 1)\<rparr>)
          in (p3, h))"

text \<open>The walk from the back of the list; \<open>None\<close> is a nil dereference in the predicate.\<close>

fun oldestFrom :: "(cacheEntry \<Rightarrow> bool option) \<Rightarrow> element list \<Rightarrow> element option option" where
  "oldestFrom match [] = Some None"
| "oldestFrom match (x # xs) =
     (case match (snd x) of None \<Rightarrow> None | Some True \<Rightarrow> Some (Some x) | Some False \<Rightarrow> oldestFrom match xs)"

definition oldestLocked :: "(cacheEntry \<Rightarrow> bool option) \<Rightarrow> pool \<Rightarrow> element option option" where
  "oldestLocked match p = oldestFrom match (rev (plLru p))"

definition inScope :: "scopeID \<Rightarrow> cacheEntry \<Rightarrow> bool option" where
  "inScope i e = Some (ceScope e = scopeKey i)"

definition inWorkspace :: "pool \<Rightarrow> scopeID \<Rightarrow> cacheEntry \<Rightarrow> bool option" where
  "inWorkspace p i e =
     (case get (plScopes p) (ceScope e) of None \<Rightarrow> None | Some st \<Rightarrow> Some (siWorkspace (ssId st) = siWorkspace i))"

text \<open>A loop that removes entries while a budget is exceeded; it yields nothing when it panics or does not end.\<close>

partial_function (option) evictWhile :: "('s \<Rightarrow> bool) \<Rightarrow> ('s \<Rightarrow> 's option) \<Rightarrow> 's \<Rightarrow> 's option" where
  "evictWhile over evict s = (if over s then Option.bind (evict s) (evictWhile over evict) else Some s)"

declare evictWhile.simps [code]

definition exceeds :: "usage \<Rightarrow> int \<Rightarrow> int \<Rightarrow> bool" where
  "exceeds u entries bytes \<longleftrightarrow> usEntries u > entries \<or> usBytes u > bytes"

definition runtimeOver :: "string \<Rightarrow> pool \<Rightarrow> bool" where
  "runtimeOver k p = (case get (plScopes p) k of
     None \<Rightarrow> False | Some st \<Rightarrow> exceeds (ssUsage st) (clRuntimeEntries (plLimits p)) (clRuntimeBytes (plLimits p)))"

definition workspaceOver :: "string \<Rightarrow> pool \<Rightarrow> bool" where
  "workspaceOver w p = exceeds (workspaceLocked w p) (clWorkspaceEntries (plLimits p)) (clWorkspaceBytes (plLimits p))"

definition nodeOver :: "pool \<Rightarrow> bool" where
  "nodeOver p = exceeds \<lparr>usEntries = int (length (plEntries p)), usBytes = plBytes p\<rparr>
     (clNodeEntries (plLimits p)) (clNodeBytes (plLimits p))"

definition evictOldest :: "(pool \<Rightarrow> cacheEntry \<Rightarrow> bool option) \<Rightarrow> constraintKind \<Rightarrow> 'b cacheState \<Rightarrow> 'b cacheState option" where
  "evictOldest match c s = map_option (\<lambda>x. removeLocked x (Some c) s) (oldestLocked (match (fst s)) (fst s))"

definition enforceLocked :: "string \<Rightarrow> scopeID \<Rightarrow> 'b cacheState \<Rightarrow> 'b cacheState option" where
  "enforceLocked k i s =
     Option.bind (evictWhile (\<lambda>s. runtimeOver k (fst s)) (evictOldest (\<lambda>_. inScope i) ConstraintRuntime) s) (\<lambda>s.
     Option.bind (evictWhile (\<lambda>s. workspaceOver (siWorkspace i) (fst s)) (evictOldest (\<lambda>p. inWorkspace p i) ConstraintWorkspace) s) (\<lambda>s.
     evictWhile (\<lambda>s. nodeOver (fst s)) (evictOldest (\<lambda>_ _. Some True) ConstraintNode) s))"

section \<open>Operations\<close>

definition OpenScope :: "scopeID \<Rightarrow> pool \<Rightarrow> goError + string \<times> pool" where
  "OpenScope i p =
     (if siWorkspace i = [] \<or> siRuntime i = [] then Inl (Errorf ''result cache workspace and runtime IDs are required'' [])
      else if plClosed p then Inl (Errorf ''result cache pool is closed'' [])
      else if \<exists>st \<in> set_option (get (plScopes p) (scopeKey i)). \<not> ssClosed st
        then Inl (Errorf ''result cache scope already exists'' [])
      else Inr (scopeKey i, p\<lparr>plScopes := put (scopeKey i)
             \<lparr>ssId = i, ssGeneration = 0, ssClosed = False, ssEntries = [], ssUsage = \<lparr>usEntries = 0, usBytes = 0\<rparr>\<rparr> (plScopes p)\<rparr>))"

definition Generation :: "string \<Rightarrow> pool \<Rightarrow> token" where
  "Generation k p = (case get (plScopes p) k of None \<Rightarrow> 0 | Some st \<Rightarrow> ssGeneration st)"

definition ScopeStats :: "string \<Rightarrow> pool \<Rightarrow> usage" where
  "ScopeStats k p = (case get (plScopes p) k of None \<Rightarrow> \<lparr>usEntries = 0, usBytes = 0\<rparr> | Some st \<Rightarrow> ssUsage st)"

text \<open>The scope an operation may use: the pool is open and the scope is registered and open.\<close>

definition openState :: "string \<Rightarrow> pool \<Rightarrow> scopeState option" where
  "openState k p =
     (if plClosed p then None
      else case get (plScopes p) k of None \<Rightarrow> None | Some st \<Rightarrow> if ssClosed st then None else Some st)"

datatype lookupResult =
    LookupFailed goError
  | LookupMiss token
  | LookupReleased token
  | LookupHit nat metadata token

definition moveToFront :: "element \<Rightarrow> pool \<Rightarrow> pool" where
  "moveToFront x p = p\<lparr>plLru := x # filter (\<lambda>y. fst y \<noteq> fst x) (plLru p)\<rparr>"

definition LookupArrow :: "string \<Rightarrow> string \<Rightarrow> 'b cacheState \<Rightarrow> lookupResult \<times> 'b cacheState" where
  "LookupArrow k key s =
     (let p = fst s in
      case openState k p of
        None \<Rightarrow> (LookupFailed (Errorf ''result cache scope is closed'' []), s)
      | Some st \<Rightarrow>
          (case get (plEntries p) (compositeKey k key) of
             None \<Rightarrow> (LookupMiss (ssGeneration st), s)
           | Some x \<Rightarrow>
               (case resultAcquire (ceResult (snd x)) (snd s) of
                  (Inl _, h) \<Rightarrow> (LookupReleased (ssGeneration st), (p, h))
                | (Inr l, h) \<Rightarrow> (LookupHit l (ceMetadata (snd x)) (ssGeneration st), (moveToFront x p, h)))))"

definition countStore :: "storeOutcome \<Rightarrow> pool \<Rightarrow> pool" where
  "countStore out p = p\<lparr>plStores := (plStores p)(out := plStores p out + 1)\<rparr>"

definition pushEntry :: "scopeState \<Rightarrow> cacheEntry \<Rightarrow> pool \<Rightarrow> pool" where
  "pushEntry st e p =
     (let x = (plNext p, e); w = siWorkspace (ssId st) in
      p\<lparr>plLru := x # plLru p, plNext := plNext p + 1,
        plEntries := put (ceComposite e) x (plEntries p),
        plScopes := put (ceScope e)
          (st\<lparr>ssEntries := (if ceComposite e \<in> set (ssEntries st) then ssEntries st else ssEntries st @ [ceComposite e]),
              ssUsage := addUsage 1 (ceBytes e) (ssUsage st)\<rparr>) (plScopes p),
        plWorkspaces := put w (addUsage 1 (ceBytes e) (workspaceLocked w p)) (plWorkspaces p),
        plBytes := plBytes p + ceBytes e\<rparr>)"

definition StoreArrow :: "string \<Rightarrow> string \<Rightarrow> token \<Rightarrow> nat \<Rightarrow> metadata \<Rightarrow> 'b cacheState
    \<Rightarrow> (storeOutcome \<times> 'b cacheState) option" where
  "StoreArrow k key tok r m s =
     (let p = fst s; h = snd s in
      case openState k p of
        None \<Rightarrow> Some (StoreClosed, (countStore StoreClosed p, h))
      | Some st \<Rightarrow>
          if tok \<noteq> ssGeneration st then Some (StoreStale, (countStore StoreStale p, h))
          else
            let bytes = int (length key) + rcBytes (hpResults h ! r) + metadataBytes m; l = plLimits p in
            if bytes > clRuntimeBytes l \<or> bytes > clWorkspaceBytes l \<or> bytes > clNodeBytes l
            then Some (StoreOversized, (countStore StoreOversized p, h))
            else
              (case resultAcquire r h of
                 (Inl _, h') \<Rightarrow> Some (StoreClosed, (countStore StoreClosed p, h'))
               | (Inr hold, h') \<Rightarrow>
                   let c = compositeKey k key;
                       s1 = removeLocked (get (plEntries p) c) None (p, h');
                       e = \<lparr>ceComposite = c, ceKey = key, ceScope = k, ceResult = r, ceHold = hold, ceMetadata = m, ceBytes = bytes\<rparr>;
                       st1 = (case get (plScopes (fst s1)) k of None \<Rightarrow> st | Some st1 \<Rightarrow> st1);
                       s2 = (pushEntry st1 e (fst s1), snd s1)
                   in map_option (\<lambda>s3. (StoreStored, (countStore StoreStored (fst s3), snd s3))) (enforceLocked k (ssId st) s2)))"

definition Delete :: "string \<Rightarrow> string \<Rightarrow> 'b cacheState \<Rightarrow> 'b cacheState" where
  "Delete k key s =
     (case get (plScopes (fst s)) k of
        None \<Rightarrow> s
      | Some st \<Rightarrow> if ssClosed st then s else removeLocked (get (plEntries (fst s)) (compositeKey k key)) None s)"

text \<open>The loop over the entries of a scope; each key is looked up when the loop reaches it.\<close>

definition removeEntries :: "string list \<Rightarrow> 'b cacheState \<Rightarrow> 'b cacheState" where
  "removeEntries cs s = fold (\<lambda>c s. removeLocked (get (plEntries (fst s)) c) None s) cs s"

definition updateScope :: "string \<Rightarrow> (scopeState \<Rightarrow> scopeState) \<Rightarrow> pool \<Rightarrow> pool" where
  "updateScope k f p = (case get (plScopes p) k of None \<Rightarrow> p | Some st \<Rightarrow> p\<lparr>plScopes := put k (f st) (plScopes p)\<rparr>)"

definition Invalidate :: "string \<Rightarrow> 'b cacheState \<Rightarrow> 'b cacheState" where
  "Invalidate k s =
     (case get (plScopes (fst s)) k of
        None \<Rightarrow> s
      | Some st \<Rightarrow>
          if ssClosed st then s
          else let s' = removeEntries (ssEntries st) s in
               (updateScope k (\<lambda>st. st\<lparr>ssGeneration := ssGeneration st + 1\<rparr>) (fst s'), snd s'))"

text \<open>Closing a scope also writes the closed flag and the generation of a state no one reaches any more.\<close>

definition CloseScope :: "string \<Rightarrow> 'b cacheState \<Rightarrow> 'b cacheState" where
  "CloseScope k s =
     (case get (plScopes (fst s)) k of
        None \<Rightarrow> s
      | Some st \<Rightarrow>
          if ssClosed st then s
          else let s' = removeEntries (ssEntries st) s in
               ((fst s')\<lparr>plScopes := del k (plScopes (fst s'))\<rparr>, snd s'))"

definition ClosePool :: "'b cacheState \<Rightarrow> 'b cacheState" where
  "ClosePool s =
     (let p = fst s in
      if plClosed p then s
      else let s' = fold (\<lambda>x. removeLocked (Some x) None) (rev (plLru p)) (p\<lparr>plClosed := True\<rparr>, snd s) in
           ((fst s')\<lparr>plScopes := []\<rparr>, snd s'))"

record scopeSnapshot =
  snId :: scopeID
  snEntries :: int
  snBytes :: int
  snGeneration :: token

record poolSnapshot =
  psEntries :: int
  psBytes :: int
  psWorkspaces :: "usage goMap"
  psScopes :: "scopeSnapshot goMap"
  psEvictions :: "constraintKind \<Rightarrow> int"
  psStores :: "storeOutcome \<Rightarrow> int"

definition PoolStats :: "pool \<Rightarrow> poolSnapshot" where
  "PoolStats p = \<lparr>psEntries = int (length (plEntries p)), psBytes = plBytes p,
     psWorkspaces = filter (\<lambda>(_, u). usEntries u \<noteq> 0 \<or> usBytes u \<noteq> 0) (plWorkspaces p),
     psScopes = map (\<lambda>(k, st). (k, \<lparr>snId = ssId st, snEntries = usEntries (ssUsage st), snBytes = usBytes (ssUsage st),
       snGeneration = ssGeneration st\<rparr>)) (plScopes p),
     psEvictions = plEvictions p, psStores = plStores p\<rparr>"

end
