(* ===== verification/Cache_Invariants.thy ===== *)
theory Cache_Invariants
  imports Cache_Pool
begin

text \<open>
  The accounting invariant of the result cache: the index, the scopes' entry sets and every usage
  counter are what the LRU list says, and the cache holds one live lease per entry. Every operation
  keeps it, and the eviction loops end within the budgets.
\<close>

section \<open>Invariant\<close>

definition entryWs :: "pool \<Rightarrow> cacheEntry \<Rightarrow> string option" where
  "entryWs p e = map_option (siWorkspace \<circ> ssId) (get (plScopes p) (ceScope e))"

definition usageOf :: "element list \<Rightarrow> usage" where
  "usageOf xs = \<lparr>usEntries = int (length xs), usBytes = (\<Sum>x \<leftarrow> xs. ceBytes (snd x))\<rparr>"

abbreviation ofScope :: "string \<Rightarrow> element list \<Rightarrow> element list" where
  "ofScope k \<equiv> filter (\<lambda>x. ceScope (snd x) = k)"

abbreviation ofWs :: "pool \<Rightarrow> string \<Rightarrow> element list \<Rightarrow> element list" where
  "ofWs p w \<equiv> filter (\<lambda>x. entryWs p (snd x) = Some w)"

definition lru_ok :: "pool \<Rightarrow> bool" where
  "lru_ok p \<longleftrightarrow> distinct (map fst (plLru p)) \<and> distinct (map (ceComposite \<circ> snd) (plLru p))
     \<and> (\<forall>x \<in> set (plLru p). fst x < plNext p \<and> 0 \<le> ceBytes (snd x)
          \<and> ceComposite (snd x) = compositeKey (ceScope (snd x)) (ceKey (snd x)) \<and> hasKey (plScopes p) (ceScope (snd x)))"

definition index_ok :: "pool \<Rightarrow> bool" where
  "index_ok p \<longleftrightarrow> goodMap (plEntries p) \<and> set (plEntries p) = (\<lambda>x. (ceComposite (snd x), x)) ` set (plLru p)"

definition scope_ok :: "pool \<Rightarrow> string \<Rightarrow> scopeState \<Rightarrow> bool" where
  "scope_ok p k st \<longleftrightarrow> scopeKey (ssId st) = k \<and> \<not> ssClosed st \<and> distinct (ssEntries st)
     \<and> set (ssEntries st) = (ceComposite \<circ> snd) ` set (ofScope k (plLru p)) \<and> ssUsage st = usageOf (ofScope k (plLru p))"

definition pool_ok :: "pool \<Rightarrow> bool" where
  "pool_ok p \<longleftrightarrow> lru_ok p \<and> index_ok p
     \<and> goodMap (plScopes p) \<and> (\<forall>k st. get (plScopes p) k = Some st \<longrightarrow> scope_ok p k st)
     \<and> (\<forall>w. workspaceLocked w p = usageOf (ofWs p w (plLru p)))
     \<and> plBytes p = usBytes (usageOf (plLru p))
     \<and> (plClosed p \<longrightarrow> plLru p = [] \<and> plScopes p = [])"

definition cache_ok :: "'b cacheState \<Rightarrow> bool" where
  "cache_ok s \<longleftrightarrow> pool_ok (fst s) \<and> heap_ok (snd s) \<and> distinct (map (ceHold \<circ> snd) (plLru (fst s)))
     \<and> (\<forall>x \<in> set (plLru (fst s)). leaseLive (ceHold (snd x)) (snd s)
          \<and> hpLeases (snd s) ! ceHold (snd x) = Some (ceResult (snd x)))"

section \<open>Taking one element out\<close>

abbreviation without :: "element \<Rightarrow> element list \<Rightarrow> element list" where
  "without x \<equiv> filter (\<lambda>y. fst y \<noteq> fst x)"

lemma without_absent [simp]: "fst x \<notin> fst ` set xs \<Longrightarrow> without x xs = xs"
  by (induction xs) auto

lemma without_set: "distinct (map fst xs) \<Longrightarrow> x \<in> set xs \<Longrightarrow> set (without x xs) = set xs - {x}"
  by (auto simp: distinct_map inj_on_def)

lemma filter_without: "filter P (without x xs) = without x (filter P xs)"
  by (simp add: conj_commute)

lemma usageOf_without:
  "distinct (map fst xs) \<Longrightarrow> x \<in> set xs \<Longrightarrow> usageOf (without x xs) = addUsage (- 1) (- ceBytes (snd x)) (usageOf xs)"
proof (induction xs)
  case (Cons y xs)
  show ?case
  proof (cases "y = x")
    case True
    then have "without x xs = xs" using Cons.prems by (intro without_absent) simp
    then show ?thesis using True by (simp add: usageOf_def addUsage_def)
  next
    case False
    then have x: "x \<in> set xs" and d: "distinct (map fst xs)" using Cons.prems by auto
    have "fst y \<noteq> fst x" using Cons.prems x by force
    with Cons.IH [OF d x] show ?thesis by (simp add: usageOf_def addUsage_def)
  qed
qed simp

lemma usageOf_part:
  assumes "distinct (map fst xs)" and "x \<in> set xs"
  shows "usageOf (filter P (without x xs))
    = (if P x then addUsage (- 1) (- ceBytes (snd x)) (usageOf (filter P xs)) else usageOf (filter P xs))"
proof (cases "P x")
  case True
  have "usageOf (without x (filter P xs)) = addUsage (- 1) (- ceBytes (snd x)) (usageOf (filter P xs))"
    using assms True by (intro usageOf_without distinct_map_filter) simp_all
  then show ?thesis using True unfolding filter_without by simp
next
  case False
  have "fst x \<notin> fst ` set (filter P xs)"
    using assms False by (auto simp: distinct_map inj_on_def)
  then have "without x (filter P xs) = filter P xs" by (rule without_absent)
  then show ?thesis using False unfolding filter_without by simp
qed

lemma index_get:
  assumes "index_ok p" and "lru_ok p"
  shows "get (plEntries p) c = Some x \<longleftrightarrow> x \<in> set (plLru p) \<and> ceComposite (snd x) = c"
proof -
  have "get (plEntries p) c = Some x \<longleftrightarrow> (c, x) \<in> set (plEntries p)"
    using assms(1) by (simp add: index_ok_def goodMap_def)
  then show ?thesis using assms(1) by (auto simp: index_ok_def)
qed

lemma index_length:
  assumes "index_ok p" and "lru_ok p"
  shows "length (plEntries p) = length (plLru p)"
proof -
  have "distinct (plEntries p)" using assms(1) by (simp add: index_ok_def goodMap_def distinct_map)
  then have "length (plEntries p) = card (set (plEntries p))" by (simp add: distinct_card)
  also have "\<dots> = card (set (plLru p))"
    using assms(1) by (simp add: index_ok_def card_image inj_on_def)
  also have "\<dots> = length (plLru p)" using assms(2) by (simp add: lru_ok_def distinct_map distinct_card)
  finally show ?thesis .
qed

text \<open>What a removal does to each part of the pool.\<close>

lemma removeLocked_None [simp]: "removeLocked None c s = s"
  by (simp add: removeLocked_def)

lemma removeLocked_parts:
  assumes "removeLocked (Some x) c (p, h) = (p', h')"
  shows "h' = leaseRelease (ceHold (snd x)) h" and "plLru p' = without x (plLru p)"
    and "plEntries p' = del (ceComposite (snd x)) (plEntries p)" and "plBytes p' = plBytes p - ceBytes (snd x)"
    and "plLimits p' = plLimits p" "plClosed p' = plClosed p" "plNext p' = plNext p" "plStores p' = plStores p"
    and "map_option ssId (get (plScopes p') k) = map_option ssId (get (plScopes p) k)"
    and "map_option ssGeneration (get (plScopes p') k) = map_option ssGeneration (get (plScopes p) k)"
    and "get (plScopes p) (ceScope (snd x)) = Some st \<Longrightarrow>
       plScopes p' = put (ceScope (snd x)) (st\<lparr>ssEntries := filter (\<lambda>y. y \<noteq> ceComposite (snd x)) (ssEntries st),
         ssUsage := addUsage (- 1) (- ceBytes (snd x)) (ssUsage st)\<rparr>) (plScopes p)
       \<and> workspaceLocked w p' = (if w = siWorkspace (ssId st) then addUsage (- 1) (- ceBytes (snd x)) (workspaceLocked w p)
           else workspaceLocked w p)"
    and "plEvictions p' = (case c of None \<Rightarrow> plEvictions p | Some k \<Rightarrow> (plEvictions p)(k := plEvictions p k + 1))"
  using assms
  by (cases x; cases "get (plScopes p) (ceScope (snd x))"; cases c;
      clarsimp simp: removeLocked_def Let_def workspaceLocked_def)+

lemma entryWs_cong:
  assumes "\<And>k. map_option ssId (get (plScopes p') k) = map_option ssId (get (plScopes p) k)"
  shows "entryWs p' = entryWs p"
proof
  fix e
  have "entryWs q e = map_option siWorkspace (map_option ssId (get (plScopes q) (ceScope e)))" for q
    by (simp add: entryWs_def option.map_comp)
  then show "entryWs p' e = entryWs p e" using assms by simp
qed

lemma hasKey_cong:
  assumes "\<And>k. map_option f (get m' k) = map_option f (get m k)"
  shows "hasKey m' k \<longleftrightarrow> hasKey m k"
  using assms [of k] by (cases "get m k"; cases "get m' k") (auto simp: hasKey_def)

lemma lru_scope:
  assumes "pool_ok p" and "x \<in> set (plLru p)"
  obtains st where "get (plScopes p) (ceScope (snd x)) = Some st" and "scope_ok p (ceScope (snd x)) st"
  using assms by (auto simp: pool_ok_def lru_ok_def hasKey_def)

lemma removeLocked_pool_ok:
  assumes ok: "pool_ok p" and x: "x \<in> set (plLru p)" and rm: "removeLocked (Some x) c (p, h) = (p', h')"
  shows "pool_ok p'"
proof -
  note parts = removeLocked_parts [OF rm]
  let ?k = "ceScope (snd x)" and ?c = "ceComposite (snd x)"
  have lru: "lru_ok p" and idx: "index_ok p" using ok by (simp_all add: pool_ok_def)
  have d: "distinct (map fst (plLru p))" using lru by (simp add: lru_ok_def)
  have dc: "distinct (map (ceComposite \<circ> snd) (plLru p))" using lru by (simp add: lru_ok_def)
  have set': "set (plLru p') = set (plLru p) - {x}" using without_set [OF d x] parts(2) by simp
  obtain st where st: "get (plScopes p) ?k = Some st" "scope_ok p ?k st" using ok x by (rule lru_scope)
  note sc = parts(11) [OF st(1)]
  have keys: "hasKey (plScopes p') a \<longleftrightarrow> hasKey (plScopes p) a" for a by (rule hasKey_cong [OF parts(9)])
  have "lru_ok p'"
    unfolding lru_ok_def parts(2,7) using lru by (auto simp: lru_ok_def keys distinct_map_filter)
  moreover have "index_ok p'"
  proof -
    have "(a, b) \<in> set (plEntries p') \<longleftrightarrow> (a, b) \<in> (\<lambda>y. (ceComposite (snd y), y)) ` set (plLru p')" for a b
      using idx dc x unfolding parts(3) set' by (auto simp: del_def index_ok_def distinct_map inj_on_def)
    then show ?thesis using idx unfolding index_ok_def parts(3) by (auto simp del: in_set_conv_nth)
  qed
  moreover have "scope_ok p' k st'" if g: "get (plScopes p') k = Some st'" for k st'
  proof (cases "k = ?k")
    case True
    have st': "st' = st\<lparr>ssEntries := filter (\<lambda>y. y \<noteq> ?c) (ssEntries st), ssUsage := addUsage (- 1) (- ceBytes (snd x)) (ssUsage st)\<rparr>"
      using g sc True by simp
    have "set (ssEntries st') = (ceComposite \<circ> snd) ` set (ofScope ?k (plLru p'))"
      using st(2) dc x set' unfolding st' by (auto simp: scope_ok_def distinct_map inj_on_def)
    moreover have "ssUsage st' = usageOf (ofScope ?k (plLru p'))"
      using usageOf_part [OF d x, of "\<lambda>x. ceScope (snd x) = ?k"] st(2) unfolding st' parts(2) by (simp add: scope_ok_def)
    ultimately show ?thesis using st(2) True by (simp add: scope_ok_def st')
  next
    case False
    then have "get (plScopes p) k = Some st'" using g sc by simp
    then have s: "scope_ok p k st'" using ok by (simp add: pool_ok_def)
    have "fst x \<notin> fst ` set (ofScope k (plLru p))" using d x False by (auto simp: distinct_map inj_on_def)
    then have "ofScope k (plLru p') = ofScope k (plLru p)" unfolding parts(2) filter_without by (rule without_absent)
    then show ?thesis using s unfolding scope_ok_def by simp
  qed
  moreover have "workspaceLocked w p' = usageOf (ofWs p' w (plLru p'))" for w
  proof -
    have "entryWs p (snd x) = Some (siWorkspace (ssId st))" using st(1) by (simp add: entryWs_def)
    moreover have "entryWs p' = entryWs p" by (rule entryWs_cong [OF parts(9)])
    ultimately show ?thesis
      using sc [THEN conjunct2, of w] ok usageOf_part [OF d x, of "\<lambda>x. entryWs p (snd x) = Some w"]
      unfolding parts(2) by (auto simp: pool_ok_def)
  qed
  moreover have "plBytes p' = usBytes (usageOf (plLru p'))"
    using ok usageOf_without [OF d x] unfolding parts(2,4) by (simp add: pool_ok_def addUsage_def)
  moreover have "goodMap (plScopes p')" using sc ok by (simp add: pool_ok_def goodMap_put)
  moreover have "\<not> plClosed p'" using ok x by (auto simp: pool_ok_def parts(6))
  ultimately show ?thesis by (simp add: pool_ok_def)
qed

lemma removeLocked_cache_ok:
  assumes ok: "cache_ok (p, h)" and x: "x \<in> set (plLru p)" and rm: "removeLocked (Some x) c (p, h) = (p', h')"
  shows "cache_ok (p', h')"
    and "leaseLive l h' \<longleftrightarrow> leaseLive l h \<and> l \<noteq> ceHold (snd x)"
    and "leaseLive l h \<Longrightarrow> l \<noteq> ceHold (snd x) \<Longrightarrow> leaseRecords l h' = leaseRecords l h"
proof -
  note parts = removeLocked_parts [OF rm]
  have h: "heap_ok h" "leaseLive (ceHold (snd x)) h" and d: "distinct (map fst (plLru p))"
    and dh: "distinct (map (ceHold \<circ> snd) (plLru p))"
    using ok x by (auto simp: cache_ok_def pool_ok_def lru_ok_def)
  show live: "leaseLive l h' \<longleftrightarrow> leaseLive l h \<and> l \<noteq> ceHold (snd x)" for l
    unfolding parts(1) by (rule arrow_leases.release_live [OF h])
  show "leaseLive l h \<Longrightarrow> l \<noteq> ceHold (snd x) \<Longrightarrow> leaseRecords l h' = leaseRecords l h"
    unfolding parts(1) by (rule arrow_leases.release_content [OF h])
  have "pool_ok p'" using removeLocked_pool_ok [OF _ x rm] ok by (simp add: cache_ok_def)
  moreover have "heap_ok h'" unfolding parts(1) by (rule arrow_leases.release_ok [OF h])
  moreover have "leaseLive (ceHold (snd y)) h' \<and> hpLeases h' ! ceHold (snd y) = Some (ceResult (snd y))"
    if y: "y \<in> set (plLru p')" for y
  proof -
    have "y \<in> set (plLru p)" "y \<noteq> x" using y without_set [OF d x] parts(2) by auto
    then have ne: "ceHold (snd y) \<noteq> ceHold (snd x)" using dh x by (auto simp: distinct_map inj_on_def)
    then show ?thesis using ok \<open>y \<in> set (plLru p)\<close> live [of "ceHold (snd y)"]
      by (auto simp: cache_ok_def parts(1) leaseRelease_def split: option.split)
  qed
  ultimately show "cache_ok (p', h')"
    using dh by (simp add: cache_ok_def parts(2) distinct_map_filter)
qed

section \<open>Eviction\<close>

lemma evictWhile_ends:
  fixes m :: "'s \<Rightarrow> nat"
  assumes "Inv s" and step: "\<And>s. Inv s \<Longrightarrow> over s \<Longrightarrow> \<exists>s'. evict s = Some s' \<and> Inv s' \<and> m s' < m s"
  shows "\<exists>s'. evictWhile over evict s = Some s' \<and> Inv s' \<and> \<not> over s'"
  using assms(1)
proof (induction "m s" arbitrary: s rule: less_induct)
  case less
  show ?case
  proof (cases "over s")
    case True
    then obtain s' where s': "evict s = Some s'" "Inv s'" "m s' < m s" using step less.prems by blast
    from less.hyps [OF s'(3,2)] show ?thesis using s'(1) True by (subst evictWhile.simps) auto
  next
    case False
    then show ?thesis using less.prems by (subst evictWhile.simps) auto
  qed
qed

lemma oldestFrom_total: "\<forall>x \<in> set xs. match (snd x) \<noteq> None \<Longrightarrow> \<exists>r. oldestFrom match xs = Some r"
  by (induction xs) (auto split: option.splits bool.splits)

lemma oldestFrom_found:
  assumes "\<forall>x \<in> set xs. match (snd x) \<noteq> None" and "\<exists>y \<in> set xs. match (snd y) = Some True"
  shows "\<exists>y \<in> set xs. oldestFrom match (xs @ ys) = Some (Some y) \<and> match (snd y) = Some True"
  using assms by (induction xs) (auto split: option.splits bool.splits)

text \<open>The front is the most recently used; the entry found is the one closest to the back.\<close>

lemma oldestFrom_is_last:
  assumes "oldestFrom match xs = Some (Some y)"
  shows "\<exists>us vs. xs = us @ y # vs \<and> match (snd y) = Some True \<and> (\<forall>u \<in> set us. match (snd u) = Some False)"
  using assms
proof (induction xs)
  case (Cons x xs)
  show ?case
  proof (cases "match (snd x) = Some True")
    case True
    then have "y = x" using Cons.prems by simp
    then show ?thesis using True by (intro exI [of _ "[]"] exI [of _ xs]) simp
  next
    case False
    then have f: "match (snd x) = Some False" "oldestFrom match xs = Some (Some y)"
      using Cons.prems by (auto split: option.splits bool.splits)
    then obtain us vs where "xs = us @ y # vs" "match (snd y) = Some True" "\<forall>u \<in> set us. match (snd u) = Some False"
      using Cons.IH by blast
    then show ?thesis using f(1) by (intro exI [of _ "x # us"] exI [of _ vs]) simp
  qed
qed simp

definition evicted :: "'b cacheState \<Rightarrow> 'b cacheState \<Rightarrow> bool" where
  "evicted s s' \<longleftrightarrow> cache_ok s' \<and> (\<exists>K. plLru (fst s') = filter K (plLru (fst s)))
     \<and> plLimits (fst s') = plLimits (fst s) \<and> plClosed (fst s') = plClosed (fst s) \<and> plNext (fst s') = plNext (fst s)
     \<and> (\<forall>k. map_option ssId (get (plScopes (fst s')) k) = map_option ssId (get (plScopes (fst s)) k))
     \<and> (\<forall>k. map_option ssGeneration (get (plScopes (fst s')) k) = map_option ssGeneration (get (plScopes (fst s)) k))
     \<and> (\<forall>l. leaseLive l (snd s') \<longleftrightarrow> leaseLive l (snd s) \<and> (\<forall>x \<in> set (plLru (fst s)). ceHold (snd x) = l \<longrightarrow> x \<in> set (plLru (fst s'))))
     \<and> (\<forall>l. leaseLive l (snd s') \<longrightarrow> leaseRecords l (snd s') = leaseRecords l (snd s))"

lemma evicted_refl: "cache_ok s \<Longrightarrow> evicted s s"
  by (auto simp: evicted_def intro: exI [of _ "\<lambda>_. True"])

lemma evicted_step:
  assumes "evicted s s'" and x: "x \<in> set (plLru (fst s'))"
  shows "evicted s (removeLocked (Some x) c s')"
proof -
  obtain p' h' where s': "s' = (p', h')" by (cases s')
  obtain p'' h'' where rm: "removeLocked (Some x) c (p', h') = (p'', h'')" by fastforce
  have ok: "cache_ok (p', h')" and x': "x \<in> set (plLru p')" using assms s' by (auto simp: evicted_def)
  note parts = removeLocked_parts [OF rm] and keeps = removeLocked_cache_ok [OF ok x' rm]
  have d: "distinct (map fst (plLru p'))" and dh: "distinct (map (ceHold \<circ> snd) (plLru p'))"
    using ok by (simp_all add: cache_ok_def pool_ok_def lru_ok_def)
  obtain K where K: "plLru p' = filter K (plLru (fst s))" using assms(1) s' by (auto simp: evicted_def)
  have set'': "set (plLru p'') = set (plLru p') - {x}" using without_set [OF d x'] parts(2) by simp
  have "leaseLive l h'' \<longleftrightarrow> leaseLive l (snd s) \<and> (\<forall>y \<in> set (plLru (fst s)). ceHold (snd y) = l \<longrightarrow> y \<in> set (plLru p''))" for l
  proof -
    have *: "leaseLive l h' \<longleftrightarrow> leaseLive l (snd s) \<and> (\<forall>y \<in> set (plLru (fst s)). ceHold (snd y) = l \<longrightarrow> y \<in> set (plLru p'))"
      using assms(1) s' by (auto simp: evicted_def)
    have inj: "y = x" if "y \<in> set (plLru p')" "ceHold (snd y) = ceHold (snd x)" for y
      using dh x' that by (auto simp: distinct_map inj_on_def)
    have "x \<in> set (plLru (fst s))" using x' K by simp
    then show ?thesis using keeps(2) [of l] * inj unfolding set'' by auto
  qed
  moreover have "\<exists>K. plLru p'' = filter K (plLru (fst s))"
    using K unfolding parts(2) by (auto simp: conj_commute)
  moreover have "leaseRecords l h'' = leaseRecords l (snd s)" if "leaseLive l h''" for l
    using that keeps(2,3) [of l] assms(1) s' by (auto simp: evicted_def)
  ultimately show ?thesis
    using assms(1) keeps(1) parts(5,6,7,9,10) unfolding s' rm evicted_def by simp
qed

text \<open>Within a scope an entry only goes when every entry used less recently has gone.\<close>

definition older :: "element list \<Rightarrow> element \<Rightarrow> element \<Rightarrow> bool" where
  "older xs a b \<longleftrightarrow> (\<exists>us vs ws. xs = us @ a # vs @ b # ws)"

definition recency :: "pool \<Rightarrow> pool \<Rightarrow> bool" where
  "recency p p' \<longleftrightarrow> (\<forall>a b. older (plLru p) a b \<longrightarrow> ceScope (snd a) = ceScope (snd b) \<longrightarrow> b \<in> set (plLru p') \<longrightarrow> a \<in> set (plLru p'))"

lemma older_filter: "older xs a b \<Longrightarrow> K a \<Longrightarrow> K b \<Longrightarrow> older (filter K xs) a b"
  unfolding older_def by (metis filter.simps(2) filter_append)

lemma older_in: "older xs a b \<Longrightarrow> a \<in> set xs \<and> b \<in> set xs"
  by (auto simp: older_def)

lemma recency_refl: "recency p p"
  using older_in by (auto simp: recency_def)

lemma recency_trans:
  assumes "recency p p'" and "recency p' p''" and "plLru p' = filter K (plLru p)" and "set (plLru p'') \<subseteq> set (plLru p')"
  shows "recency p p''"
  unfolding recency_def
proof (intro allI impI)
  fix a b assume h: "older (plLru p) a b" "ceScope (snd a) = ceScope (snd b)" "b \<in> set (plLru p'')"
  then have b: "b \<in> set (plLru p')" using assms(4) by blast
  then have "a \<in> set (plLru p')" using assms(1) h unfolding recency_def by blast
  then have "older (plLru p') a b" using b h(1) assms(3) by (simp add: older_filter)
  then show "a \<in> set (plLru p'')" using assms(2) h unfolding recency_def by blast
qed

lemma recency_remove:
  assumes d: "distinct (map fst (plLru p))" and lru: "plLru p' = without y (plLru p)"
    and old: "oldestLocked match p = Some (Some y)"
    and scoped: "\<And>e f. ceScope e = ceScope f \<Longrightarrow> match e = match f"
  shows "recency p p'"
  unfolding recency_def
proof (intro allI impI)
  fix a b assume h: "older (plLru p) a b" "ceScope (snd a) = ceScope (snd b)" "b \<in> set (plLru p')"
  obtain us vs where y: "rev (plLru p) = us @ y # vs" "match (snd y) = Some True" "\<forall>u \<in> set us. match (snd u) = Some False"
    using oldestFrom_is_last [OF old [unfolded oldestLocked_def]] by blast
  have y_in: "y \<in> set (plLru p)" using y(1) by (metis in_set_conv_decomp set_rev)
  have set': "set (plLru p') = set (plLru p) - {y}" unfolding lru by (rule without_set [OF d y_in])
  show "a \<in> set (plLru p')"
  proof (rule ccontr)
    assume "a \<notin> set (plLru p')"
    then have ay: "a = y" using older_in [OF h(1)] set' by blast
    obtain us' vs' ws where split: "plLru p = us' @ a # vs' @ b # ws" using h(1) by (auto simp: older_def)
    have "plLru p = rev vs @ y # rev us" using arg_cong [OF y(1), of rev] by simp
    moreover have "distinct (plLru p)" using d by (simp add: distinct_map)
    ultimately have "rev us = vs' @ b # ws"
      using split ay by (metis append_Cons_eq_iff distinct_append distinct.simps(2) not_distinct_conv_prefix
        disjoint_iff list.set_intros(1))
    then have "b \<in> set us" by (metis in_set_conv_decomp set_rev)
    then show False using y(2,3) scoped [OF h(2)] ay by simp
  qed
qed

lemma evict_loop:
  fixes s0 :: "'b cacheState" and x0 :: element
  defines "Inv \<equiv> \<lambda>s. evicted s0 s \<and> recency (fst s0) (fst s) \<and> (\<exists>ys. plLru (fst s) = x0 # ys)"
  assumes "Inv s"
    and found: "\<And>s. Inv s \<Longrightarrow> over s \<Longrightarrow> \<exists>y \<in> set (tl (plLru (fst s))). match (fst s) (snd y) = Some True"
    and total: "\<And>s y. Inv s \<Longrightarrow> y \<in> set (plLru (fst s)) \<Longrightarrow> match (fst s) (snd y) \<noteq> None"
    and scoped: "\<And>s e f. Inv s \<Longrightarrow> ceScope e = ceScope f \<Longrightarrow> match (fst s) e = match (fst s) f"
  shows "\<exists>s'. evictWhile over (evictOldest match c) s = Some s' \<and> Inv s' \<and> \<not> over s'"
proof (rule evictWhile_ends [where m = "\<lambda>s. length (plLru (fst s))"])
  fix t :: "'b cacheState"
  assume t: "Inv t" "over t"
  then obtain ys where ys: "plLru (fst t) = x0 # ys" by (auto simp: Inv_def)
  have "\<exists>y \<in> set (rev ys). oldestFrom (match (fst t)) (rev ys @ [x0]) = Some (Some y) \<and> match (fst t) (snd y) = Some True"
    using found [OF t] total [OF t(1)] ys by (intro oldestFrom_found) auto
  then obtain y where y: "y \<in> set ys" "oldestLocked (match (fst t)) (fst t) = Some (Some y)"
    by (auto simp: oldestLocked_def ys)
  have d: "distinct (map fst (plLru (fst t)))" using t(1) by (simp add: Inv_def evicted_def cache_ok_def pool_ok_def lru_ok_def)
  have in_lru: "y \<in> set (plLru (fst t))" using y(1) ys by simp
  have lru: "plLru (fst (removeLocked (Some y) (Some c) t)) = without y (plLru (fst t))"
    using removeLocked_parts(2) [of y "Some c" "fst t" "snd t"] by (metis prod.collapse)
  have "fst x0 \<notin> fst ` set ys" using d by (simp add: ys)
  then have "fst y \<noteq> fst x0" using y(1) by (metis imageI)
  then have front: "\<exists>zs. plLru (fst (removeLocked (Some y) (Some c) t)) = x0 # zs" using lru ys by simp
  have "length (plLru (fst (removeLocked (Some y) (Some c) t))) < length (plLru (fst t))"
    using in_lru unfolding lru by (intro length_filter_less) auto
  moreover have "recency (fst s0) (fst (removeLocked (Some y) (Some c) t))"
  proof -
    obtain K where K: "plLru (fst t) = filter K (plLru (fst s0))" using t(1) by (auto simp: Inv_def evicted_def)
    have "recency (fst t) (fst (removeLocked (Some y) (Some c) t))"
      using scoped [OF t(1)] by (rule recency_remove [OF d lru y(2)])
    then show ?thesis using t(1) recency_trans [OF _ _ K] lru by (auto simp: Inv_def)
  qed
  ultimately show "\<exists>s'. evictOldest match c t = Some s' \<and> Inv s' \<and> length (plLru (fst s')) < length (plLru (fst t))"
    using y(2) front evicted_step [OF _ in_lru] t(1) by (simp add: evictOldest_def Inv_def)
qed (rule assms(2))

section \<open>Budgets\<close>

definition budgets :: "pool \<Rightarrow> bool" where
  "budgets p \<longleftrightarrow> validateLimits (plLimits p) = Inr () \<and> (\<forall>k. \<not> runtimeOver k p) \<and> (\<forall>w. \<not> workspaceOver w p) \<and> \<not> nodeOver p"

text \<open>Over a budget the part has an entry besides a front that fits it alone.\<close>

lemma exceeds_other:
  assumes "exceeds (usageOf (filter P (x0 # ys))) n b" and "1 \<le> n" and "0 \<le> b" and "ceBytes (snd x0) \<le> b"
  shows "\<exists>y \<in> set ys. P y"
proof (rule ccontr)
  assume "\<not> ?thesis"
  then have "filter P ys = []" by (simp add: filter_empty_conv)
  then show False using assms by (auto simp: exceeds_def usageOf_def split: if_splits)
qed

lemma usageOf_filter_le:
  assumes "\<forall>x \<in> set xs. 0 \<le> ceBytes (snd x)"
  shows "exceeds (usageOf (filter P (filter K xs))) n b \<Longrightarrow> exceeds (usageOf (filter P xs)) n b"
proof -
  have "usEntries (usageOf (filter P (filter K xs))) \<le> usEntries (usageOf (filter P xs))
      \<and> usBytes (usageOf (filter P (filter K xs))) \<le> usBytes (usageOf (filter P xs))"
    using assms by (induction xs) (auto simp: usageOf_def)
  then show "exceeds (usageOf (filter P (filter K xs))) n b \<Longrightarrow> exceeds (usageOf (filter P xs)) n b"
    by (auto simp: exceeds_def)
qed

lemma runtimeOver_usage:
  assumes "pool_ok p"
  shows "runtimeOver k p \<longleftrightarrow> hasKey (plScopes p) k
    \<and> exceeds (usageOf (ofScope k (plLru p))) (clRuntimeEntries (plLimits p)) (clRuntimeBytes (plLimits p))"
  using assms by (auto simp: runtimeOver_def pool_ok_def scope_ok_def hasKey_def split: option.split)

lemma workspaceOver_usage:
  assumes "pool_ok p"
  shows "workspaceOver w p \<longleftrightarrow>
    exceeds (usageOf (ofWs p w (plLru p))) (clWorkspaceEntries (plLimits p)) (clWorkspaceBytes (plLimits p))"
  using assms by (simp add: workspaceOver_def pool_ok_def)

lemma nodeOver_usage:
  assumes "pool_ok p"
  shows "nodeOver p \<longleftrightarrow> exceeds (usageOf (plLru p)) (clNodeEntries (plLimits p)) (clNodeBytes (plLimits p))"
  using assms index_length [of p] by (simp add: nodeOver_def pool_ok_def usageOf_def)

lemma limits_positive:
  assumes "validateLimits l = Inr ()"
  shows "1 \<le> clRuntimeEntries l" "1 \<le> clWorkspaceEntries l" "1 \<le> clNodeEntries l"
    "0 < clRuntimeBytes l" "0 < clWorkspaceBytes l" "0 < clNodeBytes l"
  using assms by (simp_all add: validateLimits_def andThen_eq_Inr)

lemma evicted_pool:
  assumes "evicted s s'"
  shows "pool_ok (fst s')" "plLimits (fst s') = plLimits (fst s)" "entryWs (fst s') = entryWs (fst s)"
    "hasKey (plScopes (fst s')) k \<longleftrightarrow> hasKey (plScopes (fst s)) k"
  using assms entryWs_cong [of "fst s'" "fst s"] hasKey_cong [of ssId "plScopes (fst s')" "plScopes (fst s)"]
  by (auto simp: evicted_def cache_ok_def)

lemma evicted_fits:
  assumes ev: "evicted s s'" and ok: "cache_ok s"
  shows "runtimeOver k (fst s') \<Longrightarrow> runtimeOver k (fst s)"
    and "workspaceOver w (fst s') \<Longrightarrow> workspaceOver w (fst s)" and "nodeOver (fst s') \<Longrightarrow> nodeOver (fst s)"
proof -
  have p: "pool_ok (fst s)" using ok by (simp add: cache_ok_def)
  then have nn: "\<forall>x \<in> set (plLru (fst s)). 0 \<le> ceBytes (snd x)" by (simp add: pool_ok_def lru_ok_def)
  obtain K where K: "plLru (fst s') = filter K (plLru (fst s))" using ev by (auto simp: evicted_def)
  note e = evicted_pool [OF ev]
  show "runtimeOver k (fst s') \<Longrightarrow> runtimeOver k (fst s)"
    unfolding runtimeOver_usage [OF p] runtimeOver_usage [OF e(1)] K e(2,4) using usageOf_filter_le [OF nn] by blast
  show "workspaceOver w (fst s') \<Longrightarrow> workspaceOver w (fst s)"
    unfolding workspaceOver_usage [OF p] workspaceOver_usage [OF e(1)] K e(2,3) using usageOf_filter_le [OF nn] by blast
  show "nodeOver (fst s') \<Longrightarrow> nodeOver (fst s)"
    unfolding nodeOver_usage [OF p] nodeOver_usage [OF e(1)] K e(2)
    using usageOf_filter_le [OF nn, of "\<lambda>_. True" K] by simp
qed

lemma evicted_leases:
  assumes "evicted s s'"
  shows "leaseLive l (snd s') \<longleftrightarrow> leaseLive l (snd s) \<and> (\<forall>x \<in> set (plLru (fst s)). ceHold (snd x) = l \<longrightarrow> x \<in> set (plLru (fst s')))"
    and "leaseLive l (snd s') \<Longrightarrow> leaseRecords l (snd s') = leaseRecords l (snd s)"
    and "set (plLru (fst s')) \<subseteq> set (plLru (fst s))"
  using assms by (auto simp: evicted_def)

lemma evicted_same:
  assumes "evicted s s'"
  shows "cache_ok s'" "plLimits (fst s') = plLimits (fst s)" "plClosed (fst s') = plClosed (fst s)" "plNext (fst s') = plNext (fst s)"
    and "map_option ssId (get (plScopes (fst s')) k) = map_option ssId (get (plScopes (fst s)) k)"
    and "map_option ssGeneration (get (plScopes (fst s')) k) = map_option ssGeneration (get (plScopes (fst s)) k)"
  using assms by (simp_all add: evicted_def)

lemma evicted_trans:
  assumes "evicted s s'" and "evicted s' s''"
  shows "evicted s s''"
proof -
  obtain K K' where K: "plLru (fst s') = filter K (plLru (fst s))" "plLru (fst s'') = filter K' (plLru (fst s'))"
    using assms by (auto simp: evicted_def)
  then have "plLru (fst s'') = filter (\<lambda>x. K x \<and> K' x) (plLru (fst s))" by (simp add: conj_commute)
  then have "\<exists>K. plLru (fst s'') = filter K (plLru (fst s))" by blast
  moreover have "leaseLive l (snd s'') \<longleftrightarrow>
      leaseLive l (snd s) \<and> (\<forall>x \<in> set (plLru (fst s)). ceHold (snd x) = l \<longrightarrow> x \<in> set (plLru (fst s'')))" for l
    using evicted_leases(3) [OF assms(1)] evicted_leases(3) [OF assms(2)]
    unfolding evicted_leases(1) [OF assms(1)] evicted_leases(1) [OF assms(2)] by blast
  moreover have "leaseRecords l (snd s'') = leaseRecords l (snd s)" if "leaseLive l (snd s'')" for l
    using evicted_leases(2) [OF assms(2) that] evicted_leases(2) [OF assms(1), of l] that evicted_leases(1) [OF assms(2), of l]
    by simp
  ultimately show ?thesis
    unfolding evicted_def
    by (simp add: evicted_same [OF assms(1)] evicted_same [OF assms(2)])
qed

lemma enforceLocked_ok:
  assumes ok: "cache_ok s" and lim: "validateLimits (plLimits (fst s)) = Inr ()"
    and x0: "plLru (fst s) = x0 # ys" "ceBytes (snd x0) \<le> clRuntimeBytes (plLimits (fst s))"
      "ceBytes (snd x0) \<le> clWorkspaceBytes (plLimits (fst s))" "ceBytes (snd x0) \<le> clNodeBytes (plLimits (fst s))"
    and st: "get (plScopes (fst s)) k = Some st" and i: "ssId st = i"
    and within: "\<And>k'. k' \<noteq> k \<Longrightarrow> \<not> runtimeOver k' (fst s)" "\<And>w. w \<noteq> siWorkspace i \<Longrightarrow> \<not> workspaceOver w (fst s)"
  obtains s' zs where "enforceLocked k i s = Some s'" and "evicted s s'" and "plLru (fst s') = x0 # zs" and "budgets (fst s')"
    and "recency (fst s) (fst s')"
proof -
  let ?I = "\<lambda>s t. evicted s t \<and> recency (fst s) (fst t) \<and> (\<exists>ys. plLru (fst t) = x0 # ys)"
  note pos = limits_positive [OF lim]
  have key: "scopeKey i = k" using ok st i by (auto simp: cache_ok_def pool_ok_def scope_ok_def)
  have I0: "?I s s" using evicted_refl [OF ok] recency_refl x0(1) by blast
  have "\<exists>t. evictWhile (\<lambda>s. runtimeOver k (fst s)) (evictOldest (\<lambda>_. inScope i) ConstraintRuntime) s = Some t \<and> ?I s t \<and> \<not> runtimeOver k (fst t)"
  proof (rule evict_loop [OF I0])
    fix t assume t: "?I s t" "runtimeOver k (fst t)"
    then obtain zs where zs: "plLru (fst t) = x0 # zs" by blast
    have "exceeds (usageOf (ofScope k (x0 # zs))) (clRuntimeEntries (plLimits (fst s))) (clRuntimeBytes (plLimits (fst s)))"
      using t(2) runtimeOver_usage [of "fst t" k] evicted_pool(1,2) [OF t(1) [THEN conjunct1]] zs by simp
    from exceeds_other [OF this pos(1) _ x0(2)] pos(4)
    show "\<exists>y \<in> set (tl (plLru (fst t))). inScope i (snd y) = Some True" by (simp add: zs inScope_def key)
  qed (auto simp: inScope_def)
  then obtain s1 where s1: "evictWhile (\<lambda>s. runtimeOver k (fst s)) (evictOldest (\<lambda>_. inScope i) ConstraintRuntime) s = Some s1"
    "?I s s1" "\<not> runtimeOver k (fst s1)" by blast
  have ok1: "cache_ok s1" and lim1: "plLimits (fst s1) = plLimits (fst s)" using s1(2) by (simp_all add: evicted_def)
  have I1: "?I s1 s1" using evicted_refl [OF ok1] recency_refl s1(2) by blast
  have ws: "inWorkspace (fst t) i (snd y) = Some (entryWs (fst s1) (snd y) = Some (siWorkspace i))"
    if "?I s1 t" "y \<in> set (plLru (fst t))" for t y
  proof -
    have "pool_ok (fst t)" and ws: "entryWs (fst t) = entryWs (fst s1)" using that(1) evicted_pool by blast+
    from this(1) that(2) obtain st where "get (plScopes (fst t)) (ceScope (snd y)) = Some st" by (rule lru_scope)
    then show ?thesis by (simp add: inWorkspace_def flip: ws) (simp add: entryWs_def)
  qed
  have "\<exists>t. evictWhile (\<lambda>s. workspaceOver (siWorkspace i) (fst s)) (evictOldest (\<lambda>p. inWorkspace p i) ConstraintWorkspace) s1 = Some t
      \<and> ?I s1 t \<and> \<not> workspaceOver (siWorkspace i) (fst t)"
  proof (rule evict_loop [OF I1])
    fix t assume t: "?I s1 t" "workspaceOver (siWorkspace i) (fst t)"
    then obtain zs where zs: "plLru (fst t) = x0 # zs" by blast
    have "exceeds (usageOf (ofWs (fst s1) (siWorkspace i) (x0 # zs))) (clWorkspaceEntries (plLimits (fst s))) (clWorkspaceBytes (plLimits (fst s)))"
      using t(2) workspaceOver_usage [of "fst t"] evicted_pool(1,2,3) [OF t(1) [THEN conjunct1]] zs lim1 by simp
    from exceeds_other [OF this pos(2) _ x0(3)] pos(5)
    obtain y where "y \<in> set zs" "entryWs (fst s1) (snd y) = Some (siWorkspace i)" by auto
    then show "\<exists>y \<in> set (tl (plLru (fst t))). inWorkspace (fst t) i (snd y) = Some True"
      using ws [OF t(1)] zs by auto
  next
    fix t y assume "?I s1 t" "y \<in> set (plLru (fst t))"
    then show "inWorkspace (fst t) i (snd y) \<noteq> None" using ws by simp
  qed (simp add: inWorkspace_def)
  then obtain s2 where s2: "evictWhile (\<lambda>s. workspaceOver (siWorkspace i) (fst s)) (evictOldest (\<lambda>p. inWorkspace p i) ConstraintWorkspace) s1 = Some s2"
    "?I s1 s2" "\<not> workspaceOver (siWorkspace i) (fst s2)" by blast
  have ok2: "cache_ok s2" and lim2: "plLimits (fst s2) = plLimits (fst s)" using s2(2) lim1 by (simp_all add: evicted_def)
  have I2: "?I s2 s2" using evicted_refl [OF ok2] recency_refl s2(2) by blast
  have "\<exists>t. evictWhile (\<lambda>s. nodeOver (fst s)) (evictOldest (\<lambda>_ _. Some True) ConstraintNode) s2 = Some t \<and> ?I s2 t \<and> \<not> nodeOver (fst t)"
  proof (rule evict_loop [OF I2])
    fix t assume t: "?I s2 t" "nodeOver (fst t)"
    then obtain zs where zs: "plLru (fst t) = x0 # zs" by blast
    have "exceeds (usageOf (filter (\<lambda>_. True) (x0 # zs))) (clNodeEntries (plLimits (fst s))) (clNodeBytes (plLimits (fst s)))"
      using t nodeOver_usage [of "fst t"] evicted_pool(1,2) [of s2 t] zs lim2 by simp
    from exceeds_other [OF this pos(3) _ x0(4)] pos(6)
    show "\<exists>y \<in> set (tl (plLru (fst t))). Some True = Some True" using zs by auto
  qed simp_all
  then obtain s3 where s3: "evictWhile (\<lambda>s. nodeOver (fst s)) (evictOldest (\<lambda>_ _. Some True) ConstraintNode) s2 = Some s3"
    "?I s2 s3" "\<not> nodeOver (fst s3)" by blast
  have ev: "evicted s1 s3" "evicted s s3" using s1(2) s2(2) s3(2) evicted_trans by blast+
  have "recency (fst s) (fst s2)" "recency (fst s) (fst s3)"
  proof -
    obtain K1 K2 where K: "plLru (fst s1) = filter K1 (plLru (fst s))" "plLru (fst s2) = filter K2 (plLru (fst s))"
      using s1(2) evicted_trans [of s s1 s2] s2(2) by (auto simp: evicted_def)
    have "set (plLru (fst s2)) \<subseteq> set (plLru (fst s1))" "set (plLru (fst s3)) \<subseteq> set (plLru (fst s2))"
      using s2(2) s3(2) evicted_leases(3) by blast+
    then show "recency (fst s) (fst s2)" "recency (fst s) (fst s3)"
      using recency_trans [OF _ _ K(1)] recency_trans [OF _ _ K(2)] s1(2) s2(2) s3(2) by blast+
  qed
  show thesis
  proof (rule that)
    show "recency (fst s) (fst s3)" by fact
    show "enforceLocked k i s = Some s3" by (simp add: enforceLocked_def s1(1) s2(1) s3(1))
    show "plLru (fst s3) = x0 # tl (plLru (fst s3))" using s3(2) by auto
    have "\<not> runtimeOver k' (fst s3)" for k'
      using evicted_fits(1) [OF ev(2) ok] evicted_fits(1) [OF ev(1) ok1] within(1) s1(3) by (cases "k' = k") blast+
    moreover have "\<not> workspaceOver w (fst s3)" for w
      using evicted_fits(2) [OF ev(2) ok] evicted_fits(2) [of s2 s3, OF _ ok2] s3(2) within(2) s2(3)
      by (cases "w = siWorkspace i") blast+
    ultimately show "budgets (fst s3)" using s3(3) lim evicted_pool(2) [OF ev(2)] by (simp add: budgets_def)
  qed (rule ev(2))
qed

section \<open>Adding and moving elements\<close>

lemma usageOf_mset:
  assumes "mset xs = mset ys"
  shows "usageOf (filter P xs) = usageOf (filter P ys)"
proof -
  have m: "mset (filter P xs) = mset (filter P ys)" using assms by simp
  have "(\<Sum>x \<leftarrow> zs. ceBytes (snd x)) = (\<Sum>x \<in># mset zs. ceBytes (snd x))" for zs :: "element list"
    by (metis mset_map sum_mset_sum_list)
  with m mset_eq_length [OF m] have "length (filter P xs) = length (filter P ys)"
    and "(\<Sum>x \<leftarrow> filter P xs. ceBytes (snd x)) = (\<Sum>x \<leftarrow> filter P ys. ceBytes (snd x))" by presburger+
  then show ?thesis by (simp add: usageOf_def)
qed

lemma pool_ok_reorder:
  assumes ok: "pool_ok p" and m: "mset xs = mset (plLru p)"
  shows "pool_ok (p\<lparr>plLru := xs\<rparr>)"
proof -
  have s: "set xs = set (plLru p)" using m by (metis set_mset_mset)
  have d: "distinct (map f xs) \<longleftrightarrow> distinct (map f (plLru p))" for f :: "element \<Rightarrow> 'c"
    by (rule mset_eq_imp_distinct_iff) (simp add: m)
  have "usageOf xs = usageOf (plLru p)" using usageOf_mset [OF m, of "\<lambda>_. True"] by simp
  moreover have "scope_ok (p\<lparr>plLru := xs\<rparr>) k st \<longleftrightarrow> scope_ok p k st" for k st
    using usageOf_mset [OF m] s by (simp add: scope_ok_def)
  moreover have "entryWs (p\<lparr>plLru := xs\<rparr>) = entryWs p" by (simp add: entryWs_def fun_eq_iff)
  moreover have "workspaceLocked w (p\<lparr>plLru := xs\<rparr>) = workspaceLocked w p" for w by (simp add: workspaceLocked_def)
  moreover have "xs = [] \<longleftrightarrow> plLru p = []" using s by auto
  ultimately show ?thesis using ok usageOf_mset [OF m]
    by (simp add: pool_ok_def lru_ok_def index_ok_def s d)
qed

lemma mset_front:
  assumes "distinct (map fst xs)" and "x \<in> set xs"
  shows "mset (x # without x xs) = mset xs"
proof -
  have "distinct (x # without x xs)" "distinct xs" using assms by (auto simp: distinct_map intro: distinct_filter)
  moreover have "set (x # without x xs) = set xs" using without_set [OF assms] assms(2) by auto
  ultimately show ?thesis by (metis set_eq_iff_mset_eq_distinct)
qed

lemma workspaceLocked_put:
  "workspaceLocked w (p\<lparr>plWorkspaces := put v u (plWorkspaces p)\<rparr>) = (if w = v then u else workspaceLocked w p)"
  by (simp add: workspaceLocked_def)

lemma pushEntry_parts:
  "plLru (pushEntry st e p) = (plNext p, e) # plLru p" "plNext (pushEntry st e p) = plNext p + 1"
    "plEntries (pushEntry st e p) = put (ceComposite e) (plNext p, e) (plEntries p)"
    "plBytes (pushEntry st e p) = plBytes p + ceBytes e" "plLimits (pushEntry st e p) = plLimits p"
    "plClosed (pushEntry st e p) = plClosed p"
    "plScopes (pushEntry st e p) = put (ceScope e) (st\<lparr>ssEntries := (if ceComposite e \<in> set (ssEntries st) then ssEntries st
        else ssEntries st @ [ceComposite e]), ssUsage := addUsage 1 (ceBytes e) (ssUsage st)\<rparr>) (plScopes p)"
    "workspaceLocked w (pushEntry st e p) = (if w = siWorkspace (ssId st) then addUsage 1 (ceBytes e) (workspaceLocked w p)
       else workspaceLocked w p)"
  by (auto simp: pushEntry_def Let_def workspaceLocked_def)

lemma put_absent: "k \<notin> fst ` set m \<Longrightarrow> put k v m = m @ [(k, v)]"
  by (induction k v m rule: put.induct) auto

lemma index_push:
  assumes "index_ok p" and new: "ceComposite e \<notin> (ceComposite \<circ> snd) ` set (plLru p)"
  shows "index_ok (pushEntry st e p)"
proof -
  have "ceComposite e \<notin> fst ` set (plEntries p)" using assms by (auto simp: index_ok_def image_iff)
  then have "put (ceComposite e) v (plEntries p) = plEntries p @ [(ceComposite e, v)]" for v by (rule put_absent)
  moreover have "goodMap (put (ceComposite e) v (plEntries p))" for v
    using assms(1) by (simp add: index_ok_def goodMap_put)
  ultimately show ?thesis using assms(1) by (auto simp: index_ok_def pushEntry_parts)
qed

lemma pushEntry_ok:
  assumes ok: "pool_ok p" and st: "get (plScopes p) (ceScope e) = Some st" and opened: "\<not> plClosed p"
    and new: "ceComposite e \<notin> (ceComposite \<circ> snd) ` set (plLru p)"
    and e: "0 \<le> ceBytes e" "ceComposite e = compositeKey (ceScope e) (ceKey e)"
  shows "pool_ok (pushEntry st e p)"
proof -
  let ?p = "pushEntry st e p" and ?x = "(plNext p, e)"
  note parts = pushEntry_parts [where st = st and e = e and p = p]
  have lru: "lru_ok p" and sok: "scope_ok p (ceScope e) st" using ok st by (simp_all add: pool_ok_def)
  have fresh: "plNext p \<notin> fst ` set (plLru p)" using lru by (auto simp: lru_ok_def)
  have ids: "map_option ssId (get (plScopes ?p) k) = map_option ssId (get (plScopes p) k)" for k
    using st by (simp add: parts)
  have "lru_ok ?p" using lru new e fresh by (auto simp: lru_ok_def parts less_SucI)
  moreover have "index_ok ?p" using ok new by (simp add: pool_ok_def index_push)
  moreover have "goodMap (plScopes ?p)" using ok by (simp add: pool_ok_def parts goodMap_put)
  moreover have "scope_ok ?p k st'" if "get (plScopes ?p) k = Some st'" for k st'
  proof (cases "k = ceScope e")
    case True
    have "ceComposite e \<notin> set (ssEntries st)" using sok new by (auto simp: scope_ok_def)
    then show ?thesis using that True sok
      by (force simp: parts scope_ok_def usageOf_def addUsage_def image_iff)
  next
    case False
    then show ?thesis using that ok by (auto simp: parts scope_ok_def pool_ok_def)
  qed
  moreover have "workspaceLocked w ?p = usageOf (ofWs ?p w (plLru ?p))" for w
  proof -
    have "entryWs ?p = entryWs p" by (rule entryWs_cong [OF ids])
    moreover have "entryWs p e = Some (siWorkspace (ssId st))" using st by (simp add: entryWs_def)
    ultimately show ?thesis using ok by (auto simp: parts pool_ok_def usageOf_def addUsage_def)
  qed
  moreover have "plBytes ?p = usBytes (usageOf (plLru ?p))" using ok by (simp add: parts pool_ok_def usageOf_def)
  ultimately show ?thesis using opened by (simp add: pool_ok_def parts)
qed

lemma pushEntry_fits:
  assumes "pool_ok p" and st: "get (plScopes p) (ceScope e) = Some st"
  shows "k \<noteq> ceScope e \<Longrightarrow> runtimeOver k (pushEntry st e p) \<longleftrightarrow> runtimeOver k p"
    and "w \<noteq> siWorkspace (ssId st) \<Longrightarrow> workspaceOver w (pushEntry st e p) \<longleftrightarrow> workspaceOver w p"
  by (simp_all add: runtimeOver_def workspaceOver_def pushEntry_parts cong: option.case_cong)

text \<open>A lease the cache takes leaves everything it holds as it is.\<close>

lemma acquire_cache_ok:
  assumes ok: "cache_ok (p, h)" and r: "r < length (hpResults h)" and acq: "resultAcquire r h = (Inr l, h')"
  shows "cache_ok (p, h')" and "l \<notin> (ceHold \<circ> snd) ` set (plLru p)" and "leaseLive l h'" and "\<not> leaseLive l h"
    and "hpLeases h' ! l = Some r"
proof -
  have h: "heap_ok h" using ok by (simp add: cache_ok_def)
  note f = acquire_facts [OF acq] and live = acquire_leases(1) [OF acq]
  show "leaseLive l h'" using live by simp
  show dead: "\<not> leaseLive l h" using f(1) by (simp add: leaseLive_def)
  show "l \<notin> (ceHold \<circ> snd) ` set (plLru p)" using dead ok by (auto simp: cache_ok_def)
  show "hpLeases h' ! l = Some r" using f(1,2) by simp
  have "heap_ok h'" using resultAcquire_ok(1) [OF h r acq] .
  moreover have "hpLeases h' ! ceHold (snd x) = hpLeases h ! ceHold (snd x)" if "x \<in> set (plLru p)" for x
    using that ok f(2) by (auto simp: cache_ok_def leaseLive_def nth_append)
  ultimately show "cache_ok (p, h')" using ok live by (simp add: cache_ok_def)
qed

end
