(* ===== verification/Cache_Operations.thy ===== *)
theory Cache_Operations
  imports Cache_Invariants
begin

text \<open>
  Every operation of the result cache keeps its accounting and its budgets, for every order of
  operations of the cache and of the other holders of results.
\<close>

section \<open>Removals\<close>

lemma budgets_evicted:
  assumes "evicted s s'" and "cache_ok s" and "budgets (fst s)"
  shows "budgets (fst s')"
  using assms(3) evicted_fits [OF assms(1,2)] evicted_pool(2) [OF assms(1)] unfolding budgets_def by metis

lemma evicted_remove:
  assumes "evicted s s'" and "\<And>y. x = Some y \<Longrightarrow> y \<in> set (plLru (fst s'))"
  shows "evicted s (removeLocked x c s')"
  using assms by (cases x) (auto intro: evicted_step)

lemma index_lru:
  assumes "cache_ok s"
  shows "get (plEntries (fst s)) c = Some x \<longleftrightarrow> x \<in> set (plLru (fst s)) \<and> ceComposite (snd x) = c"
  using assms by (simp add: cache_ok_def pool_ok_def index_get)

lemma evicted_remove_key:
  assumes "evicted s s'"
  shows "evicted s (removeLocked (get (plEntries (fst s')) c) None s')"
    and "x \<in> set (plLru (fst (removeLocked (get (plEntries (fst s')) c) None s')))
       \<longleftrightarrow> x \<in> set (plLru (fst s')) \<and> ceComposite (snd x) \<noteq> c"
proof -
  have ok: "cache_ok s'" using assms by (rule evicted_same(1))
  note idx = index_lru [OF ok]
  show "evicted s (removeLocked (get (plEntries (fst s')) c) None s')"
    using assms idx by (intro evicted_remove) auto
  show "x \<in> set (plLru (fst (removeLocked (get (plEntries (fst s')) c) None s')))
       \<longleftrightarrow> x \<in> set (plLru (fst s')) \<and> ceComposite (snd x) \<noteq> c"
  proof (cases "get (plEntries (fst s')) c")
    case None
    then have "y \<notin> set (plLru (fst s')) \<or> ceComposite (snd y) \<noteq> c" for y using idx [of c y] by simp
    from this [of x] show ?thesis by (auto simp: None)
  next
    case (Some y)
    obtain p' h' where rm: "removeLocked (Some y) None (fst s', snd s') = (p', h')" by fastforce
    have y: "y \<in> set (plLru (fst s'))" "ceComposite (snd y) = c" using idx Some by auto
    have d: "distinct (map fst (plLru (fst s')))" "distinct (map (ceComposite \<circ> snd) (plLru (fst s')))"
      using ok by (simp_all add: cache_ok_def pool_ok_def lru_ok_def)
    have "x = y" if "x \<in> set (plLru (fst s'))" "ceComposite (snd x) = c"
      using d(2) y that by (auto simp: distinct_map inj_on_def)
    then show ?thesis
      using removeLocked_parts(2) [OF rm] without_set [OF d(1) y(1)] rm y(2) Some by auto
  qed
qed

lemma removeEntries_ok:
  assumes "evicted s s'"
  shows "evicted s (removeEntries cs s')
    \<and> (\<forall>x. x \<in> set (plLru (fst (removeEntries cs s'))) \<longleftrightarrow> x \<in> set (plLru (fst s')) \<and> ceComposite (snd x) \<notin> set cs)"
  using assms
proof (induction cs arbitrary: s')
  case (Cons c cs)
  let ?t = "removeLocked (get (plEntries (fst s')) c) None s'"
  from Cons.IH [OF evicted_remove_key(1) [OF Cons.prems, of c]] evicted_remove_key(2) [OF Cons.prems, of _ c]
  show ?case by (auto simp: removeEntries_def)
qed (simp add: removeEntries_def)

lemma scope_emptied:
  assumes ok: "cache_ok s" and st: "get (plScopes (fst s)) k = Some st"
  shows "evicted s (removeEntries (ssEntries st) s)"
    and "x \<in> set (plLru (fst (removeEntries (ssEntries st) s))) \<longleftrightarrow> x \<in> set (plLru (fst s)) \<and> ceScope (snd x) \<noteq> k"
proof -
  note rm = removeEntries_ok [OF evicted_refl [OF ok], of "ssEntries st"]
  show "evicted s (removeEntries (ssEntries st) s)" using rm by blast
  have e: "set (ssEntries st) = (ceComposite \<circ> snd) ` set (ofScope k (plLru (fst s)))"
    and dc: "distinct (map (ceComposite \<circ> snd) (plLru (fst s)))"
    using ok st by (auto simp: cache_ok_def pool_ok_def scope_ok_def lru_ok_def)
  have "ceComposite (snd x) \<in> set (ssEntries st) \<longleftrightarrow> ceScope (snd x) = k" if "x \<in> set (plLru (fst s))"
    using that dc unfolding e by (auto simp: distinct_map inj_on_def)
  then show "x \<in> set (plLru (fst (removeEntries (ssEntries st) s))) \<longleftrightarrow> x \<in> set (plLru (fst s)) \<and> ceScope (snd x) \<noteq> k"
    using rm by blast
qed

section \<open>Scopes\<close>

text \<open>Rewriting the generations leaves the accounting alone.\<close>

lemma bump_ok:
  assumes ok: "pool_ok p"
  shows "pool_ok (updateScope k (\<lambda>st. st\<lparr>ssGeneration := g st\<rparr>) p)"
    and "budgets p \<Longrightarrow> budgets (updateScope k (\<lambda>st. st\<lparr>ssGeneration := g st\<rparr>) p)"
proof -
  let ?p = "updateScope k (\<lambda>st. st\<lparr>ssGeneration := g st\<rparr>) p"
  have same: "plLru ?p = plLru p" "plEntries ?p = plEntries p" "plBytes ?p = plBytes p" "plClosed ?p = plClosed p"
    "plNext ?p = plNext p" "plLimits ?p = plLimits p" "workspaceLocked w ?p = workspaceLocked w p" for w
    by (simp_all add: updateScope_def workspaceLocked_def split: option.split)
  have scopes: "get (plScopes ?p) a = (if a = k then map_option (\<lambda>st. st\<lparr>ssGeneration := g st\<rparr>) (get (plScopes p) k) else get (plScopes p) a)" for a
    by (simp add: updateScope_def split: option.split)
  have ids: "map_option ssId (get (plScopes ?p) a) = map_option ssId (get (plScopes p) a)" for a
    by (simp add: scopes option.map_comp comp_def)
  have "goodMap (plScopes ?p)" using ok by (simp add: pool_ok_def updateScope_def goodMap_put split: option.split)
  moreover have "plScopes p = [] \<Longrightarrow> plScopes ?p = []" by (simp add: updateScope_def)
  moreover have "lru_ok ?p" "index_ok ?p"
    using ok hasKey_cong [OF ids] by (simp_all add: pool_ok_def lru_ok_def index_ok_def same)
  moreover have "scope_ok ?p a st" if g: "get (plScopes ?p) a = Some st" for a st
  proof -
    obtain st0 where "get (plScopes p) a = Some st0" "st = st0 \<or> st = st0\<lparr>ssGeneration := g st0\<rparr>"
      using g by (cases "get (plScopes p) a") (simp_all add: scopes split: if_splits)
    moreover from this(1) have "scope_ok p a st0" using ok by (simp add: pool_ok_def)
    ultimately show ?thesis unfolding scope_ok_def same by (elim disjE) simp_all
  qed
  ultimately show "pool_ok ?p" using ok entryWs_cong [OF ids] by (simp add: pool_ok_def same)
  show "budgets p \<Longrightarrow> budgets ?p"
    by (auto simp: budgets_def runtimeOver_def workspaceOver_def nodeOver_def same scopes split: if_splits option.splits)
qed

text \<open>A scope with no entries can be dropped; a new one has none.\<close>

lemma drop_scope_ok:
  assumes ok: "pool_ok p" and none: "\<forall>x \<in> set (plLru p). ceScope (snd x) \<noteq> k"
  shows "pool_ok (p\<lparr>plScopes := del k (plScopes p)\<rparr>)"
    and "budgets p \<Longrightarrow> budgets (p\<lparr>plScopes := del k (plScopes p)\<rparr>)"
proof -
  let ?p = "p\<lparr>plScopes := del k (plScopes p)\<rparr>"
  have ws: "entryWs ?p (snd x) = entryWs p (snd x)" if "x \<in> set (plLru p)" for x
    using that none by (simp add: entryWs_def)
  then have "ofWs ?p w (plLru p) = ofWs p w (plLru p)" for w by (intro filter_cong) auto
  moreover have "workspaceLocked w ?p = workspaceLocked w p" for w by (simp add: workspaceLocked_def)
  moreover have "plScopes p = [] \<Longrightarrow> del k (plScopes p) = []" by (simp add: del_def)
  ultimately show "pool_ok ?p" using ok none
    by (auto simp: pool_ok_def lru_ok_def index_ok_def scope_ok_def)
  show "budgets p \<Longrightarrow> budgets ?p"
    by (auto simp: budgets_def runtimeOver_def workspaceOver_def nodeOver_def workspaceLocked_def split: option.splits)
qed

lemma OpenScope_ok:
  assumes ok: "pool_ok p" and op: "OpenScope i p = Inr (k, p')"
  shows "pool_ok p'" and "budgets p \<Longrightarrow> budgets p'" and "plLru p' = plLru p"
    and "k = scopeKey i" and "get (plScopes p) k = None" and "openState k p' = Some \<lparr>ssId = i, ssGeneration = 0, ssClosed = False,
      ssEntries = [], ssUsage = \<lparr>usEntries = 0, usBytes = 0\<rparr>\<rparr>"
proof -
  let ?st = "\<lparr>ssId = i, ssGeneration = 0, ssClosed = False, ssEntries = [], ssUsage = \<lparr>usEntries = 0, usBytes = 0\<rparr>\<rparr>"
  show k: "k = scopeKey i" using op by (auto simp: OpenScope_def split: if_splits)
  have open': "\<not> plClosed p" and p': "p' = p\<lparr>plScopes := put k ?st (plScopes p)\<rparr>"
    and "\<not> (\<exists>st \<in> set_option (get (plScopes p) k). \<not> ssClosed st)"
    using op by (auto simp: OpenScope_def k split: if_splits)
  then show new: "get (plScopes p) k = None" using ok by (cases "get (plScopes p) k") (auto simp: pool_ok_def scope_ok_def)
  show "plLru p' = plLru p" by (simp add: p')
  show "openState k p' = Some ?st" using open' by (simp add: openState_def p')
  have none: "\<forall>x \<in> set (plLru p). ceScope (snd x) \<noteq> k" using ok new by (auto simp: pool_ok_def lru_ok_def hasKey_def)
  have "entryWs p' (snd x) = entryWs p (snd x)" if "x \<in> set (plLru p)" for x
    using that none by (simp add: entryWs_def p')
  then have "ofWs p' w (plLru p) = ofWs p w (plLru p)" for w by (intro filter_cong) auto
  moreover have "workspaceLocked w p' = workspaceLocked w p" for w by (simp add: workspaceLocked_def p')
  moreover have "ofScope k (plLru p) = []" using none by (simp add: filter_empty_conv)
  moreover have "scope_ok p' a st" if "get (plScopes p') a = Some st" for a st
    using that ok none k by (auto simp: p' scope_ok_def pool_ok_def usageOf_def split: if_splits)
  ultimately show "pool_ok p'" using ok open'
    by (auto simp: p' pool_ok_def lru_ok_def index_ok_def goodMap_put)
  show "budgets p \<Longrightarrow> budgets p'"
    using limits_positive [of "plLimits p"]
    by (auto simp: p' budgets_def runtimeOver_def workspaceOver_def nodeOver_def workspaceLocked_def exceeds_def split: option.splits)
qed

lemma budgets_cong:
  assumes "plLimits p' = plLimits p" "plScopes p' = plScopes p" "plWorkspaces p' = plWorkspaces p"
    "plEntries p' = plEntries p" "plBytes p' = plBytes p"
  shows "budgets p' \<longleftrightarrow> budgets p"
  by (simp add: assms budgets_def runtimeOver_def workspaceOver_def nodeOver_def workspaceLocked_def cong: option.case_cong)

section \<open>Lookup\<close>

lemma LookupArrow_ok:
  assumes ok: "cache_ok s" and lk: "LookupArrow k key s = (res, s')"
  shows "cache_ok s'" and "budgets (fst s) \<Longrightarrow> budgets (fst s')" and "res \<noteq> LookupReleased g"
    and "set (plLru (fst s')) = set (plLru (fst s))"
    and "leaseLive l (snd s) \<Longrightarrow> leaseLive l (snd s') \<and> leaseRecords l (snd s') = leaseRecords l (snd s)"
    and "x \<in> set (plLru (fst s)) \<Longrightarrow> ceScope (snd x) = k \<Longrightarrow> ceKey (snd x) = key \<Longrightarrow> openState k (fst s) = Some st \<Longrightarrow>
       \<exists>l. res = LookupHit l (ceMetadata (snd x)) (ssGeneration st) \<and> leaseLive l (snd s')
         \<and> leaseRecords l (snd s') = leaseRecords (ceHold (snd x)) (snd s)
         \<and> plLru (fst s') = x # without x (plLru (fst s))"
proof -
  obtain p h where s: "s = (p, h)" by (cases s)
  have p: "pool_ok p" and h: "heap_ok h" using ok s by (simp_all add: cache_ok_def)
  note idx = index_lru [OF ok]
  consider (miss) "s' = s" "\<And>g. res \<noteq> LookupReleased g" "openState k p = None \<or> get (plEntries p) (compositeKey k key) = None"
    | (hit) x st l h' where "openState k p = Some st" "get (plEntries p) (compositeKey k key) = Some x"
      "resultAcquire (ceResult (snd x)) h = (Inr l, h')" "ceResult (snd x) < length (hpResults h)"
      "rcRecords (hpResults h ! ceResult (snd x)) \<noteq> None" "leaseLive (ceHold (snd x)) h"
      "hpLeases h ! ceHold (snd x) = Some (ceResult (snd x))"
      "res = LookupHit l (ceMetadata (snd x)) (ssGeneration st)" "s' = (moveToFront x p, h')"
  proof (cases "openState k p")
    case None
    then show thesis using lk miss by (auto simp: LookupArrow_def s Let_def)
  next
    case st: (Some st)
    show thesis
    proof (cases "get (plEntries p) (compositeKey k key)")
      case None
      then show thesis using lk st miss by (auto simp: LookupArrow_def s Let_def)
    next
      case (Some x)
      then have x: "x \<in> set (plLru p)" using idx s by auto
      then have hold: "leaseLive (ceHold (snd x)) h" "hpLeases h ! ceHold (snd x) = Some (ceResult (snd x))"
        using ok by (auto simp: cache_ok_def s)
      note cell = leaseLive_cell [OF h hold]
      obtain a h' where acq: "resultAcquire (ceResult (snd x)) h = (a, h')" by fastforce
      then have acq': "resultAcquire (ceResult (snd x)) h = (Inr (length (hpLeases h)), h')"
        using resultAcquire_ok(2) [OF h cell(1) acq] cell(2) by simp
      show thesis using hit [OF st Some acq' cell(1,3) hold] lk st Some acq'
        by (simp add: LookupArrow_def s Let_def)
    qed
  qed
  note cases = this
  have moved: "mset (plLru (moveToFront x p)) = mset (plLru p)" if "x \<in> set (plLru p)" for x
    using that p mset_front by (simp add: moveToFront_def pool_ok_def lru_ok_def)
  show "cache_ok s'"
  proof (cases rule: cases)
    case (hit x st l h')
    have x: "x \<in> set (plLru p)" using hit idx s by auto
    have s': "set (plLru (moveToFront x p)) = set (plLru p)" by (metis moved [OF x] set_mset_mset)
    have "pool_ok (moveToFront x p)"
      using pool_ok_reorder [OF p moved [OF x]] by (simp add: moveToFront_def)
    moreover have "distinct (map (ceHold \<circ> snd) (plLru (moveToFront x p)))"
      using moved [OF x] ok by (subst mset_eq_imp_distinct_iff [of _ "map (ceHold \<circ> snd) (plLru p)"]) (simp_all add: cache_ok_def s)
    ultimately show ?thesis using acquire_cache_ok(1) [OF ok [unfolded s] hit(4,3)] s' hit(9) by (simp add: cache_ok_def)
  qed (use ok in simp)
  show "budgets (fst s) \<Longrightarrow> budgets (fst s')"
    using budgets_cong [of "fst s'" "fst s"] by (cases rule: cases) (simp_all add: s moveToFront_def)
  show "res \<noteq> LookupReleased g" by (cases rule: cases) auto
  show "set (plLru (fst s')) = set (plLru (fst s))"
  proof (cases rule: cases)
    case (hit x st l h')
    have "x \<in> set (plLru p)" using hit idx s by auto
    from moved [OF this] show ?thesis using hit(9) s by (metis fst_conv set_mset_mset)
  qed simp
  show "leaseLive l (snd s) \<Longrightarrow> leaseLive l (snd s') \<and> leaseRecords l (snd s') = leaseRecords l (snd s)"
    by (cases rule: cases) (auto simp: s acquire_leases)
  assume x: "x \<in> set (plLru (fst s))" "ceScope (snd x) = k" "ceKey (snd x) = key" and st: "openState k (fst s) = Some st"
  have "ceComposite (snd x) = compositeKey k key" using x p s by (auto simp: pool_ok_def lru_ok_def)
  then have at: "get (plEntries p) (compositeKey k key) = Some x" using idx x(1) s by auto
  show "\<exists>l. res = LookupHit l (ceMetadata (snd x)) (ssGeneration st) \<and> leaseLive l (snd s')
         \<and> leaseRecords l (snd s') = leaseRecords (ceHold (snd x)) (snd s)
         \<and> plLru (fst s') = x # without x (plLru (fst s))"
  proof (cases rule: cases)
    case miss
    with at st s show ?thesis by simp
  next
    case (hit x' st' l h')
    have eq: "x' = x" "st' = st" using hit at st s by auto
    then show ?thesis using hit acquire_leases(1,3) [OF hit(3)]
      by (auto simp: s leaseRecords_def moveToFront_def)
  qed
qed

section \<open>Store\<close>

text \<open>What the cache does to leases it does not hold: they stay live and read the same.\<close>

definition holds :: "'b cacheState \<Rightarrow> nat set" where
  "holds s = (ceHold \<circ> snd) ` set (plLru (fst s))"

definition keepsLeases :: "'b cacheState \<Rightarrow> 'b cacheState \<Rightarrow> bool" where
  "keepsLeases s s' \<longleftrightarrow> (\<forall>l. leaseLive l (snd s) \<longrightarrow> l \<notin> holds s \<longrightarrow>
     leaseLive l (snd s') \<and> l \<notin> holds s' \<and> leaseRecords l (snd s') = leaseRecords l (snd s))"

lemma keeps_refl [simp]: "keepsLeases s s"
  by (simp add: keepsLeases_def)

lemma keeps_trans: "keepsLeases s s' \<Longrightarrow> keepsLeases s' s'' \<Longrightarrow> keepsLeases s s''"
  unfolding keepsLeases_def by metis

lemma evicted_keeps:
  assumes "evicted s s'"
  shows "keepsLeases s s'"
  unfolding keepsLeases_def
proof (intro allI impI)
  fix l assume l: "leaseLive l (snd s)" "l \<notin> holds s"
  then have live: "leaseLive l (snd s')" unfolding evicted_leases(1) [OF assms] by (auto simp: holds_def)
  have "holds s' \<subseteq> holds s" using evicted_leases(3) [OF assms] by (auto simp: holds_def)
  then show "leaseLive l (snd s') \<and> l \<notin> holds s' \<and> leaseRecords l (snd s') = leaseRecords l (snd s)"
    using l live evicted_leases(2) [OF assms live] by blast
qed

lemma countStore_ok:
  "pool_ok (countStore out p) \<longleftrightarrow> pool_ok p" "budgets (countStore out p) \<longleftrightarrow> budgets p"
  "plLru (countStore out p) = plLru p" "plScopes (countStore out p) = plScopes p" "plClosed (countStore out p) = plClosed p"
  "plLimits (countStore out p) = plLimits p"
  by (simp_all add: countStore_def pool_ok_def lru_ok_def index_ok_def scope_ok_def entryWs_def workspaceLocked_def
    budgets_cong [of "p\<lparr>plStores := s\<rparr>" p for s])

lemma countStore_cache_ok: "cache_ok (countStore out p, h) \<longleftrightarrow> cache_ok (p, h)"
  by (simp add: cache_ok_def countStore_ok)

lemma metadataBytes_nonneg: "0 \<le> metadataBytes m"
  unfolding metadataBytes_def by (intro add_nonneg_nonneg sum_list_nonneg) auto

text \<open>
  What a successful store leaves: the new entry in front, some of the other entries behind it in their
  old order, and every scope at its old generation.
\<close>

definition fresh_entry :: "string \<Rightarrow> string \<Rightarrow> nat \<Rightarrow> metadata \<Rightarrow> 'b cacheState \<Rightarrow> 'b cacheState \<Rightarrow> element \<Rightarrow> bool" where
  "fresh_entry k key r m s s' x \<longleftrightarrow> ceScope (snd x) = k \<and> ceKey (snd x) = key \<and> ceResult (snd x) = r \<and> ceMetadata (snd x) = m
     \<and> (\<forall>rs. rcRecords (hpResults (snd s) ! r) = Some rs \<longrightarrow> leaseRecords (ceHold (snd x)) (snd s') = Inr rs)
     \<and> (\<exists>zs. plLru (fst s') = x # zs \<and> set zs \<subseteq> {y \<in> set (plLru (fst s)). ceComposite (snd y) \<noteq> compositeKey k key}
          \<and> (\<exists>K. zs = filter K (plLru (fst s))))
     \<and> (\<forall>j. map_option ssGeneration (get (plScopes (fst s')) j) = map_option ssGeneration (get (plScopes (fst s)) j))"

lemma StoreArrow_stored:
  assumes ok: "cache_ok s" and within: "budgets (fst s)" and r: "r < length (hpResults (snd s))"
    and size: "0 \<le> rcBytes (hpResults (snd s) ! r)"
    and st: "openState k (fst s) = Some st"
    and acq: "resultAcquire r (snd s) = (Inr hold, h')"
    and bytes: "bytes = int (length key) + rcBytes (hpResults (snd s) ! r) + metadataBytes m"
      "bytes \<le> clRuntimeBytes (plLimits (fst s))" "bytes \<le> clWorkspaceBytes (plLimits (fst s))" "bytes \<le> clNodeBytes (plLimits (fst s))"
  obtains s' x where "StoreArrow k key (ssGeneration st) r m s = Some (StoreStored, s')"
    and "cache_ok s'" and "budgets (fst s')" and "fresh_entry k key r m s s' x" and "keepsLeases s s'"
    and "\<And>a b. older (plLru (fst s)) a b \<Longrightarrow> ceScope (snd a) = ceScope (snd b) \<Longrightarrow> ceComposite (snd a) \<noteq> compositeKey k key
      \<Longrightarrow> b \<in> set (plLru (fst s')) \<Longrightarrow> a \<in> set (plLru (fst s'))"
    and "\<exists>st'. openState k (fst s') = Some st' \<and> ssGeneration st' = ssGeneration st"
proof -
  obtain p h where s: "s = (p, h)" by (cases s)
  let ?c = "compositeKey k key"
  have k: "get (plScopes p) k = Some st" "\<not> plClosed p" "\<not> ssClosed st"
    using st by (auto simp: s openState_def split: if_splits option.splits)
  note acq' = acquire_cache_ok [OF ok [unfolded s] r [unfolded s snd_conv] acq [unfolded s snd_conv]]
  define s2 where "s2 = removeLocked (get (plEntries p) ?c) None (p, h')"
  have ev2: "evicted (p, h') s2"
    and lru2: "\<And>x. x \<in> set (plLru (fst s2)) \<longleftrightarrow> x \<in> set (plLru p) \<and> ceComposite (snd x) \<noteq> ?c"
    using evicted_remove_key [OF evicted_refl [OF acq'(1)], where c = ?c] by (simp_all add: s2_def)
  obtain K where K: "plLru (fst s2) = filter K (plLru p)" using ev2 by (auto simp: evicted_def)
  note same2 = evicted_same [OF ev2, unfolded fst_conv]
  have within2: "budgets (fst s2)" using budgets_evicted [OF ev2 acq'(1)] within by (simp add: s)
  obtain st2 where st2: "get (plScopes (fst s2)) k = Some st2" "ssId st2 = ssId st" "ssGeneration st2 = ssGeneration st"
    using same2(5,6) [of k] k(1) by auto
  define e where "e = \<lparr>ceComposite = ?c, ceKey = key, ceScope = k, ceResult = r, ceHold = hold, ceMetadata = m, ceBytes = bytes\<rparr>"
  define s3 where "s3 = (pushEntry st2 e (fst s2), snd s2)"
  let ?x = "(plNext (fst s2), e)"
  have lru3: "plLru (fst s3) = ?x # plLru (fst s2)" by (simp add: s3_def pushEntry_parts)
  have "pool_ok (fst s3)"
    unfolding s3_def fst_conv
  proof (rule pushEntry_ok)
    show "ceComposite e \<notin> (ceComposite \<circ> snd) ` set (plLru (fst s2))" using lru2 by (auto simp: e_def)
    show "0 \<le> ceBytes e" using bytes(1) size metadataBytes_nonneg [of m] by (simp add: e_def)
  qed (use same2 k(2) st2 in \<open>simp_all add: cache_ok_def e_def\<close>)
  moreover have "hold \<notin> holds s2" using acq'(2) lru2 by (auto simp: holds_def)
  moreover have live2: "leaseLive hold (snd s2)" unfolding evicted_leases(1) [OF ev2] using acq'(2,3) by auto
  moreover have "hpLeases (snd s2) ! hold = Some r"
  proof (cases "get (plEntries p) ?c")
    case (Some y)
    then have "y \<in> set (plLru p)" using index_lru [OF acq'(1)] by auto
    then have "ceHold (snd y) \<noteq> hold" using acq'(2) by auto
    then show ?thesis using acq'(5) Some
      by (cases y) (simp add: s2_def removeLocked_def Let_def leaseRelease_def split: option.split)
  qed (use acq'(5) in \<open>simp add: s2_def\<close>)
  ultimately have ok3: "cache_ok s3" using same2(1) by (auto simp: cache_ok_def pushEntry_parts(1) s3_def holds_def e_def)
  have lim: "validateLimits (plLimits (fst s3)) = Inr ()" using within2 by (simp add: budgets_def s3_def pushEntry_parts)
  have lim3: "plLimits (fst s3) = plLimits p" using same2(2) by (simp add: s3_def pushEntry_parts)
  have st3: "get (plScopes (fst s3)) k = Some (st2\<lparr>ssEntries := (if ?c \<in> set (ssEntries st2) then ssEntries st2
      else ssEntries st2 @ [?c]), ssUsage := addUsage 1 bytes (ssUsage st2)\<rparr>)" by (simp add: s3_def pushEntry_parts e_def)
  have out: "\<not> runtimeOver k' (fst s3)" if "k' \<noteq> k" for k'
    using that pushEntry_fits(1) [of "fst s2" e st2] within2 same2(1) st2(1) by (simp add: s3_def e_def budgets_def cache_ok_def)
  have outw: "\<not> workspaceOver w (fst s3)" if "w \<noteq> siWorkspace (ssId st)" for w
    using that pushEntry_fits(2) [of "fst s2" e st2] within2 same2(1) st2 by (simp add: s3_def e_def budgets_def cache_ok_def)
  obtain s4 zs where s4: "enforceLocked k (ssId st) s3 = Some s4" "evicted s3 s4" "plLru (fst s4) = ?x # zs"
    "budgets (fst s4)" "recency (fst s3) (fst s4)"
    by (rule enforceLocked_ok [OF ok3 lim lru3 _ _ _ st3 _ out outw]) (use bytes(2,3,4) lim3 st2(2) in \<open>simp_all add: e_def s\<close>)
  have new: "?x \<notin> set (plLru p)" using ok same2(4) by (auto simp: s cache_ok_def pool_ok_def lru_ok_def)
  obtain K4 where K4: "filter K4 (?x # plLru (fst s2)) = ?x # zs" using s4(2,3) lru3 by (auto simp: evicted_def)
  have "K4 ?x"
  proof (rule ccontr)
    assume "\<not> K4 ?x"
    with K4 have "?x \<in> set (filter K4 (plLru (fst s2)))" by simp
    then show False using lru2 new by simp
  qed
  with K4 have order: "zs = filter (\<lambda>y. K y \<and> K4 y) (plLru p)" by (auto simp: K)
  then have zs: "set zs \<subseteq> set (plLru (fst s2))" by (auto simp: K)
  have gens: "map_option ssGeneration (get (plScopes (fst s4)) j) = map_option ssGeneration (get (plScopes p) j)" for j
    using evicted_same(6) [OF s4(2), of j] same2(6) [of j] k(1) st2 by (simp add: s3_def pushEntry_parts e_def)
  have reads: "leaseRecords hold (snd s4) = Inr rs" if "rcRecords (hpResults (snd s) ! r) = Some rs" for rs
  proof -
    have "leaseLive hold (snd s4)" using s4(2,3) by (auto simp: evicted_def cache_ok_def e_def)
    from evicted_leases(2) [OF s4(2) this] have "leaseRecords hold (snd s4) = leaseRecords hold (snd s2)" by (simp add: s3_def)
    also have "\<dots> = leaseRecords hold h'" using evicted_leases(2) [OF ev2 live2] by simp
    also have "\<dots> = Inr rs" using acquire_leases(3) [OF acq that] .
    finally show ?thesis .
  qed
  show thesis
  proof (rule that)
    show "StoreArrow k key (ssGeneration st) r m s = Some (StoreStored, (countStore StoreStored (fst s4), snd s4))"
      using st bytes acq s4(1) st2(1)
      by (simp add: StoreArrow_def s Let_def s2_def [symmetric] s3_def e_def)
    show "cache_ok (countStore StoreStored (fst s4), snd s4)" using s4(2) by (simp add: countStore_cache_ok evicted_def)
    show "budgets (fst (countStore StoreStored (fst s4), snd s4))" using s4(4) by (simp add: countStore_ok)
    show "fresh_entry k key r m s (countStore StoreStored (fst s4), snd s4) ?x"
      unfolding fresh_entry_def countStore_ok fst_conv snd_conv s4(3)
      using zs lru2 reads order gens by (auto simp: e_def s)
    show "keepsLeases s (countStore StoreStored (fst s4), snd s4)"
    proof -
      have "keepsLeases s (p, h')" using acquire_leases [OF acq] by (auto simp: keepsLeases_def s holds_def)
      moreover have "keepsLeases (p, h') s2" by (rule evicted_keeps [OF ev2])
      moreover have "keepsLeases s3 s4" by (rule evicted_keeps [OF s4(2)])
      moreover have "holds s3 = insert hold (holds s2)" by (simp add: holds_def lru3 e_def)
      moreover have "l \<noteq> hold" if "leaseLive l (snd s)" for l using that acq'(4) by (auto simp: s)
      ultimately show ?thesis
        by (simp add: keepsLeases_def s3_def holds_def countStore_ok)
    qed
    fix a b assume ab: "older (plLru (fst s)) a b" "ceScope (snd a) = ceScope (snd b)" "ceComposite (snd a) \<noteq> ?c"
      "b \<in> set (plLru (fst (countStore StoreStored (fst s4), snd s4)))"
    have b: "b \<in> set (plLru (fst s4))" "b \<noteq> ?x" using ab(4) older_in [OF ab(1)] new by (auto simp: countStore_ok s)
    then have "b \<in> set (plLru (fst s2))" using zs s4(3) by auto
    moreover have "a \<in> set (plLru (fst s2))" using older_in [OF ab(1)] ab(3) lru2 by (simp add: s)
    ultimately have "older (plLru (fst s2)) a b" using ab(1) older_filter K by (simp add: s)
    then have "older (plLru (fst s3)) a b" unfolding lru3 older_def by (metis append_Cons)
    then show "a \<in> set (plLru (fst (countStore StoreStored (fst s4), snd s4)))"
      using s4(5) ab(2) b(1) unfolding recency_def countStore_ok fst_conv by blast
  next
    have g: "map_option ssGeneration (get (plScopes (fst s4)) k) = Some (ssGeneration st)"
      using evicted_same(6) [OF s4(2), of k] st3 st2(3) by simp
    moreover have "\<not> plClosed (fst s4)" using evicted_same(3) [OF s4(2)] same2(3) k(2) by (simp add: s3_def pushEntry_parts)
    ultimately show "\<exists>st'. openState k (fst (countStore StoreStored (fst s4), snd s4)) = Some st' \<and> ssGeneration st' = ssGeneration st"
      using s4(2) by (auto simp: openState_def countStore_ok evicted_def cache_ok_def pool_ok_def scope_ok_def)
  qed
qed

lemma StoreArrow_cases:
  obtains (refused) out where "StoreArrow k key tok r m s = Some (out, (countStore out (fst s), snd s))" "out \<noteq> StoreStored"
  | (room) st hold h' where "openState k (fst s) = Some st" "tok = ssGeneration st" "resultAcquire r (snd s) = (Inr hold, h')"
      "int (length key) + rcBytes (hpResults (snd s) ! r) + metadataBytes m \<le> clRuntimeBytes (plLimits (fst s))"
      "int (length key) + rcBytes (hpResults (snd s) ! r) + metadataBytes m \<le> clWorkspaceBytes (plLimits (fst s))"
      "int (length key) + rcBytes (hpResults (snd s) ! r) + metadataBytes m \<le> clNodeBytes (plLimits (fst s))"
proof -
  let ?b = "int (length key) + rcBytes (hpResults (snd s) ! r) + metadataBytes m"
  let ?over = "?b > clRuntimeBytes (plLimits (fst s)) \<or> ?b > clWorkspaceBytes (plLimits (fst s)) \<or> ?b > clNodeBytes (plLimits (fst s))"
  obtain a h' where acq: "resultAcquire r (snd s) = (a, h')" by fastforce
  consider "openState k (fst s) = None" | st where "openState k (fst s) = Some st" "tok \<noteq> ssGeneration st"
    | st where "openState k (fst s) = Some st" "tok = ssGeneration st" ?over
    | st e where "openState k (fst s) = Some st" "tok = ssGeneration st" "\<not> ?over" "a = Inl e"
    | st l where "openState k (fst s) = Some st" "tok = ssGeneration st" "\<not> ?over" "a = Inr l"
    by (cases "openState k (fst s)"; cases a) auto
  then show thesis
  proof cases
    case 4
    then have "h' = snd s" using acq by (auto simp: resultAcquire_def Let_def split: if_splits)
    then show thesis using 4 acq refused by (simp add: StoreArrow_def Let_def)
  next
    case 5
    then show thesis using room acq by simp
  qed (use refused in \<open>auto simp: StoreArrow_def Let_def\<close>)
qed

lemma StoreArrow_total:
  assumes ok: "cache_ok s" and within: "budgets (fst s)" and r: "r < length (hpResults (snd s))"
    and size: "0 \<le> rcBytes (hpResults (snd s) ! r)"
  obtains out s' where "StoreArrow k key tok r m s = Some (out, s')" and "cache_ok s'" and "budgets (fst s')"
    and "keepsLeases s s'" and "out = StoreStored \<Longrightarrow> \<exists>x. fresh_entry k key r m s s' x"
    and "out = StoreStored \<Longrightarrow> \<exists>st st'. openState k (fst s) = Some st \<and> tok = ssGeneration st
           \<and> openState k (fst s') = Some st' \<and> ssGeneration st' = tok"
    and "\<And>a b. older (plLru (fst s)) a b \<Longrightarrow> ceScope (snd a) = ceScope (snd b) \<Longrightarrow> ceComposite (snd a) \<noteq> compositeKey k key
      \<Longrightarrow> b \<in> set (plLru (fst s')) \<Longrightarrow> a \<in> set (plLru (fst s'))"
proof (cases rule: StoreArrow_cases [of k key tok r m s])
  case (refused out)
  let ?s = "(countStore out (fst s), snd s)"
  have "keepsLeases s ?s" by (simp add: keepsLeases_def holds_def countStore_ok)
  moreover have "cache_ok ?s" using ok by (simp add: countStore_cache_ok)
  moreover have "budgets (fst ?s)" using within by (simp add: countStore_ok)
  ultimately show thesis using that [OF refused(1)] refused(2) older_in by (fastforce simp: countStore_ok)
next
  case (room st hold h')
  obtain s' x where s': "StoreArrow k key (ssGeneration st) r m s = Some (StoreStored, s')" "cache_ok s'" "budgets (fst s')"
    "fresh_entry k key r m s s' x" "keepsLeases s s'"
    "\<And>a b. older (plLru (fst s)) a b \<Longrightarrow> ceScope (snd a) = ceScope (snd b) \<Longrightarrow> ceComposite (snd a) \<noteq> compositeKey k key
      \<Longrightarrow> b \<in> set (plLru (fst s')) \<Longrightarrow> a \<in> set (plLru (fst s'))"
    "\<exists>st'. openState k (fst s') = Some st' \<and> ssGeneration st' = ssGeneration st"
    using StoreArrow_stored [OF ok within r size room(1,3) refl room(4,5,6)] by metis
  show thesis
    by (rule that [OF s'(1) [folded room(2)] s'(2,3,5)]) (use s'(4,6,7) room(1,2) in blast)+
qed

section \<open>The other operations\<close>

lemma Delete_ok:
  assumes "cache_ok s"
  shows "evicted s (Delete k key s)"
  using evicted_remove_key(1) [OF evicted_refl [OF assms]] evicted_refl [OF assms]
  by (simp add: Delete_def split: option.split)

lemma Invalidate_ok:
  assumes ok: "cache_ok s"
  shows "cache_ok (Invalidate k s)" and "budgets (fst s) \<Longrightarrow> budgets (fst (Invalidate k s))" and "keepsLeases s (Invalidate k s)"
    and "openState k (fst s) = Some st \<Longrightarrow> (\<exists>st'. openState k (fst (Invalidate k s)) = Some st' \<and> ssGeneration st' = ssGeneration st + 1)
       \<and> (\<forall>x \<in> set (plLru (fst (Invalidate k s))). ceScope (snd x) \<noteq> k)"
proof -
  consider "Invalidate k s = s" "openState k (fst s) = None"
    | st where "get (plScopes (fst s)) k = Some st" "\<not> ssClosed st" "openState k (fst s) = None \<or> openState k (fst s) = Some st"
      "Invalidate k s = (updateScope k (\<lambda>st. st\<lparr>ssGeneration := ssGeneration st + 1\<rparr>) (fst (removeEntries (ssEntries st) s)), snd (removeEntries (ssEntries st) s))"
  proof (cases "get (plScopes (fst s)) k")
    case None
    then show ?thesis using that(1) by (simp add: Invalidate_def openState_def)
  next
    case (Some st)
    show ?thesis
    proof (cases "ssClosed st")
      case True
      then show ?thesis using that(1) Some by (simp add: Invalidate_def openState_def)
    next
      case False
      then show ?thesis using that(2) [OF Some] Some by (simp add: Invalidate_def openState_def Let_def)
    qed
  qed
  note cases = this
  show "cache_ok (Invalidate k s)"
  proof (cases rule: cases)
    case (2 st)
    from evicted_same(1) [OF scope_emptied(1) [OF ok 2(1)]] show ?thesis
      unfolding 2(4) cache_ok_def using bump_ok(1) by (auto simp: updateScope_def split: option.splits)
  qed (use ok in simp)
  show "budgets (fst s) \<Longrightarrow> budgets (fst (Invalidate k s))"
  proof (cases rule: cases)
    case (2 st)
    assume "budgets (fst s)"
    with scope_emptied(1) [OF ok 2(1)] have "budgets (fst (removeEntries (ssEntries st) s))" "cache_ok (removeEntries (ssEntries st) s)"
      using budgets_evicted ok evicted_same(1) by blast+
    then show ?thesis unfolding 2(4) using bump_ok(2) by (simp add: cache_ok_def)
  qed simp
  show "keepsLeases s (Invalidate k s)"
  proof (cases rule: cases)
    case (2 st)
    then show ?thesis using evicted_keeps [OF scope_emptied(1) [OF ok 2(1)]]
      by (auto simp: keepsLeases_def holds_def updateScope_def split: option.splits)
  qed simp
  assume st: "openState k (fst s) = Some st"
  show "(\<exists>st'. openState k (fst (Invalidate k s)) = Some st' \<and> ssGeneration st' = ssGeneration st + 1)
       \<and> (\<forall>x \<in> set (plLru (fst (Invalidate k s))). ceScope (snd x) \<noteq> k)"
  proof (cases rule: cases)
    case (2 st')
    then have eq: "st' = st" using st by simp
    note emptied = scope_emptied [OF ok 2(1)]
    obtain st2 where st2: "get (plScopes (fst (removeEntries (ssEntries st') s))) k = Some st2" "ssGeneration st2 = ssGeneration st"
      using evicted_same(6) [OF emptied(1), of k] 2(1) eq by auto
    have "\<not> ssClosed st2" using evicted_same(1) [OF emptied(1)] st2(1) by (auto simp: cache_ok_def pool_ok_def scope_ok_def)
    moreover have "\<not> plClosed (fst (removeEntries (ssEntries st') s))"
      using evicted_same(3) [OF emptied(1)] st by (auto simp: openState_def split: if_splits)
    ultimately show ?thesis using st2 emptied(2) unfolding 2(4) by (auto simp: openState_def updateScope_def)
  qed (use st in simp)
qed

lemma CloseScope_ok:
  assumes ok: "cache_ok s"
  shows "cache_ok (CloseScope k s)" and "budgets (fst s) \<Longrightarrow> budgets (fst (CloseScope k s))" and "keepsLeases s (CloseScope k s)"
proof -
  consider "CloseScope k s = s"
    | st where "get (plScopes (fst s)) k = Some st"
      "CloseScope k s = ((fst (removeEntries (ssEntries st) s))\<lparr>plScopes := del k (plScopes (fst (removeEntries (ssEntries st) s)))\<rparr>,
         snd (removeEntries (ssEntries st) s))"
  proof (cases "get (plScopes (fst s)) k")
    case None
    then show ?thesis using that(1) by (simp add: CloseScope_def)
  next
    case (Some st)
    then show ?thesis using that by (cases "ssClosed st") (simp_all add: CloseScope_def Let_def)
  qed
  note cases = this
  show "cache_ok (CloseScope k s)"
  proof (cases rule: cases)
    case (2 st)
    note emptied = scope_emptied [OF ok 2(1)]
    have "pool_ok (fst (removeEntries (ssEntries st) s))" using evicted_pool(1) [OF emptied(1)] .
    from drop_scope_ok(1) [OF this, of k] evicted_same(1) [OF emptied(1)] emptied(2)
    show ?thesis unfolding 2(2) by (simp add: cache_ok_def)
  qed (use ok in simp)
  show "budgets (fst s) \<Longrightarrow> budgets (fst (CloseScope k s))"
  proof (cases rule: cases)
    case (2 st)
    assume "budgets (fst s)"
    with scope_emptied [OF ok 2(1)] have "budgets (fst (removeEntries (ssEntries st) s))" "pool_ok (fst (removeEntries (ssEntries st) s))"
      using budgets_evicted ok evicted_pool(1) by blast+
    then show ?thesis unfolding 2(2) using drop_scope_ok(2) [of _ k] scope_emptied(2) [OF ok 2(1)] by simp
  qed simp
  show "keepsLeases s (CloseScope k s)"
  proof (cases rule: cases)
    case (2 st)
    then show ?thesis using evicted_keeps [OF scope_emptied(1) [OF ok 2(1)]] by (simp add: keepsLeases_def holds_def)
  qed simp
qed

text \<open>Closing the pool walks the list from the back.\<close>

lemma remove_all:
  assumes "evicted s s'" and "plLru (fst s') = rev xs"
  shows "evicted s (fold (\<lambda>x. removeLocked (Some x) None) xs s') \<and> plLru (fst (fold (\<lambda>x. removeLocked (Some x) None) xs s')) = []"
  using assms
proof (induction xs arbitrary: s')
  case (Cons x xs)
  have x: "x \<in> set (plLru (fst s'))" using Cons.prems(2) by simp
  have "distinct (map fst (plLru (fst s')))" using Cons.prems(1) by (simp add: evicted_def cache_ok_def pool_ok_def lru_ok_def)
  then have "fst x \<notin> fst ` set (rev xs)" by (simp add: Cons.prems(2))
  then have "without x (rev xs) = rev xs" by (rule without_absent)
  then have "without x (plLru (fst s')) = rev xs" by (simp add: Cons.prems(2))
  moreover obtain p' h' where rm: "removeLocked (Some x) None (fst s', snd s') = (p', h')" by fastforce
  ultimately have "plLru (fst (removeLocked (Some x) None s')) = rev xs" using removeLocked_parts(2) [OF rm] by simp
  from Cons.IH [OF evicted_step [OF Cons.prems(1) x] this] show ?case by simp
qed simp

lemma removeLocked_closed:
  "removeLocked x c (p\<lparr>plClosed := b\<rparr>, h) = ((fst (removeLocked x c (p, h)))\<lparr>plClosed := b\<rparr>, snd (removeLocked x c (p, h)))"
  by (simp add: removeLocked_def Let_def workspaceLocked_def split: option.split)

lemma remove_all_closed:
  "fold (\<lambda>x. removeLocked (Some x) None) xs (p\<lparr>plClosed := b\<rparr>, h)
     = ((fst (fold (\<lambda>x. removeLocked (Some x) None) xs (p, h)))\<lparr>plClosed := b\<rparr>, snd (fold (\<lambda>x. removeLocked (Some x) None) xs (p, h)))"
proof (induction xs arbitrary: p h)
  case (Cons x xs)
  obtain p' h' where "removeLocked (Some x) None (p, h) = (p', h')" by fastforce
  then show ?case using Cons.IH [of p' h'] by (simp add: removeLocked_closed)
qed simp

lemma ClosePool_ok:
  assumes ok: "cache_ok s"
  shows "cache_ok (ClosePool s)" and "budgets (fst s) \<Longrightarrow> budgets (fst (ClosePool s))" and "keepsLeases s (ClosePool s)"
    and "plLru (fst (ClosePool s)) = [] \<and> plClosed (fst (ClosePool s)) \<and> plBytes (fst (ClosePool s)) = 0"
proof -
  define t where "t = fold (\<lambda>x. removeLocked (Some x) None) (rev (plLru (fst s))) s"
  have t: "evicted s t" "plLru (fst t) = []" using remove_all [OF evicted_refl [OF ok], of "rev (plLru (fst s))"] by (simp_all add: t_def)
  have eq: "ClosePool s = (if plClosed (fst s) then s else ((fst t)\<lparr>plClosed := True, plScopes := []\<rparr>, snd t))"
    using remove_all_closed [where xs = "rev (plLru (fst s))" and p = "fst s" and b = True and h = "snd s"] by (simp add: ClosePool_def Let_def t_def)
  have pt: "pool_ok (fst t)" and ht: "heap_ok (snd t)" using t(1) by (simp_all add: evicted_def cache_ok_def)
  have w: "workspaceLocked w ((fst t)\<lparr>plClosed := True, plScopes := []\<rparr>) = workspaceLocked w (fst t)" for w by (simp add: workspaceLocked_def)
  have pt': "pool_ok ((fst t)\<lparr>plClosed := True, plScopes := []\<rparr>)"
    using pt t(2) by (simp add: pool_ok_def lru_ok_def index_ok_def w goodMap_def)
  show "cache_ok (ClosePool s)" using ok ht pt' t(2) by (simp add: eq cache_ok_def)
  show "budgets (fst s) \<Longrightarrow> budgets (fst (ClosePool s))"
    using budgets_evicted [OF t(1) ok] by (auto simp: eq budgets_def runtimeOver_def workspaceOver_def nodeOver_def w)
  show "keepsLeases s (ClosePool s)" using evicted_keeps [OF t(1)] t(2) by (simp add: eq keepsLeases_def holds_def)
  show "plLru (fst (ClosePool s)) = [] \<and> plClosed (fst (ClosePool s)) \<and> plBytes (fst (ClosePool s)) = 0"
    using ok pt t(2) by (auto simp: eq cache_ok_def pool_ok_def usageOf_def)
qed

section \<open>Runs\<close>

text \<open>
  The operations of the cache in any order, interleaved with what others do with the heap; the
  cache's own leases are private. A stored result has no negative size.
\<close>

inductive cacheStep :: "('s, 'b) arrowLib \<Rightarrow> nat option \<Rightarrow> 'b cacheState \<Rightarrow> 'b cacheState \<Rightarrow> bool" for lib where
  csOpen: "OpenScope i p = Inr (k, p') \<Longrightarrow> cacheStep lib None (p, h) (p', h)"
| csLookup: "LookupArrow k key s = (res, s') \<Longrightarrow> cacheStep lib None s s'"
| csStore: "r < length (hpResults (snd s)) \<Longrightarrow> 0 \<le> rcBytes (hpResults (snd s) ! r) \<Longrightarrow>
    StoreArrow k key tok r m s = Some (out, s') \<Longrightarrow> cacheStep lib None s s'"
| csDelete: "cacheStep lib None s (Delete k key s)"
| csInvalidate: "cacheStep lib None s (Invalidate k s)"
| csClose: "cacheStep lib None s (CloseScope k s)"
| csClosePool: "cacheStep lib None s (ClosePool s)"
| csHeap: "heapStep lib x h h' \<Longrightarrow> set_option x \<inter> holds (p, h) = {} \<Longrightarrow> cacheStep lib x (p, h) (p, h')"

inductive cacheRun :: "('s, 'b) arrowLib \<Rightarrow> nat set \<Rightarrow> 'b cacheState \<Rightarrow> 'b cacheState \<Rightarrow> bool" for lib where
  crNil: "cacheRun lib {} s s"
| crStep: "cacheRun lib L s s' \<Longrightarrow> cacheStep lib x s' s'' \<Longrightarrow> cacheRun lib (L \<union> set_option x) s s''"

definition cacheInit :: "pool \<Rightarrow> bool" where
  "cacheInit p \<longleftrightarrow> (\<exists>limits. newPool limits = Inr p)"

lemma cacheInit_ok: "cacheInit p \<Longrightarrow> cache_ok (p, emptyHeap) \<and> budgets p"
  using limits_positive [of "plLimits p"]
  by (auto simp: cacheInit_def newPool_def andThen_eq_Inr cache_ok_def pool_ok_def lru_ok_def index_ok_def goodMap_def
    workspaceLocked_def usageOf_def heap_ok_empty budgets_def runtimeOver_def workspaceOver_def nodeOver_def exceeds_def)

lemma heapStep_holds:
  assumes "heapStep lib x h h'" and "heap_ok h" and "leaseLive l h" and "x \<noteq> Some l"
  shows "hpLeases h' ! l = hpLeases h ! l"
  using assms(1)
proof cases
  case (stepFinish b res b')
  then show ?thesis using Finish_heap [OF stepFinish(2)] by auto
next
  case (stepAcquire r res)
  then show ?thesis using assms(3)
    by (auto simp: resultAcquire_def Let_def leaseLive_def nth_append split: if_splits)
next
  case (stepSibling k res)
  then show ?thesis using assms(3)
    by (auto simp: leaseAcquire_def resultAcquire_def Let_def leaseLive_def nth_append split: if_splits option.splits)
next
  case (stepOwner r)
  then show ?thesis by (simp add: resultRelease_def releaseRef_fields)
next
  case (stepRelease k)
  then show ?thesis using assms(4) by (auto simp: leaseRelease_def releaseRef_fields split: option.splits)
next
  case (stepWrite y b b')
  then show ?thesis using WriteRecord_heap(2) [OF stepWrite(2)] by simp
next
  case (stepAbort b b')
  then show ?thesis using Abort_heap(2) [OF stepAbort(2)] by simp
qed

lemma cacheStep_ok:
  assumes "cacheStep lib x s s'" and "cache_ok s" and "budgets (fst s)"
  shows "cache_ok s' \<and> budgets (fst s')"
  using assms
proof cases
  case (csOpen i p k p' h)
  then show ?thesis using assms OpenScope_ok [of p i k p'] by (simp add: cache_ok_def)
next
  case (csLookup k key res)
  then show ?thesis using assms LookupArrow_ok(1,2) by blast
next
  case (csStore r k key tok m out)
  then show ?thesis using assms(2,3) by (metis StoreArrow_total option.inject prod.inject)
next
  case (csHeap h h' p)
  have "leaseLive (ceHold (snd y)) h' \<and> hpLeases h' ! ceHold (snd y) = Some (ceResult (snd y))" if "y \<in> set (plLru p)" for y
  proof -
    have "x \<noteq> Some (ceHold (snd y))" using that csHeap(4) by (auto simp: holds_def)
    then show ?thesis using that assms(2) csHeap heapStep_reads [OF csHeap(3)] heapStep_holds [OF csHeap(3)]
      by (simp add: cache_ok_def)
  qed
  then show ?thesis using assms csHeap heapStep_ok [OF csHeap(3)] by (simp add: cache_ok_def)
next
  case (csDelete k key)
  note ev = Delete_ok [OF assms(2), of k key]
  show ?thesis using evicted_same(1) [OF ev] budgets_evicted [OF ev assms(2,3)] csDelete by simp
qed (use Invalidate_ok(1,2) [OF assms(2)] CloseScope_ok(1,2) [OF assms(2)] ClosePool_ok(1,2) [OF assms(2)] assms(3) in simp_all)

lemma cacheRun_ok:
  assumes "cacheRun lib L s s'" and "cache_ok s" and "budgets (fst s)"
  shows "cache_ok s' \<and> budgets (fst s')"
  using assms by induction (auto dest: cacheStep_ok)

lemma LookupArrow_keeps:
  assumes "cache_ok s" and "LookupArrow k key s = (res, s')"
  shows "keepsLeases s s'"
  using LookupArrow_ok(4,5) [OF assms] by (simp add: keepsLeases_def holds_def)

lemma cacheStep_keeps:
  assumes "cacheStep lib x s s'" and ok: "cache_ok s" and within: "budgets (fst s)"
    and l: "leaseLive l (snd s)" "l \<notin> holds s" "x \<noteq> Some l"
  shows "leaseLive l (snd s') \<and> l \<notin> holds s' \<and> leaseRecords l (snd s') = leaseRecords l (snd s)"
proof (cases "keepsLeases s s'")
  case True
  then show ?thesis using l by (simp add: keepsLeases_def)
next
  case False
  from assms(1) show ?thesis
  proof cases
    case (csOpen i p k p' h)
    then show ?thesis using l OpenScope_ok(3) [of p i k p'] ok by (simp add: holds_def cache_ok_def)
  next
    case (csLookup k key res)
    with LookupArrow_keeps [OF ok] False show ?thesis by blast
  next
    case (csStore r k key tok m out)
    then show ?thesis using False ok within by (metis StoreArrow_total option.inject prod.inject)
  next
    case (csHeap h h' p)
    then show ?thesis using l ok heapStep_reads [OF csHeap(3)] by (simp add: cache_ok_def holds_def)
  qed (use False evicted_keeps [OF Delete_ok [OF ok]] Invalidate_ok(3) [OF ok] CloseScope_ok(3) [OF ok] ClosePool_ok(3) [OF ok] in simp_all)
qed

lemma cacheRun_keeps:
  assumes "cacheRun lib L s s'" and "cache_ok s" and "budgets (fst s)"
    and "leaseLive l (snd s)" "l \<notin> holds s" "l \<notin> L"
  shows "leaseLive l (snd s') \<and> l \<notin> holds s' \<and> leaseRecords l (snd s') = leaseRecords l (snd s)"
  using assms
proof induction
  case (crStep L s s' x s'')
  then have "leaseLive l (snd s') \<and> l \<notin> holds s' \<and> leaseRecords l (snd s') = leaseRecords l (snd s)" by blast
  moreover have "cache_ok s'" "budgets (fst s')" using cacheRun_ok [OF crStep.hyps(1)] crStep.prems by blast+
  moreover have "x \<noteq> Some l" using crStep.prems by auto
  ultimately show ?case using cacheStep_keeps [OF crStep.hyps(2)] by metis
qed simp

end
