(* ===== verification/Cache_Recency.thy ===== *)
theory Cache_Recency
  imports Cache_Operations
begin

text \<open>
  Runs of the result cache that remember what happened. A use log lists the composite keys that were
  used, the newest first: the LRU list is always in the order of the log. A run that leaves a scope open
  counts its invalidations: the generation of the scope moves with that count and with nothing else.
\<close>

section \<open>The use log\<close>

text \<open>A step of the cache and the keys it uses: a lookup that hits and a store that succeeds use their key.\<close>

inductive useStep :: "('s, 'b) arrowLib \<Rightarrow> string list \<Rightarrow> 'b cacheState \<Rightarrow> 'b cacheState \<Rightarrow> bool" for lib where
  usHit: "LookupArrow k key s = (LookupHit l m g, s') \<Longrightarrow> useStep lib [compositeKey k key] s s'"
| usNoHit: "LookupArrow k key s = (res, s') \<Longrightarrow> (\<And>l m g. res \<noteq> LookupHit l m g) \<Longrightarrow> useStep lib [] s s'"
| usStore: "r < length (hpResults (snd s)) \<Longrightarrow> 0 \<le> rcBytes (hpResults (snd s) ! r) \<Longrightarrow>
    StoreArrow k key tok r m s = Some (StoreStored, s') \<Longrightarrow> useStep lib [compositeKey k key] s s'"
| usRefused: "r < length (hpResults (snd s)) \<Longrightarrow> 0 \<le> rcBytes (hpResults (snd s) ! r) \<Longrightarrow>
    StoreArrow k key tok r m s = Some (out, s') \<Longrightarrow> out \<noteq> StoreStored \<Longrightarrow> useStep lib [] s s'"
| usOpen: "OpenScope i p = Inr (k, p') \<Longrightarrow> useStep lib [] (p, h) (p', h)"
| usDelete: "useStep lib [] s (Delete k key s)"
| usInvalidate: "useStep lib [] s (Invalidate k s)"
| usClose: "useStep lib [] s (CloseScope k s)"
| usClosePool: "useStep lib [] s (ClosePool s)"
| usHeap: "heapStep lib x h h' \<Longrightarrow> set_option x \<inter> holds (p, h) = {} \<Longrightarrow> useStep lib [] (p, h) (p, h')"

text \<open>The labels add nothing: these are the steps of the cache.\<close>

lemma useStep_is_step: "(\<exists>u. useStep lib u s s') \<longleftrightarrow> (\<exists>x. cacheStep lib x s s')"
proof
  assume "\<exists>u. useStep lib u s s'"
  then obtain u where "useStep lib u s s'" ..
  then show "\<exists>x. cacheStep lib x s s'"
    by cases (auto intro: cacheStep.intros)
next
  assume "\<exists>x. cacheStep lib x s s'"
  then obtain x where "cacheStep lib x s s'" ..
  then show "\<exists>u. useStep lib u s s'"
  proof cases
    case (csLookup k key res)
    then show ?thesis by (cases res) (auto intro: useStep.intros)
  next
    case (csStore r k key tok m out)
    then show ?thesis by (cases "out = StoreStored") (auto intro: useStep.intros)
  qed (auto intro: useStep.intros)
qed

inductive useRun :: "('s, 'b) arrowLib \<Rightarrow> string list \<Rightarrow> 'b cacheState \<Rightarrow> 'b cacheState \<Rightarrow> bool" for lib where
  urNil: "useRun lib [] s s"
| urStep: "useRun lib us s s' \<Longrightarrow> useStep lib u s' s'' \<Longrightarrow> useRun lib (u @ us) s s''"

lemma useRun_run: "useRun lib us s s' \<Longrightarrow> \<exists>L. cacheRun lib L s s'"
proof (induction rule: useRun.induct)
  case (urStep us s s' u s'')
  then show ?case using useStep_is_step by (metis crStep)
qed (auto intro: crNil)

lemma run_useRun: "cacheRun lib L s s' \<Longrightarrow> \<exists>us. useRun lib us s s'"
proof (induction rule: cacheRun.induct)
  case (crStep L s s' x s'')
  then show ?case using useStep_is_step by (metis urStep)
qed (auto intro: urNil)

text \<open>The last use of one key is later than the last use of another.\<close>

definition usedAfter :: "string list \<Rightarrow> string \<Rightarrow> string \<Rightarrow> bool" where
  "usedAfter us a b \<longleftrightarrow> a \<in> set us \<and> b \<notin> set (takeWhile (\<lambda>c. c \<noteq> a) us)"

lemma usedAfter_Cons: "usedAfter (c # us) a b \<longleftrightarrow> a = c \<or> b \<noteq> c \<and> usedAfter us a b"
  by (auto simp: usedAfter_def)

lemma usedAfter_antisym: "usedAfter us a b \<Longrightarrow> usedAfter us b a \<Longrightarrow> a = b"
  by (induction us) (auto simp: usedAfter_Cons usedAfter_def)

text \<open>The LRU list is in the order of the log.\<close>

definition in_use_order :: "string list \<Rightarrow> element list \<Rightarrow> bool" where
  "in_use_order us xs \<longleftrightarrow> (\<forall>a b. older xs a b \<longrightarrow> usedAfter us (ceComposite (snd a)) (ceComposite (snd b)))"

lemma older_Cons: "older (x # ys) a b \<longleftrightarrow> a = x \<and> b \<in> set ys \<or> older ys a b"
proof
  assume "older (x # ys) a b"
  then obtain us vs ws where eq: "x # ys = us @ a # vs @ b # ws" by (auto simp: older_def)
  then show "a = x \<and> b \<in> set ys \<or> older ys a b"
    by (cases us) (force, unfold older_def, simp, blast)
next
  assume "a = x \<and> b \<in> set ys \<or> older ys a b"
  then show "older (x # ys) a b"
    unfolding older_def by (metis append_Cons append_Nil in_set_conv_decomp)
qed

lemma older_of_filter: "older (filter K xs) a b \<Longrightarrow> older xs a b"
  by (induction xs) (auto simp: older_Cons split: if_splits)

lemma use_order_filter: "in_use_order us xs \<Longrightarrow> in_use_order us (filter K xs)"
  unfolding in_use_order_def using older_of_filter by blast

lemma use_order_front:
  assumes "in_use_order us xs" and "ceComposite (snd x) = c" and "\<And>y. y \<in> set xs \<Longrightarrow> K y \<Longrightarrow> ceComposite (snd y) \<noteq> c"
  shows "in_use_order (c # us) (x # filter K xs)"
  unfolding in_use_order_def
proof (intro allI impI)
  fix a b assume "older (x # filter K xs) a b"
  then consider "a = x" | "older (filter K xs) a b" by (auto simp: older_Cons)
  then show "usedAfter (c # us) (ceComposite (snd a)) (ceComposite (snd b))"
  proof cases
    case 2
    then have "b \<in> set (filter K xs)" "older xs a b" using older_in older_of_filter by blast+
    then have "usedAfter us (ceComposite (snd a)) (ceComposite (snd b))" "ceComposite (snd b) \<noteq> c"
      using assms(1) assms(3) [of b] unfolding in_use_order_def by (blast, simp)
    then show ?thesis by (simp add: usedAfter_Cons)
  qed (simp add: assms(2) usedAfter_Cons)
qed

lemma evicted_order:
  assumes "in_use_order us (plLru (fst s))" and "evicted s s'"
  shows "in_use_order us (plLru (fst s'))"
proof -
  obtain K where "plLru (fst s') = filter K (plLru (fst s))" using assms(2) by (auto simp: evicted_def)
  then show ?thesis using use_order_filter [OF assms(1)] by simp
qed

lemma empty_order: "in_use_order us []"
  by (simp add: in_use_order_def older_def)

lemma Invalidate_lru:
  assumes "cache_ok s"
  shows "\<exists>K. plLru (fst (Invalidate k s)) = filter K (plLru (fst s))"
    and "\<exists>K. plLru (fst (CloseScope k s)) = filter K (plLru (fst s))"
proof -
  have t: "\<exists>K. xs = filter K xs" for xs :: "element list" by (rule exI [of _ "\<lambda>_. True"]) simp
  have e: "\<exists>K. plLru (fst (removeEntries (ssEntries st) s)) = filter K (plLru (fst s))" if "get (plScopes (fst s)) k = Some st" for st
    using scope_emptied(1) [OF assms that] by (simp add: evicted_def)
  show "\<exists>K. plLru (fst (Invalidate k s)) = filter K (plLru (fst s))"
    using t e by (auto simp: Invalidate_def Let_def updateScope_def split: option.splits)
  show "\<exists>K. plLru (fst (CloseScope k s)) = filter K (plLru (fst s))"
    using t e by (auto simp: CloseScope_def Let_def split: option.splits)
qed

lemma LookupArrow_lru:
  assumes ok: "cache_ok s" and lk: "LookupArrow k key s = (res, s')"
  shows "(case res of LookupHit _ _ _ \<Rightarrow> \<exists>x. x \<in> set (plLru (fst s)) \<and> ceComposite (snd x) = compositeKey k key
             \<and> plLru (fst s') = x # without x (plLru (fst s))
           | _ \<Rightarrow> plLru (fst s') = plLru (fst s))"
  using lk index_lru [OF ok]
  by (auto simp: LookupArrow_def Let_def moveToFront_def split: option.splits sum.splits prod.splits)

lemma Store_lru:
  assumes ok: "cache_ok s" and within: "budgets (fst s)" and r: "r < length (hpResults (snd s))"
    and size: "0 \<le> rcBytes (hpResults (snd s) ! r)" and st: "StoreArrow k key tok r m s = Some (StoreStored, s')"
  obtains x where "cache_ok s'" and "fresh_entry k key r m s s' x"
  by (rule StoreArrow_total [OF ok within r size, of k key tok m]) (use st that in auto)

lemma Store_refused:
  assumes "StoreArrow k key tok r m s = Some (out, s')" and "out \<noteq> StoreStored"
  shows "fst s' = countStore out (fst s)"
  by (rule StoreArrow_cases [of k key tok r m s]) (use assms in \<open>auto simp: StoreArrow_def Let_def\<close>)

lemma useStep_order:
  assumes "useStep lib u s s'" and ok: "cache_ok s" and within: "budgets (fst s)"
    and us: "in_use_order us (plLru (fst s))"
  shows "in_use_order (u @ us) (plLru (fst s'))"
  using assms(1)
proof cases
  case (usHit k key l m g)
  from LookupArrow_lru [OF ok usHit(2)] obtain x where x: "x \<in> set (plLru (fst s))" "ceComposite (snd x) = compositeKey k key"
    "plLru (fst s') = x # without x (plLru (fst s))" by auto
  have d: "distinct (map (ceComposite \<circ> snd) (plLru (fst s)))" using ok by (simp add: cache_ok_def pool_ok_def lru_ok_def)
  have "ceComposite (snd y) \<noteq> compositeKey k key" if "y \<in> set (plLru (fst s))" "fst y \<noteq> fst x" for y
    using d x(1,2) that by (auto simp: distinct_map inj_on_def)
  from use_order_front [OF us x(2) this] show ?thesis using x(3) usHit(1) by simp
next
  case (usNoHit k key res)
  then show ?thesis using us LookupArrow_lru [OF ok usNoHit(2)] by (cases res) auto
next
  case (usStore r k key tok m)
  obtain x where x: "cache_ok s'" "fresh_entry k key r m s s' x" by (rule Store_lru [OF ok within usStore(2,3,4)])
  obtain zs K where zs: "plLru (fst s') = x # zs" "zs = filter K (plLru (fst s))"
    and sub: "set zs \<subseteq> {y \<in> set (plLru (fst s)). ceComposite (snd y) \<noteq> compositeKey k key}"
    and at: "ceScope (snd x) = k" "ceKey (snd x) = key" using x(2) by (auto simp: fresh_entry_def)
  have "ceComposite (snd x) = compositeKey k key" using x(1) zs(1) at by (auto simp: cache_ok_def pool_ok_def lru_ok_def)
  from use_order_front [OF us this, of K] sub zs(2) have "in_use_order (compositeKey k key # us) (x # filter K (plLru (fst s)))" by auto
  then show ?thesis using zs usStore(1) by simp
next
  case (usRefused r k key tok m out)
  then show ?thesis using us Store_refused [OF usRefused(4,5)] by (simp add: countStore_ok)
next
  case (usOpen i p k p' h)
  then show ?thesis using us OpenScope_ok(3) [of p i k p'] ok by (simp add: cache_ok_def)
next
  case (usDelete k key)
  then show ?thesis using evicted_order [OF us Delete_ok [OF ok]] by simp
next
  case (usInvalidate k)
  then show ?thesis using us Invalidate_lru(1) [OF ok, of k] use_order_filter by auto
next
  case (usClose k)
  then show ?thesis using us Invalidate_lru(2) [OF ok, of k] use_order_filter by auto
next
  case usClosePool
  then show ?thesis using ClosePool_ok(4) [OF ok] empty_order by simp
next
  case (usHeap x h h' p)
  then show ?thesis using us by simp
qed

lemma useRun_order:
  assumes "useRun lib us s s'" and "cache_ok s" and "budgets (fst s)" and "plLru (fst s) = []"
  shows "in_use_order us (plLru (fst s'))"
  using assms
proof induction
  case (urStep us s s' u s'')
  obtain L where "cacheRun lib L s s'" using useRun_run [OF urStep.hyps(1)] by blast
  from cacheRun_ok [OF this] urStep show ?case by (intro useStep_order [OF urStep.hyps(2)]) simp_all
qed (simp add: empty_order)

lemma list_order_total:
  assumes "a \<in> set xs" and "b \<in> set xs" and "a \<noteq> b"
  shows "older xs a b \<or> older xs b a"
  using assms by (induction xs) (auto simp: older_Cons)

lemma used_later_is_older:
  assumes "in_use_order us xs" and "a \<in> set xs" and "b \<in> set xs" and "a \<noteq> b"
    and "distinct (map (ceComposite \<circ> snd) xs)" and "usedAfter us (ceComposite (snd a)) (ceComposite (snd b))"
  shows "older xs a b"
proof (rule ccontr)
  assume "\<not> older xs a b"
  with list_order_total [OF assms(2,3,4)] have "usedAfter us (ceComposite (snd b)) (ceComposite (snd a))"
    using assms(1) unfolding in_use_order_def by blast
  with assms(6) have "ceComposite (snd a) = ceComposite (snd b)" by (rule usedAfter_antisym)
  with assms(2-5) show False by (auto simp: distinct_map inj_on_def)
qed

section \<open>The generation of an open scope\<close>

text \<open>A run that leaves the scope open throughout; the number is how often the scope was invalidated in it.\<close>

inductive openRun :: "('s, 'b) arrowLib \<Rightarrow> string \<Rightarrow> nat \<Rightarrow> 'b cacheState \<Rightarrow> 'b cacheState \<Rightarrow> bool" for lib k where
  orNil: "openRun lib k 0 s s"
| orInvalidate: "openRun lib k n s s' \<Longrightarrow> openRun lib k (Suc n) s (Invalidate k s')"
| orStep: "openRun lib k n s s' \<Longrightarrow> cacheStep lib x s' s'' \<Longrightarrow> s'' \<noteq> Invalidate k s' \<Longrightarrow> openState k (fst s'') \<noteq> None
    \<Longrightarrow> openRun lib k n s s''"

lemma openRun_run: "openRun lib k n s s' \<Longrightarrow> \<exists>L. cacheRun lib L s s'"
proof (induction rule: openRun.induct)
  case (orInvalidate n s s')
  then show ?case using crStep csInvalidate by metis
next
  case (orStep n s s' x s'')
  then show ?case using crStep by metis
qed (auto intro: crNil)

lemma openState_scope: "openState k p = Some st \<Longrightarrow> get (plScopes p) k = Some st"
  by (auto simp: openState_def split: if_splits option.splits)

lemma evicted_generation:
  assumes "evicted s s'" and "openState k (fst s) = Some st" and "openState k (fst s') = Some st'"
  shows "ssGeneration st' = ssGeneration st"
  using evicted_same(6) [OF assms(1), of k] openState_scope [OF assms(2)] openState_scope [OF assms(3)] by simp

lemma other_scope_kept:
  assumes ok: "cache_ok s" and ne: "j \<noteq> k"
  shows "map_option ssGeneration (get (plScopes (fst (Invalidate j s))) k) = map_option ssGeneration (get (plScopes (fst s)) k)"
    and "map_option ssGeneration (get (plScopes (fst (CloseScope j s))) k) = map_option ssGeneration (get (plScopes (fst s)) k)"
proof -
  have e: "map_option ssGeneration (get (plScopes (fst (removeEntries (ssEntries st) s))) k) = map_option ssGeneration (get (plScopes (fst s)) k)"
    if "get (plScopes (fst s)) j = Some st" for st
    using evicted_same(6) [OF scope_emptied(1) [OF ok that]] .
  show "map_option ssGeneration (get (plScopes (fst (Invalidate j s))) k) = map_option ssGeneration (get (plScopes (fst s)) k)"
    using ne e by (auto simp: Invalidate_def Let_def updateScope_def split: option.splits)
  show "map_option ssGeneration (get (plScopes (fst (CloseScope j s))) k) = map_option ssGeneration (get (plScopes (fst s)) k)"
    using ne e by (auto simp: CloseScope_def Let_def split: option.splits)
qed

lemma step_generation:
  assumes step: "cacheStep lib x s s'" and ok: "cache_ok s" and within: "budgets (fst s)"
    and st: "openState k (fst s) = Some st" "openState k (fst s') = Some st'" and ne: "s' \<noteq> Invalidate k s"
  shows "ssGeneration st' = ssGeneration st"
proof -
  note sc = openState_scope [OF st(1)] openState_scope [OF st(2)]
  from step show ?thesis
  proof cases
    case (csOpen i p j p' h)
    then have "get (plScopes p) j = None" using OpenScope_ok(4,5) [of p i j p'] ok by (simp add: cache_ok_def)
    then have "j \<noteq> k" using sc(1) csOpen by auto
    moreover have "j = scopeKey i" using OpenScope_ok(4) [of p i j p'] ok csOpen by (simp add: cache_ok_def)
    ultimately have "get (plScopes p') k = get (plScopes p) k"
      using csOpen(4) by (auto simp: OpenScope_def split: if_splits)
    then show ?thesis using sc csOpen by simp
  next
    case (csLookup j key res)
    then have "plScopes (fst s') = plScopes (fst s)"
      by (auto simp: LookupArrow_def Let_def moveToFront_def split: option.splits sum.splits prod.splits)
    then show ?thesis using sc by simp
  next
    case (csStore r j key tok m out)
    show ?thesis
    proof (cases "out = StoreStored")
      case True
      obtain y where "fresh_entry j key r m s s' y" by (rule Store_lru [OF ok within csStore(2,3) csStore(4) [unfolded True]])
      then have "map_option ssGeneration (get (plScopes (fst s')) k) = map_option ssGeneration (get (plScopes (fst s)) k)"
        by (simp add: fresh_entry_def)
      then show ?thesis using sc by simp
    next
      case False
      then show ?thesis using Store_refused [OF csStore(4)] sc by (simp add: countStore_ok)
    qed
  next
    case (csDelete j key)
    then show ?thesis using evicted_generation [OF Delete_ok [OF ok]] st by simp
  next
    case (csInvalidate j)
    then have "j \<noteq> k" using ne by blast
    then show ?thesis using other_scope_kept(1) [OF ok] csInvalidate sc by fastforce
  next
    case (csClose j)
    have "j \<noteq> k"
    proof
      assume "j = k"
      then have "get (plScopes (fst s')) k = None"
        using csClose sc(1) st(1) by (auto simp: CloseScope_def Let_def openState_def split: if_splits)
      then show False using sc(2) by simp
    qed
    then show ?thesis using other_scope_kept(2) [OF ok] csClose sc by fastforce
  next
    case csClosePool
    then have "plClosed (fst s')" using ClosePool_ok(4) [OF ok] by simp
    then show ?thesis using st(2) by (simp add: openState_def)
  next
    case (csHeap h h' p)
    then show ?thesis using sc by simp
  qed
qed

lemma openRun_generation:
  assumes "openRun lib k n s s'" and "cache_ok s" and "budgets (fst s)" and "openState k (fst s) = Some st"
  shows "\<exists>st'. openState k (fst s') = Some st' \<and> ssGeneration st' = ssGeneration st + of_nat n"
  using assms
proof induction
  case (orInvalidate n s s')
  obtain L where "cacheRun lib L s s'" using openRun_run [OF orInvalidate.hyps] by blast
  from cacheRun_ok [OF this] orInvalidate.prems have ok: "cache_ok s'" by simp
  from orInvalidate obtain st1 where "openState k (fst s') = Some st1" "ssGeneration st1 = ssGeneration st + of_nat n" by blast
  with Invalidate_ok(4) [OF ok, of k st1] show ?case by (auto simp: add.assoc add.commute)
next
  case (orStep n s s' x s'')
  obtain L where "cacheRun lib L s s'" using openRun_run [OF orStep.hyps(1)] by blast
  from cacheRun_ok [OF this] orStep.prems have ok: "cache_ok s'" "budgets (fst s')" by simp_all
  from orStep obtain st1 where st1: "openState k (fst s') = Some st1" "ssGeneration st1 = ssGeneration st + of_nat n" by blast
  obtain st2 where st2: "openState k (fst s'') = Some st2" using orStep.hyps(4) by blast
  from step_generation [OF orStep.hyps(2) ok st1(1) st2 orStep.hyps(3)] st1 st2 show ?case by simp
qed simp

lemma generation_differs:
  assumes "0 < n" and "n < 2 ^ 64"
  shows "(g :: token) \<noteq> g + of_nat n"
proof
  assume "g = g + of_nat n"
  then have "(of_nat n :: token) = 0" by simp
  then have "2 ^ 64 dvd n" by (simp add: word_of_nat_eq_0_iff)
  with assms show False by (auto dest: dvd_imp_le)
qed

end
