(* ===== verification/Lease_Builders.thy ===== *)
theory Lease_Builders
  imports Lease_Heap
begin

text \<open>
  Builders next to the heap of results (\<^verbatim>\<open>internal/analytics/arrowresult/result.go\<close>): runs of a program
  that creates builders, writes to them, finishes or aborts them, and uses the results and leases, in any
  order. The records of unfinished builders are what the transient byte counter counts.
\<close>

section \<open>Runs with builders\<close>

text \<open>A builder is named by its place in the list of builders created. A call that fails changes nothing.\<close>

inductive builderStep :: "('s, 'b) arrowLib \<Rightarrow> ('s, 'b) builder list \<times> 'b resultHeap \<Rightarrow> ('s, 'b) builder list \<times> 'b resultHeap \<Rightarrow> bool"
  for lib where
  bsNew: "builderStep lib (bs, h) (bs @ [NewBuilder], h)"
| bsSchema: "i < length bs \<Longrightarrow> WriteSchema x (bs ! i) = Inr b \<Longrightarrow> builderStep lib (bs, h) (bs[i := b], h)"
| bsRecord: "i < length bs \<Longrightarrow> WriteRecord lib x (bs ! i) h = Inr (b, h') \<Longrightarrow> builderStep lib (bs, h) (bs[i := b], h')"
| bsFinish: "i < length bs \<Longrightarrow> Finish lib (bs ! i) h = (res, b, h') \<Longrightarrow> builderStep lib (bs, h) (bs[i := b], h')"
| bsAbort: "i < length bs \<Longrightarrow> Abort (bs ! i) h = (b, h') \<Longrightarrow> builderStep lib (bs, h) (bs[i := b], h')"
| bsAcquire: "r < length (hpResults h) \<Longrightarrow> resultAcquire r h = (a, h') \<Longrightarrow> builderStep lib (bs, h) (bs, h')"
| bsSibling: "l < length (hpLeases h) \<Longrightarrow> leaseAcquire l h = (a, h') \<Longrightarrow> builderStep lib (bs, h) (bs, h')"
| bsOwner: "r < length (hpResults h) \<Longrightarrow> builderStep lib (bs, h) (bs, resultRelease r h)"
| bsRelease: "l < length (hpLeases h) \<Longrightarrow> builderStep lib (bs, h) (bs, leaseRelease l h)"

inductive builderRun :: "('s, 'b) arrowLib \<Rightarrow> ('s, 'b) builder list \<times> 'b resultHeap \<Rightarrow> bool" for lib where
  brStart: "builderRun lib ([], emptyHeap)"
| brStep: "builderRun lib s \<Longrightarrow> builderStep lib s s' \<Longrightarrow> builderRun lib s'"

lemma builderStep_heap:
  assumes "builderStep lib s s'"
  shows "snd s' = snd s \<or> (\<exists>x. heapStep lib x (snd s) (snd s'))"
  using assms by cases (auto intro: heapStep.intros)

lemma builderRun_ok: "builderRun lib s \<Longrightarrow> heap_ok (snd s)"
proof (induction rule: builderRun.induct)
  case (brStep s s')
  then show ?case using builderStep_heap heapStep_ok by metis
qed (simp add: heap_ok_empty)

section \<open>Transient bytes\<close>

definition recordBytes :: "('s, 'b) arrowLib \<Rightarrow> ('s, 'b) builder \<Rightarrow> int" where
  "recordBytes lib b = (\<Sum>x \<leftarrow> buRecords b. alRecordBytes lib x)"

text \<open>
  A finished builder holds no records, each builder counts the bytes of its own, and the global counter
  is their sum.
\<close>

definition transient_ok :: "('s, 'b) arrowLib \<Rightarrow> ('s, 'b) builder list \<times> 'b resultHeap \<Rightarrow> bool" where
  "transient_ok lib s \<longleftrightarrow> (\<forall>b \<in> set (fst s). buTransient b = recordBytes lib b \<and> (buFinished b \<longrightarrow> buRecords b = []))
     \<and> asTransient (hpStats (snd s)) = (\<Sum>b \<leftarrow> fst s. recordBytes lib b)"

lemma sum_list_update_int:
  "i < length bs \<Longrightarrow> (\<Sum>b \<leftarrow> bs[i := b']. f b) = (\<Sum>b \<leftarrow> bs. f b) - f (bs ! i) + (f b' :: int)"
  by (induction bs arbitrary: i) (auto split: nat.split)

lemma transient_update:
  assumes "transient_ok lib (bs, h)" and "i < length bs"
    and "buTransient b = recordBytes lib b" and "buFinished b \<Longrightarrow> buRecords b = []"
    and "asTransient (hpStats h') = asTransient (hpStats h) - recordBytes lib (bs ! i) + recordBytes lib b"
  shows "transient_ok lib (bs[i := b], h')"
proof -
  have "x \<in> set bs \<or> x = b" if "x \<in> set (bs[i := b])" for x
    using that set_update_subset_insert [of bs i b] by blast
  then show ?thesis using assms by (auto simp: transient_ok_def sum_list_update_int)
qed

lemma lease_transient:
  "asTransient (hpStats (releaseRef r h)) = asTransient (hpStats h)"
  "resultAcquire r h = (a, h') \<Longrightarrow> asTransient (hpStats h') = asTransient (hpStats h)"
  "asTransient (hpStats (resultRelease r h)) = asTransient (hpStats h)"
  "asTransient (hpStats (leaseRelease l h)) = asTransient (hpStats h)"
proof -
  show rel: "asTransient (hpStats (releaseRef r h)) = asTransient (hpStats h)" for r and h :: "'b resultHeap"
    by (simp add: releaseRef_def Let_def)
  show "resultAcquire r h = (a, h') \<Longrightarrow> asTransient (hpStats h') = asTransient (hpStats h)"
    by (auto simp: resultAcquire_def Let_def split: if_splits)
  show "asTransient (hpStats (resultRelease r h)) = asTransient (hpStats h)"
    "asTransient (hpStats (leaseRelease l h)) = asTransient (hpStats h)"
    by (simp_all add: resultRelease_def leaseRelease_def rel split: option.split)
qed

lemma builderStep_transient:
  assumes "builderStep lib s s'" and ok: "transient_ok lib s"
  shows "transient_ok lib s'"
  using assms(1)
proof cases
  case (bsNew bs h)
  then show ?thesis using ok by (simp add: transient_ok_def NewBuilder_def recordBytes_def)
next
  case (bsSchema i bs x b h)
  have "bs ! i \<in> set bs" using bsSchema by simp
  then show ?thesis unfolding bsSchema(2) using bsSchema ok
    by (intro transient_update) (auto simp: WriteSchema_def transient_ok_def recordBytes_def split: if_splits option.splits)
next
  case (bsRecord i bs x h b h')
  have "bs ! i \<in> set bs" using bsRecord by simp
  then show ?thesis unfolding bsRecord(2) using bsRecord ok
    by (intro transient_update [of lib bs h])
       (auto simp: WriteRecord_def Let_def transient_ok_def recordBytes_def split: if_splits option.splits sum.splits)
next
  case (bsFinish i bs h res b h')
  have "bs ! i \<in> set bs" using bsFinish by simp
  then show ?thesis unfolding bsFinish(2) using bsFinish ok
    by (intro transient_update [of lib bs h])
       (auto simp: Finish_def Let_def transient_ok_def recordBytes_def split: if_splits option.splits)
next
  case (bsAbort i bs h b h')
  have "bs ! i \<in> set bs" using bsAbort by simp
  then show ?thesis unfolding bsAbort(2) using bsAbort ok
    by (intro transient_update [of lib bs h]) (auto simp: Abort_def transient_ok_def recordBytes_def split: if_splits)
next
  case (bsAcquire r h a h' bs)
  then show ?thesis using ok lease_transient(2) [OF bsAcquire(4)] by (simp add: transient_ok_def)
next
  case (bsSibling l h a h' bs)
  then have "asTransient (hpStats h') = asTransient (hpStats h)"
    using lease_transient(2) by (auto simp: leaseAcquire_def split: option.splits)
  then show ?thesis using ok bsSibling by (simp add: transient_ok_def)
next
  case (bsOwner r h bs)
  then show ?thesis using ok by (simp add: transient_ok_def lease_transient)
next
  case (bsRelease l h bs)
  then show ?thesis using ok by (simp add: transient_ok_def lease_transient)
qed

lemma builderRun_transient: "builderRun lib s \<Longrightarrow> transient_ok lib s"
proof (induction rule: builderRun.induct)
  case (brStep s s')
  then show ?case using builderStep_transient by blast
qed (simp add: transient_ok_def emptyHeap_def)

end
