(* ===== verification/Cache_Properties.thy ===== *)
theory Cache_Properties
  imports Cache_Recency Lease_Builders
begin

text \<open>
  The result cache as its callers see it: what is promised about budgets, returning, hits, leases,
  invalidation and the order of eviction, and the map it implements.
\<close>

section \<open>The map the cache implements\<close>

definition cached :: "pool \<Rightarrow> string \<Rightarrow> string \<Rightarrow> (nat \<times> metadata) option" where
  "cached p k key = (case get (plEntries p) (compositeKey k key) of
     None \<Rightarrow> None | Some x \<Rightarrow> Some (ceResult (snd x), ceMetadata (snd x)))"

text \<open>A scope key without a NUL of its own after the first makes composite keys unambiguous.\<close>

definition sameSlot :: "string \<Rightarrow> string \<Rightarrow> string \<Rightarrow> string \<Rightarrow> bool" where
  "sameSlot k key k' key' \<longleftrightarrow> compositeKey k key = compositeKey k' key'"

lemma option_eqI:
  assumes "\<And>v. a = Some v \<longleftrightarrow> b = Some v"
  shows "a = b"
  using assms [of "the a"] assms [of "the b"] by (cases a; cases b) simp_all

lemma cached_entry:
  assumes "cache_ok s"
  shows "cached (fst s) k key = Some v \<longleftrightarrow>
    (\<exists>x \<in> set (plLru (fst s)). ceComposite (snd x) = compositeKey k key \<and> v = (ceResult (snd x), ceMetadata (snd x)))"
proof -
  have "(\<exists>x \<in> set (plLru (fst s)). ceComposite (snd x) = compositeKey k key \<and> v = (ceResult (snd x), ceMetadata (snd x)))
    \<longleftrightarrow> (\<exists>x. get (plEntries (fst s)) (compositeKey k key) = Some x \<and> v = (ceResult (snd x), ceMetadata (snd x)))"
    unfolding index_lru [OF assms] by blast
  then show ?thesis by (cases "get (plEntries (fst s)) (compositeKey k key)") (auto simp: cached_def)
qed

lemma cached_None:
  assumes "cache_ok s"
  shows "cached (fst s) k key = None \<longleftrightarrow> (\<forall>x \<in> set (plLru (fst s)). ceComposite (snd x) \<noteq> compositeKey k key)"
  using cached_entry [OF assms, of k key] by (cases "cached (fst s) k key") auto

lemma entry_unique:
  assumes "cache_ok s" "x \<in> set (plLru (fst s))" "y \<in> set (plLru (fst s))" "ceComposite (snd x) = ceComposite (snd y)"
  shows "x = y"
  using assms by (auto simp: cache_ok_def pool_ok_def lru_ok_def distinct_map inj_on_def)

text \<open>Where the list only shrinks, the map only shrinks.\<close>

lemma cached_subset:
  assumes "cache_ok s" "cache_ok s'" "set (plLru (fst s')) \<subseteq> set (plLru (fst s))"
  shows "cached (fst s') k key = None \<or> cached (fst s') k key = cached (fst s) k key"
proof (cases "cached (fst s') k key")
  case (Some v)
  then have "cached (fst s) k key = Some v"
    using cached_entry [OF assms(1)] cached_entry [OF assms(2)] assms(3) by blast
  with Some show ?thesis by simp
qed simp

lemma Delete_cached:
  assumes ok: "cache_ok s" and st: "openState k (fst s) = Some st"
  shows "cached (fst (Delete k key s)) k' key' = (if sameSlot k key k' key' then None else cached (fst s) k' key')"
proof -
  have del: "Delete k key s = removeLocked (get (plEntries (fst s)) (compositeKey k key)) None s"
    using st by (auto simp: Delete_def openState_def split: if_splits option.splits)
  have ok': "cache_ok (Delete k key s)" using Delete_ok [OF ok] by (rule evicted_same(1))
  note lru = evicted_remove_key(2) [OF evicted_refl [OF ok], where c = "compositeKey k key"]
  have "cached (fst (Delete k key s)) k' key' = Some v \<longleftrightarrow> \<not> sameSlot k key k' key' \<and> cached (fst s) k' key' = Some v" for v
    unfolding cached_entry [OF ok] cached_entry [OF ok'] unfolding del Bex_def lru sameSlot_def by metis
  then show ?thesis by (intro option_eqI) simp
qed

lemma Store_cached:
  assumes ok: "cache_ok s" "cache_ok s'" and new: "fresh_entry k key r m s s' x"
  shows "cached (fst s') k key = Some (r, m)"
    and "\<not> sameSlot k key k' key' \<Longrightarrow> cached (fst s') k' key' = None \<or> cached (fst s') k' key' = cached (fst s) k' key'"
proof -
  obtain zs where zs: "plLru (fst s') = x # zs" "set zs \<subseteq> {y \<in> set (plLru (fst s)). ceComposite (snd y) \<noteq> compositeKey k key}"
    and x: "ceScope (snd x) = k" "ceKey (snd x) = key" "ceResult (snd x) = r" "ceMetadata (snd x) = m"
    using new by (auto simp: fresh_entry_def)
  have comp: "ceComposite (snd x) = compositeKey k key" using ok(2) x zs(1) by (auto simp: cache_ok_def pool_ok_def lru_ok_def)
  then show "cached (fst s') k key = Some (r, m)" unfolding cached_entry [OF ok(2)] using zs(1) x by auto
  assume ne: "\<not> sameSlot k key k' key'"
  show "cached (fst s') k' key' = None \<or> cached (fst s') k' key' = cached (fst s) k' key'"
  proof (cases "cached (fst s') k' key'")
    case (Some v)
    then obtain y where y: "y \<in> set (plLru (fst s'))" "ceComposite (snd y) = compositeKey k' key'" "v = (ceResult (snd y), ceMetadata (snd y))"
      unfolding cached_entry [OF ok(2)] by auto
    then have "y \<noteq> x" using ne comp by (auto simp: sameSlot_def)
    then have "y \<in> set (plLru (fst s))" using y(1) zs by auto
    then have "cached (fst s) k' key' = Some v" unfolding cached_entry [OF ok(1)] using y by blast
    with Some show ?thesis by simp
  qed simp
qed

lemma LookupHit_fresh:
  assumes ok: "cache_ok s" and lk: "LookupArrow k key s = (LookupHit l m g, s')"
  shows "leaseLive l (snd s')" and "l \<notin> holds s'"
    and "\<exists>x \<in> set (plLru (fst s)). ceComposite (snd x) = compositeKey k key \<and> m = ceMetadata (snd x)
         \<and> leaseRecords l (snd s') = leaseRecords (ceHold (snd x)) (snd s)"
proof -
  obtain p h where s: "s = (p, h)" by (cases s)
  obtain st x h' where st: "openState k p = Some st" "get (plEntries p) (compositeKey k key) = Some x"
    and acq: "resultAcquire (ceResult (snd x)) h = (Inr l, h')" and s': "m = ceMetadata (snd x)" "s' = (moveToFront x p, h')"
    using lk by (auto simp: LookupArrow_def s Let_def split: option.splits sum.splits prod.splits)
  have x: "x \<in> set (plLru p)" "ceComposite (snd x) = compositeKey k key" using index_lru [OF ok] st(2) s by auto
  have h: "heap_ok h" and hold: "leaseLive (ceHold (snd x)) h" "hpLeases h ! ceHold (snd x) = Some (ceResult (snd x))"
    using ok x by (auto simp: s cache_ok_def)
  note cell = leaseLive_cell [OF h hold]
  obtain rs where rs: "rcRecords (hpResults h ! ceResult (snd x)) = Some rs" using cell(3) by auto
  note new = acquire_cache_ok [OF ok [unfolded s] cell(1) acq]
  show "leaseLive l (snd s')" using new(3) s' by simp
  have "holds s' = holds s" using LookupArrow_ok(4) [OF ok lk] by (simp add: holds_def)
  then show "l \<notin> holds s'" using new(2) by (simp add: holds_def s)
  have "leaseRecords l (snd s') = leaseRecords (ceHold (snd x)) (snd s)"
    using acquire_leases(3) [OF acq rs] hold(2) rs s s' by (simp add: leaseRecords_def)
  then show "\<exists>x \<in> set (plLru (fst s)). ceComposite (snd x) = compositeKey k key \<and> m = ceMetadata (snd x)
         \<and> leaseRecords l (snd s') = leaseRecords (ceHold (snd x)) (snd s)"
    using x s s' by auto
qed

lemma Lookup_cached:
  assumes ok: "cache_ok s" and lk: "LookupArrow k key s = (res, s')"
  shows "cached (fst s') = cached (fst s)"
    and "openState k (fst s) = Some st \<Longrightarrow> case cached (fst s) k key of
       None \<Rightarrow> res = LookupMiss (ssGeneration st)
     | Some (r, m) \<Rightarrow> \<exists>l. res = LookupHit l m (ssGeneration st)"
proof -
  have ok': "cache_ok s'" by (rule LookupArrow_ok(1) [OF ok lk])
  have "cached (fst s') k' key' = Some v \<longleftrightarrow> cached (fst s) k' key' = Some v" for k' key' v
    unfolding cached_entry [OF ok] cached_entry [OF ok'] LookupArrow_ok(4) [OF ok lk] by blast
  then have "cached (fst s') k' key' = cached (fst s) k' key'" for k' key' by (rule option_eqI)
  then show "cached (fst s') = cached (fst s)" by (intro ext)
  assume st: "openState k (fst s) = Some st"
  show "case cached (fst s) k key of None \<Rightarrow> res = LookupMiss (ssGeneration st)
     | Some (r, m) \<Rightarrow> \<exists>l. res = LookupHit l m (ssGeneration st)"
  proof (cases "get (plEntries (fst s)) (compositeKey k key)")
    case None
    then show ?thesis using st lk by (simp add: cached_def LookupArrow_def Let_def)
  next
    case (Some x)
    then show ?thesis using st lk LookupArrow_ok(3) [OF ok lk, of "ssGeneration st"]
      by (auto simp: cached_def LookupArrow_def Let_def split: sum.splits prod.splits)
  qed
qed

section \<open>A small pool\<close>

definition demoLib :: "(nat, nat) arrowLib" where
  "demoLib = \<lparr>alSchemaOf = (\<lambda>_. 0), alCopy = Inr, alNumRows = (\<lambda>_. 1), alRecordBytes = (\<lambda>_. 10), alSchemaBytes = (\<lambda>_. 5)\<rparr>"

definition demoBuilder :: "nat list \<Rightarrow> (nat, nat) builder" where
  "demoBuilder rs = \<lparr>buSchema = Some 0, buRecords = rs, buRows = int (length rs), buTransient = 10 * int (length rs), buFinished = False\<rparr>"

definition demoLimits :: cacheLimits where
  "demoLimits = \<lparr>clRuntimeEntries = 3, clRuntimeBytes = 100, clWorkspaceEntries = 3, clWorkspaceBytes = 200,
     clNodeEntries = 3, clNodeBytes = 200\<rparr>"

definition demoPool :: pool where
  "demoPool = (case newPool demoLimits of Inr p \<Rightarrow> p | Inl _ \<Rightarrow> undefined)"

definition demoMeta :: metadata where
  "demoMeta = \<lparr>mdSQL = ''q'', mdTotalRows = 1, mdTotalRowsKnown = True, mdWarnings = []\<rparr>"

definition demoScope :: string where
  "demoScope = scopeKey \<lparr>siWorkspace = ''w'', siRuntime = ''r''\<rparr>"

text \<open>Two results, an open scope, and the first result stored under the key a.\<close>

definition demoHeap :: "nat resultHeap" where
  "demoHeap = (snd (snd (Finish demoLib (demoBuilder [2]) (snd (snd (Finish demoLib (demoBuilder [1]) emptyHeap))))))"

definition demoOpen :: "nat cacheState" where
  "demoOpen = (case OpenScope \<lparr>siWorkspace = ''w'', siRuntime = ''r''\<rparr> demoPool of Inr (_, p) \<Rightarrow> (p, demoHeap) | Inl _ \<Rightarrow> undefined)"

definition demoStored :: "nat cacheState" where
  "demoStored = (case StoreArrow demoScope ''a'' 0 0 demoMeta demoOpen of Some (_, s) \<Rightarrow> s | None \<Rightarrow> undefined)"

lemma demo_init: "cacheInit demoPool"
  unfolding cacheInit_def
  by (rule exI [of _ demoLimits]) (simp add: demoPool_def newPool_def validateLimits_def demoLimits_def failIf_def)

lemma demo_store: "\<exists>s. StoreArrow demoScope ''a'' 0 0 demoMeta demoOpen = Some (StoreStored, s)"
proof -
  have "map_option fst (StoreArrow demoScope ''a'' 0 0 demoMeta demoOpen) = Some StoreStored" by code_simp
  then show ?thesis by (cases "StoreArrow demoScope ''a'' 0 0 demoMeta demoOpen") auto
qed

lemma demo_opens: "OpenScope \<lparr>siWorkspace = ''w'', siRuntime = ''r''\<rparr> demoPool = Inr (demoScope, fst demoOpen)" "snd demoOpen = demoHeap"
  by (simp_all add: demoOpen_def OpenScope_def demoPool_def newPool_def validateLimits_def demoLimits_def failIf_def demoScope_def)

lemma Finish_step: "heapStep lib None h (snd (snd (Finish lib b h)))"
proof -
  obtain res b' h' where "Finish lib b h = (res, b', h')" by (metis prod_cases3)
  then show ?thesis using stepFinish [of lib b h res b' h'] by simp
qed

lemma demo_opened: "cacheRun demoLib {} (demoPool, emptyHeap) demoOpen"
proof -
  define h1 where "h1 = snd (snd (Finish demoLib (demoBuilder [1]) emptyHeap))"
  have none: "holds (demoPool, h) = {}" for h :: "nat resultHeap"
    by (simp add: holds_def demoPool_def newPool_def validateLimits_def demoLimits_def failIf_def)
  have "heapStep demoLib None emptyHeap h1" unfolding h1_def by (rule Finish_step)
  then have "cacheStep demoLib None (demoPool, emptyHeap) (demoPool, h1)" by (rule csHeap) (simp add: none)
  moreover have "heapStep demoLib None h1 demoHeap" unfolding h1_def demoHeap_def by (rule Finish_step)
  then have "cacheStep demoLib None (demoPool, h1) (demoPool, demoHeap)" by (rule csHeap) (simp add: none)
  moreover have "cacheStep demoLib None (demoPool, demoHeap) (fst demoOpen, demoHeap)" using demo_opens(1) by (rule csOpen)
  moreover have "demoOpen = (fst demoOpen, demoHeap)" using demo_opens(2) by (metis prod.collapse)
  ultimately show ?thesis using crNil [of demoLib "(demoPool, emptyHeap)"] crStep by (metis Un_empty_right option.set(1))
qed

lemma demo_results: "length (hpResults (snd demoOpen)) = 2" "rcBytes (hpResults (snd demoOpen) ! 0) = 15"
  "rcRecords (hpResults (snd demoOpen) ! 0) = Some [1]" "length (hpResults (snd demoStored)) = 2" "rcBytes (hpResults (snd demoStored) ! 1) = 15"
  "rcRecords (hpResults (snd demoStored) ! 1) = Some [2]"
  by code_simp+

lemma demo_stored: "StoreArrow demoScope ''a'' 0 0 demoMeta demoOpen = Some (StoreStored, demoStored)"
  using demo_store by (auto simp: demoStored_def)

lemma demo_run: "cacheRun demoLib {} (demoPool, emptyHeap) demoStored"
proof -
  have "cacheStep demoLib None demoOpen demoStored"
    by (rule csStore [OF _ _ demo_stored]) (simp_all add: demo_results [simplified])
  from crStep [OF demo_opened this] show ?thesis by simp
qed

lemma demo_state: "map_option ssGeneration (openState demoScope (fst demoOpen)) = Some 0"
  "map_option ssGeneration (openState demoScope (fst demoStored)) = Some 0"
  by code_simp+

lemma reachable_ok:
  assumes "cacheInit p" and "cacheRun lib L (p, emptyHeap) s"
  shows "cache_ok s" and "budgets (fst s)"
  using cacheRun_ok [OF assms(2)] by (simp_all add: cacheInit_ok [OF assms(1)])

section \<open>Properties\<close>

text \<open>C22: In every state a pool can reach, in any interleaving of cache operations with other holders of results,
  the index, the scope and workspace counters and the byte total are exactly those of the entries in the LRU list,
  each entry holds a live lease of its result, and no runtime, workspace or node budget is exceeded.\<close>

theorem cache_keeps_budgets:
  assumes "cacheInit p" and "cacheRun lib L (p, emptyHeap) s"
  shows "cache_ok s \<and> budgets (fst s)"
  using reachable_ok [OF assms] by blast

theorem cache_keeps_budgets_witness: "cache_ok demoStored \<and> budgets (fst demoStored)"
  using cache_keeps_budgets [OF demo_init demo_run] .

text \<open>C23: StoreArrow always returns: in every reachable state none of its three eviction loops runs on
  without an entry to remove, and no scope is missing when an entry is matched against a workspace.\<close>

theorem store_always_returns:
  assumes "cacheInit p" and "cacheRun lib L (p, emptyHeap) s"
    and "r < length (hpResults (snd s))" and "0 \<le> rcBytes (hpResults (snd s) ! r)"
  shows "\<exists>out s'. StoreArrow k key tok r m s = Some (out, s')"
  by (rule StoreArrow_total [OF reachable_ok [OF assms(1,2)] assms(3,4), of k key tok m]) blast

theorem store_always_returns_witness:
  "\<exists>out s'. StoreArrow demoScope ''b'' 0 1 demoMeta demoStored = Some (out, s')"
  by (rule store_always_returns [OF demo_init demo_run]) (simp_all add: demo_results [simplified])

text \<open>An entry that was stored is found: right after a store reports success, the lookup of its key hits, with the
  stored metadata and a new lease that reads the stored records; the evictions of the store never take it.\<close>

theorem stored_entry_is_found:
  assumes "cacheInit p" and "cacheRun lib L (p, emptyHeap) s"
    and "r < length (hpResults (snd s))" and "0 \<le> rcBytes (hpResults (snd s) ! r)"
    and "rcRecords (hpResults (snd s) ! r) = Some rs"
    and "StoreArrow k key tok r m s = Some (StoreStored, s')"
  shows "\<exists>l s''. LookupArrow k key s' = (LookupHit l m tok, s'') \<and> leaseRecords l (snd s'') = Inr rs"
proof -
  obtain out s2 where s2: "StoreArrow k key tok r m s = Some (out, s2)" "cache_ok s2"
    "out = StoreStored \<Longrightarrow> \<exists>x. fresh_entry k key r m s s2 x"
    "out = StoreStored \<Longrightarrow> \<exists>st st'. openState k (fst s) = Some st \<and> tok = ssGeneration st
           \<and> openState k (fst s2) = Some st' \<and> ssGeneration st' = tok"
    by (rule StoreArrow_total [OF reachable_ok [OF assms(1,2)] assms(3,4), of k key tok m]) (rule that; (assumption | blast))
  then have eq: "s2 = s'" "out = StoreStored" using assms(6) by simp_all
  obtain x st' where x: "fresh_entry k key r m s s' x" and st': "openState k (fst s') = Some st'" "ssGeneration st' = tok"
    using s2(3,4) eq by blast
  obtain res s'' where lk: "LookupArrow k key s' = (res, s'')" by (metis surj_pair)
  from x obtain zs where "ceScope (snd x) = k" "ceKey (snd x) = key" "ceMetadata (snd x) = m"
    "leaseRecords (ceHold (snd x)) (snd s') = Inr rs" "plLru (fst s') = x # zs"
    using assms(5) by (auto simp: fresh_entry_def)
  then show ?thesis
    using LookupArrow_ok(6) [OF s2(2) [unfolded eq(1)] lk, of x st'] st' lk by auto
qed

theorem stored_entry_is_found_witness:
  "\<exists>l s''. LookupArrow demoScope ''a'' demoStored = (LookupHit l demoMeta 0, s'') \<and> leaseRecords l (snd s'') = Inr [1]"
  by (rule stored_entry_is_found [OF demo_init demo_opened _ _ _ demo_stored]) (simp_all add: demo_results [simplified])

text \<open>C24: A lookup never fails because a cached result was freed, and the lease it hands out outlives the entry: whatever the cache
  and the other holders do afterwards (evict, delete, invalidate, close the scope or the pool), until the lease itself is
  released it stays live and reads the same records.\<close>

theorem lease_survives_eviction:
  assumes "cacheInit p" and "cacheRun lib L0 (p, emptyHeap) s" and "LookupArrow k key s = (res, s')"
  shows "res \<noteq> LookupReleased g \<and> (\<forall>l m L s''. res = LookupHit l m g \<longrightarrow> cacheRun lib L s' s'' \<longrightarrow> l \<notin> L
      \<longrightarrow> leaseLive l (snd s'') \<and> leaseRecords l (snd s'') = leaseRecords l (snd s'))"
proof (intro conjI allI impI)
  note ok = reachable_ok [OF assms(1,2)]
  note lk = LookupArrow_ok(1,2,3) [OF ok(1) assms(3)]
  show "res \<noteq> LookupReleased g" by (rule lk(3))
  fix l m L s'' assume res: "res = LookupHit l m g" and run: "cacheRun lib L s' s''" and l: "l \<notin> L"
  from cacheRun_keeps [OF run lk(1) lk(2) [OF ok(2)] LookupHit_fresh(1,2) [OF ok(1) assms(3) [unfolded res]] l]
  show "leaseLive l (snd s'')" "leaseRecords l (snd s'') = leaseRecords l (snd s')" by blast+
qed

definition demoHit :: "nat cacheState" where
  "demoHit = snd (LookupArrow demoScope ''a'' demoStored)"

lemma demo_hit: "LookupArrow demoScope ''a'' demoStored = (LookupHit 1 demoMeta 0, demoHit)"
proof -
  have "fst (LookupArrow demoScope ''a'' demoStored) = LookupHit 1 demoMeta 0" by code_simp
  then show ?thesis by (metis demoHit_def prod.collapse)
qed

theorem lease_survives_eviction_witness:
  "leaseLive 1 (snd (CloseScope demoScope demoHit)) \<and> leaseRecords 1 (snd (CloseScope demoScope demoHit)) = leaseRecords 1 (snd demoHit)"
proof -
  have "cacheRun demoLib ({} \<union> set_option None) demoHit (CloseScope demoScope demoHit)" by (rule crStep [OF crNil csClose])
  then have "cacheRun demoLib {} demoHit (CloseScope demoScope demoHit)" by simp
  with lease_survives_eviction [OF demo_init demo_run demo_hit, of 0] show ?thesis by blast
qed

text \<open>C25: Invalidation is complete and final: it takes every entry of the scope out of the cache and leaves every
  entry of another scope there, and a token taken before an invalidation is refused as long as the scope stays open. After
  any run in which the scope was invalidated, however often up to the 2^64 values of a token, a store with
  the old token is refused as stale and changes only the counter.\<close>

theorem invalidated_token_is_refused:
  assumes "cacheInit p" and "cacheRun lib L (p, emptyHeap) s" and "openState k (fst s) = Some st"
    and "openRun lib k n s s'" and "0 < n" and "n < 2 ^ 64"
  shows "{x \<in> set (plLru (fst s)). ceScope (snd x) \<noteq> k} = set (plLru (fst (Invalidate k s)))
    \<and> StoreArrow k key (ssGeneration st) r m s' = Some (StoreStale, (countStore StoreStale (fst s'), snd s'))"
proof
  note ok = reachable_ok [OF assms(1,2)]
  obtain st' where "openState k (fst s') = Some st'" "ssGeneration st' = ssGeneration st + of_nat n"
    using openRun_generation [OF assms(4) ok assms(3)] by blast
  then show "StoreArrow k key (ssGeneration st) r m s' = Some (StoreStale, (countStore StoreStale (fst s'), snd s'))"
    using generation_differs [OF assms(5,6), of "ssGeneration st"] by (simp add: StoreArrow_def Let_def)
  have st: "get (plScopes (fst s)) k = Some st" "\<not> ssClosed st"
    using assms(3) by (auto simp: openState_def split: if_splits option.splits)
  have "plLru (fst (Invalidate k s)) = plLru (fst (removeEntries (ssEntries st) s))"
    using st by (simp add: Invalidate_def Let_def updateScope_def split: option.split)
  then show "{x \<in> set (plLru (fst s)). ceScope (snd x) \<noteq> k} = set (plLru (fst (Invalidate k s)))"
    using scope_emptied(2) [OF ok(1) st(1)] by auto
qed

lemma demo_open_state: "\<exists>st. openState demoScope (fst demoStored) = Some st \<and> ssGeneration st = 0"
  using demo_state(2) by (cases "openState demoScope (fst demoStored)") auto

theorem invalidated_token_is_refused_witness:
  "\<exists>s. StoreArrow demoScope ''a'' 0 1 demoMeta (Invalidate demoScope (Invalidate demoScope demoStored)) = Some (StoreStale, s)"
  using demo_open_state invalidated_token_is_refused
    [OF demo_init demo_run _ orInvalidate [OF orInvalidate [OF orNil]], where k = demoScope and key = "''a''" and r = 1 and m = demoMeta]
  by auto

text \<open>C26: Eviction is least recently used within a scope. Whatever uses a run has made of the cache (us lists the keys of its
  lookups that hit and its stores that succeeded, the newest first), when a store leaves an entry in the cache it
  leaves every entry of the same scope whose last use is later, other than the one it replaces, whichever of the three
  budgets forced the evictions.\<close>

theorem eviction_is_least_recent:
  assumes "cacheInit p" and "useRun lib us (p, emptyHeap) s"
    and "r < length (hpResults (snd s))" and "0 \<le> rcBytes (hpResults (snd s) ! r)"
    and "StoreArrow k key tok r m s = Some (out, s')"
    and "a \<in> set (plLru (fst s))" and "b \<in> set (plLru (fst s))" and "ceScope (snd a) = ceScope (snd b)"
    and "usedAfter us (ceComposite (snd a)) (ceComposite (snd b))"
    and "ceComposite (snd a) \<noteq> compositeKey k key" and "b \<in> set (plLru (fst s'))"
  shows "a \<in> set (plLru (fst s'))"
proof (cases "a = b")
  case False
  obtain L where "cacheRun lib L (p, emptyHeap) s" using useRun_run [OF assms(2)] by blast
  note ok = reachable_ok [OF assms(1) this]
  have start: "plLru p = []" using assms(1) by (auto simp: cacheInit_def newPool_def andThen_eq_Inr)
  have "in_use_order us (plLru (fst s))"
    by (rule useRun_order [OF assms(2)]) (simp_all add: cacheInit_ok [OF assms(1)] start)
  then have old: "older (plLru (fst s)) a b"
    by (rule used_later_is_older [OF _ assms(6,7) False _ assms(9)]) (use ok(1) in \<open>simp add: cache_ok_def pool_ok_def lru_ok_def\<close>)
  show ?thesis
    by (rule StoreArrow_total [OF ok assms(3,4), of k key tok m])
       (metis old assms(5,8,10,11) Pair_inject option.inject)
qed (use assms in simp)

text \<open>C27: The cache implements a map that may forget. A successful store makes its key hold the stored result and changes no other key except by
  forgetting it; Delete forgets exactly its key; a lookup in an open scope
  reports exactly what the map holds and changes no key.\<close>

theorem cache_refines_map:
  assumes "cacheInit p" and "cacheRun lib L (p, emptyHeap) s" and "openState k (fst s) = Some st"
    and "r < length (hpResults (snd s))" and "0 \<le> rcBytes (hpResults (snd s) ! r)"
    and "StoreArrow k key tok r m s = Some (StoreStored, s1)" and "LookupArrow k key s = (res, s2)"
  shows "cached (fst s1) k key = Some (r, m)
    \<and> (\<forall>k' key'. sameSlot k key k' key' \<or> cached (fst s1) k' key' = None \<or> cached (fst s1) k' key' = cached (fst s) k' key')
    \<and> cached (fst (Delete k key s)) = (\<lambda>k' key'. if sameSlot k key k' key' then None else cached (fst s) k' key')
    \<and> cached (fst s2) = cached (fst s)
    \<and> (case cached (fst s) k key of None \<Rightarrow> res = LookupMiss (ssGeneration st)
       | Some (r', m') \<Rightarrow> \<exists>l. res = LookupHit l m' (ssGeneration st))"
proof -
  note ok = reachable_ok [OF assms(1,2)]
  have "cache_ok s1 \<and> (\<exists>x. fresh_entry k key r m s s1 x)"
    by (rule StoreArrow_total [OF ok assms(4,5), of k key tok m]) (use assms(6) in auto)
  then obtain x where x: "cache_ok s1" "fresh_entry k key r m s s1 x" by blast
  from Store_cached [OF ok(1) x] Delete_cached [OF ok(1) assms(3)] Lookup_cached [OF ok(1) assms(7)] assms(3)
  show ?thesis by blast
qed

definition demoTwo :: "nat cacheState" where
  "demoTwo = (case StoreArrow demoScope ''b'' 0 1 demoMeta demoStored of Some (_, s) \<Rightarrow> s | None \<Rightarrow> undefined)"

lemma demo_two: "StoreArrow demoScope ''b'' 0 1 demoMeta demoStored = Some (StoreStored, demoTwo)"
proof -
  have "map_option fst (StoreArrow demoScope ''b'' 0 1 demoMeta demoStored) = Some StoreStored" by code_simp
  then show ?thesis by (cases "StoreArrow demoScope ''b'' 0 1 demoMeta demoStored") (auto simp: demoTwo_def)
qed

text \<open>Both keys are stored, then the first is looked up again: it is used later than the second.\<close>

definition demoAgain :: "nat cacheState" where
  "demoAgain = snd (LookupArrow demoScope ''a'' demoTwo)"

definition demoThree :: "nat cacheState" where
  "demoThree = (case StoreArrow demoScope ''c'' 0 0 demoMeta demoAgain of Some (_, s) \<Rightarrow> s | None \<Rightarrow> undefined)"

lemma demo_again: "LookupArrow demoScope ''a'' demoTwo = (LookupHit 2 demoMeta 0, demoAgain)"
proof -
  have "fst (LookupArrow demoScope ''a'' demoTwo) = LookupHit 2 demoMeta 0" by code_simp
  then show ?thesis by (metis demoAgain_def prod.collapse)
qed

lemma demo_three: "StoreArrow demoScope ''c'' 0 0 demoMeta demoAgain = Some (StoreStored, demoThree)"
proof -
  have "map_option fst (StoreArrow demoScope ''c'' 0 0 demoMeta demoAgain) = Some StoreStored" by code_simp
  then show ?thesis by (cases "StoreArrow demoScope ''c'' 0 0 demoMeta demoAgain") (auto simp: demoThree_def)
qed

lemma demo_uses: "\<exists>us. useRun demoLib (compositeKey demoScope ''a'' # compositeKey demoScope ''b'' # us) (demoPool, emptyHeap) demoAgain"
proof -
  obtain us where "useRun demoLib us (demoPool, emptyHeap) demoStored" using run_useRun [OF demo_run] by blast
  moreover have "useStep demoLib [compositeKey demoScope ''b''] demoStored demoTwo"
    by (rule usStore [OF _ _ demo_two]) (simp_all add: demo_results [simplified])
  moreover have "useStep demoLib [compositeKey demoScope ''a''] demoTwo demoAgain" by (rule usHit [OF demo_again])
  ultimately show ?thesis by (metis urStep append_Cons append_Nil)
qed

lemma demo_again_lru: "plLru (fst demoAgain) ! 0 \<in> set (plLru (fst demoAgain))" "plLru (fst demoAgain) ! 1 \<in> set (plLru (fst demoAgain))"
  "ceScope (snd (plLru (fst demoAgain) ! 0)) = ceScope (snd (plLru (fst demoAgain) ! 1))"
  "ceComposite (snd (plLru (fst demoAgain) ! 0)) = compositeKey demoScope ''a''"
  "ceComposite (snd (plLru (fst demoAgain) ! 1)) = compositeKey demoScope ''b''"
  "compositeKey demoScope ''a'' \<noteq> compositeKey demoScope ''c''" "compositeKey demoScope ''a'' \<noteq> compositeKey demoScope ''b''"
  "plLru (fst demoAgain) ! 1 \<in> set (plLru (fst demoThree))"
  "length (hpResults (snd demoAgain)) = 2" "rcBytes (hpResults (snd demoAgain) ! 0) = 15"
  by code_simp+

theorem eviction_is_least_recent_witness:
  "plLru (fst demoAgain) ! 0 \<in> set (plLru (fst demoThree))"
proof -
  obtain us where us: "useRun demoLib (compositeKey demoScope ''a'' # compositeKey demoScope ''b'' # us) (demoPool, emptyHeap) demoAgain"
    using demo_uses by blast
  show ?thesis
    by (rule eviction_is_least_recent [OF demo_init us _ _ demo_three demo_again_lru(1,2,3) _ _ demo_again_lru(8)])
       (use demo_again_lru in \<open>simp_all add: usedAfter_Cons\<close>)
qed

theorem cache_refines_map_witness:
  "cached (fst demoTwo) demoScope ''b'' = Some (1, demoMeta) \<and> cached (fst (Delete demoScope ''b'' demoStored)) demoScope ''b'' = None"
proof -
  obtain st where st: "openState demoScope (fst demoStored) = Some st" using demo_open_state by blast
  obtain res s2 where "LookupArrow demoScope ''b'' demoStored = (res, s2)" by (metis surj_pair)
  from cache_refines_map [OF demo_init demo_run st _ _ demo_two this] show ?thesis
    by (simp add: demo_results [simplified] sameSlot_def)
qed

text \<open>C28: In every interleaving of builders, results and leases, a result's records are freed exactly when its owner and every lease
  has let go of it, a live lease always reads its records, and all four global counters are exact: results, leases and
  bytes are those not yet released, and the transient bytes are those of the records written to builders that are
  neither finished nor aborted.\<close>

theorem result_freed_exactly_when_unheld:
  assumes "builderRun lib (bs, h)"
  shows "(\<forall>r < length (hpResults h). rcRecords (hpResults h ! r) = None
            \<longleftrightarrow> rcOwnerReleased (hpResults h ! r) \<and> Some r \<notin> set (hpLeases h))
    \<and> (\<forall>l r. leaseLive l h \<and> hpLeases h ! l = Some r \<longrightarrow> (\<exists>rs. rcRecords (hpResults h ! r) = Some rs \<and> leaseRecords l h = Inr rs))
    \<and> asLeases (hpStats h) = int (liveLeases h) \<and> asResults (hpStats h) = retainedResults h \<and> asBytes (hpStats h) = retainedBytes h
    \<and> asTransient (hpStats h) = (\<Sum>b \<leftarrow> bs. recordBytes lib b) \<and> (\<forall>b \<in> set bs. buFinished b \<longrightarrow> buRecords b = [])"
proof -
  have ok: "heap_ok h" using builderRun_ok [OF assms] by simp
  have "\<exists>rs. rcRecords (hpResults h ! r) = Some rs \<and> leaseRecords l h = Inr rs" if "leaseLive l h" "hpLeases h ! l = Some r" for l r
    using leaseLive_cell(3) [OF ok that] that(2) by (auto simp: leaseRecords_def)
  then show ?thesis using unheld_freed [OF ok] builderRun_transient [OF assms] ok by (simp add: heap_ok_def transient_ok_def)
qed

text \<open>One builder holds a record of ten bytes; another has been finished, and its result released.\<close>

definition demoWriting :: "(nat, nat) builder" where
  "demoWriting = NewBuilder\<lparr>buSchema := Some 0, buRecords := [7], buRows := 1, buTransient := 10\<rparr>"

definition demoWritten :: "nat resultHeap" where
  "demoWritten = emptyHeap\<lparr>hpStats := \<lparr>asResults = 0, asLeases = 0, asBytes = 0, asTransient = 10\<rparr>\<rparr>"

definition demoFinish :: "(arrowError + nat) \<times> (nat, nat) builder \<times> nat resultHeap" where
  "demoFinish = Finish demoLib (NewBuilder\<lparr>buSchema := Some 0\<rparr>) demoWritten"

lemma demo_builders: "builderRun demoLib ([demoWriting, fst (snd demoFinish)], resultRelease 0 (snd (snd demoFinish)))"
proof -
  let ?b = "NewBuilder\<lparr>buSchema := Some 0\<rparr> :: (nat, nat) builder"
  have new: "WriteSchema (Some 0) NewBuilder = Inr ?b" by (simp add: WriteSchema_def NewBuilder_def)
  have rec: "WriteRecord demoLib (Some 7) ?b emptyHeap = Inr (demoWriting, demoWritten)"
    by (simp add: WriteRecord_def NewBuilder_def demoLib_def demoWriting_def demoWritten_def emptyHeap_def)
  have "builderRun demoLib ([?b], emptyHeap)"
    using brStep [OF brStep [OF brStart bsNew] bsSchema [of 0 _ "Some 0" ?b]] new by simp
  then have "builderRun demoLib ([demoWriting], demoWritten)"
    using brStep [OF _ bsRecord [of 0 "[?b]" demoLib "Some 7" emptyHeap]] rec by simp
  then have "builderRun demoLib ([demoWriting, ?b], demoWritten)"
    using brStep [OF brStep [OF _ bsNew] bsSchema [of 1 "[demoWriting] @ [NewBuilder]" "Some 0" ?b]] new by simp
  then have "builderRun demoLib ([demoWriting, fst (snd demoFinish)], snd (snd demoFinish))"
    using brStep [OF _ bsFinish [of 1 "[demoWriting, ?b]" demoLib demoWritten "fst demoFinish"]] by (simp add: demoFinish_def)
  moreover have "0 < length (hpResults (snd (snd demoFinish)))" by code_simp
  ultimately show ?thesis by (rule brStep [OF _ bsOwner])
qed

theorem result_freed_exactly_when_unheld_witness:
  "asTransient (hpStats (resultRelease 0 (snd (snd demoFinish)))) = 10"
proof -
  have "recordBytes demoLib demoWriting + recordBytes demoLib (fst (snd demoFinish)) = 10" by code_simp
  then show ?thesis using result_freed_exactly_when_unheld [OF demo_builders] by simp
qed

end
