(* ===== verification/Cache_Flights.thy ===== *)
theory Cache_Flights
  imports Cache_Pool
begin

text \<open>
  Coalesced executions (\<open>CoalesceArrow\<close> of \<^verbatim>\<open>internal/analytics/resultcache/pool.go\<close>). A flight is one
  execution; its number stands for its address. Each locked section of the code, and each call on
  a lease between two of them, is a step. A caller is where its goroutine stands in the loop of
  \<open>CoalesceArrow\<close>; the goroutine of a flight has one step, its completion. Any number of callers run
  in any interleaving, also with the other holders of results.
\<close>

section \<open>State\<close>

datatype flightError = CanceledFlight string | ExecFailed string

datatype callerError = CtxErr string | FlightFailed flightError | NoArrowData | AcquireFailed arrowError

record arrowFlight =
  flKey :: string
  flWaiters :: int
  flShared :: bool
  flComplete :: bool
  flData :: "nat option"
  flMetadata :: metadata
  flCached :: bool
  flErr :: "flightError option"

record flightValue =
  fvData :: "nat option"
  fvMetadata :: metadata
  fvCached :: bool

record flightLease =
  fleData :: nat
  fleMetadata :: metadata
  fleCached :: bool

text \<open>The status holds whether the caller started the flight and whether it was shared.\<close>

datatype callerPhase =
    WaitingFor nat bool
  | ReadFlight nat bool bool "flightError option" flightValue
  | AcquiredFrom nat bool bool "callerError + flightLease"
  | Rejoin string
  | Returned "callerError + flightLease" bool bool

record 'b coalescer =
  coFlights :: "arrowFlight list"
  coCurrent :: "nat goMap"
  coHeap :: "'b resultHeap"

definition emptyMetadata :: metadata where
  "emptyMetadata = \<lparr>mdSQL = [], mdTotalRows = 0, mdTotalRowsKnown = False, mdWarnings = []\<rparr>"

section \<open>Locked sections\<close>

definition joinArrowFlight :: "string \<Rightarrow> 'b coalescer \<Rightarrow> (nat \<times> bool) \<times> 'b coalescer" where
  "joinArrowFlight key s =
     (case get (coCurrent s) key of
        Some f \<Rightarrow>
          let fl = coFlights s ! f in
          ((f, False), s\<lparr>coFlights := (coFlights s)[f := fl\<lparr>flWaiters := flWaiters fl + 1, flShared := True\<rparr>]\<rparr>)
      | None \<Rightarrow>
          let f = length (coFlights s) in
          ((f, True), s\<lparr>coFlights := coFlights s @ [\<lparr>flKey = key, flWaiters = 1, flShared = False, flComplete = False,
                         flData = None, flMetadata = emptyMetadata, flCached = False, flErr = None\<rparr>],
                       coCurrent := put key f (coCurrent s)\<rparr>))"

text \<open>The end of the flight's goroutine: what the execution returned, and the owner's context error. The
  execution may itself return an \<open>OwnerCanceled\<close> error.\<close>

definition completeFlight :: "nat \<Rightarrow> flightValue \<Rightarrow> flightError option \<Rightarrow> string option \<Rightarrow> 'b coalescer \<Rightarrow> 'b coalescer" where
  "completeFlight f v execErr ownerErr s =
     (let fl = coFlights s ! f;
          err = (case ownerErr of Some e \<Rightarrow> Some (CanceledFlight e) | None \<Rightarrow> execErr);
          release = (flWaiters fl = 0 \<and> fvData v \<noteq> None);
          s1 = s\<lparr>coFlights := (coFlights s)[f := fl\<lparr>flComplete := True, flErr := err, flMetadata := fvMetadata v, flCached := fvCached v,
                   flData := (if release then None else fvData v)\<rparr>],
                 coCurrent := del (flKey fl) (coCurrent s)\<rparr>
      in case fvData v of
           Some l \<Rightarrow> if release then s1\<lparr>coHeap := leaseRelease l (coHeap s)\<rparr> else s1
         | None \<Rightarrow> s1)"

definition leaveArrowFlight :: "nat \<Rightarrow> 'b coalescer \<Rightarrow> 'b coalescer" where
  "leaveArrowFlight f s =
     (let fl = coFlights s ! f; fl1 = fl\<lparr>flWaiters := flWaiters fl - 1\<rparr> in
      case flData fl of
        Some l \<Rightarrow>
          if flWaiters fl1 = 0 \<and> flComplete fl
          then s\<lparr>coFlights := (coFlights s)[f := fl1\<lparr>flData := None\<rparr>], coHeap := leaseRelease l (coHeap s)\<rparr>
          else s\<lparr>coFlights := (coFlights s)[f := fl1]\<rparr>
      | None \<Rightarrow> s\<lparr>coFlights := (coFlights s)[f := fl1]\<rparr>)"

definition readFlight :: "nat \<Rightarrow> bool \<Rightarrow> 'b coalescer \<Rightarrow> callerPhase" where
  "readFlight f owner s =
     (let fl = coFlights s ! f in
      ReadFlight f owner (flShared fl) (flErr fl)
        \<lparr>fvData = flData fl, fvMetadata = flMetadata fl, fvCached = flCached fl\<rparr>)"

section \<open>One caller's step after reading its flight\<close>

definition afterRead :: "string option \<Rightarrow> callerPhase \<Rightarrow> 'b coalescer \<Rightarrow> callerPhase \<times> 'b coalescer" where
  "afterRead ctxErr ph s =
     (case ph of
        ReadFlight f owner shared (Some e) v \<Rightarrow>
          ((case (e, ctxErr) of (CanceledFlight _, None) \<Rightarrow> Rejoin (flKey (coFlights s ! f)) | _ \<Rightarrow> Returned (Inl (FlightFailed e)) owner shared),
           leaveArrowFlight f s)
      | ReadFlight f owner shared None v \<Rightarrow>
          (case fvData v of
             None \<Rightarrow> (Returned (Inl NoArrowData) owner shared, leaveArrowFlight f s)
           | Some l \<Rightarrow>
               (case leaseAcquire l (coHeap s) of
                  (Inl e, h) \<Rightarrow> (AcquiredFrom f owner shared (Inl (AcquireFailed e)), s\<lparr>coHeap := h\<rparr>)
                | (Inr l', h) \<Rightarrow> (AcquiredFrom f owner shared
                      (Inr \<lparr>fleData = l', fleMetadata = fvMetadata v, fleCached = fvCached v\<rparr>), s\<lparr>coHeap := h\<rparr>)))
      | _ \<Rightarrow> (ph, s))"

section \<open>Interleavings\<close>

definition owned :: "'b coalescer \<Rightarrow> nat set" where
  "owned s = {l. \<exists>fl \<in> set (coFlights s). flData fl = Some l}"

text \<open>
  The lease an execution hands over is live and its own. The context of a caller may be cancelled
  at any time, and so may the owner's.
\<close>

inductive coStep :: "('s, 'b) arrowLib \<Rightarrow> 'b coalescer \<times> callerPhase list \<Rightarrow> 'b coalescer \<times> callerPhase list \<Rightarrow> bool" for lib where
  coEnter: "joinArrowFlight key s = ((f, owner), s') \<Longrightarrow> coStep lib (s, cs) (s', cs @ [WaitingFor f owner])"
| coRejoin: "c < length cs \<Longrightarrow> cs ! c = Rejoin key \<Longrightarrow> joinArrowFlight key s = ((f, owner), s') \<Longrightarrow>
    coStep lib (s, cs) (s', cs[c := WaitingFor f owner])"
| coCancel: "c < length cs \<Longrightarrow> cs ! c = WaitingFor f owner \<Longrightarrow>
    coStep lib (s, cs) (leaveArrowFlight f s, cs[c := Returned (Inl (CtxErr e)) False False])"
| coRead: "c < length cs \<Longrightarrow> cs ! c = WaitingFor f owner \<Longrightarrow> flComplete (coFlights s ! f) \<Longrightarrow>
    coStep lib (s, cs) (s, cs[c := readFlight f owner s])"
| coAfter: "c < length cs \<Longrightarrow> cs ! c = ReadFlight f owner shared err v \<Longrightarrow> afterRead ctxErr (cs ! c) s = (ph, s') \<Longrightarrow>
    coStep lib (s, cs) (s', cs[c := ph])"
| coLeave: "c < length cs \<Longrightarrow> cs ! c = AcquiredFrom f owner shared res \<Longrightarrow>
    coStep lib (s, cs) (leaveArrowFlight f s, cs[c := Returned res owner shared])"
| coComplete: "f < length (coFlights s) \<Longrightarrow> \<not> flComplete (coFlights s ! f) \<Longrightarrow>
    \<forall>l \<in> set_option (fvData v). leaseLive l (coHeap s) \<and> l \<notin> owned s \<Longrightarrow>
    coStep lib (s, cs) (completeFlight f v execErr ownerErr s, cs)"
| coHeapStep: "heapStep lib x (coHeap s) h' \<Longrightarrow> set_option x \<inter> owned s = {} \<Longrightarrow> coStep lib (s, cs) (s\<lparr>coHeap := h'\<rparr>, cs)"

inductive coReach :: "('s, 'b) arrowLib \<Rightarrow> 'b coalescer \<times> callerPhase list \<Rightarrow> bool" for lib where
  coInit: "coReach lib (\<lparr>coFlights = [], coCurrent = [], coHeap = emptyHeap\<rparr>, [])"
| coNext: "coReach lib t \<Longrightarrow> coStep lib t t' \<Longrightarrow> coReach lib t'"

inductive_cases coStepE: "coStep lib t t'"

section \<open>Invariant\<close>

fun onFlight :: "callerPhase \<Rightarrow> nat option" where
  "onFlight (WaitingFor f _) = Some f"
| "onFlight (ReadFlight f _ _ _ _) = Some f"
| "onFlight (AcquiredFrom f _ _ _) = Some f"
| "onFlight _ = None"

definition waitersOn :: "nat \<Rightarrow> callerPhase list \<Rightarrow> int" where
  "waitersOn f cs = (\<Sum>c \<leftarrow> cs. if onFlight c = Some f then 1 else 0)"

definition phase_ok :: "'b coalescer \<Rightarrow> callerPhase \<Rightarrow> bool" where
  "phase_ok s ph \<longleftrightarrow> (\<forall>f. onFlight ph = Some f \<longrightarrow> f < length (coFlights s))
     \<and> (case ph of
          ReadFlight f _ _ err v \<Rightarrow> flComplete (coFlights s ! f) \<and> flData (coFlights s ! f) = fvData v \<and> flErr (coFlights s ! f) = err
        | AcquiredFrom f _ _ res \<Rightarrow> flComplete (coFlights s ! f) \<and> (\<forall>e. res \<noteq> Inl e)
        | Returned res _ _ \<Rightarrow> (\<forall>e. res \<noteq> Inl (AcquireFailed e))
        | _ \<Rightarrow> True)"

definition flight_ok :: "'b coalescer \<Rightarrow> callerPhase list \<Rightarrow> nat \<Rightarrow> bool" where
  "flight_ok s cs f \<longleftrightarrow>
     (let fl = coFlights s ! f in
      flWaiters fl = waitersOn f cs
      \<and> (flComplete fl \<longrightarrow> flWaiters fl = 0 \<longrightarrow> flData fl = None)
      \<and> (flComplete fl \<or> flData fl = None)
      \<and> (\<forall>l. flData fl = Some l \<longrightarrow> leaseLive l (coHeap s))
      \<and> (flComplete fl \<longleftrightarrow> get (coCurrent s) (flKey fl) \<noteq> Some f))"

definition co_ok :: "'b coalescer \<times> callerPhase list \<Rightarrow> bool" where
  "co_ok t \<longleftrightarrow> heap_ok (coHeap (fst t))
     \<and> (\<forall>f < length (coFlights (fst t)). flight_ok (fst t) (snd t) f)
     \<and> (\<forall>c \<in> set (snd t). phase_ok (fst t) c)
     \<and> (\<forall>key f. get (coCurrent (fst t)) key = Some f \<longrightarrow> f < length (coFlights (fst t)) \<and> flKey (coFlights (fst t) ! f) = key)
     \<and> (\<forall>f g l. f < length (coFlights (fst t)) \<longrightarrow> g < length (coFlights (fst t)) \<longrightarrow>
          flData (coFlights (fst t) ! f) = Some l \<longrightarrow> flData (coFlights (fst t) ! g) = Some l \<longrightarrow> f = g)"

lemma waitersOn_update:
  "c < length cs \<Longrightarrow> waitersOn f (cs[c := ph]) = waitersOn f cs
     - (if onFlight (cs ! c) = Some f then 1 else 0) + (if onFlight ph = Some f then 1 else 0)"
  unfolding waitersOn_def by (rule sum_list_replace)

lemma waitersOn_append: "waitersOn f (cs @ [ph]) = waitersOn f cs + (if onFlight ph = Some f then 1 else 0)"
  by (simp add: waitersOn_def)

lemma waitersOn_nonneg: "0 \<le> waitersOn f cs"
  unfolding waitersOn_def by (rule sum_list_nonneg) auto

lemma waitersOn_none: "\<forall>c \<in> set cs. onFlight c \<noteq> Some f \<Longrightarrow> waitersOn f cs = 0"
  by (induction cs) (simp_all add: waitersOn_def)

lemma waitersOn_pos: "c < length cs \<Longrightarrow> onFlight (cs ! c) = Some f \<Longrightarrow> 1 \<le> waitersOn f cs"
  using waitersOn_update [of c cs f "Rejoin []"] waitersOn_nonneg [of f "cs[c := Rejoin []]"] by simp

text \<open>A step that rewrites one flight.\<close>

lemma co_update:
  assumes ok: "co_ok (s, cs)" and f: "f < length (coFlights s)" and fl: "coFlights s' = (coFlights s)[f := fl']"
    and others: "\<And>g. g \<noteq> f \<Longrightarrow> waitersOn g cs' = waitersOn g cs"
    and new: "flight_ok s' cs' f" and h: "heap_ok (coHeap s')"
    and live: "\<And>g l. g < length (coFlights s) \<Longrightarrow> g \<noteq> f \<Longrightarrow> flData (coFlights s ! g) = Some l \<Longrightarrow> leaseLive l (coHeap s')"
    and cur: "\<And>key g. get (coCurrent s') key = Some g \<Longrightarrow> get (coCurrent s) key = Some g"
      "\<And>key g. g \<noteq> f \<Longrightarrow> get (coCurrent s) key = Some g \<Longrightarrow> get (coCurrent s') key = Some g"
    and key: "flKey fl' = flKey (coFlights s ! f)"
    and alone: "\<And>g l. g < length (coFlights s) \<Longrightarrow> g \<noteq> f \<Longrightarrow> flData (coFlights s ! g) = Some l \<Longrightarrow> flData fl' \<noteq> Some l"
    and phases: "\<forall>c \<in> set cs'. phase_ok s' c"
  shows "co_ok (s', cs')"
proof -
  have len: "length (coFlights s') = length (coFlights s)" by (simp add: fl)
  have nth: "coFlights s' ! g = (if g = f then fl' else coFlights s ! g)" if "g < length (coFlights s)" for g
    using that f by (simp add: fl)
  have "flight_ok s' cs' g" if "g < length (coFlights s')" for g
  proof (cases "g = f")
    case False
    have old: "flight_ok s cs g" using ok that len by (simp add: co_ok_def)
    have "get (coCurrent s') (flKey (coFlights s ! g)) = Some g \<longleftrightarrow> get (coCurrent s) (flKey (coFlights s ! g)) = Some g"
      using cur False by blast
    then show ?thesis using old False others [OF False] live that len
      by (auto simp: flight_ok_def Let_def nth)
  qed (use new in simp)
  moreover have "g < length (coFlights s') \<and> flKey (coFlights s' ! g) = k" if "get (coCurrent s') k = Some g" for k g
  proof -
    have "g < length (coFlights s) \<and> flKey (coFlights s ! g) = k" using cur(1) [OF that] ok by (simp add: co_ok_def)
    then show ?thesis using len nth key by auto
  qed
  moreover have "g = g'" if "g < length (coFlights s')" "g' < length (coFlights s')"
    "flData (coFlights s' ! g) = Some l" "flData (coFlights s' ! g') = Some l" for g g' l
  proof (cases "g = f \<or> g' = f")
    case True
    then show ?thesis using that alone [of g l] alone [of g' l] len nth by (auto split: if_splits)
  next
    case False
    then show ?thesis using that ok len nth unfolding co_ok_def fst_conv by metis
  qed
  ultimately show ?thesis using h phases by (simp add: co_ok_def)
qed

lemma flight_at: "co_ok (s, cs) \<Longrightarrow> f < length (coFlights s) \<Longrightarrow> flight_ok s cs f"
  by (simp add: co_ok_def)

lemma on_bound: "co_ok (s, cs) \<Longrightarrow> c < length cs \<Longrightarrow> onFlight (cs ! c) = Some f \<Longrightarrow> f < length (coFlights s)"
  by (auto simp: co_ok_def phase_ok_def dest: nth_mem)

lemma phase_kept:
  assumes "phase_ok s ph" and "length (coFlights s) \<le> length (coFlights s')"
    and "\<And>f. onFlight ph = Some f \<Longrightarrow> f < length (coFlights s) \<Longrightarrow> flComplete (coFlights s ! f) \<Longrightarrow>
      flComplete (coFlights s' ! f) \<and> flErr (coFlights s' ! f) = flErr (coFlights s ! f) \<and> flData (coFlights s' ! f) = flData (coFlights s ! f)"
  shows "phase_ok s' ph"
  using assms by (cases ph) (auto simp: phase_ok_def)

lemma no_data_update: "flData fl = None \<Longrightarrow> fl\<lparr>flWaiters := n, flData := None\<rparr> = fl\<lparr>flWaiters := n\<rparr>"
  by (cases fl) simp

lemma leave_ok:
  assumes ok: "co_ok (s, cs)" and c: "c < length cs" "onFlight (cs ! c) = Some f" and ph: "onFlight ph = None" "phase_ok s ph"
  shows "co_ok (leaveArrowFlight f s, cs[c := ph])"
proof -
  let ?fl = "coFlights s ! f" and ?cs = "cs[c := ph]" and ?s = "leaveArrowFlight f s"
  have f: "f < length (coFlights s)" using on_bound [OF ok c] .
  note fok = flight_at [OF ok f, unfolded flight_ok_def Let_def]
  have w: "waitersOn f ?cs = waitersOn f cs - 1" using waitersOn_update [OF c(1)] c(2) ph(1) by simp
  define out where "out \<longleftrightarrow> waitersOn f ?cs = 0 \<and> flComplete ?fl"
  define fl' where "fl' = ?fl\<lparr>flWaiters := waitersOn f ?cs, flData := (if out then None else flData ?fl)\<rparr>"
  have wf: "flWaiters ?fl - 1 = waitersOn f ?cs" using fok w by simp
  have parts: "coFlights ?s = (coFlights s)[f := fl']" "coCurrent ?s = coCurrent s"
    "coHeap ?s = (if out then case flData ?fl of Some l \<Rightarrow> leaseRelease l (coHeap s) | None \<Rightarrow> coHeap s else coHeap s)"
    using wf by (auto simp: leaveArrowFlight_def Let_def out_def fl'_def no_data_update split: option.splits)
  have h: "heap_ok (coHeap s)" using ok by (simp add: co_ok_def)
  have live: "leaseLive l (coHeap s)" if "flData ?fl = Some l" for l using fok that by simp
  show ?thesis
  proof (rule co_update [OF ok f parts(1)])
    show "waitersOn g ?cs = waitersOn g cs" if "g \<noteq> f" for g using waitersOn_update [OF c(1)] c(2) ph(1) that by simp
    show "flight_ok ?s ?cs f"
    proof -
      have "leaseLive l (coHeap ?s)" if "flData fl' = Some l" for l
        using that live parts(3) by (auto simp: fl'_def split: if_splits)
      then show ?thesis using f fok parts by (auto simp: flight_ok_def Let_def fl'_def out_def)
    qed
    show "heap_ok (coHeap ?s)"
      using h live arrow_leases.release_ok by (auto simp: parts(3) split: option.split)
    show "leaseLive l (coHeap ?s)" if g: "g < length (coFlights s)" "g \<noteq> f" "flData (coFlights s ! g) = Some l" for g l
    proof -
      have "leaseLive l (coHeap s)" using flight_at [OF ok g(1)] g(3) by (simp add: flight_ok_def Let_def)
      moreover have "flData ?fl \<noteq> Some l" using ok g f by (auto simp: co_ok_def)
      ultimately show ?thesis using live arrow_leases.release_live [OF h] by (auto simp: parts(3) split: option.split)
    qed
    show "flData fl' \<noteq> Some l" if "g < length (coFlights s)" "g \<noteq> f" "flData (coFlights s ! g) = Some l" for g l
      using ok that f by (auto simp: co_ok_def fl'_def)
    show "\<forall>p \<in> set ?cs. phase_ok ?s p"
    proof
      fix p assume p: "p \<in> set ?cs"
      then have old: "phase_ok s p" using ok ph(2) set_update_subset_insert [of cs c ph] by (auto simp: co_ok_def)
      show "phase_ok ?s p"
      proof (rule phase_kept [OF old])
        fix g assume g: "onFlight p = Some g" "g < length (coFlights s)" "flComplete (coFlights s ! g)"
        obtain i where "i < length ?cs" "?cs ! i = p" using p by (metis in_set_conv_nth)
        then have "1 \<le> waitersOn g ?cs" using waitersOn_pos g(1) by metis
        then show "flComplete (coFlights ?s ! g) \<and> flErr (coFlights ?s ! g) = flErr (coFlights s ! g) \<and> flData (coFlights ?s ! g) = flData (coFlights s ! g)"
          using g(2,3) by (cases "g = f") (auto simp: parts(1) fl'_def out_def)
      qed (simp add: parts(1))
    qed
  qed (auto simp: parts(2) fl'_def)
qed

lemma join_ok:
  assumes ok: "co_ok (s, cs)" and j: "joinArrowFlight key s = ((f, owner), s')"
    and w: "\<And>g. waitersOn g cs' = waitersOn g cs + (if g = f then 1 else 0)"
    and cs': "set cs' \<subseteq> insert (WaitingFor f owner) (set cs)"
  shows "co_ok (s', cs')" and "f < length (coFlights s') \<and> flKey (coFlights s' ! f) = key \<and> \<not> flComplete (coFlights s' ! f)"
proof -
  have h: "heap_ok (coHeap s)" using ok by (simp add: co_ok_def)
  have "co_ok (s', cs') \<and> f < length (coFlights s') \<and> flKey (coFlights s' ! f) = key \<and> \<not> flComplete (coFlights s' ! f)"
  proof (cases "get (coCurrent s) key")
    case (Some g)
    let ?fl = "coFlights s ! f"
    define fl' where "fl' = ?fl\<lparr>flWaiters := flWaiters ?fl + 1, flShared := True\<rparr>"
    have g: "g = f" and s': "s' = s\<lparr>coFlights := (coFlights s)[f := fl']\<rparr>"
      using j Some by (auto simp: joinArrowFlight_def Let_def fl'_def)
    have f: "f < length (coFlights s)" "flKey ?fl = key" using ok Some g by (auto simp: co_ok_def)
    note fok = flight_at [OF ok f(1), unfolded flight_ok_def Let_def]
    have inc: "\<not> flComplete ?fl" using fok Some f(2) g by simp
    have "co_ok (s', cs')"
    proof (rule co_update [OF ok f(1)])
      show "coFlights s' = (coFlights s)[f := fl']" by (simp add: s')
      show "flight_ok s' cs' f" using f fok inc w by (simp add: flight_ok_def Let_def s' fl'_def)
      show "\<forall>c \<in> set cs'. phase_ok s' c"
      proof
        fix c assume "c \<in> set cs'"
        then consider "c = WaitingFor f owner" | "phase_ok s c" using cs' ok by (auto simp: co_ok_def)
        then show "phase_ok s' c"
        proof cases
          case 2
          show ?thesis
          proof (rule phase_kept [OF 2])
            fix g assume "flComplete (coFlights s ! g)"
            then have "g \<noteq> f" using inc by blast
            then show "flComplete (coFlights s' ! g) \<and> flErr (coFlights s' ! g) = flErr (coFlights s ! g) \<and> flData (coFlights s' ! g) = flData (coFlights s ! g)"
              using \<open>flComplete (coFlights s ! g)\<close> by (simp add: s')
          qed (simp add: s')
        qed (use f in \<open>simp add: phase_ok_def s'\<close>)
      qed
      show "flData fl' \<noteq> Some l" for l using fok inc by (simp add: fl'_def)
      show "leaseLive l (coHeap s')" if "g < length (coFlights s)" "g \<noteq> f" "flData (coFlights s ! g) = Some l" for g l
        using flight_at [OF ok that(1)] that(3) by (simp add: flight_ok_def Let_def s')
    qed (use h w in \<open>auto simp: s' fl'_def\<close>)
    then show ?thesis using f inc by (simp add: s' fl'_def)
  next
    case None
    let ?n = "length (coFlights s)"
    define fl' where "fl' = \<lparr>flKey = key, flWaiters = 1, flShared = False, flComplete = False, flData = None,
      flMetadata = emptyMetadata, flCached = False, flErr = None\<rparr>"
    have f: "f = ?n" and s': "s' = s\<lparr>coFlights := coFlights s @ [fl'], coCurrent := put key ?n (coCurrent s)\<rparr>"
      using j None by (auto simp: joinArrowFlight_def Let_def fl'_def)
    have none: "waitersOn ?n cs = 0"
      using ok by (intro waitersOn_none) (auto simp: co_ok_def phase_ok_def)
    have "flight_ok s' cs' g" if "g < length (coFlights s')" for g
    proof (cases "g = ?n")
      case True
      then show ?thesis using w none f by (simp add: flight_ok_def Let_def s' fl'_def)
    next
      case False
      then have g: "g < ?n" using that by (simp add: s')
      have cur: "get (coCurrent s) (flKey (coFlights s ! g)) = Some g \<Longrightarrow> flKey (coFlights s ! g) \<noteq> key" using None by auto
      then show ?thesis using flight_at [OF ok g] w False f g
        by (auto simp: flight_ok_def Let_def s' nth_append)
    qed
    moreover have "phase_ok s' c" if c: "c \<in> set cs'" for c
    proof -
      consider "c = WaitingFor f owner" | "phase_ok s c" using c cs' ok by (auto simp: co_ok_def)
      then show ?thesis
      proof cases
        case 2
        show ?thesis by (rule phase_kept [OF 2]) (auto simp: s' nth_append)
      qed (simp add: phase_ok_def s' f)
    qed
    moreover have "g < length (coFlights s') \<and> flKey (coFlights s' ! g) = k" if "get (coCurrent s') k = Some g" for k g
      using that ok by (auto simp: s' fl'_def co_ok_def nth_append less_SucI split: if_splits)
    moreover have "g = g'" if "g < length (coFlights s')" "g' < length (coFlights s')"
      "flData (coFlights s' ! g) = Some l" "flData (coFlights s' ! g') = Some l" for g g' l
    proof -
      have "g < ?n" "g' < ?n" using that by (auto simp: s' fl'_def nth_append less_Suc_eq split: if_splits)
      then show ?thesis using that ok unfolding co_ok_def fst_conv by (simp add: s' nth_append)
    qed
    ultimately have "co_ok (s', cs')" using h by (simp add: co_ok_def s')
    then show ?thesis by (simp add: s' f fl'_def)
  qed
  then show "co_ok (s', cs')" "f < length (coFlights s') \<and> flKey (coFlights s' ! f) = key \<and> \<not> flComplete (coFlights s' ! f)"
    by blast+
qed

lemma complete_ok:
  assumes ok: "co_ok (s, cs)" and f: "f < length (coFlights s)" "\<not> flComplete (coFlights s ! f)"
    and v: "\<forall>l \<in> set_option (fvData v). leaseLive l (coHeap s) \<and> l \<notin> owned s"
  shows "co_ok (completeFlight f v execErr ownerErr s, cs)"
proof -
  let ?fl = "coFlights s ! f" and ?s = "completeFlight f v execErr ownerErr s"
  note fok = flight_at [OF ok f(1), unfolded flight_ok_def Let_def]
  have h: "heap_ok (coHeap s)" using ok by (simp add: co_ok_def)
  define rel where "rel \<longleftrightarrow> flWaiters ?fl = 0 \<and> fvData v \<noteq> None"
  define fl' where "fl' = ?fl\<lparr>flComplete := True, flErr := (case ownerErr of Some e \<Rightarrow> Some (CanceledFlight e) | None \<Rightarrow> execErr),
     flMetadata := fvMetadata v, flCached := fvCached v, flData := (if rel then None else fvData v)\<rparr>"
  have parts: "coFlights ?s = (coFlights s)[f := fl']" "coCurrent ?s = del (flKey ?fl) (coCurrent s)"
    "coHeap ?s = (case fvData v of Some l \<Rightarrow> if rel then leaseRelease l (coHeap s) else coHeap s | None \<Rightarrow> coHeap s)"
    by (auto simp: completeFlight_def Let_def rel_def fl'_def split: option.splits)
  have cur: "get (coCurrent s) (flKey ?fl) = Some f" using fok f(2) by simp
  show ?thesis
  proof (rule co_update [OF ok f(1) parts(1)])
    show "heap_ok (coHeap ?s)" using h v arrow_leases.release_ok by (auto simp: parts(3) split: option.split)
    show "flight_ok ?s cs f"
    proof -
      have "leaseLive l (coHeap ?s)" if "flData fl' = Some l" for l
        using that v by (auto simp: fl'_def parts(3) split: if_splits)
      moreover have "flData fl' = None" if "flWaiters ?fl = 0" using that by (auto simp: fl'_def rel_def)
      ultimately show ?thesis using f fok by (auto simp: flight_ok_def Let_def parts(1,2)) (auto simp: fl'_def)
    qed
    show "leaseLive l (coHeap ?s)" if g: "g < length (coFlights s)" "g \<noteq> f" "flData (coFlights s ! g) = Some l" for g l
    proof -
      have "leaseLive l (coHeap s)" using flight_at [OF ok g(1)] g(3) by (simp add: flight_ok_def Let_def)
      moreover have "l \<in> owned s" using g unfolding owned_def by (metis (mono_tags) mem_Collect_eq nth_mem)
      ultimately show ?thesis using v arrow_leases.release_live [OF h] by (auto simp: parts(3) split: option.split)
    qed
    show "flData fl' \<noteq> Some l" if g: "g < length (coFlights s)" "g \<noteq> f" "flData (coFlights s ! g) = Some l" for g l
    proof -
      have "l \<in> owned s" using g unfolding owned_def by (metis (mono_tags) mem_Collect_eq nth_mem)
      then show ?thesis using v by (auto simp: fl'_def)
    qed
    show "get (coCurrent s) key = Some g" if "get (coCurrent ?s) key = Some g" for key g
      using that by (auto simp: parts(2) split: if_splits)
    show "get (coCurrent ?s) key = Some g" if "g \<noteq> f" "get (coCurrent s) key = Some g" for key g
      using that cur by (auto simp: parts(2))
    show "\<forall>p \<in> set cs. phase_ok ?s p"
    proof
      fix p assume "p \<in> set cs"
      then have "phase_ok s p" using ok by (simp add: co_ok_def)
      then show "phase_ok ?s p"
      proof (rule phase_kept)
        fix g assume g: "flComplete (coFlights s ! g)"
        then have "g \<noteq> f" using f(2) by blast
        then show "flComplete (coFlights ?s ! g) \<and> flErr (coFlights ?s ! g) = flErr (coFlights s ! g) \<and> flData (coFlights ?s ! g) = flData (coFlights s ! g)"
          using g by (simp add: parts(1))
      qed (simp add: parts(1))
    qed
  qed (simp_all add: fl'_def)
qed

text \<open>Steps that leave the flights alone.\<close>

lemma heap_swap_ok:
  assumes ok: "co_ok (s, cs)" and h: "heap_ok h'"
    and live: "\<And>l. l \<in> owned s \<Longrightarrow> leaseLive l (coHeap s) \<Longrightarrow> leaseLive l h'"
    and w: "\<And>g. waitersOn g cs' = waitersOn g cs" and phases: "\<forall>c \<in> set cs'. phase_ok s c"
  shows "co_ok (s\<lparr>coHeap := h'\<rparr>, cs')"
proof -
  let ?s = "s\<lparr>coHeap := h'\<rparr>"
  have "flight_ok ?s cs' f" if f: "f < length (coFlights s)" for f
  proof -
    have "leaseLive l h'" if "flData (coFlights s ! f) = Some l" for l
    proof (rule live)
      show "l \<in> owned s" unfolding owned_def using that f by (metis (mono_tags) mem_Collect_eq nth_mem)
      show "leaseLive l (coHeap s)" using flight_at [OF ok f] that by (simp add: flight_ok_def Let_def)
    qed
    then show ?thesis using flight_at [OF ok f] w by (auto simp: flight_ok_def Let_def)
  qed
  moreover have "phase_ok ?s c \<longleftrightarrow> phase_ok s c" for c by (cases c) (simp_all add: phase_ok_def)
  ultimately show ?thesis using ok h phases by (simp add: co_ok_def)
qed

lemma phase_swap_ok:
  assumes ok: "co_ok (s, cs)" and c: "c < length cs" and ph: "onFlight ph = onFlight (cs ! c)" "phase_ok s ph"
    and h: "heap_ok h'" and live: "\<And>l. leaseLive l (coHeap s) \<Longrightarrow> leaseLive l h'"
  shows "co_ok (s\<lparr>coHeap := h'\<rparr>, cs[c := ph])"
proof (rule heap_swap_ok [OF ok h])
  show "waitersOn g (cs[c := ph]) = waitersOn g cs" for g using waitersOn_update [OF c] ph(1) by simp
  show "\<forall>p \<in> set (cs[c := ph]). phase_ok s p"
    using ok ph(2) set_update_subset_insert [of cs c ph] by (auto simp: co_ok_def)
qed (use live in blast)

lemma after_ok:
  assumes ok: "co_ok (s, cs)" and c: "c < length cs" "cs ! c = ReadFlight f owner shared err v"
    and a: "afterRead ctxErr (cs ! c) s = (ph, s')"
  shows "co_ok (s', cs[c := ph])"
    and "err = None \<Longrightarrow> fvData v = Some l \<Longrightarrow> \<exists>l'. ph = AcquiredFrom f owner shared (Inr \<lparr>fleData = l', fleMetadata = fvMetadata v, fleCached = fvCached v\<rparr>)
       \<and> leaseLive l' (coHeap s') \<and> leaseRecords l' (coHeap s') = leaseRecords l (coHeap s)"
proof -
  have on: "onFlight (cs ! c) = Some f" using c by simp
  have f: "f < length (coFlights s)" using on_bound [OF ok c(1) on] .
  have ph_ok: "phase_ok s (cs ! c)" using ok nth_mem [OF c(1)] by (simp add: co_ok_def)
  then have data: "flData (coFlights s ! f) = fvData v" "flComplete (coFlights s ! f)" using c by (simp_all add: phase_ok_def)
  have h: "heap_ok (coHeap s)" using ok by (simp add: co_ok_def)
  have "co_ok (s', cs[c := ph]) \<and> (\<forall>l. err = None \<longrightarrow> fvData v = Some l \<longrightarrow>
      (\<exists>l'. ph = AcquiredFrom f owner shared (Inr \<lparr>fleData = l', fleMetadata = fvMetadata v, fleCached = fvCached v\<rparr>)
       \<and> leaseLive l' (coHeap s') \<and> leaseRecords l' (coHeap s') = leaseRecords l (coHeap s)))"
  proof (cases "err = None \<and> fvData v \<noteq> None")
    case False
    then have "s' = leaveArrowFlight f s" "onFlight ph = None" "phase_ok s ph"
      using a c by (auto simp: afterRead_def phase_ok_def split: option.splits flightError.splits)
    then show ?thesis using leave_ok [OF ok c(1) on] False by auto
  next
    case True
    then obtain l where l: "err = None" "fvData v = Some l" by blast
    have live: "leaseLive l (coHeap s)" using flight_at [OF ok f] data l by (simp add: flight_ok_def Let_def)
    obtain l' h' where acq: "leaseAcquire l (coHeap s) = (Inr l', h')" "heap_ok h'" "leaseLive l' h'"
      "leaseRecords l' h' = leaseRecords l (coHeap s)" "\<And>k. leaseLive k h' \<longleftrightarrow> leaseLive k (coHeap s) \<or> k = l'"
      by (rule leaseAcquire_live [OF h live]) (rule that)
    have ph: "ph = AcquiredFrom f owner shared (Inr \<lparr>fleData = l', fleMetadata = fvMetadata v, fleCached = fvCached v\<rparr>)"
      and s': "s' = s\<lparr>coHeap := h'\<rparr>" using a c l acq(1) by (simp_all add: afterRead_def)
    have "co_ok (s', cs[c := ph])" unfolding s'
      by (rule phase_swap_ok [OF ok c(1) _ _ acq(2)]) (use c f data acq(5) in \<open>auto simp: ph phase_ok_def\<close>)
    then show ?thesis using l ph s' acq(3,4) by simp
  qed
  then show "co_ok (s', cs[c := ph])" and "err = None \<Longrightarrow> fvData v = Some l \<Longrightarrow> \<exists>l'. ph = AcquiredFrom f owner shared (Inr \<lparr>fleData = l', fleMetadata = fvMetadata v, fleCached = fvCached v\<rparr>)
       \<and> leaseLive l' (coHeap s') \<and> leaseRecords l' (coHeap s') = leaseRecords l (coHeap s)" by blast+
qed

lemma coStep_ok:
  assumes "coStep lib t t'" and "co_ok t"
  shows "co_ok t'"
  using assms(1)
proof cases
  case (coEnter key s f owner s' cs)
  then show ?thesis using join_ok(1) [of s cs key f owner s' "cs @ [WaitingFor f owner]"] assms(2)
    by (simp add: waitersOn_append)
next
  case (coRejoin c cs key s f owner s')
  then show ?thesis using join_ok(1) [of s cs key f owner s' "cs[c := WaitingFor f owner]"] assms(2)
    by (simp add: waitersOn_update set_update_subset_insert)
next
  case (coCancel c cs f owner s e)
  then show ?thesis using leave_ok [of s cs c f] assms(2) by (simp add: phase_ok_def)
next
  case (coRead c cs f owner s)
  have bound: "f < length (coFlights s)" using on_bound [of s cs c f] coRead assms(2) by simp
  have "co_ok (s\<lparr>coHeap := coHeap s\<rparr>, cs[c := readFlight f owner s])"
    by (rule phase_swap_ok) (use coRead assms(2) bound in \<open>auto simp: readFlight_def Let_def phase_ok_def co_ok_def\<close>)
  then show ?thesis using coRead by simp
next
  case (coAfter c cs f owner shared err v ctxErr s ph s')
  then show ?thesis using after_ok(1) [of s cs c] assms(2) by simp
next
  case (coLeave c cs f owner shared res s)
  have "phase_ok s (AcquiredFrom f owner shared res)" using assms(2) coLeave nth_mem [of c cs] by (auto simp: co_ok_def)
  then have "phase_ok s (Returned res owner shared)" by (auto simp: phase_ok_def)
  then show ?thesis using leave_ok [of s cs c f "Returned res owner shared"] assms(2) coLeave by simp
next
  case (coComplete f s v cs execErr ownerErr)
  then show ?thesis using complete_ok assms(2) by blast
next
  case (coHeapStep x s h' cs)
  have h: "heap_ok (coHeap s)" and ok: "co_ok (s, cs)" using assms(2) coHeapStep by (simp_all add: co_ok_def)
  have "co_ok (s\<lparr>coHeap := h'\<rparr>, cs)"
  proof (rule heap_swap_ok [OF ok])
    show "heap_ok h'" using heapStep_ok [OF coHeapStep(3) h] .
    show "leaseLive l h'" if "l \<in> owned s" "leaseLive l (coHeap s)" for l
      using heapStep_reads [OF coHeapStep(3) h that(2)] that(1) coHeapStep(4) by auto
    show "\<forall>c \<in> set cs. phase_ok s c" using ok by (simp add: co_ok_def)
  qed simp
  then show ?thesis using coHeapStep by simp
qed

lemma coReach_ok: "coReach lib t \<Longrightarrow> co_ok t"
proof (induction rule: coReach.induct)
  case coInit
  then show ?case by (simp add: co_ok_def heap_ok_empty)
qed (rule coStep_ok)

section \<open>What the callers rely on\<close>

lemma owned_index: "l \<in> owned s \<longleftrightarrow> (\<exists>i < length (coFlights s). flData (coFlights s ! i) = Some l)"
  by (simp add: owned_def Bex_def in_set_conv_nth) blast

lemma owned_live: "co_ok (s, cs) \<Longrightarrow> l \<in> owned s \<Longrightarrow> leaseLive l (coHeap s)"
  unfolding owned_index by (metis flight_at flight_ok_def)

lemma leave_drops:
  assumes ok: "co_ok (s, cs)" and f: "f < length (coFlights s)" and l: "l \<in> owned s" "l \<notin> owned (leaveArrowFlight f s)"
  shows "\<not> leaseLive l (coHeap (leaveArrowFlight f s))"
proof -
  obtain i where i: "i < length (coFlights s)" "flData (coFlights s ! i) = Some l" using l(1) owned_index by blast
  have "flData (coFlights (leaveArrowFlight f s) ! i) \<noteq> Some l" "i < length (coFlights (leaveArrowFlight f s))"
    using l(2) i(1) unfolding owned_index by (auto simp: leaveArrowFlight_def Let_def split: option.splits if_splits)
  then have "i = f" and "coHeap (leaveArrowFlight f s) = leaseRelease l (coHeap s)"
    using i f by (auto simp: leaveArrowFlight_def Let_def nth_list_update split: option.splits if_splits)
  then show ?thesis using arrow_leases.release_live [of "coHeap s" l l] ok owned_live [OF ok l(1)] by (simp add: co_ok_def)
qed

lemma join_owned: "joinArrowFlight key s = ((f, owner), s') \<Longrightarrow> f < length (coFlights s') \<Longrightarrow> l \<in> owned s \<Longrightarrow> l \<in> owned s'"
  unfolding owned_index
  by (auto simp: joinArrowFlight_def Let_def nth_list_update nth_append less_SucI split: option.splits)

lemma after_drops:
  assumes ok: "co_ok (s, cs)" and c: "c < length cs" "cs ! c = ReadFlight f owner shared err v"
    and a: "afterRead ctxErr (cs ! c) s = (ph, s')" and l: "l \<in> owned s" "l \<notin> owned s'"
  shows "\<not> leaseLive l (coHeap s')"
proof -
  have f: "f < length (coFlights s)" using on_bound [OF ok c(1)] c(2) by simp
  have "s' = leaveArrowFlight f s \<or> coFlights s' = coFlights s"
    using a c(2) by (auto simp: afterRead_def split: option.splits sum.splits prod.splits)
  then show ?thesis using leave_drops [OF ok f] l by (auto simp: owned_def)
qed

lemma complete_owned:
  assumes "f < length (coFlights s)" and "flData (coFlights s ! f) = None" and "l \<in> owned s"
  shows "l \<in> owned (completeFlight f v execErr ownerErr s)"
proof -
  obtain i where i: "i < length (coFlights s)" "flData (coFlights s ! i) = Some l" using assms(3) owned_index by blast
  then have "i \<noteq> f" using assms(2) by auto
  then have "coFlights (completeFlight f v execErr ownerErr s) ! i = coFlights s ! i"
    "length (coFlights (completeFlight f v execErr ownerErr s)) = length (coFlights s)"
    by (auto simp: completeFlight_def Let_def split: option.split)
  then show ?thesis using i owned_index by metis
qed

lemma coStep_drops:
  assumes "coStep lib (s, cs) (s', cs')" and ok: "co_ok (s, cs)" and l: "l \<in> owned s" "l \<notin> owned s'"
  shows "\<not> leaseLive l (coHeap s')"
  using assms(1)
proof cases
  case (coEnter key f owner)
  then show ?thesis using join_ok(2) [OF ok coEnter(2), of "cs @ [WaitingFor f owner]"] join_owned [OF coEnter(2) _ l(1)] l(2)
    by (simp add: waitersOn_append)
next
  case (coRejoin c key f owner)
  then show ?thesis using join_ok(2) [OF ok coRejoin(4), of "cs[c := WaitingFor f owner]"] join_owned [OF coRejoin(4) _ l(1)] l(2)
    by (simp add: waitersOn_update set_update_subset_insert)
next
  case (coCancel c f owner e)
  then show ?thesis using leave_drops [OF ok on_bound [OF ok, of c f] l(1)] l(2) by simp
next
  case (coAfter c f owner shared err v ctxErr ph)
  then show ?thesis using after_drops [OF ok coAfter(2,3,4) l] by simp
next
  case (coLeave c f owner shared res)
  then show ?thesis using leave_drops [OF ok on_bound [OF ok, of c f] l(1)] l(2) by simp
next
  case (coComplete f v execErr ownerErr)
  then have "flData (coFlights s ! f) = None" using flight_at [OF ok coComplete(3)] by (auto simp: flight_ok_def Let_def)
  then show ?thesis using complete_owned [OF coComplete(3) _ l(1)] l(2) coComplete(1) by simp
qed (use l in \<open>simp_all add: owned_def\<close>)

text \<open>An execution nobody waits for any more gives its lease back when it ends.\<close>

lemma complete_gives_back:
  assumes ok: "co_ok (s, cs)" and f: "f < length (coFlights s)" and l: "fvData v = Some l" "leaseLive l (coHeap s)"
  shows "l \<in> owned (completeFlight f v execErr ownerErr s) \<or> \<not> leaseLive l (coHeap (completeFlight f v execErr ownerErr s))"
proof (cases "flWaiters (coFlights s ! f) = 0")
  case True
  then have "coHeap (completeFlight f v execErr ownerErr s) = leaseRelease l (coHeap s)" using l by (simp add: completeFlight_def Let_def)
  then show ?thesis using arrow_leases.release_live [of "coHeap s" l l] ok l(2) by (simp add: co_ok_def)
next
  case False
  then have "flData (coFlights (completeFlight f v execErr ownerErr s) ! f) = Some l"
    "f < length (coFlights (completeFlight f v execErr ownerErr s))"
    using l f by (auto simp: completeFlight_def Let_def)
  then show ?thesis using owned_index by blast
qed

lemma one_flight_per_key:
  assumes ok: "co_ok (s, cs)" and "f < length (coFlights s)" "g < length (coFlights s)"
    and "flKey (coFlights s ! f) = flKey (coFlights s ! g)" "\<not> flComplete (coFlights s ! f)" "\<not> flComplete (coFlights s ! g)"
  shows "f = g"
proof -
  have "get (coCurrent s) (flKey (coFlights s ! f)) = Some f" "get (coCurrent s) (flKey (coFlights s ! g)) = Some g"
    using flight_at [OF ok assms(2)] flight_at [OF ok assms(3)] assms(5,6) unfolding flight_ok_def Let_def by blast+
  then show ?thesis unfolding assms(4) by simp
qed

text \<open>A lease handed to a flight never leaks: a step by which the flights stop owning a lease releases it, and the completion of an
  execution either makes its flight own the lease or, when every caller has left, releases it at once.\<close>

lemma flight_leases_never_leak:
  assumes "coReach lib (s, cs)"
  shows "(\<forall>s' cs' l. coStep lib (s, cs) (s', cs') \<longrightarrow> l \<in> owned s \<longrightarrow> l \<in> owned s' \<or> \<not> leaseLive l (coHeap s'))
    \<and> (\<forall>f < length (coFlights s). \<forall>v l execErr ownerErr. fvData v = Some l \<longrightarrow> leaseLive l (coHeap s) \<longrightarrow>
         l \<in> owned (completeFlight f v execErr ownerErr s)
         \<or> \<not> leaseLive l (coHeap (completeFlight f v execErr ownerErr s)))"
  using coStep_drops [OF _ coReach_ok [OF assms]] complete_gives_back [OF coReach_ok [OF assms]] by blast

section \<open>Properties\<close>

text \<open>C34: A coalesced execution keeps its result for exactly as long as a caller needs it. In every interleaving an
  owned lease is live and some caller is still registered with its flight, no two flights own the same lease,
  no key has two unfinished flights, no caller ever fails because the result was released under it, and a caller that read
  a result acquires its own lease on the same records. And no lease leaks: a step after which no flight owns a lease any
  more has released it, and an execution that ends either leaves its lease to its flight or, when every caller has
  left, releases it at once.\<close>

theorem flights_keep_their_lease:
  assumes "coReach lib (s, cs)"
  shows "(\<forall>f < length (coFlights s). \<forall>l. flData (coFlights s ! f) = Some l \<longrightarrow>
            leaseLive l (coHeap s) \<and> (\<exists>c \<in> set cs. onFlight c = Some f)
            \<and> (\<forall>g < length (coFlights s). flData (coFlights s ! g) = Some l \<longrightarrow> g = f))
    \<and> (\<forall>f < length (coFlights s). \<forall>g < length (coFlights s). flKey (coFlights s ! f) = flKey (coFlights s ! g) \<longrightarrow>
         \<not> flComplete (coFlights s ! f) \<longrightarrow> \<not> flComplete (coFlights s ! g) \<longrightarrow> f = g)
    \<and> (\<forall>c \<in> set cs. \<forall>e owner shared. c \<noteq> Returned (Inl (AcquireFailed e)) owner shared)
    \<and> (\<forall>c < length cs. \<forall>f owner shared v l. cs ! c = ReadFlight f owner shared None v \<longrightarrow> fvData v = Some l \<longrightarrow>
         (\<exists>l' s'. afterRead None (cs ! c) s = (AcquiredFrom f owner shared
              (Inr \<lparr>fleData = l', fleMetadata = fvMetadata v, fleCached = fvCached v\<rparr>), s')
            \<and> leaseLive l' (coHeap s') \<and> leaseRecords l' (coHeap s') = leaseRecords l (coHeap s)))
    \<and> (\<forall>s' cs' l. coStep lib (s, cs) (s', cs') \<longrightarrow> l \<in> owned s \<longrightarrow> l \<in> owned s' \<or> \<not> leaseLive l (coHeap s'))
    \<and> (\<forall>f < length (coFlights s). \<forall>v l execErr ownerErr. fvData v = Some l \<longrightarrow> leaseLive l (coHeap s) \<longrightarrow>
         l \<in> owned (completeFlight f v execErr ownerErr s)
         \<or> \<not> leaseLive l (coHeap (completeFlight f v execErr ownerErr s)))"
proof (intro conjI allI impI ballI)
  have ok: "co_ok (s, cs)" by (rule coReach_ok [OF assms])
  fix f l assume f: "f < length (coFlights s)" "flData (coFlights s ! f) = Some l"
  have fok: "flight_ok s cs f" by (rule flight_at [OF ok f(1)])
  then show "leaseLive l (coHeap s)" using f(2) unfolding flight_ok_def Let_def by blast
  have "waitersOn f cs \<noteq> 0" using fok f(2) unfolding flight_ok_def Let_def by force
  then show "\<exists>c \<in> set cs. onFlight c = Some f" using waitersOn_none by blast
  show "g = f" if "g < length (coFlights s)" "flData (coFlights s ! g) = Some l" for g
    using ok that f unfolding co_ok_def fst_conv by blast
next
  fix f g assume "f < length (coFlights s)" "g < length (coFlights s)" "flKey (coFlights s ! f) = flKey (coFlights s ! g)"
    "\<not> flComplete (coFlights s ! f)" "\<not> flComplete (coFlights s ! g)"
  then show "f = g" by (rule one_flight_per_key [OF coReach_ok [OF assms]])
next
  fix c e owner shared assume "c \<in> set cs"
  then have "phase_ok s c" using coReach_ok [OF assms] by (simp add: co_ok_def)
  then show "c \<noteq> Returned (Inl (AcquireFailed e)) owner shared" by (auto simp: phase_ok_def)
next
  fix c f owner shared v l assume c: "c < length cs" "cs ! c = ReadFlight f owner shared None v" "fvData v = Some l"
  obtain ph s' where a: "afterRead None (cs ! c) s = (ph, s')" by (metis surj_pair)
  from after_ok(2) [OF coReach_ok [OF assms] c(1,2) a refl c(3)] a
  show "\<exists>l' s'. afterRead None (cs ! c) s = (AcquiredFrom f owner shared
              (Inr \<lparr>fleData = l', fleMetadata = fvMetadata v, fleCached = fvCached v\<rparr>), s')
            \<and> leaseLive l' (coHeap s') \<and> leaseRecords l' (coHeap s') = leaseRecords l (coHeap s)" by blast
next
  fix s' cs' l assume "coStep lib (s, cs) (s', cs')" "l \<in> owned s"
  then show "l \<in> owned s' \<or> \<not> leaseLive l (coHeap s')"
    using flight_leases_never_leak [OF assms] by blast
next
  fix f l execErr ownerErr and v :: flightValue
  assume "f < length (coFlights s)" "fvData v = Some l" "leaseLive l (coHeap s)"
  then show "l \<in> owned (completeFlight f v execErr ownerErr s)
      \<or> \<not> leaseLive l (coHeap (completeFlight f v execErr ownerErr s))"
    using flight_leases_never_leak [OF assms] by blast
qed

text \<open>One execution, two callers: it ends with a lease on one record, the callers read it or give up.\<close>

definition noLib :: "(nat, nat) arrowLib" where
  "noLib = \<lparr>alSchemaOf = (\<lambda>_. 0), alCopy = Inr, alNumRows = (\<lambda>_. 1), alRecordBytes = (\<lambda>_. 10), alSchemaBytes = (\<lambda>_. 5)\<rparr>"

definition flightStart :: "nat coalescer" where
  "flightStart = snd (joinArrowFlight ''k'' (snd (joinArrowFlight ''k'' \<lparr>coFlights = [], coCurrent = [], coHeap = emptyHeap\<rparr>)))"

definition oneRecord :: "(nat, nat) builder" where
  "oneRecord = \<lparr>buSchema = Some 0, buRecords = [7], buRows = 1, buTransient = 10, buFinished = False\<rparr>"

definition flightLoaded :: "nat coalescer" where
  "flightLoaded = flightStart\<lparr>coHeap := snd (resultAcquire 0 (snd (snd (Finish noLib oneRecord emptyHeap))))\<rparr>"

definition flightDone :: "nat coalescer" where
  "flightDone = completeFlight 0 \<lparr>fvData = Some 0, fvMetadata = emptyMetadata, fvCached = False\<rparr> None None flightLoaded"

lemma flightStart_reach: "coReach noLib (flightStart, [WaitingFor 0 True, WaitingFor 0 False])"
proof -
  let ?s0 = "\<lparr>coFlights = [], coCurrent = [], coHeap = emptyHeap :: nat resultHeap\<rparr>"
  let ?s1 = "snd (joinArrowFlight ''k'' ?s0)"
  have j: "joinArrowFlight ''k'' ?s0 = ((0, True), ?s1)" "joinArrowFlight ''k'' ?s1 = ((0, False), flightStart)"
    by (simp_all add: flightStart_def joinArrowFlight_def Let_def)
  from coNext [OF coNext [OF coInit coEnter [OF j(1)]] coEnter [OF j(2)]] show ?thesis by simp
qed

lemma flightLoaded_facts:
  "coHeap flightStart = emptyHeap" "length (hpResults (snd (snd (Finish noLib oneRecord emptyHeap)))) = 1"
  "leaseLive 0 (coHeap flightLoaded)" "length (coFlights flightLoaded) = 1" "\<not> flComplete (coFlights flightLoaded ! 0)"
  "flData (coFlights flightLoaded ! 0) = None" "leaseRecords 0 (coHeap flightDone) = Inr [7]"
  "flData (coFlights flightDone ! 0) = Some 0" "flComplete (coFlights flightDone ! 0)" "length (coFlights flightDone) = 1"
  "flErr (coFlights flightDone ! 0) = None" "flData (coFlights (leaveArrowFlight 0 flightDone) ! 0) = Some 0"
  "length (coFlights (leaveArrowFlight 0 flightDone)) = 1"
  "map flData (coFlights (leaveArrowFlight 0 (leaveArrowFlight 0 flightDone))) = [None]"
  unfolding leaseLive_def by code_simp+

lemma flightDone_reach: "coReach noLib (flightDone, [WaitingFor 0 True, WaitingFor 0 False])"
proof -
  let ?cs = "[WaitingFor 0 True, WaitingFor 0 False]" and ?h = "snd (snd (Finish noLib oneRecord emptyHeap))"
  have "heapStep noLib None (coHeap flightStart) ?h"
    unfolding flightLoaded_facts(1) by (rule stepFinish [OF surjective_pairing [THEN trans, OF arg_cong2 [where f = Pair, OF refl surjective_pairing]]])
  from coNext [OF flightStart_reach coHeapStep [OF this]] have a: "coReach noLib (flightStart\<lparr>coHeap := ?h\<rparr>, ?cs)" by simp
  have "heapStep noLib None (coHeap (flightStart\<lparr>coHeap := ?h\<rparr>)) (snd (resultAcquire 0 ?h))"
    using stepAcquire [of 0 ?h, OF _ surjective_pairing] flightLoaded_facts(2) by simp
  from coNext [OF a coHeapStep [OF this]] have "coReach noLib (flightLoaded, ?cs)" by (simp add: flightLoaded_def)
  moreover have "owned flightLoaded = {}"
    using flightLoaded_facts(4,6) by (auto simp: owned_def in_set_conv_nth)
  ultimately show ?thesis
    unfolding flightDone_def using flightLoaded_facts(3-5) by (auto intro!: coNext [OF _ coComplete])
qed

theorem flights_keep_their_lease_witness:
  "flData (coFlights flightDone ! 0) = Some 0 \<and> leaseLive 0 (coHeap flightDone)
   \<and> (\<exists>l' s'. afterRead None (readFlight 0 False flightDone) flightDone = (AcquiredFrom 0 False True
        (Inr \<lparr>fleData = l', fleMetadata = emptyMetadata, fleCached = False\<rparr>), s')
      \<and> leaseLive l' (coHeap s') \<and> leaseRecords l' (coHeap s') = Inr [7])"
proof -
  let ?v = "\<lparr>fvData = Some 0, fvMetadata = emptyMetadata, fvCached = False\<rparr>"
  have r: "readFlight 0 False flightDone = ReadFlight 0 False True None ?v" by code_simp
  have "coStep noLib (flightDone, [WaitingFor 0 True, WaitingFor 0 False])
      (flightDone, [WaitingFor 0 True, WaitingFor 0 False][1 := readFlight 0 False flightDone])"
    by (rule coRead [where owner = False]) (simp_all add: flightLoaded_facts)
  then have "coReach noLib (flightDone, [WaitingFor 0 True, ReadFlight 0 False True None ?v])"
    using coNext [OF flightDone_reach] r by simp
  note t = flights_keep_their_lease [OF this]
  have "leaseLive 0 (coHeap flightDone)"
    using conjunct1 [OF t] flightLoaded_facts(8,10) by simp
  moreover have "\<exists>l' s'. afterRead None (ReadFlight 0 False True None ?v) flightDone = (AcquiredFrom 0 False True
        (Inr \<lparr>fleData = l', fleMetadata = emptyMetadata, fleCached = False\<rparr>), s')
      \<and> leaseLive l' (coHeap s') \<and> leaseRecords l' (coHeap s') = leaseRecords 0 (coHeap flightDone)"
    using conjunct1 [OF conjunct2 [OF conjunct2 [OF conjunct2 [OF t]]], rule_format, of 1 0 False True ?v 0] by simp
  ultimately show ?thesis unfolding r flightLoaded_facts(7) using flightLoaded_facts(8) by blast
qed

theorem flight_leases_never_leak_witness:
  "0 \<in> owned (leaveArrowFlight 0 flightDone) \<and> \<not> leaseLive 0 (coHeap (leaveArrowFlight 0 (leaveArrowFlight 0 flightDone)))"
proof -
  let ?ret = "Returned (Inl (CtxErr [])) False False"
  have "coStep noLib (flightDone, [WaitingFor 0 True, WaitingFor 0 False])
      (leaveArrowFlight 0 flightDone, [WaitingFor 0 True, WaitingFor 0 False][0 := ?ret])"
    by (rule coCancel [where owner = True]) simp_all
  then have reach: "coReach noLib (leaveArrowFlight 0 flightDone, [?ret, WaitingFor 0 False])"
    using coNext [OF flightDone_reach] by simp
  have step: "coStep noLib (leaveArrowFlight 0 flightDone, [?ret, WaitingFor 0 False])
      (leaveArrowFlight 0 (leaveArrowFlight 0 flightDone), [?ret, WaitingFor 0 False][1 := ?ret])"
    by (rule coCancel [where owner = False]) simp_all
  have own: "0 \<in> owned (leaveArrowFlight 0 flightDone)"
    using flightLoaded_facts(12,13) by (auto simp: owned_def in_set_conv_nth)
  have gone: "0 \<notin> owned (leaveArrowFlight 0 (leaveArrowFlight 0 flightDone))"
    using flightLoaded_facts(14) by (auto simp: owned_def map_eq_Cons_conv)
  have "\<not> leaseLive 0 (coHeap (leaveArrowFlight 0 (leaveArrowFlight 0 flightDone)))"
    using conjunct1 [OF flight_leases_never_leak [OF reach]] step own gone by blast
  with own show ?thesis by blast
qed

end
