(* ===== verification/Data_Manifest.thy ===== *)
theory Data_Manifest
  imports Scope_Properties
begin

text \<open>
  Manifests of managed data (\<^verbatim>\<open>internal/manageddata/manifest.go\<close>) and the status machines and
  identifiers of \<^verbatim>\<open>internal/manageddata/lifecycle.go\<close>. Sizes are 64-bit integers, sums are
  wrapped; letters are ASCII. \<open>sha256.Sum256\<close> is the argument \<open>sha\<close>; \<open>json.Marshal\<close> is written
  out for the strings, integers and lists a manifest holds.
\<close>

section \<open>Data\<close>

record dataFile =
  dfPath :: string
  dfSize :: int
  dfSHA256 :: string

type_synonym manifest = "dataFile list"

record manifestLimits =
  mlMaxFiles :: int
  mlMaxFileBytes :: int
  mlMaxRevisionBytes :: int

record manifestDiff =
  mdAdded :: "dataFile list"
  mdChanged :: "dataFile list"
  mdRemoved :: "dataFile list"
  mdUnchanged :: "dataFile list"

section \<open>Validation\<close>

definition validateLogicalPath :: "string \<Rightarrow> goError + unit" where
  "validateLogicalPath value = checks
     [failIf (value = []) ''manifest path is required'' [],
      failIf (CHR 0x5C \<in> set value) ''manifest path %q must use forward slashes'' [Arg value],
      failIf (isAbs value) ''manifest path %q must be relative'' [Arg value],
      failIf (cleanPath value = ''..'' \<or> hasPrefix ''../'' (cleanPath value)) ''manifest path %q contains traversal'' [Arg value],
      failIf (cleanPath value \<noteq> value \<or> value = ''.'') ''manifest path %q is not canonical'' [Arg value]]"

text \<open>\<open>hex.DecodeString\<close> fails on an odd length and on a byte that is no hexadecimal digit.\<close>

definition isHexDigit :: "char \<Rightarrow> bool" where
  "isHexDigit c \<longleftrightarrow> isDigit c \<or> 97 \<le> byte c \<and> byte c \<le> 102 \<or> 65 \<le> byte c \<and> byte c \<le> 70"

definition hexDecodes :: "string \<Rightarrow> bool" where
  "hexDecodes s \<longleftrightarrow> even (length s) \<and> list_all isHexDigit s"

definition validateDigest :: "string \<Rightarrow> goError + unit" where
  "validateDigest value = checks
     [failIf (length value \<noteq> 32 * 2 \<or> toLower value \<noteq> value) ''SHA-256 must be 64 lowercase hexadecimal characters'' [],
      failIf (\<not> hexDecodes value) ''SHA-256 must be 64 lowercase hexadecimal characters'' []]"

fun validateFiles :: "manifestLimits \<Rightarrow> string goMap \<Rightarrow> int \<Rightarrow> dataFile list \<Rightarrow> goError + int" where
  "validateFiles limits seen totalSize [] = Inr totalSize"
| "validateFiles limits seen totalSize (f # fs) =
     andThen (validateLogicalPath (dfPath f)) (\<lambda>_.
     andThen (case get seen (toLower (dfPath f)) of
                Some previous \<Rightarrow>
                  if previous = dfPath f then Inl (Errorf ''duplicate manifest path %q'' [Arg (dfPath f)])
                  else Inl (Errorf ''case-folding path collision between %q and %q'' [Arg previous, Arg (dfPath f)])
              | None \<Rightarrow> Inr ()) (\<lambda>_.
     andThen (failIf (dfSize f < 0) ''manifest file %q has negative size'' [Arg (dfPath f)]) (\<lambda>_.
     andThen (failIf (mlMaxFileBytes limits > 0 \<and> dfSize f > mlMaxFileBytes limits)
                ''manifest file %q exceeds maximum file size %d'' [Arg (dfPath f), ArgN (mlMaxFileBytes limits)]) (\<lambda>_.
     andThen (wrapErr ''manifest file %q: %w'' [Arg (dfPath f)] (validateDigest (dfSHA256 f))) (\<lambda>_.
     andThen (failIf (dfSize f > 0 \<and> totalSize > maxInt64 - dfSize f) ''manifest revision size overflows int64'' []) (\<lambda>_.
     validateFiles limits (put (toLower (dfPath f)) (dfPath f) seen) (wrap64 (totalSize + dfSize f)) fs))))))"

definition validateManifest :: "manifestLimits \<Rightarrow> manifest \<Rightarrow> goError + unit" where
  "validateManifest limits m =
     (if mlMaxFiles limits > 0 \<and> int (length m) > mlMaxFiles limits
      then Inl (Errorf ''manifest file count %d exceeds limit %d'' [ArgN (int (length m)), ArgN (mlMaxFiles limits)])
      else andThen (validateFiles limits [] 0 m) (\<lambda>totalSize.
        failIf (mlMaxRevisionBytes limits > 0 \<and> totalSize > mlMaxRevisionBytes limits)
          ''manifest revision size %d exceeds limit %d'' [ArgN totalSize, ArgN (mlMaxRevisionBytes limits)]))"

definition noLimits :: manifestLimits where
  "noLimits = \<lparr>mlMaxFiles = 0, mlMaxFileBytes = 0, mlMaxRevisionBytes = 0\<rparr>"

section \<open>Canonical JSON\<close>

text \<open>Length of the UTF-8 sequence at the head of a text; 0 when it is not one.\<close>

definition isCont :: "char \<Rightarrow> bool" where
  "isCont c \<longleftrightarrow> 128 \<le> byte c \<and> byte c \<le> 191"

fun runeLen :: "string \<Rightarrow> nat" where
  "runeLen [] = 0"
| "runeLen (a # s) =
     (let b = byte a; c = (\<lambda>i. i < length s \<and> isCont (s ! i)); b1 = (if s = [] then 0 else byte (hd s)) in
      if b < 128 then 1
      else if 194 \<le> b \<and> b \<le> 223 then (if c 0 then 2 else 0)
      else if 224 \<le> b \<and> b \<le> 239 then
        (if c 0 \<and> c 1 \<and> (b = 224 \<longrightarrow> 160 \<le> b1) \<and> (b = 237 \<longrightarrow> b1 \<le> 159) then 3 else 0)
      else if 240 \<le> b \<and> b \<le> 244 then
        (if c 0 \<and> c 1 \<and> c 2 \<and> (b = 240 \<longrightarrow> 144 \<le> b1) \<and> (b = 244 \<longrightarrow> b1 \<le> 143) then 4 else 0)
      else 0)"

definition hexDigit :: "nat \<Rightarrow> char" where
  "hexDigit n = ''0123456789abcdef'' ! n"

text \<open>One byte below 128: HTML characters are escaped too.\<close>

definition escapeAscii :: "char \<Rightarrow> string" where
  "escapeAscii c =
     (if c = CHR 0x5C \<or> c = CHR 0x22 then [CHR 0x5C, c]
      else if byte c = 8 then [CHR 0x5C, CHR ''b'']
      else if byte c = 12 then [CHR 0x5C, CHR ''f'']
      else if byte c = 10 then [CHR 0x5C, CHR ''n'']
      else if byte c = 13 then [CHR 0x5C, CHR ''r'']
      else if byte c = 9 then [CHR 0x5C, CHR ''t'']
      else if byte c < 32 \<or> c = CHR ''<'' \<or> c = CHR ''>'' \<or> c = CHR ''&''
        then CHR 0x5C # ''u00'' @ [hexDigit (byte c div 16), hexDigit (byte c mod 16)]
      else [c])"

fun escapeJSON :: "string \<Rightarrow> string" where
  "escapeJSON [] = []"
| "escapeJSON (a # s) =
     (let n = runeLen (a # s) in
      if n = 0 then CHR 0x5C # ''ufffd'' @ escapeJSON s
      else if n = 1 then escapeAscii a @ escapeJSON s
      else if map byte (take 3 (a # s)) = [226, 128, 168] then CHR 0x5C # ''u2028'' @ escapeJSON (drop 2 s)
      else if map byte (take 3 (a # s)) = [226, 128, 169] then CHR 0x5C # ''u2029'' @ escapeJSON (drop 2 s)
      else a # take (n - 1) s @ escapeJSON (drop (n - 1) s))"

definition jsonString :: "string \<Rightarrow> string" where
  "jsonString s = CHR 0x22 # escapeJSON s @ [CHR 0x22]"

fun showNat :: "nat \<Rightarrow> string" where
  "showNat n = (if n < 10 then [char_of (48 + n)] else showNat (n div 10) @ [char_of (48 + n mod 10)])"

declare showNat.simps [simp del]

definition showInt :: "int \<Rightarrow> string" where
  "showInt i = (if i < 0 then CHR ''-'' # showNat (nat (- i)) else showNat (nat i))"

definition jsonFile :: "dataFile \<Rightarrow> string" where
  "jsonFile f = CHR 0x7B # jsonString ''path'' @ '':'' @ jsonString (dfPath f) @ '','' @ jsonString ''size'' @ '':'' @ showInt (dfSize f)
     @ '','' @ jsonString ''sha256'' @ '':'' @ jsonString (dfSHA256 f) @ [CHR 0x7D]"

text \<open>A nil slice is null.\<close>

definition jsonManifest :: "manifest \<Rightarrow> string" where
  "jsonManifest m = CHR 0x7B # jsonString ''files'' @ '':''
     @ (if m = [] then ''null'' else CHR 0x5B # joinWith '','' (map jsonFile m) @ [CHR 0x5D]) @ [CHR 0x7D]"

definition CanonicalJSON :: "manifest \<Rightarrow> goError + string" where
  "CanonicalJSON m = andThen (validateManifest noLimits m) (\<lambda>_. Inr (jsonManifest (sort_key dfPath m)))"

definition hexEncode :: "string \<Rightarrow> string" where
  "hexEncode s = concat (map (\<lambda>c. [hexDigit (byte c div 16), hexDigit (byte c mod 16)]) s)"

definition RevisionID :: "(string \<Rightarrow> string) \<Rightarrow> manifest \<Rightarrow> string" where
  "RevisionID sha m = (case CanonicalJSON m of Inl _ \<Rightarrow> [] | Inr canonical \<Rightarrow> ''sha256:'' @ hexEncode (sha canonical))"

definition ValidateRevisionID :: "string \<Rightarrow> goError + unit" where
  "ValidateRevisionID value =
     (if \<not> hasPrefix ''sha256:'' value then Inl (Errorf ''revision ID must use the sha256 scheme'' [])
      else wrapErr ''revision ID must contain a canonical SHA-256 digest: %w'' [] (validateDigest (drop 7 value)))"

section \<open>Differences\<close>

definition filesByPath :: "dataFile list \<Rightarrow> dataFile goMap" where
  "filesByPath fs = foldl (\<lambda>m f. put (dfPath f) f m) [] fs"

definition sortFiles :: "dataFile list \<Rightarrow> dataFile list" where
  "sortFiles = sort_key dfPath"

definition sameContent :: "dataFile \<Rightarrow> dataFile \<Rightarrow> bool" where
  "sameContent a b \<longleftrightarrow> dfSize a = dfSize b \<and> dfSHA256 a = dfSHA256 b"

text \<open>The loops over the two maps; their order is the order of the association lists.\<close>

definition DiffManifests :: "manifest \<Rightarrow> manifest \<Rightarrow> manifestDiff" where
  "DiffManifests oldManifest newManifest =
     (let olds = filesByPath oldManifest; news = filesByPath newManifest;
          old = (\<lambda>p. get olds p)
      in \<lparr>mdAdded = sortFiles (map snd (filter (\<lambda>(p, _). old p = None) news)),
          mdChanged = sortFiles (map snd (filter (\<lambda>(p, f). \<exists>g \<in> set_option (old p). \<not> sameContent g f) news)),
          mdRemoved = sortFiles (map snd (filter (\<lambda>(p, _). get news p = None) olds)),
          mdUnchanged = sortFiles (map snd (filter (\<lambda>(p, f). \<exists>g \<in> set_option (old p). sameContent g f) news))\<rparr>)"

section \<open>Statuses and identifiers\<close>

definition revisionCanTransition :: "string \<Rightarrow> string \<Rightarrow> bool" where
  "revisionCanTransition s target \<longleftrightarrow> s = ''pending'' \<and> (target = ''ready'' \<or> target = ''failed'')"

definition uploadCanTransition :: "string \<Rightarrow> string \<Rightarrow> bool" where
  "uploadCanTransition s t =
     (if s = ''open'' then t = ''committing'' \<or> t = ''aborted'' \<or> t = ''expired''
      else if s = ''committing'' then t = ''complete'' \<or> t = ''failed''
      else False)"

fun slugBytes :: "bool \<Rightarrow> string \<Rightarrow> bool" where
  "slugBytes later [] = True"
| "slugBytes later (c # s) =
     ((97 \<le> byte c \<and> byte c \<le> 122 \<or> isDigit c \<or> later \<and> (c = CHR ''-'' \<or> c = CHR ''_'')) \<and> slugBytes True s)"

definition validateSlug :: "string \<Rightarrow> string \<Rightarrow> goError + unit" where
  "validateSlug kind value = checks
     [failIf (value = []) ''%s is required'' [Arg kind],
      failIf (length value > 128) ''%s exceeds 128 characters'' [Arg kind],
      failIf (\<not> slugBytes False value) ''%s must contain only lowercase letters, numbers, dashes, or underscores'' [Arg kind]]"

definition NormalizeEnvironment :: "string \<Rightarrow> goError + string" where
  "NormalizeEnvironment value = andThen (validateSlug ''environment'' (trimSpace value)) (\<lambda>_. Inr (trimSpace value))"

definition ValidateCollectionID :: "string \<Rightarrow> goError + unit" where
  "ValidateCollectionID value = validateSlug ''collection id'' (trimSpace value)"

end
