(* ===== verification/Manifest_Properties.thy ===== *)
theory Manifest_Properties
  imports Data_Manifest
begin

text \<open>
  Manifests: which are accepted, that a revision identifies its files and nothing else, and that
  a difference is a patch.
\<close>

section \<open>Accepted manifests\<close>

text \<open>A logical path as its elements.\<close>

definition plainPart :: "string \<Rightarrow> bool" where
  "plainPart p \<longleftrightarrow> goodPart p \<and> p \<noteq> ''..''"

lemma cleanList_plain: "list_all plainPart ps \<Longrightarrow> cleanList False ps"
  unfolding cleanList_def by (intro exI [of _ 0] exI [of _ ps]) (auto simp: plainPart_def list_all_iff)

lemma logicalPath_iff:
  "validateLogicalPath p = Inr () \<longleftrightarrow> CHR 0x5C \<notin> set p \<and> list_all plainPart (splitOn CHR ''/'' p)"
proof
  assume "validateLogicalPath p = Inr ()"
  then have a: "p \<noteq> []" "CHR 0x5C \<notin> set p" "\<not> isAbs p" "\<not> traversal (cleanPath p)" "cleanPath p = p" "p \<noteq> ''.''"
    by (auto simp: validateLogicalPath_def traversal_def simp del: checks.simps)
  have cl: "cleanList False (cleanParts p)" using cleanParts_clean [of p] a(3) by simp
  note good = cleanList_good [OF cl]
  have ne: "cleanParts p \<noteq> []" and p: "p = joinWith ''/'' (cleanParts p)"
    using a(3,5,6) by (auto simp: cleanPath_def split: if_splits)
  have sep: "\<forall>q \<in> set (cleanParts p). CHR ''/'' \<notin> set q" using good by (auto simp: list_all_iff goodPart_def)
  have split: "splitOn CHR ''/'' p = cleanParts p" using splitOn_joinWith [OF ne sep] p by simp
  obtain n qs where q: "cleanParts p = replicate n ''..'' @ qs" "''..'' \<notin> set qs" "list_all goodPart qs"
    using cl by (auto simp: cleanList_def)
  have "hd (cleanParts p) \<noteq> ''..''" using traversal_iff [OF good] a(4,5) p ne by metis
  then have "n = 0" using q(1) by (cases n) auto
  then show "CHR 0x5C \<notin> set p \<and> list_all plainPart (splitOn CHR ''/'' p)"
    using a(2) q split by (auto simp: plainPart_def list_all_iff)
next
  assume a: "CHR 0x5C \<notin> set p \<and> list_all plainPart (splitOn CHR ''/'' p)"
  let ?ps = "splitOn CHR ''/'' p"
  have ne: "?ps \<noteq> []" by (cases p) (auto split: list.split)
  have good: "list_all goodPart ?ps" using a by (auto simp: list_all_iff plainPart_def)
  have p: "joinWith ''/'' ?ps = p" by (rule joinWith_splitOn)
  have rel: "\<not> isAbs p" using joinWith_relative [OF good] p by simp
  have "cleanParts p = ?ps" using foldl_pushPart_id [OF cleanList_plain] a rel by (simp add: cleanParts_def)
  then have clean: "cleanPath p = p" using rel ne p by (simp add: cleanPath_def)
  have "hd ?ps \<noteq> ''..''" using a ne by (cases ?ps) (auto simp: plainPart_def)
  then have "\<not> traversal p" using traversal_iff [OF good] p by metis
  moreover have "p \<noteq> ''.''" using joinWith_dot [OF good] p by metis
  moreover have "p \<noteq> []" using cleanPath_nonempty [of p] clean by metis
  ultimately show "validateLogicalPath p = Inr ()"
    using a rel clean by (simp add: validateLogicalPath_def traversal_def del: checks.simps)
qed

definition lowerHex :: "char \<Rightarrow> bool" where
  "lowerHex c \<longleftrightarrow> isDigit c \<or> 97 \<le> byte c \<and> byte c \<le> 102"

lemma digest_iff: "validateDigest d = Inr () \<longleftrightarrow> length d = 64 \<and> list_all lowerHex d"
proof -
  have "toLower d = d \<and> list_all isHexDigit d \<longleftrightarrow> list_all lowerHex d"
  proof (induction d)
    case (Cons c d)
    have "lowerByte c = c \<and> isHexDigit c \<longleftrightarrow> lowerHex c"
      by (auto simp: lowerByte_def isHexDigit_def lowerHex_def isDigit_def byte_def dest: arg_cong [where f = "of_char :: char \<Rightarrow> nat"])
    then show ?case using Cons.IH by (auto simp: toLower_def)
  qed (simp add: toLower_def)
  then show ?thesis by (auto simp: validateDigest_def hexDecodes_def simp del: checks.simps)
qed

definition goodFile :: "manifestLimits \<Rightarrow> dataFile \<Rightarrow> bool" where
  "goodFile limits f \<longleftrightarrow> CHR 0x5C \<notin> set (dfPath f) \<and> list_all plainPart (splitOn CHR ''/'' (dfPath f))
     \<and> 0 \<le> dfSize f \<and> (mlMaxFileBytes limits \<le> 0 \<or> dfSize f \<le> mlMaxFileBytes limits)
     \<and> length (dfSHA256 f) = 64 \<and> list_all lowerHex (dfSHA256 f)"

definition revisionSize :: "manifest \<Rightarrow> int" where
  "revisionSize m = (\<Sum>f \<leftarrow> m. dfSize f)"

lemma goodFile_alt:
  "goodFile limits f \<longleftrightarrow> validateLogicalPath (dfPath f) = Inr () \<and> 0 \<le> dfSize f
     \<and> (mlMaxFileBytes limits \<le> 0 \<or> dfSize f \<le> mlMaxFileBytes limits) \<and> validateDigest (dfSHA256 f) = Inr ()"
  unfolding goodFile_def logicalPath_iff digest_iff by blast

lemma validateFiles_Cons:
  "validateFiles limits seen t (f # fs) = Inr r \<longleftrightarrow> goodFile limits f \<and> get seen (toLower (dfPath f)) = None
     \<and> \<not> (dfSize f > 0 \<and> t > maxInt64 - dfSize f)
     \<and> validateFiles limits (put (toLower (dfPath f)) (dfPath f) seen) (wrap64 (t + dfSize f)) fs = Inr r"
  unfolding validateFiles.simps andThen_eq_Inr goodFile_alt
  by (cases "get seen (toLower (dfPath f))") (auto simp: not_less)

lemma validateFiles_iff:
  assumes "0 \<le> t" "t \<le> maxInt64" "\<forall>f \<in> set fs. in64 (dfSize f)"
  shows "validateFiles limits seen t fs = Inr r \<longleftrightarrow> (\<forall>f \<in> set fs. goodFile limits f)
    \<and> distinct (map (\<lambda>f. toLower (dfPath f)) fs) \<and> (\<forall>f \<in> set fs. get seen (toLower (dfPath f)) = None)
    \<and> t + revisionSize fs \<le> maxInt64 \<and> r = t + revisionSize fs"
  using assms
proof (induction fs arbitrary: seen t)
  case (Cons f fs)
  show ?case
  proof (cases "goodFile limits f \<and> get seen (toLower (dfPath f)) = None \<and> t + dfSize f \<le> maxInt64")
    case True
    then have pos: "0 \<le> dfSize f" by (simp add: goodFile_def)
    have in64: "in64 (t + dfSize f)" using True pos Cons.prems by (simp add: in64_def)
    let ?seen = "put (toLower (dfPath f)) (dfPath f) seen"
    have step: "validateFiles limits seen t (f # fs) = Inr r \<longleftrightarrow> validateFiles limits ?seen (t + dfSize f) fs = Inr r"
      using True unfolding validateFiles_Cons wrap64_id [OF in64] by auto
    have ih: "validateFiles limits ?seen (t + dfSize f) fs = Inr r \<longleftrightarrow> (\<forall>f \<in> set fs. goodFile limits f)
        \<and> distinct (map (\<lambda>f. toLower (dfPath f)) fs) \<and> (\<forall>g \<in> set fs. get ?seen (toLower (dfPath g)) = None)
        \<and> (t + dfSize f) + revisionSize fs \<le> maxInt64 \<and> r = (t + dfSize f) + revisionSize fs"
      by (rule Cons.IH) (use Cons.prems pos True in auto)
    have size: "t + revisionSize (f # fs) = (t + dfSize f) + revisionSize fs" by (simp add: revisionSize_def)
    show ?thesis unfolding step ih size using True by (auto simp: image_iff)
  next
    case False
    have nn: "0 \<le> revisionSize fs" if "\<forall>f \<in> set fs. goodFile limits f"
      unfolding revisionSize_def using that by (intro sum_list_nonneg) (auto simp: goodFile_def)
    have "validateFiles limits seen t (f # fs) \<noteq> Inr r"
      using False Cons.prems(2) unfolding validateFiles_Cons by (auto simp: goodFile_def)
    then show ?thesis using False nn by (auto simp: revisionSize_def)
  qed
qed (auto simp: revisionSize_def)

lemma manifest_iff:
  assumes "\<forall>f \<in> set m. in64 (dfSize f)"
  shows "validateManifest limits m = Inr () \<longleftrightarrow>
    (mlMaxFiles limits \<le> 0 \<or> int (length m) \<le> mlMaxFiles limits)
    \<and> (\<forall>f \<in> set m. goodFile limits f) \<and> distinct (map (\<lambda>f. toLower (dfPath f)) m)
    \<and> revisionSize m \<le> maxInt64 \<and> (mlMaxRevisionBytes limits \<le> 0 \<or> revisionSize m \<le> mlMaxRevisionBytes limits)"
  using validateFiles_iff [of 0 m limits "[]"] assms
  by (auto simp: validateManifest_def andThen_eq_Inr)

section \<open>Differences are patches\<close>

definition without_paths :: "dataFile list \<Rightarrow> dataFile goMap \<Rightarrow> dataFile goMap" where
  "without_paths fs m = filter (\<lambda>(p, _). p \<notin> dfPath ` set fs) m"

definition putFiles :: "dataFile list \<Rightarrow> dataFile goMap \<Rightarrow> dataFile goMap" where
  "putFiles fs m = foldl (\<lambda>m f. put (dfPath f) f m) m fs"

definition applyDiff :: "manifestDiff \<Rightarrow> dataFile goMap \<Rightarrow> dataFile goMap" where
  "applyDiff d olds = putFiles (mdAdded d @ mdChanged d) (without_paths (mdRemoved d) olds)"

definition keyed :: "dataFile goMap \<Rightarrow> bool" where
  "keyed m \<longleftrightarrow> goodMap m \<and> (\<forall>(p, f) \<in> set m. dfPath f = p)"

lemma keyed_put: "keyed m \<Longrightarrow> keyed (put (dfPath f) f m)"
proof -
  assume k: "keyed m"
  have "set (put (dfPath f) f m) \<subseteq> insert (dfPath f, f) (set m)"
    by (induction "dfPath f" f m rule: put.induct) auto
  then show ?thesis using k by (auto simp: keyed_def goodMap_put)
qed

lemma keyed_filesByPath: "keyed (filesByPath fs)"
proof -
  have "keyed m \<Longrightarrow> keyed (foldl (\<lambda>m f. put (dfPath f) f m) m fs)" for m
    by (induction fs arbitrary: m) (simp_all add: keyed_put)
  moreover have "keyed []" by (simp add: keyed_def goodMap_def)
  ultimately show ?thesis unfolding filesByPath_def by blast
qed

lemma keyed_get: "keyed m \<Longrightarrow> get m p = Some f \<longleftrightarrow> (p, f) \<in> set m"
  by (simp add: keyed_def goodMap_def)

lemma keyed_path: "keyed m \<Longrightarrow> get m p = Some f \<Longrightarrow> dfPath f = p"
  by (auto simp: keyed_get keyed_def)

lemma putFiles_get:
  "get (putFiles fs m) p = (case find (\<lambda>f. dfPath f = p) (rev fs) of None \<Rightarrow> get m p | Some f \<Rightarrow> Some f)"
  unfolding putFiles_def by (induction fs rule: rev_induct) auto

lemma find_path:
  assumes "\<And>f g. f \<in> set fs \<Longrightarrow> g \<in> set fs \<Longrightarrow> dfPath f = dfPath g \<Longrightarrow> f = g"
  shows "find (\<lambda>f. dfPath f = p) fs = Some f \<longleftrightarrow> f \<in> set fs \<and> dfPath f = p"
proof
  assume "find (\<lambda>f. dfPath f = p) fs = Some f"
  then show "f \<in> set fs \<and> dfPath f = p" by (auto simp: find_Some_iff)
next
  assume f: "f \<in> set fs \<and> dfPath f = p"
  then obtain g where g: "find (\<lambda>f. dfPath f = p) fs = Some g" by (cases "find (\<lambda>f. dfPath f = p) fs") (auto simp: find_None_iff)
  then have "g \<in> set fs" "dfPath g = p" by (auto simp: find_Some_iff)
  then show "find (\<lambda>f. dfPath f = p) fs = Some f" using assms f g by auto
qed

text \<open>The four parts, as sets of files.\<close>

lemma Diff_parts:
  fixes old new :: manifest
  defines "d \<equiv> DiffManifests old new"
  defines "oldAt \<equiv> get (filesByPath old)" and "newAt \<equiv> get (filesByPath new)"
  shows "f \<in> set (mdAdded d) \<longleftrightarrow> newAt (dfPath f) = Some f \<and> oldAt (dfPath f) = None"
    and "f \<in> set (mdChanged d) \<longleftrightarrow> newAt (dfPath f) = Some f \<and> (\<exists>g. oldAt (dfPath f) = Some g \<and> \<not> sameContent g f)"
    and "f \<in> set (mdRemoved d) \<longleftrightarrow> oldAt (dfPath f) = Some f \<and> newAt (dfPath f) = None"
    and "f \<in> set (mdUnchanged d) \<longleftrightarrow> newAt (dfPath f) = Some f \<and> (\<exists>g. oldAt (dfPath f) = Some g \<and> sameContent g f)"
proof -
  note ko = keyed_filesByPath [of old] and kn = keyed_filesByPath [of new]
  have part: "f \<in> snd ` {x \<in> set m. Q x} \<longleftrightarrow> get m (dfPath f) = Some f \<and> Q (dfPath f, f)" if "keyed m" for m Q
    using that unfolding keyed_get [OF that] by (force simp: keyed_def)
  show "f \<in> set (mdAdded d) \<longleftrightarrow> newAt (dfPath f) = Some f \<and> oldAt (dfPath f) = None"
    "f \<in> set (mdChanged d) \<longleftrightarrow> newAt (dfPath f) = Some f \<and> (\<exists>g. oldAt (dfPath f) = Some g \<and> \<not> sameContent g f)"
    "f \<in> set (mdUnchanged d) \<longleftrightarrow> newAt (dfPath f) = Some f \<and> (\<exists>g. oldAt (dfPath f) = Some g \<and> sameContent g f)"
    unfolding d_def oldAt_def newAt_def DiffManifests_def Let_def
    by (simp_all add: sortFiles_def part [OF kn] Bex_def conj_commute)
  show "f \<in> set (mdRemoved d) \<longleftrightarrow> oldAt (dfPath f) = Some f \<and> newAt (dfPath f) = None"
    unfolding d_def oldAt_def newAt_def DiffManifests_def Let_def
    by (simp add: sortFiles_def part [OF ko])
qed

lemma Diff_applies:
  "get (applyDiff (DiffManifests old new) (filesByPath old)) p = get (filesByPath new) p"
proof -
  let ?d = "DiffManifests old new" and ?O = "get (filesByPath old)" and ?N = "get (filesByPath new)"
  note ko = keyed_path [OF keyed_filesByPath [of old]] and kn = keyed_path [OF keyed_filesByPath [of new]]
  note parts = Diff_parts [of _ old new]
  have uniq: "f = g" if "f \<in> set (mdAdded ?d @ mdChanged ?d)" "g \<in> set (mdAdded ?d @ mdChanged ?d)" "dfPath f = dfPath g" for f g
  proof -
    have "?N (dfPath f) = Some f" "?N (dfPath g) = Some g"
      using that(1,2) unfolding set_append Un_iff parts(1,2) by blast+
    then show ?thesis unfolding that(3) by (metis option.inject)
  qed
  have find: "find (\<lambda>f. dfPath f = p) (rev (mdAdded ?d @ mdChanged ?d)) = Some f
      \<longleftrightarrow> f \<in> set (mdAdded ?d @ mdChanged ?d) \<and> dfPath f = p" for f
  proof -
    have "find (\<lambda>f. dfPath f = p) (rev (mdAdded ?d @ mdChanged ?d)) = Some f
        \<longleftrightarrow> f \<in> set (rev (mdAdded ?d @ mdChanged ?d)) \<and> dfPath f = p"
      by (rule find_path) (unfold set_rev, rule uniq)
    then show ?thesis unfolding set_rev .
  qed
  have rem: "get (without_paths (mdRemoved ?d) (filesByPath old)) p = (if ?N p = None then None else ?O p)"
  proof -
    have "get (without_paths fs m) p = (if p \<in> dfPath ` set fs then None else get m p)" for fs and m :: "dataFile goMap"
      by (induction m) (auto simp: without_paths_def)
    moreover have "p \<in> dfPath ` set (mdRemoved ?d) \<longleftrightarrow> ?O p \<noteq> None \<and> ?N p = None"
    proof
      assume "p \<in> dfPath ` set (mdRemoved ?d)"
      then obtain f where "p = dfPath f" "f \<in> set (mdRemoved ?d)" by blast
      then show "?O p \<noteq> None \<and> ?N p = None" using parts(3) [of f] by simp
    next
      assume a: "?O p \<noteq> None \<and> ?N p = None"
      then obtain f where f: "?O p = Some f" by blast
      then have "dfPath f = p" by (rule ko)
      then show "p \<in> dfPath ` set (mdRemoved ?d)" using parts(3) [of f] f a by force
    qed
    ultimately show ?thesis by auto
  qed
  show ?thesis
  proof (cases "?N p")
    case None
    then have "find (\<lambda>f. dfPath f = p) (rev (mdAdded ?d @ mdChanged ?d)) \<noteq> Some f" for f
      unfolding find using None parts(1,2) [of f] by auto
    then have "find (\<lambda>f. dfPath f = p) (rev (mdAdded ?d @ mdChanged ?d)) = None"
      by (cases "find (\<lambda>f. dfPath f = p) (rev (mdAdded ?d @ mdChanged ?d))") auto
    then show ?thesis using None by (simp add: applyDiff_def putFiles_get rem)
  next
    case (Some f)
    have pf: "dfPath f = p" using kn Some by blast
    show ?thesis
    proof (cases "f \<in> set (mdAdded ?d @ mdChanged ?d)")
      case True
      then have "find (\<lambda>f. dfPath f = p) (rev (mdAdded ?d @ mdChanged ?d)) = Some f" using find pf by blast
      then show ?thesis using Some by (simp add: applyDiff_def putFiles_get)
    next
      case False
      then obtain g where g: "?O p = Some g" "sameContent g f"
        using Some pf parts(1,2) [of f] by (cases "?O p") auto
      have "dfPath g = p" using ko g(1) by blast
      then have gf: "g = f" using g(2) pf by (cases f; cases g) (simp add: sameContent_def)
      have "find (\<lambda>f. dfPath f = p) (rev (mdAdded ?d @ mdChanged ?d)) \<noteq> Some h" for h
        unfolding find using False g gf Some parts(1,2) [of h] by auto
      then have "find (\<lambda>f. dfPath f = p) (rev (mdAdded ?d @ mdChanged ?d)) = None"
        by (cases "find (\<lambda>f. dfPath f = p) (rev (mdAdded ?d @ mdChanged ?d))") auto
      then show ?thesis using Some g gf by (simp add: applyDiff_def putFiles_get rem)
    qed
  qed
qed

lemma keyed_same:
  assumes "get (filesByPath fs) (dfPath f) = Some g"
  shows "sameContent g f \<longleftrightarrow> g = f"
  using keyed_path [OF keyed_filesByPath assms] by (cases f; cases g) (auto simp: sameContent_def)

lemma mem_Collect: "(\<And>f. f \<in> A \<longleftrightarrow> P f) \<Longrightarrow> A = {f. P f}"
  by blast

text \<open>
  C36: The difference of two manifests is the least patch between them. Its additions and changes are
  exactly the files of the new manifest the old one does not hold as they are, its removals the files
  whose path is gone, and the rest are the files both hold; and removing and then writing these files
  turns the old manifest into the new one, path by path.
\<close>

theorem diff_is_a_patch:
  fixes old new :: manifest
  defines "d \<equiv> DiffManifests old new"
  defines "oldAt \<equiv> get (filesByPath old)" and "newAt \<equiv> get (filesByPath new)"
  shows "set (mdAdded d @ mdChanged d) = {f. newAt (dfPath f) = Some f \<and> oldAt (dfPath f) \<noteq> Some f}
    \<and> set (mdAdded d) = {f. newAt (dfPath f) = Some f \<and> oldAt (dfPath f) = None}
    \<and> set (mdRemoved d) = {f. oldAt (dfPath f) = Some f \<and> newAt (dfPath f) = None}
    \<and> set (mdUnchanged d) = {f. newAt (dfPath f) = Some f \<and> oldAt (dfPath f) = Some f}
    \<and> get (applyDiff d (filesByPath old)) = newAt"
proof -
  note parts = Diff_parts [where old = old and new = new]
  note same = keyed_same [where fs = old]
  have "f \<in> set (mdAdded d @ mdChanged d) \<longleftrightarrow> newAt (dfPath f) = Some f \<and> oldAt (dfPath f) \<noteq> Some f" for f
    unfolding d_def oldAt_def newAt_def set_append Un_iff parts using same [of f]
    by (cases "get (filesByPath old) (dfPath f)") auto
  moreover have "f \<in> set (mdUnchanged d) \<longleftrightarrow> newAt (dfPath f) = Some f \<and> oldAt (dfPath f) = Some f" for f
    unfolding d_def oldAt_def newAt_def parts using same [of f] by auto
  ultimately show ?thesis
    using parts(1,3) Diff_applies unfolding d_def oldAt_def newAt_def by (intro conjI mem_Collect ext) blast+
qed

text \<open>
  A manifest is accepted exactly when it has no more files than allowed, every path is relative,
  in clean form, without a backslash and without a parent element, every size is at least 0 and
  within the limit of a file, every digest is 64 lowercase hexadecimal digits, no two paths are
  equal up to case, and the sizes add up, as integers, to at most the limit of a revision and the
  largest 64-bit integer. A limit of 0 or less is none.
\<close>

theorem manifest_accepted_iff:
  assumes "\<forall>f \<in> set m. in64 (dfSize f)"
  shows "validateManifest limits m = Inr () \<longleftrightarrow>
    (mlMaxFiles limits \<le> 0 \<or> int (length m) \<le> mlMaxFiles limits)
    \<and> (\<forall>f \<in> set m. goodFile limits f) \<and> distinct (map (\<lambda>f. toLower (dfPath f)) m)
    \<and> revisionSize m \<le> maxInt64 \<and> (mlMaxRevisionBytes limits \<le> 0 \<or> revisionSize m \<le> mlMaxRevisionBytes limits)"
  by (rule manifest_iff [OF assms])

definition demoFile :: "string \<Rightarrow> int \<Rightarrow> dataFile" where
  "demoFile p n = \<lparr>dfPath = p, dfSize = n, dfSHA256 = replicate 64 CHR ''a''\<rparr>"

lemma demoFile_digest: "list_all lowerHex (replicate 64 CHR ''a'')"
  by (auto simp: list_all_iff lowerHex_def byte_def)

lemma demo_paths:
  "list_all plainPart (splitOn CHR ''/'' ''a/b.csv'')" "list_all plainPart (splitOn CHR ''/'' ''c.csv'')"
  "\<not> list_all plainPart (splitOn CHR ''/'' ''a/../c'')"
  by (simp_all add: plainPart_def goodPart_def)

theorem manifest_accepted_iff_witness:
  "validateManifest noLimits [demoFile ''a/b.csv'' 5, demoFile ''c.csv'' 7] = Inr ()
   \<and> validateManifest (noLimits\<lparr>mlMaxRevisionBytes := 11\<rparr>) [demoFile ''a/b.csv'' 5, demoFile ''c.csv'' 7] \<noteq> Inr ()
   \<and> validateManifest noLimits [demoFile ''a/b.csv'' maxInt64, demoFile ''c.csv'' 1] \<noteq> Inr ()
   \<and> validateManifest noLimits [demoFile ''a/../c'' 5] \<noteq> Inr ()"
  using manifest_accepted_iff [of "[demoFile ''a/b.csv'' 5, demoFile ''c.csv'' 7]" noLimits]
    manifest_accepted_iff [of "[demoFile ''a/b.csv'' 5, demoFile ''c.csv'' 7]" "noLimits\<lparr>mlMaxRevisionBytes := 11\<rparr>"]
    manifest_accepted_iff [of "[demoFile ''a/b.csv'' maxInt64, demoFile ''c.csv'' 1]" noLimits]
    manifest_accepted_iff [of "[demoFile ''a/../c'' 5]" noLimits]
    demo_paths demoFile_digest
  by (simp add: demoFile_def noLimits_def goodFile_def revisionSize_def in64_def toLower_def lowerByte_def byte_def
      del: splitOn.simps)

end
