(* ===== verification/Manifest_JSON.thy ===== *)
theory Manifest_JSON
  imports Manifest_Properties "HOL-Library.Multiset"
begin

text \<open>
  The canonical JSON of a manifest can be read back: a reader for the strings and numbers the writer
  produces, and from it that equal texts come from equal files.
\<close>

section \<open>Strings\<close>

fun validUTF8 :: "string \<Rightarrow> bool" where
  "validUTF8 [] = True"
| "validUTF8 (a # s) = (runeLen (a # s) \<noteq> 0 \<and> validUTF8 (drop (runeLen (a # s) - 1) s))"

definition hexValue :: "char \<Rightarrow> nat" where
  "hexValue c = (if isDigit c then byte c - 48 else byte c - 87)"

text \<open>The text an escape stands for, and its length after the backslash.\<close>

definition unescape :: "string \<Rightarrow> (string \<times> nat) option" where
  "unescape s =
     (if s = [] then None
      else if hd s = CHR ''u'' then
        (if take 5 s = ''u2028'' then Some (map char_of [226, 128, 168 :: nat], 5)
         else if take 5 s = ''u2029'' then Some (map char_of [226, 128, 169 :: nat], 5)
         else if length s < 5 then None
         else Some ([char_of (16 * hexValue (s ! 3) + hexValue (s ! 4))], 5))
      else if hd s = CHR ''b'' then Some ([char_of (8 :: nat)], 1)
      else if hd s = CHR ''f'' then Some ([char_of (12 :: nat)], 1)
      else if hd s = CHR ''n'' then Some ([char_of (10 :: nat)], 1)
      else if hd s = CHR ''r'' then Some ([char_of (13 :: nat)], 1)
      else if hd s = CHR ''t'' then Some ([char_of (9 :: nat)], 1)
      else Some ([hd s], 1))"

function unquote :: "string \<Rightarrow> (string \<times> string) option" where
  "unquote [] = None"
| "unquote (c # s) =
     (if c = CHR 0x22 then Some ([], s)
      else if c = CHR 0x5C then
        (case unescape s of None \<Rightarrow> None | Some (d, n) \<Rightarrow> map_option (apfst ((@) d)) (unquote (drop n s)))
      else map_option (apfst (Cons c)) (unquote s))"
  by pat_completeness auto
termination
  by (relation "measure length") auto

declare unquote.simps(2) [simp del]

lemma unquote_end [simp]: "unquote (CHR 0x22 # s) = Some ([], s)"
  by (simp add: unquote.simps)

lemma unquote_plain: "\<forall>c \<in> set xs. c \<noteq> CHR 0x22 \<and> c \<noteq> CHR 0x5C \<Longrightarrow> unquote (xs @ s) = map_option (apfst ((@) xs)) (unquote s)"
proof (induction xs)
  case Nil
  then show ?case by (cases "unquote s") auto
next
  case (Cons x xs)
  then have "unquote ((x # xs) @ s) = map_option (apfst (Cons x)) (unquote (xs @ s))" by (simp add: unquote.simps(2))
  also have "\<dots> = map_option (apfst ((@) (x # xs))) (unquote s)"
    using Cons by (cases "unquote s") (simp_all add: apfst_def map_prod_def case_prod_beta)
  finally show ?case .
qed

definition plainEscape :: "char \<Rightarrow> bool" where
  "plainEscape c \<longleftrightarrow> (escapeAscii c = [c] \<and> c \<noteq> CHR 0x22 \<and> c \<noteq> CHR 0x5C)
     \<or> (hd (escapeAscii c) = CHR 0x5C \<and> length (escapeAscii c) = 2 \<and> escapeAscii c ! 1 \<noteq> CHR ''u''
        \<and> unescape (tl (escapeAscii c)) = Some ([c], 1))
     \<or> (hd (escapeAscii c) = CHR 0x5C \<and> length (escapeAscii c) = 6 \<and> unescape (tl (escapeAscii c)) = Some ([c], 5))"

lemma hexValue_digit: "n < 16 \<Longrightarrow> hexValue (hexDigit n) = n"
proof -
  have "\<forall>n \<in> set [0..<16]. hexValue (hexDigit n) = n"
    by (simp add: upt_rec hexValue_def hexDigit_def isDigit_def byte_def)
  then show "n < 16 \<Longrightarrow> hexValue (hexDigit n) = n" by simp
qed

lemma char_of_byte [simp]: "char_of (byte c) = c"
  by (simp add: byte_def)

lemma byte_char: "byte c = n \<Longrightarrow> c = char_of n"
  by auto

lemma unescape_hex:
  assumes "byte c < 128"
  shows "unescape (''u00'' @ [hexDigit (byte c div 16), hexDigit (byte c mod 16)]) = Some ([c], 5)"
proof -
  have "hexValue (hexDigit (byte c div 16)) = byte c div 16" "hexValue (hexDigit (byte c mod 16)) = byte c mod 16"
    using assms by (auto intro!: hexValue_digit)
  moreover have "byte c div 16 * 16 + byte c mod 16 = byte c" by (rule div_mult_mod_eq)
  ultimately show ?thesis by (simp add: unescape_def mult.commute)
qed

lemma plainEscape: "byte c < 128 \<Longrightarrow> plainEscape c"
  unfolding plainEscape_def escapeAscii_def using unescape_hex [of c]
  by (auto simp: unescape_def dest!: byte_char)

lemma unescape_append:
  assumes "unescape s = Some (d, length s)"
  shows "length s = 5 \<or> hd s \<noteq> CHR ''u'' \<Longrightarrow> s \<noteq> [] \<Longrightarrow> unescape (s @ t) = Some (d, length s)"
  using assms by (auto simp: unescape_def nth_append split: if_splits)

lemma unquote_ascii:
  assumes "byte c < 128"
  shows "unquote (escapeAscii c @ s) = map_option (apfst (Cons c)) (unquote s)"
proof -
  consider "escapeAscii c = [c]" "c \<noteq> CHR 0x22" "c \<noteq> CHR 0x5C"
    | x where "escapeAscii c = [CHR 0x5C, x]" "x \<noteq> CHR ''u''" "unescape [x] = Some ([c], 1)"
    | xs where "escapeAscii c = CHR 0x5C # xs" "length xs = 5" "unescape xs = Some ([c], 5)"
  proof -
    from plainEscape [OF assms] show thesis
      unfolding plainEscape_def
    proof (elim disjE conjE)
      assume h: "hd (escapeAscii c) = CHR 0x5C" "length (escapeAscii c) = 2" "escapeAscii c ! 1 \<noteq> CHR ''u''"
        "unescape (tl (escapeAscii c)) = Some ([c], 1)"
      then obtain a x where "escapeAscii c = [a, x]" by (auto simp: numeral_2_eq_2 length_Suc_conv)
      then show thesis using h that(2) by simp
    next
      assume h: "hd (escapeAscii c) = CHR 0x5C" "length (escapeAscii c) = 6" "unescape (tl (escapeAscii c)) = Some ([c], 5)"
      then show thesis using that(3) [of "tl (escapeAscii c)"] by (cases "escapeAscii c") auto
    qed (rule that(1))
  qed
  then show ?thesis
  proof cases
    case 1
    then show ?thesis by (simp add: unquote.simps(2))
  next
    case (2 x)
    have "unescape (x # s) = Some ([c], 1)" using unescape_append [of "[x]" "[c]" s] 2 by simp
    then show ?thesis using 2 by (cases "unquote s") (auto simp: unquote.simps(2))
  next
    case (3 xs)
    have "unescape (xs @ s) = Some ([c], 5)" using unescape_append [of xs "[c]" s] 3 by force
    then show ?thesis using 3 by (cases "unquote s") (auto simp: unquote.simps(2))
  qed
qed

declare runeLen.simps(2) [simp del] escapeJSON.simps(2) [simp del]

lemma runeLen_one: "runeLen (a # s) = 1 \<Longrightarrow> byte a < 128"
  by (auto simp: runeLen.simps Let_def split: if_splits)

lemma runeLen_more:
  assumes "runeLen (a # s) = n" "n \<noteq> 0" "n \<noteq> 1"
  shows "\<forall>c \<in> set (a # take (n - 1) s). 128 \<le> byte c"
proof -
  have a: "128 \<le> byte a" using assms by (auto simp: runeLen.simps Let_def split: if_splits)
  have n: "n = 2 \<and> isCont (s ! 0) \<and> 0 < length s \<or> n = 3 \<and> isCont (s ! 0) \<and> isCont (s ! 1) \<and> 1 < length s
      \<or> n = 4 \<and> isCont (s ! 0) \<and> isCont (s ! 1) \<and> isCont (s ! 2) \<and> 2 < length s"
    using assms unfolding runeLen.simps Let_def by (simp split: if_splits)
  have "128 \<le> byte (s ! i)" if "i < n - 1" for i
  proof -
    have "isCont (s ! i)" using n that by (auto simp: less_Suc_eq numeral_eq_Suc)
    then show ?thesis by (simp add: isCont_def)
  qed
  moreover have "n - 1 \<le> length s" using n by linarith
  ultimately show ?thesis using a by (fastforce simp: in_set_conv_nth)
qed

lemma unescape_separators [simp]:
  "unescape (''u2028'' @ s) = Some (map char_of [226, 128, 168 :: nat], 5)"
  "unescape (''u2029'' @ s) = Some (map char_of [226, 128, 169 :: nat], 5)"
  by (simp_all add: unescape_def)

lemma unquote_escape_step:
  "unescape xs = Some (d, n) \<Longrightarrow> unquote (CHR 0x5C # xs) = map_option (apfst ((@) d)) (unquote (drop n xs))"
  by (simp add: unquote.simps(2))

lemma unquote_separator:
  assumes "\<And>t. unescape (u @ t) = Some (d, 5)" "length u = 5" "e = CHR 0x5C # u @ e'" "unquote (e' @ t) = Some (w, r)"
  shows "unquote (e @ t) = Some (d @ w, r)"
  using assms unquote_escape_step [OF assms(1) [of "e' @ t"]] by simp

lemma bytes_of: "map byte xs = bs \<Longrightarrow> xs = map char_of bs"
  by (auto simp: o_def)

lemma high_plain: "128 \<le> byte c \<Longrightarrow> c \<noteq> CHR 0x22 \<and> c \<noteq> CHR 0x5C"
  by (auto simp: byte_def)

lemma unquote_escape:
  "validUTF8 s \<Longrightarrow> unquote (escapeJSON s @ CHR 0x22 # r) = Some (s, r)"
proof (induction s rule: escapeJSON.induct)
  case (2 a s)
  let ?n = "runeLen (a # s)"
  have valid: "?n \<noteq> 0" "validUTF8 (drop (?n - 1) s)" using "2.prems" unfolding validUTF8.simps by blast+
  consider "?n = 1" | "?n \<noteq> 1" "map byte (take 3 (a # s)) = [226, 128, 168]" | "?n \<noteq> 1" "map byte (take 3 (a # s)) = [226, 128, 169]"
    | "?n \<noteq> 1" "map byte (take 3 (a # s)) \<noteq> [226, 128, 168]" "map byte (take 3 (a # s)) \<noteq> [226, 128, 169]"
    by blast
  then show ?case
  proof cases
    case 1
    then have "unquote (escapeJSON s @ CHR 0x22 # r) = Some (s, r)" using "2.IH"(2) valid by simp
    moreover have "escapeJSON (a # s) = escapeAscii a @ escapeJSON s" unfolding escapeJSON.simps Let_def using 1 by simp
    ultimately show ?thesis using unquote_ascii [OF runeLen_one [OF 1]] by simp
  next
    case 2
    then have t: "take 3 (a # s) = map char_of [226, 128, 168 :: nat]" by (intro bytes_of)
    then have s: "a # s = map char_of [226, 128, 168 :: nat] @ drop 2 s"
      using append_take_drop_id [of 3 "a # s"] by (simp add: numeral_eq_Suc)
    have n: "?n = 3" by (subst s) (simp add: runeLen.simps byte_def isCont_def)
    then have "unquote (escapeJSON (drop 2 s) @ CHR 0x22 # r) = Some (drop 2 s, r)" using "2.IH"(3) valid 2 by simp
    moreover have "escapeJSON (a # s) = CHR 0x5C # ''u2028'' @ escapeJSON (drop 2 s)"
      unfolding escapeJSON.simps Let_def using 2 n by simp
    ultimately have "unquote (escapeJSON (a # s) @ CHR 0x22 # r) = Some (map char_of [226, 128, 168 :: nat] @ drop 2 s, r)"
      using unquote_separator [OF unescape_separators(1), where e = "escapeJSON (a # s)"] by simp
    then show ?thesis by (simp only: s [symmetric])
  next
    case 3
    then have t: "take 3 (a # s) = map char_of [226, 128, 169 :: nat]" by (intro bytes_of)
    then have s: "a # s = map char_of [226, 128, 169 :: nat] @ drop 2 s"
      using append_take_drop_id [of 3 "a # s"] by (simp add: numeral_eq_Suc)
    have n: "?n = 3" by (subst s) (simp add: runeLen.simps byte_def isCont_def)
    then have "unquote (escapeJSON (drop 2 s) @ CHR 0x22 # r) = Some (drop 2 s, r)" using "2.IH"(4) valid 3 by simp
    moreover have "escapeJSON (a # s) = CHR 0x5C # ''u2029'' @ escapeJSON (drop 2 s)"
      unfolding escapeJSON.simps Let_def using 3 n by simp
    ultimately have "unquote (escapeJSON (a # s) @ CHR 0x22 # r) = Some (map char_of [226, 128, 169 :: nat] @ drop 2 s, r)"
      using unquote_separator [OF unescape_separators(2), where e = "escapeJSON (a # s)"] by simp
    then show ?thesis by (simp only: s [symmetric])
  next
    case 4
    have "unquote (escapeJSON (drop (?n - 1) s) @ CHR 0x22 # r) = Some (drop (?n - 1) s, r)"
      using "2.IH"(5) valid 4 by simp
    moreover have "escapeJSON (a # s) = (a # take (?n - 1) s) @ escapeJSON (drop (?n - 1) s)"
      unfolding escapeJSON.simps Let_def if_not_P [OF valid(1)] if_not_P [OF 4(1)] if_not_P [OF 4(2)] if_not_P [OF 4(3)] by simp
    moreover have "\<forall>c \<in> set (a # take (?n - 1) s). c \<noteq> CHR 0x22 \<and> c \<noteq> CHR 0x5C"
      using runeLen_more [OF refl valid(1) 4(1)] high_plain by blast
    ultimately show ?thesis using unquote_plain [of "a # take (?n - 1) s"] by simp
  qed
qed simp

lemma jsonString_prefix:
  assumes "validUTF8 s" "validUTF8 t" "jsonString s @ r = jsonString t @ r'"
  shows "s = t \<and> r = r'"
proof -
  have "Some (s, r) = unquote (escapeJSON s @ CHR 0x22 # r)" by (rule unquote_escape [OF assms(1), symmetric])
  also have "escapeJSON s @ CHR 0x22 # r = escapeJSON t @ CHR 0x22 # r'" using assms(3) by (simp add: jsonString_def)
  also have "unquote \<dots> = Some (t, r')" by (rule unquote_escape [OF assms(2)])
  finally show ?thesis by simp
qed

section \<open>Numbers\<close>

lemma showNat_digits: "c \<in> set (showNat n) \<Longrightarrow> isDigit c"
proof (induction n rule: showNat.induct)
  case (1 n)
  have digit: "isDigit (char_of (48 + d))" if "d < 10" for d :: nat using that by (simp add: isDigit_def byte_def)
  show ?case
  proof (cases "n < 10")
    case True
    then show ?thesis using "1.prems" digit by (simp add: showNat.simps [of n])
  next
    case False
    then have "c \<in> set (showNat (n div 10)) \<or> c = char_of (48 + n mod 10)"
      using "1.prems" by (auto simp: showNat.simps [of n])
    then show ?thesis using "1.IH" [OF False] digit [of "n mod 10"] by auto
  qed
qed

fun readNat :: "nat \<Rightarrow> string \<Rightarrow> nat" where
  "readNat n [] = n"
| "readNat n (c # s) = readNat (10 * n + (byte c - 48)) s"

lemma readNat_append: "readNat n (s @ t) = readNat (readNat n s) t"
  by (induction s arbitrary: n) simp_all

lemma readNat_showNat: "readNat 0 (showNat n) = n"
proof (induction n rule: showNat.induct)
  case (1 n)
  then show ?case by (cases "n < 10") (simp_all add: showNat.simps [of n] readNat_append byte_def)
qed

lemma showInt_inject:
  assumes "0 \<le> i" "0 \<le> j" "showInt i = showInt j"
  shows "i = j"
proof -
  have "showNat (nat i) = showNat (nat j)" using assms by (simp add: showInt_def)
  then have "nat i = nat j" using readNat_showNat by metis
  then show ?thesis using assms(1,2) by (simp add: eq_nat_nat_iff)
qed

text \<open>Digits end where the next text starts with something else.\<close>

lemma digits_prefix:
  assumes "\<forall>c \<in> set xs. isDigit c" "\<forall>c \<in> set ys. isDigit c" "\<not> isDigit c" "xs @ c # r = ys @ c # r'"
  shows "xs = ys \<and> r = r'"
proof -
  have "takeWhile isDigit (zs @ c # q) = zs" if "\<forall>c \<in> set zs. isDigit c" for zs q
    using that assms(3) by (simp add: takeWhile_append2)
  then show ?thesis using assms by (metis append_same_eq same_append_eq list.inject)
qed

section \<open>Files and lists of files\<close>

definition textFile :: "dataFile \<Rightarrow> bool" where
  "textFile f \<longleftrightarrow> validUTF8 (dfPath f) \<and> validUTF8 (dfSHA256 f) \<and> 0 \<le> dfSize f"

lemma jsonFile_prefix:
  assumes f: "textFile f" and g: "textFile g" and eq: "jsonFile f @ r = jsonFile g @ r'"
  shows "f = g \<and> r = r'"
proof -
  let ?tail = "\<lambda>h q. '','' @ jsonString ''size'' @ '':'' @ showInt (dfSize h) @ '','' @ jsonString ''sha256'' @ '':'' @ jsonString (dfSHA256 h) @ [CHR 0x7D] @ q"
  have "jsonString (dfPath f) @ ?tail f r = jsonString (dfPath g) @ ?tail g r'"
    using eq by (simp add: jsonFile_def)
  then have p: "dfPath f = dfPath g" and tail: "?tail f r = ?tail g r'"
    using jsonString_prefix f g unfolding textFile_def by blast+
  let ?sha = "\<lambda>h q. jsonString ''sha256'' @ '':'' @ jsonString (dfSHA256 h) @ [CHR 0x7D] @ q"
  have "showInt (dfSize f) @ CHR '','' # ?sha f r = showInt (dfSize g) @ CHR '','' # ?sha g r'" using tail by simp
  moreover have "\<forall>c \<in> set (showInt (dfSize h)). isDigit c" if "textFile h" for h
    using that showNat_digits by (auto simp: showInt_def textFile_def)
  ultimately have s: "showInt (dfSize f) = showInt (dfSize g)" and sha: "?sha f r = ?sha g r'"
    using digits_prefix [of "showInt (dfSize f)" "showInt (dfSize g)" "CHR '',''" "?sha f r" "?sha g r'"] f g
    by (simp_all add: isDigit_def byte_def)
  then have size: "dfSize f = dfSize g" using showInt_inject f g unfolding textFile_def by blast
  have "jsonString (dfSHA256 f) @ CHR 0x7D # r = jsonString (dfSHA256 g) @ CHR 0x7D # r'" using sha by simp
  then have "dfSHA256 f = dfSHA256 g \<and> CHR 0x7D # r = CHR 0x7D # r'"
    using jsonString_prefix f g unfolding textFile_def by blast
  then show ?thesis using p size by (cases f; cases g) simp
qed

text \<open>A list of files, with a comma before each file after the first.\<close>

lemma joinWith_commas:
  "joinWith '','' (map jsonFile (f # fs)) = jsonFile f @ concat (map (\<lambda>g. CHR '','' # jsonFile g) fs)"
  by (induction fs arbitrary: f) auto

lemma commas_inject:
  assumes "\<forall>f \<in> set fs. textFile f" "\<forall>f \<in> set gs. textFile f"
    "concat (map (\<lambda>g. CHR '','' # jsonFile g) fs) @ [CHR 0x5D] = concat (map (\<lambda>g. CHR '','' # jsonFile g) gs) @ [CHR 0x5D]"
  shows "fs = gs"
  using assms
proof (induction fs arbitrary: gs)
  case Nil
  then show ?case by (cases gs) auto
next
  case (Cons f fs)
  from Cons.prems(3) obtain g gs' where gs: "gs = g # gs'" by (cases gs) simp_all
  let ?rest = "\<lambda>fs. concat (map (\<lambda>g. CHR '','' # jsonFile g) fs) @ [CHR 0x5D]"
  have "jsonFile f @ ?rest fs = jsonFile g @ ?rest gs'" using Cons.prems(3) gs by simp
  moreover have "textFile f" "textFile g" using Cons.prems(1,2) gs by simp_all
  ultimately have fg: "f = g \<and> ?rest fs = ?rest gs'" by (intro jsonFile_prefix)
  have "fs = gs'" by (rule Cons.IH) (use Cons.prems(1,2) gs in simp, use Cons.prems(1,2) gs in simp, rule conjunct2 [OF fg])
  then show ?case using fg gs by simp
qed

lemma jsonManifest_inject:
  assumes "\<forall>f \<in> set m. textFile f" "\<forall>f \<in> set n. textFile f" "jsonManifest m = jsonManifest n"
  shows "m = n"
proof (cases m; cases n)
  fix f fs g gs
  assume mn: "m = f # fs" "n = g # gs"
  let ?rest = "\<lambda>fs. concat (map (\<lambda>g. CHR '','' # jsonFile g) fs) @ [CHR 0x5D]"
  have "jsonFile f @ ?rest fs = jsonFile g @ ?rest gs"
    using assms(3) unfolding mn jsonManifest_def joinWith_commas by simp
  moreover have "textFile f" "textFile g" using assms(1,2) mn by simp_all
  ultimately have fg: "f = g \<and> ?rest fs = ?rest gs" by (intro jsonFile_prefix)
  have "fs = gs" by (rule commas_inject) (use assms(1,2) mn in simp, use assms(1,2) mn in simp, rule conjunct2 [OF fg])
  then show ?thesis using fg mn by simp
qed (use assms(3) in \<open>auto simp: jsonManifest_def\<close>)

section \<open>What a revision identifies\<close>

lemma ascii_validUTF8: "\<forall>c \<in> set s. byte c < 128 \<Longrightarrow> validUTF8 s"
  by (induction s) (simp_all add: runeLen.simps)

lemma goodFile_textFile: "goodFile limits f \<Longrightarrow> validUTF8 (dfPath f) \<Longrightarrow> textFile f"
  unfolding textFile_def goodFile_def
  by (auto simp: list_all_iff lowerHex_def isDigit_def intro!: ascii_validUTF8)

lemma accepted_textFiles:
  assumes "\<forall>f \<in> set m. in64 (dfSize f) \<and> validUTF8 (dfPath f)" "validateManifest limits m = Inr ()"
  shows "(\<forall>f \<in> set m. textFile f) \<and> inj_on dfPath (set m)"
proof -
  from assms have "\<forall>f \<in> set m. goodFile limits f" and d: "distinct (map (\<lambda>f. toLower (dfPath f)) m)"
    using manifest_iff [of m limits] by auto
  moreover have "inj_on dfPath (set m)" using d by (auto simp: distinct_map inj_on_def)
  ultimately show ?thesis using goodFile_textFile assms(1) by blast
qed

text \<open>
  C35: Two accepted manifests have the same canonical text exactly when they list the same files, in
  any order: neither the order nor any name, size or digest can be confused in the text the revision
  id is the hash of. The paths have to be valid UTF-8, since the writer replaces every other byte by
  the same escape.
\<close>

theorem canonical_text_identifies_files:
  assumes "\<forall>f \<in> set m. in64 (dfSize f) \<and> validUTF8 (dfPath f)" "\<forall>f \<in> set n. in64 (dfSize f) \<and> validUTF8 (dfPath f)"
    and "validateManifest noLimits m = Inr ()" "validateManifest noLimits n = Inr ()"
  shows "CanonicalJSON m = CanonicalJSON n \<longleftrightarrow> mset m = mset n"
proof -
  note m = accepted_textFiles [OF assms(1,3)] and n = accepted_textFiles [OF assms(2,4)]
  have "CanonicalJSON m = CanonicalJSON n \<longleftrightarrow> jsonManifest (sort_key dfPath m) = jsonManifest (sort_key dfPath n)"
    using assms(3,4) by (simp add: CanonicalJSON_def)
  also have "\<dots> \<longleftrightarrow> sort_key dfPath m = sort_key dfPath n"
    using jsonManifest_inject [of "sort_key dfPath m" "sort_key dfPath n"] m n by auto
  also have "\<dots> \<longleftrightarrow> mset m = mset n"
  proof
    assume "sort_key dfPath m = sort_key dfPath n"
    then show "mset m = mset n" by (metis mset_sort)
  next
    assume "mset m = mset n"
    then show "sort_key dfPath m = sort_key dfPath n"
      using m by (intro sort_key_inj_key_eq) simp_all
  qed
  finally show ?thesis .
qed

lemma demo_manifests:
  "validateManifest noLimits [demoFile ''a/b.csv'' 5, demoFile ''c.csv'' 7] = Inr ()"
  "validateManifest noLimits [demoFile ''c.csv'' 7, demoFile ''a/b.csv'' 5] = Inr ()"
  "validateManifest noLimits [demoFile ''a/b.csv'' 57] = Inr ()"
  using manifest_iff [of "[demoFile ''a/b.csv'' 5, demoFile ''c.csv'' 7]" noLimits]
    manifest_iff [of "[demoFile ''c.csv'' 7, demoFile ''a/b.csv'' 5]" noLimits]
    manifest_iff [of "[demoFile ''a/b.csv'' 57]" noLimits] demo_paths demoFile_digest
  by (simp_all add: demoFile_def noLimits_def goodFile_def revisionSize_def in64_def toLower_def lowerByte_def byte_def
      del: splitOn.simps)

lemma demo_utf8: "validUTF8 ''a/b.csv''" "validUTF8 ''c.csv''"
  by (rule ascii_validUTF8, simp add: byte_def)+

theorem canonical_text_identifies_files_witness:
  "CanonicalJSON [demoFile ''a/b.csv'' 5, demoFile ''c.csv'' 7] = CanonicalJSON [demoFile ''c.csv'' 7, demoFile ''a/b.csv'' 5]
   \<and> CanonicalJSON [demoFile ''a/b.csv'' 5, demoFile ''c.csv'' 7] \<noteq> CanonicalJSON [demoFile ''a/b.csv'' 57]"
  using canonical_text_identifies_files [OF _ _ demo_manifests(1,2)] canonical_text_identifies_files [OF _ _ demo_manifests(1,3)]
    demo_utf8 by (simp add: demoFile_def in64_def)

text \<open>
  Without the hypothesis on the paths the statement fails: names that are not UTF-8 share a text.
\<close>

lemma invalid_names_share_text:
  "CanonicalJSON [demoFile [char_of (255 :: nat)] 1] = CanonicalJSON [demoFile [char_of (254 :: nat)] 1]
   \<and> validateManifest noLimits [demoFile [char_of (255 :: nat)] 1] = Inr ()"
proof -
  have ok: "validateManifest noLimits [demoFile [char_of n] 1] = Inr ()" if "n = 254 \<or> n = 255" for n :: nat
  proof -
    have "char_of n \<noteq> CHR 0x5C" "list_all plainPart (splitOn CHR ''/'' [char_of n])"
      using that by (auto simp: plainPart_def goodPart_def char_of_def bit_Suc_0_iff)
    then show ?thesis
      using manifest_iff [of "[demoFile [char_of n] 1]" noLimits] demoFile_digest
      by (simp add: demoFile_def noLimits_def goodFile_def revisionSize_def in64_def)
  qed
  have "escapeJSON [char_of n] = CHR 0x5C # ''ufffd''" if "n = 254 \<or> n = 255" for n :: nat
    using that by (auto simp: escapeJSON.simps runeLen.simps byte_def)
  then show ?thesis using ok [of 254] ok [of 255]
    by (simp add: CanonicalJSON_def jsonManifest_def jsonFile_def demoFile_def jsonString_def del: validateFiles.simps)
qed

end
