(* ===== verification/Stream_Types.thy ===== *)
theory Stream_Types
  imports Complex_Main Data_Manifest
begin

text \<open>
  What a dashboard stream carries: filters (\<^verbatim>\<open>internal/dashboard/types.go\<close>), the envelope of a
  visualization and its revisions (\<^verbatim>\<open>internal/visualization/ir/envelope.go\<close>, \<^verbatim>\<open>revision.go\<close>), and
  the events, refreshes and summaries of \<^verbatim>\<open>internal/dashboard/stream/coordinator.go\<close>. Parts that are
  only copied have the type \<open>'a\<close>. A nil slice or map is \<open>None\<close> where the code asks for it.
\<close>

section \<open>Floating point\<close>

text \<open>A 64-bit float as a value: comparing two and taking the smaller or larger never rounds.\<close>

datatype goFloat = Finite rat | Infinite bool | NaN

record floatLib =
  flAdd :: "goFloat \<Rightarrow> goFloat \<Rightarrow> goFloat"
  flMillis :: "int \<Rightarrow> goFloat"

definition NormalizeProgressPercent :: "goFloat option \<Rightarrow> bool \<Rightarrow> goFloat option" where
  "NormalizeProgressPercent percent loading =
     (case percent of
        Some (Finite x) \<Rightarrow> Some (Finite (max 0 (min 100 x)))
      | _ \<Rightarrow> Some (Finite (if loading then 0 else 100)))"

fun lessFloat :: "goFloat \<Rightarrow> goFloat \<Rightarrow> bool" where
  "lessFloat (Finite x) (Finite y) = (x < y)"
| "lessFloat (Finite _) (Infinite up) = up"
| "lessFloat (Infinite up) (Finite _) = (\<not> up)"
| "lessFloat (Infinite up) (Infinite up') = (\<not> up \<and> up')"
| "lessFloat _ _ = False"

section \<open>Filters\<close>

record filterControl =
  fcType :: string
  fcOperator :: string
  fcPreset :: string
  fcFrom :: string
  fcTo :: string
  fcValue :: string
  fcValues :: "string list"

record 'a interactionMapping =
  imField :: string
  imFact :: string
  imGrain :: string
  imValue :: 'a
  imLabel :: string
  imDecodedFromJSON :: bool
  imValuePresent :: bool

record 'a interactionEntry =
  ieMappings :: "'a interactionMapping list"
  ieLabel :: string

record 'a interactionSelection =
  isID :: string
  isSourceKind :: string
  isSourceID :: string
  isInteractionKind :: string
  isEntries :: "'a interactionEntry list"
  isLabel :: string
  isOrder :: int

record 'a spatialSelection =
  spVisualID :: string
  spInteractionID :: string
  spGesture :: 'a
  spGeometry :: 'a
  spOrder :: int

record 'a filters =
  ftControls :: "filterControl goMap option"
  ftSelections :: "'a interactionSelection list option"
  ftSpatial :: "'a spatialSelection list option"

definition orEmpty :: "'b list option \<Rightarrow> 'b list" where
  "orEmpty xs = (case xs of None \<Rightarrow> [] | Some ys \<Rightarrow> ys)"

definition noFilters :: "'a filters" where
  "noFilters = \<lparr>ftControls = None, ftSelections = None, ftSpatial = None\<rparr>"

definition filtersWithDefaults :: "'a filters \<Rightarrow> 'a filters" where
  "filtersWithDefaults f =
     f\<lparr>ftControls := (if ftControls f = None then Some [] else ftControls f),
       ftSelections := (if ftSelections f = None then Some [] else ftSelections f),
       ftSpatial := (if ftSpatial f = None then Some [] else ftSpatial f)\<rparr>"

text \<open>The copy is a value of its own; slices that were nil are empty in it.\<close>

definition cloneFilters :: "'a filters \<Rightarrow> 'a filters" where
  "cloneFilters f = filtersWithDefaults
     \<lparr>ftControls = Some (orEmpty (ftControls f)), ftSelections = Some (orEmpty (ftSelections f)),
      ftSpatial = Some (orEmpty (ftSpatial f))\<rparr>"

lemma cloneFilters_defaults: "cloneFilters f = filtersWithDefaults f"
  by (cases f) (auto simp: cloneFilters_def filtersWithDefaults_def orEmpty_def split: option.split)

lemma filtersWithDefaults_idem [simp]: "filtersWithDefaults (filtersWithDefaults f) = filtersWithDefaults f"
  by (simp add: filtersWithDefaults_def)

section \<open>Envelopes\<close>

record 'a datumRef =
  drDataset :: string
  drDataRevision :: int
  drIdentity :: "'a goMap option"
  drResetVersion :: "int option"
  drBlockID :: "string option"

record 'a selectionEntry =
  seDatum :: "'a datumRef"
  seLabel :: "string option"

record 'a inlineDataset =
  inID :: string
  inSpecRevision :: string
  inDataRevision :: int
  inGeneration :: int
  inContent :: 'a

record stateRevisions =
  srSpecRevision :: string
  srDataRevision :: int
  srGeneration :: int

text \<open>The three variants hold pointers, which may be nil; \<open>OtherState\<close> is a nil or foreign variant.\<close>

datatype 'a dataState =
    InlineState "(stateRevisions \<times> 'a inlineDataset list) option"
  | WindowedState "(stateRevisions \<times> 'a) option"
  | SpatialWindowedState "(stateRevisions \<times> 'a) option"
  | OtherState

record 'a envelope =
  enSchemaVersion :: int
  enVisualID :: string
  enRendererID :: string
  enSpecRevision :: string
  enSpec :: 'a
  enDataRevision :: int
  enDataState :: "'a dataState"
  enSelection :: "'a selectionEntry list"
  enSpatialSelection :: "'a option"
  enStatus :: 'a
  enDiagnostics :: 'a

text \<open>\<open>ComputeSpecRevision\<close> is an argument: it hashes the JSON of generated types.\<close>

definition ParseSpecRevision :: "string \<Rightarrow> goError + string" where
  "ParseSpecRevision value =
     (if \<not> hasPrefix ''sha256:'' value \<or> length (drop 7 value) \<noteq> 64
      then Inl (Errorf ''invalid visualization specification revision %q'' [Arg value])
      else if \<not> hexDecodes (drop 7 value) \<or> toLower (drop 7 value) \<noteq> drop 7 value
      then Inl (Errorf ''invalid visualization specification revision %q'' [Arg value])
      else Inr value)"

fun validateInlineDatasetRevisions :: "stateRevisions \<Rightarrow> nat \<Rightarrow> 'a inlineDataset list \<Rightarrow> goError + unit" where
  "validateInlineDatasetRevisions st index [] = Inr ()"
| "validateInlineDatasetRevisions st index (d # ds) = andThen (checks
     [failIf (inSpecRevision d \<noteq> srSpecRevision st) ''visualization inline dataset %d targets specification %q, want %q''
        [ArgN (int index), Arg (inSpecRevision d), Arg (srSpecRevision st)],
      failIf (inDataRevision d \<noteq> srDataRevision st) ''visualization inline dataset %d revision %d, want %d''
        [ArgN (int index), ArgN (inDataRevision d), ArgN (srDataRevision st)],
      failIf (inGeneration d \<noteq> srGeneration st) ''visualization inline dataset %d generation %d, want %d''
        [ArgN (int index), ArgN (inGeneration d), ArgN (srGeneration st)]])
     (\<lambda>_. validateInlineDatasetRevisions st (index + 1) ds)"

definition dataStateRevisions :: "'a dataState \<Rightarrow> goError + stateRevisions" where
  "dataStateRevisions state =
     (case state of
        InlineState (Some (st, datasets)) \<Rightarrow> andThen (validateInlineDatasetRevisions st 0 datasets) (\<lambda>_. Inr st)
      | WindowedState (Some (st, _)) \<Rightarrow> Inr st
      | SpatialWindowedState (Some (st, _)) \<Rightarrow> Inr st
      | OtherState \<Rightarrow> Inl (Errorf ''unsupported VisualizationDataState variant'' [])
      | _ \<Rightarrow> Inl (Errorf ''VisualizationDataState variant is nil'' []))"

fun validateSelectionRevisions :: "int \<Rightarrow> nat \<Rightarrow> 'a selectionEntry list \<Rightarrow> goError + unit" where
  "validateSelectionRevisions r index [] = Inr ()"
| "validateSelectionRevisions r index (s # ss) =
     andThen (failIf (drDataRevision (seDatum s) \<noteq> r) ''visualization selection %d targets data revision %d, want %d''
                [ArgN (int index), ArgN (drDataRevision (seDatum s)), ArgN r])
       (\<lambda>_. validateSelectionRevisions r (index + 1) ss)"

definition ValidateEnvelopeRevisions :: "('a \<Rightarrow> goError + string) \<Rightarrow> 'a envelope \<Rightarrow> goError + unit" where
  "ValidateEnvelopeRevisions computeRev en =
     (if enSchemaVersion en \<noteq> 3 then Inl (Errorf ''unsupported visualization schema version %d'' [ArgN (enSchemaVersion en)])
      else andThen (ParseSpecRevision (enSpecRevision en)) (\<lambda>declared.
      andThen (computeRev (enSpec en)) (\<lambda>computed.
      andThen (failIf (declared \<noteq> computed) ''visualization specification revision mismatch: declared %q, computed %q''
                 [Arg declared, Arg computed]) (\<lambda>_.
      andThen (dataStateRevisions (enDataState en)) (\<lambda>st.
      andThen (checks
        [failIf (srSpecRevision st \<noteq> enSpecRevision en) ''visualization data state targets specification %q, want %q''
           [Arg (srSpecRevision st), Arg (enSpecRevision en)],
         failIf (srDataRevision st \<noteq> enDataRevision en) ''visualization data state revision %d, want %d''
           [ArgN (srDataRevision st), ArgN (enDataRevision en)],
         failIf (srDataRevision st < 0 \<or> srGeneration st < 0)
           ''visualization data revision and generation must be non-negative'' []]) (\<lambda>_.
      validateSelectionRevisions (enDataRevision en) 0 (enSelection en)))))))"

definition cloneInlineState :: "stateRevisions \<times> 'a inlineDataset list \<Rightarrow> int \<Rightarrow> int \<Rightarrow> stateRevisions \<times> 'a inlineDataset list" where
  "cloneInlineState value dataRevision generation =
     ((fst value)\<lparr>srDataRevision := dataRevision, srGeneration := generation\<rparr>,
      map (\<lambda>d. d\<lparr>inDataRevision := dataRevision, inGeneration := generation\<rparr>) (snd value))"

definition WithStreamRevision :: "('a envelope \<Rightarrow> goError + unit) \<Rightarrow> 'a envelope \<Rightarrow> int \<Rightarrow> int \<Rightarrow> goError + 'a envelope" where
  "WithStreamRevision validate en dataRevision generation =
     (if dataRevision < 0 \<or> generation < 0
      then Inl (Errorf ''visualization data revision and generation must be non-negative'' [])
      else andThen
        (case enDataState en of
           InlineState None \<Rightarrow> Inl (Errorf ''visualization inline data state is nil'' [])
         | InlineState (Some value) \<Rightarrow> Inr (InlineState (Some (cloneInlineState value dataRevision generation)))
         | WindowedState None \<Rightarrow> Inl (Errorf ''visualization windowed data state is nil'' [])
         | WindowedState (Some (st, w)) \<Rightarrow> Inr (WindowedState (Some (st\<lparr>srDataRevision := dataRevision, srGeneration := generation\<rparr>, w)))
         | SpatialWindowedState None \<Rightarrow> Inl (Errorf ''visualization spatial windowed data state is nil'' [])
         | SpatialWindowedState (Some (st, w)) \<Rightarrow>
             Inr (SpatialWindowedState (Some (st\<lparr>srDataRevision := dataRevision, srGeneration := generation\<rparr>, w)))
         | OtherState \<Rightarrow> Inl (Errorf ''unsupported visualization data state variant'' [])) (\<lambda>state.
        let revised = en\<lparr>enDataRevision := dataRevision, enDataState := state,
              enSelection := map (\<lambda>s. s\<lparr>seDatum := (seDatum s)\<lparr>drDataRevision := dataRevision\<rparr>\<rparr>) (enSelection en)\<rparr>
        in andThen (validate revised) (\<lambda>_. Inr revised)))"

section \<open>Events\<close>

datatype refreshEventType = EvStart | EvFilterOptions | EvVisual | EvVisualMetadata | EvTargetError
  | EvCacheOutcome | EvProgress | EvComplete

text \<open>An error of a query has a text and says whether setup is required; the others are made here.\<close>

datatype streamError =
    QueryError string bool
  | CoordinatorClosed
  | StalePreparation
  | InvalidSequence string
  | GenerationBehind nat nat
  | GenerationOverflow
  | InvalidEnvelope string
  | EnvelopeFailed string goError

fun setupRequired :: "streamError \<Rightarrow> bool" where
  "setupRequired (QueryError _ setup) = setup"
| "setupRequired _ = False"

text \<open>The value of an event is any; only envelopes matter.\<close>

datatype 'a eventValue = EnvelopeValue "'a envelope" | OtherValue "'a option"

record 'a refreshEvent =
  evType :: refreshEventType
  evRefreshID :: string
  evGeneration :: nat
  evDataRevision :: int
  evCommand :: string
  evFilters :: "'a filters"
  evTargets :: "string list"
  evTarget :: string
  evValue :: "'a eventValue"
  evErr :: "streamError option"
  evQueries :: int
  evDuration :: int
  evStageTimingsMs :: "goFloat goMap"
  evCacheOutcome :: string
  evProgressPercent :: "goFloat option"

definition plainEvent :: "refreshEventType \<Rightarrow> 'a refreshEvent" where
  "plainEvent ty = \<lparr>evType = ty, evRefreshID = [], evGeneration = 0, evDataRevision = 0, evCommand = [], evFilters = noFilters,
     evTargets = [], evTarget = [], evValue = OtherValue None, evErr = None, evQueries = 0, evDuration = 0,
     evStageTimingsMs = [], evCacheOutcome = [], evProgressPercent = None\<rparr>"

record 'a refresh =
  rfID :: string
  rfGeneration :: nat
  rfCommand :: string
  rfFilters :: "'a filters"

record 'a refreshPreparation =
  rpFilters :: "'a filters"
  rpCommand :: string
  rpTargets :: "string list"
  rpSequenceKey :: string
  rpSequence :: int
  rpSequenceEpoch :: int
  rpGeneration :: nat

record refreshSummary =
  rsRefreshID :: string
  rsGeneration :: nat
  rsCommand :: string
  rsPlannedTargets :: int
  rsTargetSuccesses :: int
  rsTargetErrors :: int
  rsQueryCount :: int
  rsCancellationCount :: int
  rsCancellationReason :: string
  rsCacheOutcomes :: "int goMap"
  rsStageTimingsMs :: "goFloat goMap"
  rsOutcome :: string

end
