(* ===== verification/Stream_Coordinator.thy ===== *)
theory Stream_Coordinator
  imports Stream_Types
begin

text \<open>
  The coordinator of one page stream (\<^verbatim>\<open>internal/dashboard/stream/coordinator.go\<close>): its state and its
  locked sections. A work context is a number; it is done when it is among the cancelled ones or the
  context of the coordinator is done. A locked section that calls \<open>publish\<close> returns the event. The
  clock is an argument, in nanoseconds. Counters of events and the durations are unbounded, the
  generation wraps at 64 bits, and so does a data revision.
\<close>

section \<open>State\<close>

record preparationSequence =
  psEpoch :: int
  psSequence :: int

record 'a activeRefresh =
  arRefresh :: "'a refresh"
  arStartedAt :: int
  arQueryCount :: int
  arTargetSuccesses :: int
  arTargetErrors :: int
  arPlannedTargets :: int
  arFirstTargetErr :: "streamError option"
  arSetupRequiredErr :: "streamError option"
  arRefreshError :: "streamError option"
  arCacheOutcomes :: "int goMap"
  arTargetWork :: int
  arStageTimingsMs :: "goFloat goMap"
  arProgressPercent :: "goFloat option"

record 'a coordinator =
  cdDone :: bool
  cdCanceled :: "nat list"
  cdContexts :: nat
  cdWorkCancel :: "nat option"
  cdFilters :: "'a filters"
  cdGeneration :: nat
  cdRevisions :: "int goMap"
  cdSequences :: "preparationSequence goMap"
  cdClosed :: bool
  cdActive :: "'a activeRefresh option"

definition NewCoordinator :: "bool \<Rightarrow> 'a coordinator" where
  "NewCoordinator parentDone = \<lparr>cdDone = parentDone, cdCanceled = [], cdContexts = 0, cdWorkCancel = None,
     cdFilters = cloneFilters (filtersWithDefaults noFilters), cdGeneration = 0, cdRevisions = [], cdSequences = [],
     cdClosed = False, cdActive = None\<rparr>"

definition ctxErr :: "nat \<Rightarrow> 'a coordinator \<Rightarrow> bool" where
  "ctxErr ctx c \<longleftrightarrow> cdDone c \<or> ctx \<in> set (cdCanceled c)"

definition cancelWork :: "'a coordinator \<Rightarrow> 'a coordinator" where
  "cancelWork c = (case cdWorkCancel c of None \<Rightarrow> c | Some ctx \<Rightarrow> c\<lparr>cdCanceled := ctx # cdCanceled c\<rparr>)"

section \<open>Summaries\<close>

definition orZero :: "int option \<Rightarrow> int" where
  "orZero x = (case x of None \<Rightarrow> 0 | Some n \<Rightarrow> n)"

definition summaryLocked :: "floatLib \<Rightarrow> int \<Rightarrow> 'a activeRefresh \<Rightarrow> string \<Rightarrow> int \<Rightarrow> string \<Rightarrow> refreshSummary" where
  "summaryLocked fl now a outcome0 cancellations reason =
     (let outcome =
        (if outcome0 = ''complete'' then
           (if arRefreshError a \<noteq> None then ''error''
            else if arTargetErrors a > 0 \<and> arTargetSuccesses a > 0 then ''partial''
            else if arTargetErrors a > 0 then ''error''
            else outcome0)
         else outcome0)
      in \<lparr>rsRefreshID = rfID (arRefresh a), rsGeneration = rfGeneration (arRefresh a), rsCommand = rfCommand (arRefresh a),
          rsPlannedTargets = arPlannedTargets a, rsTargetSuccesses = arTargetSuccesses a, rsTargetErrors = arTargetErrors a,
          rsQueryCount = arQueryCount a, rsCancellationCount = cancellations, rsCancellationReason = reason,
          rsCacheOutcomes = arCacheOutcomes a,
          rsStageTimingsMs = put ''targetWorkSum'' (flMillis fl (arTargetWork a))
            (put ''endToEnd'' (flMillis fl (now - arStartedAt a)) (arStageTimingsMs a)),
          rsOutcome = outcome\<rparr>)"

section \<open>Beginning a refresh\<close>

definition refuse :: "streamError \<Rightarrow> 'a coordinator \<Rightarrow> (streamError + 'b) \<times> 'a coordinator" where
  "refuse e c = (Inl e, c)"

definition maxUint64 :: nat where
  "maxUint64 = 18446744073709551615"

record 'a begun =
  bgRefresh :: "'a refresh"
  bgPreparation :: "'a refreshPreparation"
  bgContext :: nat
  bgSummary :: "refreshSummary option"

text \<open>The sequence guard: an error, or the sequence numbers to keep.\<close>

definition sequenceGuard :: "'a refreshPreparation \<Rightarrow> preparationSequence goMap \<Rightarrow> streamError + preparationSequence goMap" where
  "sequenceGuard p seqs =
     (if rpSequenceKey p = [] then Inr seqs
      else if rpSequence p \<le> 0 \<or> rpSequenceEpoch p < 0 then Inl (InvalidSequence (rpSequenceKey p))
      else if (case get seqs (rpSequenceKey p) of
                 None \<Rightarrow> False
               | Some current \<Rightarrow> rpSequenceEpoch p < psEpoch current
                   \<or> rpSequenceEpoch p = psEpoch current \<and> rpSequence p \<le> psSequence current)
      then Inl StalePreparation
      else Inr (put (rpSequenceKey p) \<lparr>psEpoch = rpSequenceEpoch p, psSequence = rpSequence p\<rparr> seqs))"

definition preparePlain :: "'a filters \<Rightarrow> streamError + 'a refreshPreparation" where
  "preparePlain f = Inr \<lparr>rpFilters = f, rpCommand = [], rpTargets = [], rpSequenceKey = [], rpSequence = 0,
     rpSequenceEpoch = 0, rpGeneration = 0\<rparr>"

text \<open>The locked section of \<open>BeginPrepared\<close>; \<open>number\<close> is the value of \<open>refreshSequence\<close> after its increment.\<close>

definition beginLocked :: "floatLib \<Rightarrow> int \<Rightarrow> nat \<Rightarrow> ('a filters \<Rightarrow> streamError + 'a refreshPreparation) option
    \<Rightarrow> 'a coordinator \<Rightarrow> (streamError + 'a begun) \<times> 'a coordinator" where
  "beginLocked fl now number prepare c =
     (if cdClosed c then refuse CoordinatorClosed c
      else case (case prepare of None \<Rightarrow> preparePlain (cloneFilters (cdFilters c)) | Some f \<Rightarrow> f (cloneFilters (cdFilters c))) of
        Inl e \<Rightarrow> refuse e c
      | Inr p0 \<Rightarrow>
        (case sequenceGuard p0 (cdSequences c) of
          Inl e \<Rightarrow> refuse e c
        | Inr seqs \<Rightarrow>
          (let c1 = c\<lparr>cdSequences := seqs\<rparr>;
               filters = cloneFilters (filtersWithDefaults (rpFilters p0));
               p = p0\<lparr>rpFilters := cloneFilters filters\<rparr> in
           if rpGeneration p > 0 \<and> rpGeneration p \<le> cdGeneration c1
           then refuse (GenerationBehind (rpGeneration p) (cdGeneration c1)) c1
           else
             (let summary = (if cdWorkCancel c1 = None then None
                             else map_option (\<lambda>a. summaryLocked fl now a ''canceled'' 1 ''superseded'') (cdActive c1));
                  ctx = cdContexts c1;
                  generation = (if rpGeneration p > 0 then rpGeneration p else (cdGeneration c1 + 1) mod (maxUint64 + 1));
                  refresh = \<lparr>rfID = ''refresh-'' @ showNat number, rfGeneration = generation, rfCommand = rpCommand p,
                             rfFilters = cloneFilters filters\<rparr>;
                  active = \<lparr>arRefresh = refresh, arStartedAt = now, arQueryCount = 0, arTargetSuccesses = 0, arTargetErrors = 0,
                            arPlannedTargets = int (length (rpTargets p)), arFirstTargetErr = None, arSetupRequiredErr = None,
                            arRefreshError = None, arCacheOutcomes = [], arTargetWork = 0, arStageTimingsMs = [],
                            arProgressPercent = NormalizeProgressPercent None True\<rparr>
              in (Inr \<lparr>bgRefresh = refresh, bgPreparation = p, bgContext = ctx, bgSummary = summary\<rparr>,
                  (cancelWork c1)\<lparr>cdContexts := ctx + 1, cdWorkCancel := Some ctx, cdFilters := filters,
                                  cdGeneration := generation, cdActive := Some active\<rparr>)))))"

section \<open>Publishing\<close>

fun carriesVisualizationData :: "refreshEventType \<Rightarrow> bool" where
  "carriesVisualizationData EvVisual = True"
| "carriesVisualizationData EvVisualMetadata = True"
| "carriesVisualizationData _ = False"

definition progressRegresses :: "goFloat option \<Rightarrow> goFloat option \<Rightarrow> bool" where
  "progressRegresses current new =
     (case current of None \<Rightarrow> False
      | Some x \<Rightarrow> (case new of None \<Rightarrow> True | Some y \<Rightarrow> lessFloat y x))"

abbreviation targetError :: "streamError \<Rightarrow> 'a refreshEvent \<Rightarrow> 'a refreshEvent" where
  "targetError e ev \<equiv> ev\<lparr>evType := EvTargetError, evErr := Some e\<rparr>"

text \<open>Stamping an envelope with the next data revision of its target.\<close>

definition reviseEvent :: "('a envelope \<Rightarrow> goError + unit) \<Rightarrow> nat \<Rightarrow> int goMap \<Rightarrow> 'a refreshEvent \<Rightarrow> 'a refreshEvent \<times> int goMap" where
  "reviseEvent validate generation revisions ev =
     (if evTarget ev \<noteq> [] \<and> carriesVisualizationData (evType ev) then
        (if int generation > maxInt64 then (targetError GenerationOverflow ev, revisions)
         else case evValue ev of
           OtherValue _ \<Rightarrow> (targetError (InvalidEnvelope (evTarget ev)) ev, revisions)
         | EnvelopeValue en \<Rightarrow>
             (let nextRevision = wrap64 (orZero (get revisions (evTarget ev)) + 1) in
              case WithStreamRevision validate en nextRevision (int generation) of
                Inl e \<Rightarrow> (targetError (EnvelopeFailed (evTarget ev) e) ev, revisions)
              | Inr revised \<Rightarrow>
                  (ev\<lparr>evDataRevision := nextRevision, evValue := EnvelopeValue revised\<rparr>,
                   put (evTarget ev) nextRevision revisions)))
      else (ev, revisions))"

text \<open>The progress of an event: \<open>None\<close> when it would run backwards, else the event and the new progress.\<close>

definition progressEvent :: "'a refreshEvent \<Rightarrow> goFloat option \<Rightarrow> ('a refreshEvent \<times> goFloat option) option" where
  "progressEvent ev current =
     (case evType ev of
        EvStart \<Rightarrow> Some (ev\<lparr>evProgressPercent := current\<rparr>, current)
      | EvProgress \<Rightarrow>
          (let new = NormalizeProgressPercent (evProgressPercent ev) True in
           if progressRegresses current new then None else Some (ev\<lparr>evProgressPercent := new\<rparr>, new))
      | EvComplete \<Rightarrow>
          (let new = NormalizeProgressPercent None False in Some (ev\<lparr>evProgressPercent := new\<rparr>, new))
      | _ \<Rightarrow> Some (ev, current))"

definition addTimings :: "floatLib \<Rightarrow> goFloat goMap \<Rightarrow> goFloat goMap \<Rightarrow> goFloat goMap" where
  "addTimings fl new old = foldl (\<lambda>m (stage, d). put stage (flAdd fl (case get m stage of None \<Rightarrow> Finite 0 | Some x \<Rightarrow> x) d) m) old new"

text \<open>What an event counts for.\<close>

definition countEvent :: "'a refreshEvent \<Rightarrow> 'a activeRefresh \<Rightarrow> 'a activeRefresh" where
  "countEvent ev a =
     (case evType ev of
        EvFilterOptions \<Rightarrow> a\<lparr>arTargetSuccesses := arTargetSuccesses a + 1\<rparr>
      | EvVisual \<Rightarrow> a\<lparr>arTargetSuccesses := arTargetSuccesses a + 1\<rparr>
      | EvTargetError \<Rightarrow>
          (if evTarget ev = ''refresh'' then a\<lparr>arRefreshError := evErr ev\<rparr>
           else a\<lparr>arTargetErrors := arTargetErrors a + 1,
                  arFirstTargetErr := (if arFirstTargetErr a = None then evErr ev else arFirstTargetErr a),
                  arSetupRequiredErr := (if arSetupRequiredErr a = None \<and> (\<exists>e \<in> set_option (evErr ev). setupRequired e)
                                         then evErr ev else arSetupRequiredErr a)\<rparr>)
      | EvCacheOutcome \<Rightarrow>
          (if evCacheOutcome ev = [] then a
           else a\<lparr>arCacheOutcomes := put (evCacheOutcome ev) (orZero (get (arCacheOutcomes a) (evCacheOutcome ev)) + 1) (arCacheOutcomes a)\<rparr>)
      | _ \<Rightarrow> a)"

definition measureEvent :: "floatLib \<Rightarrow> 'a refreshEvent \<Rightarrow> 'a activeRefresh \<Rightarrow> 'a activeRefresh" where
  "measureEvent fl ev a =
     a\<lparr>arTargetWork := (if evType ev = EvProgress then arTargetWork a + evDuration ev else arTargetWork a),
       arStageTimingsMs := addTimings fl (evStageTimingsMs ev) (arStageTimingsMs a)\<rparr>"

record 'a streamLib =
  slFloats :: floatLib
  slValidate :: "'a envelope \<Rightarrow> goError + unit"

definition isActive :: "'a refresh \<Rightarrow> 'a coordinator \<Rightarrow> bool" where
  "isActive r c \<longleftrightarrow> (\<exists>a \<in> set_option (cdActive c). rfGeneration (arRefresh a) = rfGeneration r)"

definition namedEvent :: "'a refresh \<Rightarrow> 'a refreshEvent \<Rightarrow> 'a refreshEvent" where
  "namedEvent r ev = (if evCommand ev = [] then ev\<lparr>evCommand := rfCommand r\<rparr> else ev)"

definition countQueries :: "'a refreshEvent \<Rightarrow> 'a activeRefresh \<Rightarrow> 'a activeRefresh" where
  "countQueries ev a = (if evQueries ev > 0 then a\<lparr>arQueryCount := wrap64 (arQueryCount a + evQueries ev)\<rparr> else a)"

text \<open>\<open>None\<close> when nothing is published.\<close>

definition emitCurrent :: "'a streamLib \<Rightarrow> 'a refresh \<Rightarrow> 'a refreshEvent \<Rightarrow> 'a coordinator \<Rightarrow> 'a refreshEvent option \<times> 'a coordinator" where
  "emitCurrent lib r event c =
     (if cdClosed c \<or> cdGeneration c \<noteq> rfGeneration r \<or> cdDone c then (None, c)
      else case reviseEvent (slValidate lib) (rfGeneration r) (cdRevisions c)
                  (event\<lparr>evRefreshID := rfID r, evGeneration := rfGeneration r\<rparr>) of
        (ev1, revisions) \<Rightarrow>
          (let ev2 = namedEvent r ev1; c1 = c\<lparr>cdRevisions := revisions\<rparr> in
           case cdActive c of
             None \<Rightarrow> (Some ev2, c1)
           | Some a \<Rightarrow>
               if rfGeneration (arRefresh a) \<noteq> rfGeneration r then (Some ev2, c1)
               else case progressEvent ev2 (arProgressPercent a) of
                   None \<Rightarrow> (None, c1\<lparr>cdActive := Some (countQueries ev2 a)\<rparr>)
                 | Some (ev3, progress) \<Rightarrow>
                     (Some ev3, c1\<lparr>cdActive := Some (countEvent ev3
                        (measureEvent (slFloats lib) ev3 ((countQueries ev2 a)\<lparr>arProgressPercent := progress\<rparr>)))\<rparr>)))"

section \<open>Ending\<close>

definition finish :: "floatLib \<Rightarrow> int \<Rightarrow> 'a refresh \<Rightarrow> string \<Rightarrow> int \<Rightarrow> 'a coordinator \<Rightarrow> refreshSummary option \<times> 'a coordinator" where
  "finish fl now r outcome cancellations c =
     (case cdActive c of
        None \<Rightarrow> (None, c)
      | Some a \<Rightarrow>
          if rfGeneration (arRefresh a) \<noteq> rfGeneration r then (None, c)
          else (Some (summaryLocked fl now a outcome cancellations []), c\<lparr>cdActive := None\<rparr>))"

definition refreshError :: "'a refresh \<Rightarrow> 'a coordinator \<Rightarrow> streamError option" where
  "refreshError r c =
     (case cdActive c of
        None \<Rightarrow> None
      | Some a \<Rightarrow>
          if rfGeneration (arRefresh a) \<noteq> rfGeneration r then None
          else if arRefreshError a \<noteq> None then arRefreshError a
          else if arSetupRequiredErr a \<noteq> None then arSetupRequiredErr a
          else if arTargetErrors a > 0 \<and> arTargetSuccesses a = 0 then arFirstTargetErr a
          else None)"

definition CloseWithReason :: "floatLib \<Rightarrow> int \<Rightarrow> string \<Rightarrow> 'a coordinator \<Rightarrow> refreshSummary option \<times> 'a coordinator" where
  "CloseWithReason fl now reason c =
     (if cdClosed c then (None, c)
      else
        (let c1 = cancelWork (c\<lparr>cdClosed := True\<rparr>) in
         (map_option (\<lambda>a. summaryLocked fl now a ''canceled'' 1 reason) (cdActive c1),
          c1\<lparr>cdActive := None, cdDone := True\<rparr>)))"

definition debounceRefreshCommand :: "string \<Rightarrow> bool" where
  "debounceRefreshCommand command \<longleftrightarrow> command = ''select'' \<or> command = ''clear_selection''"

text \<open>\<open>Begin\<close> is \<open>BeginPrepared\<close> with a preparation that only mutates the filters.\<close>

definition beginPrepare :: "('a filters \<Rightarrow> streamError + 'a filters) option \<Rightarrow> 'a filters \<Rightarrow> streamError + 'a refreshPreparation" where
  "beginPrepare mutate current =
     (case mutate of
        None \<Rightarrow> preparePlain current
      | Some f \<Rightarrow> (case f current of Inl e \<Rightarrow> Inl e | Inr filters \<Rightarrow> preparePlain filters))"

end
