(* ===== verification/Stream_System.thy ===== *)
theory Stream_System
  imports Stream_Coordinator
begin

text \<open>
  The coordinator with the goroutines that use it. Each refresh is a run: first in \<open>BeginPrepared\<close>
  after its lock is released, then in \<open>run\<close>. A step is one locked section or one check between two
  of them, and any number of runs interleave with new refreshes, closing, and the end of the parent
  context. The log holds the arguments of \<open>publish\<close>, which is called under the lock; the summaries are in
  the order they are computed, each handed to the observer after the lock is released.
\<close>

section \<open>Runs\<close>

datatype runPhase = AtStart | AtDebounce | AtWork | AtCheck | AtError | AtComplete "streamError option" | AtFinish | Ended

record 'a run =
  rnRefresh :: "'a refresh"
  rnPreparation :: "'a refreshPreparation"
  rnContext :: nat
  rnHasWork :: bool
  rnPhase :: runPhase

record 'a streamSystem =
  syCoordinator :: "'a coordinator"
  syRuns :: "'a run list"
  syLog :: "'a refreshEvent list"
  sySummaries :: "refreshSummary list"
  sySequence :: nat

definition setPhase :: "nat \<Rightarrow> runPhase \<Rightarrow> 'a streamSystem \<Rightarrow> 'a streamSystem" where
  "setPhase i ph s = s\<lparr>syRuns := (syRuns s)[i := (syRuns s ! i)\<lparr>rnPhase := ph\<rparr>]\<rparr>"

definition startPhase :: "'a run \<Rightarrow> runPhase" where
  "startPhase r =
     (if \<not> rnHasWork r then AtCheck
      else if debounceRefreshCommand (rfCommand (rnRefresh r)) then AtDebounce
      else AtWork)"

definition startEvent :: "'a run \<Rightarrow> 'a refreshEvent" where
  "startEvent r = (plainEvent EvStart)\<lparr>evCommand := rpCommand (rnPreparation r), evFilters := cloneFilters (rpFilters (rnPreparation r)),
     evTargets := rpTargets (rnPreparation r)\<rparr>"

definition completeEvent :: "streamError option \<Rightarrow> 'a refreshEvent" where
  "completeEvent err = (plainEvent EvComplete)\<lparr>evErr := err\<rparr>"

definition emitIn :: "'a streamLib \<Rightarrow> 'a refresh \<Rightarrow> 'a refreshEvent \<Rightarrow> 'a streamSystem \<Rightarrow> bool \<times> 'a streamSystem" where
  "emitIn lib r ev s =
     (case emitCurrent lib r ev (syCoordinator s) of
        (None, c) \<Rightarrow> (False, s\<lparr>syCoordinator := c\<rparr>)
      | (Some ev', c) \<Rightarrow> (True, s\<lparr>syCoordinator := c, syLog := syLog s @ [ev']\<rparr>))"

definition addSummary :: "refreshSummary option \<Rightarrow> 'a streamSystem \<Rightarrow> 'a streamSystem" where
  "addSummary x s = (case x of None \<Rightarrow> s | Some y \<Rightarrow> s\<lparr>sySummaries := sySummaries s @ [y]\<rparr>)"

definition beginIn :: "floatLib \<Rightarrow> int \<Rightarrow> ('a filters \<Rightarrow> streamError + 'a refreshPreparation) option \<Rightarrow> bool
    \<Rightarrow> 'a streamSystem \<Rightarrow> 'a streamSystem" where
  "beginIn fl now prepare hasWork s =
     (case beginLocked fl now (sySequence s + 1) prepare (syCoordinator s) of
        (Inl e, c) \<Rightarrow> s\<lparr>syCoordinator := c\<rparr>
      | (Inr b, c) \<Rightarrow> addSummary (bgSummary b)
          (s\<lparr>syCoordinator := c, sySequence := sySequence s + 1,
             syRuns := syRuns s @ [\<lparr>rnRefresh = bgRefresh b, rnPreparation = bgPreparation b, rnContext = bgContext b,
                                    rnHasWork = hasWork, rnPhase = AtStart\<rparr>]\<rparr>))"

section \<open>Steps\<close>

text \<open>
  The work of a refresh publishes any events but a start or a completion, and target errors with an
  error, as \<open>TargetWork\<close> does. Its publisher looks at the context before it
  takes the lock, so an event may be emitted after its context has ended.
\<close>

inductive streamStep :: "'a streamLib \<Rightarrow> 'a streamSystem \<Rightarrow> 'a streamSystem \<Rightarrow> bool" for lib where
  stBegin: "streamStep lib s (beginIn (slFloats lib) now prepare hasWork s)"
| stStart: "i < length (syRuns s) \<Longrightarrow> rnPhase (syRuns s ! i) = AtStart \<Longrightarrow>
    streamStep lib s (setPhase i (startPhase (syRuns s ! i)) (snd (emitIn lib (rnRefresh (syRuns s ! i)) (startEvent (syRuns s ! i)) s)))"
| stTimer: "i < length (syRuns s) \<Longrightarrow> rnPhase (syRuns s ! i) = AtDebounce \<Longrightarrow> streamStep lib s (setPhase i AtWork s)"
| stDebounced: "i < length (syRuns s) \<Longrightarrow> rnPhase (syRuns s ! i) = AtDebounce \<Longrightarrow>
    ctxErr (rnContext (syRuns s ! i)) (syCoordinator s) \<Longrightarrow> streamStep lib s (setPhase i Ended s)"
| stPublish: "i < length (syRuns s) \<Longrightarrow> rnPhase (syRuns s ! i) = AtWork \<Longrightarrow> evType ev \<noteq> EvStart \<Longrightarrow> evType ev \<noteq> EvComplete \<Longrightarrow>
    evType ev \<noteq> EvTargetError \<or> evErr ev \<noteq> None \<Longrightarrow>
    streamStep lib s (snd (emitIn lib (rnRefresh (syRuns s ! i)) ev s))"
| stWorked: "i < length (syRuns s) \<Longrightarrow> rnPhase (syRuns s ! i) = AtWork \<Longrightarrow> streamStep lib s (setPhase i AtCheck s)"
| stCheck: "i < length (syRuns s) \<Longrightarrow> rnPhase (syRuns s ! i) = AtCheck \<Longrightarrow>
    streamStep lib s (setPhase i (if ctxErr (rnContext (syRuns s ! i)) (syCoordinator s) then Ended else AtError) s)"
| stError: "i < length (syRuns s) \<Longrightarrow> rnPhase (syRuns s ! i) = AtError \<Longrightarrow>
    streamStep lib s (setPhase i (AtComplete (refreshError (rnRefresh (syRuns s ! i)) (syCoordinator s))) s)"
| stComplete: "i < length (syRuns s) \<Longrightarrow> rnPhase (syRuns s ! i) = AtComplete err \<Longrightarrow>
    emitIn lib (rnRefresh (syRuns s ! i)) (completeEvent err) s = (ok, s') \<Longrightarrow>
    streamStep lib s (setPhase i (if ok then AtFinish else Ended) s')"
| stFinish: "i < length (syRuns s) \<Longrightarrow> rnPhase (syRuns s ! i) = AtFinish \<Longrightarrow>
    finish (slFloats lib) now (rnRefresh (syRuns s ! i)) ''complete'' 0 (syCoordinator s) = (x, c) \<Longrightarrow>
    streamStep lib s (setPhase i Ended (addSummary x (s\<lparr>syCoordinator := c\<rparr>)))"
| stClose: "CloseWithReason (slFloats lib) now reason (syCoordinator s) = (x, c) \<Longrightarrow>
    streamStep lib s (addSummary x (s\<lparr>syCoordinator := c\<rparr>))"
| stParentDone: "streamStep lib s (s\<lparr>syCoordinator := (syCoordinator s)\<lparr>cdDone := True\<rparr>\<rparr>)"
| stElsewhere: "streamStep lib s (s\<lparr>sySequence := sySequence s + 1\<rparr>)"

inductive streamReach :: "'a streamLib \<Rightarrow> 'a streamSystem \<Rightarrow> bool" for lib where
  srInit: "streamReach lib \<lparr>syCoordinator = NewCoordinator parentDone, syRuns = [], syLog = [], sySummaries = [], sySequence = n\<rparr>"
| srStep: "streamReach lib s \<Longrightarrow> streamStep lib s s' \<Longrightarrow> streamReach lib s'"

inductive_cases streamStepE: "streamStep lib s s'"

end
