(* ===== verification/Stream_Invariants.thy ===== *)
theory Stream_Invariants
  imports Stream_System
begin

text \<open>
  Invariants of a page stream: which refresh is the current one and that every other has its summary
  (\<open>base_ok\<close>), what the log holds of each refresh (\<open>log_ok\<close>), the data revisions of a target
  (\<open>revision_ok\<close>), the progress (\<open>progress_ok\<close>), and the counts (\<open>count_ok\<close>). They hold as long as the
  generation has not reached its largest value.
\<close>

section \<open>The current refresh\<close>

definition gens :: "'a streamSystem \<Rightarrow> nat list" where
  "gens s = map (\<lambda>r. rfGeneration (rnRefresh r)) (syRuns s)"

definition noWrap :: "'a streamSystem \<Rightarrow> bool" where
  "noWrap s \<longleftrightarrow> (\<forall>g \<in> set (gens s). g < maxUint64)"

definition base_ok :: "'a streamSystem \<Rightarrow> bool" where
  "base_ok s \<longleftrightarrow>
     sorted_wrt (<) (gens s) \<and> (\<forall>g \<in> set (gens s). 0 < g)
     \<and> cdGeneration (syCoordinator s) = (if syRuns s = [] then 0 else rfGeneration (rnRefresh (last (syRuns s))))
     \<and> (cdWorkCancel (syCoordinator s) = None \<longleftrightarrow> syRuns s = [])
     \<and> (\<forall>a. cdActive (syCoordinator s) = Some a \<longrightarrow> syRuns s \<noteq> [] \<and> arRefresh a = rnRefresh (last (syRuns s)))
     \<and> (syRuns s \<noteq> [] \<longrightarrow> \<not> cdClosed (syCoordinator s) \<longrightarrow> rnPhase (last (syRuns s)) \<noteq> Ended \<longrightarrow> cdActive (syCoordinator s) \<noteq> None)
     \<and> map rsGeneration (sySummaries s) = (if cdActive (syCoordinator s) = None then gens s else butlast (gens s))
     \<and> (cdClosed (syCoordinator s) \<longrightarrow> cdActive (syCoordinator s) = None)"

lemma last_update: "i < length xs \<Longrightarrow> last (xs[i := x]) = (if Suc i = length xs then x else last xs)"
  by (cases "xs = []") (auto simp: last_list_update)

lemma setPhase_simps [simp]:
  "syCoordinator (setPhase i ph s) = syCoordinator s" "syLog (setPhase i ph s) = syLog s" "sySummaries (setPhase i ph s) = sySummaries s"
  "length (syRuns (setPhase i ph s)) = length (syRuns s)" "syRuns (setPhase i ph s) = [] \<longleftrightarrow> syRuns s = []"
  by (simp_all add: setPhase_def)

lemma setPhase_nth [simp]:
  "j < length (syRuns s) \<Longrightarrow> syRuns (setPhase i ph s) ! j = (if j = i then (syRuns s ! i)\<lparr>rnPhase := ph\<rparr> else syRuns s ! j)"
  by (cases "i < length (syRuns s)") (auto simp: setPhase_def nth_list_update)

lemma gens_setPhase [simp]: "gens (setPhase i ph s) = gens s"
  unfolding gens_def by (rule nth_equalityI) auto

lemma last_setPhase:
  assumes "i < length (syRuns s)"
  shows "rnRefresh (last (syRuns (setPhase i ph s))) = rnRefresh (last (syRuns s))"
    and "rnPhase (last (syRuns (setPhase i ph s))) = (if Suc i = length (syRuns s) then ph else rnPhase (last (syRuns s)))"
proof -
  have ne: "syRuns s \<noteq> []" "syRuns (setPhase i ph s) \<noteq> []" using assms by auto
  have "last (syRuns (setPhase i ph s)) = syRuns (setPhase i ph s) ! (length (syRuns s) - 1)"
    "last (syRuns s) = syRuns s ! (length (syRuns s) - 1)"
    using last_conv_nth ne by (metis setPhase_simps(4))+
  moreover have "length (syRuns s) - 1 < length (syRuns s)" using assms by simp
  ultimately show "rnRefresh (last (syRuns (setPhase i ph s))) = rnRefresh (last (syRuns s))"
    "rnPhase (last (syRuns (setPhase i ph s))) = (if Suc i = length (syRuns s) then ph else rnPhase (last (syRuns s)))"
    using assms by auto
qed

lemma base_transfer:
  assumes ok: "base_ok s" and runs: "syRuns s' = [] \<longleftrightarrow> syRuns s = []" "gens s' = gens s"
    and at_end: "syRuns s \<noteq> [] \<Longrightarrow> rnRefresh (last (syRuns s')) = rnRefresh (last (syRuns s))"
      "syRuns s \<noteq> [] \<Longrightarrow> rnPhase (last (syRuns s')) \<noteq> Ended \<Longrightarrow> rnPhase (last (syRuns s)) \<noteq> Ended"
    and sums: "sySummaries s' = sySummaries s"
    and co: "cdGeneration (syCoordinator s') = cdGeneration (syCoordinator s)" "cdClosed (syCoordinator s') = cdClosed (syCoordinator s)"
      "cdWorkCancel (syCoordinator s') = cdWorkCancel (syCoordinator s)"
      "map_option arRefresh (cdActive (syCoordinator s')) = map_option arRefresh (cdActive (syCoordinator s))"
  shows "base_ok s'"
proof -
  have a: "cdActive (syCoordinator s') = None \<longleftrightarrow> cdActive (syCoordinator s) = None"
    using co(4) by (metis map_option_is_None)
  have b: "\<exists>a. cdActive (syCoordinator s) = Some a \<and> arRefresh a = arRefresh a'" if "cdActive (syCoordinator s') = Some a'" for a'
    using co(4) that by (cases "cdActive (syCoordinator s)") auto
  show ?thesis
    unfolding base_ok_def runs sums co(1-3) a
  proof (intro conjI allI impI)
    fix a' assume "cdActive (syCoordinator s') = Some a'"
    then obtain a where "cdActive (syCoordinator s) = Some a" "arRefresh a = arRefresh a'" using b by blast
    then show "syRuns s \<noteq> []" "arRefresh a' = rnRefresh (last (syRuns s'))" using ok at_end(1) unfolding base_ok_def by metis+
  qed (use ok at_end in \<open>auto simp: base_ok_def\<close>)
qed

lemma base_setPhase:
  assumes "base_ok s" "i < length (syRuns s)" "rnPhase (syRuns s ! i) \<noteq> Ended"
  shows "base_ok (setPhase i ph s)"
proof (rule base_transfer [OF assms(1)])
  show "rnPhase (last (syRuns s)) \<noteq> Ended" if "rnPhase (last (syRuns (setPhase i ph s))) \<noteq> Ended"
  proof (cases "Suc i = length (syRuns s)")
    case True
    then have "last (syRuns s) = syRuns s ! i" using last_conv_nth [of "syRuns s"] assms(2) by (cases "syRuns s") auto
    then show ?thesis using assms(3) by simp
  next
    case False
    then show ?thesis using that last_setPhase(2) [OF assms(2)] by simp
  qed
qed (simp_all add: last_setPhase [OF assms(2)])

section \<open>Emissions\<close>

definition stampEvent :: "'a refresh \<Rightarrow> 'a refreshEvent \<Rightarrow> 'a refreshEvent" where
  "stampEvent r ev = ev\<lparr>evRefreshID := rfID r, evGeneration := rfGeneration r\<rparr>"

lemma emit_cases:
  assumes "emitCurrent lib r ev c = (x, c')"
  obtains (refused) "cdClosed c \<or> cdGeneration c \<noteq> rfGeneration r \<or> cdDone c" "x = None" "c' = c"
    | (idle) ev1 revisions where "\<not> cdClosed c" "\<not> cdDone c" "cdGeneration c = rfGeneration r" "\<not> isActive r c"
        "reviseEvent (slValidate lib) (rfGeneration r) (cdRevisions c) (stampEvent r ev) = (ev1, revisions)"
        "x = Some (namedEvent r ev1)" "c' = c\<lparr>cdRevisions := revisions\<rparr>"
    | (regress) ev1 revisions a where "\<not> cdClosed c" "\<not> cdDone c" "cdGeneration c = rfGeneration r"
        "cdActive c = Some a" "rfGeneration (arRefresh a) = rfGeneration r"
        "reviseEvent (slValidate lib) (rfGeneration r) (cdRevisions c) (stampEvent r ev) = (ev1, revisions)"
        "progressEvent (namedEvent r ev1) (arProgressPercent a) = None"
        "x = None" "c' = c\<lparr>cdRevisions := revisions, cdActive := Some (countQueries (namedEvent r ev1) a)\<rparr>"
    | (counted) ev1 revisions a ev3 progress where "\<not> cdClosed c" "\<not> cdDone c" "cdGeneration c = rfGeneration r"
        "cdActive c = Some a" "rfGeneration (arRefresh a) = rfGeneration r"
        "reviseEvent (slValidate lib) (rfGeneration r) (cdRevisions c) (stampEvent r ev) = (ev1, revisions)"
        "progressEvent (namedEvent r ev1) (arProgressPercent a) = Some (ev3, progress)"
        "x = Some ev3" "c' = c\<lparr>cdRevisions := revisions, cdActive := Some (countEvent ev3 (measureEvent (slFloats lib) ev3
           ((countQueries (namedEvent r ev1) a)\<lparr>arProgressPercent := progress\<rparr>)))\<rparr>"
proof (cases "cdClosed c \<or> cdGeneration c \<noteq> rfGeneration r \<or> cdDone c")
  case True
  have "x = None \<and> c' = c" using assms [unfolded emitCurrent_def if_P [OF True]] by simp
  then show ?thesis using True by (intro refused) simp_all
next
  case opened: False
  obtain ev1 revisions where rev: "reviseEvent (slValidate lib) (rfGeneration r) (cdRevisions c) (stampEvent r ev) = (ev1, revisions)"
    by (metis surj_pair)
  note e = assms [unfolded emitCurrent_def if_not_P [OF opened] stampEvent_def [symmetric] rev prod.case Let_def]
  show ?thesis
  proof (cases "isActive r c")
    case False
    then have "x = Some (namedEvent r ev1) \<and> c' = c\<lparr>cdRevisions := revisions\<rparr>"
      using e by (cases "cdActive c") (auto simp: isActive_def)
    then show ?thesis using opened False rev by (intro idle [of ev1 revisions]) simp_all
  next
    case True
    then obtain a where a: "cdActive c = Some a" "rfGeneration (arRefresh a) = rfGeneration r" by (auto simp: isActive_def)
    show ?thesis
    proof (cases "progressEvent (namedEvent r ev1) (arProgressPercent a)")
      case None
      then have "x = None \<and> c' = c\<lparr>cdRevisions := revisions, cdActive := Some (countQueries (namedEvent r ev1) a)\<rparr>"
        using e a by simp
      then show ?thesis using opened a rev None by (intro regress [of a ev1 revisions]) simp_all
    next
      case (Some p)
      obtain ev3 progress where p: "p = (ev3, progress)" by (metis surj_pair)
      have "x = Some ev3 \<and> c' = c\<lparr>cdRevisions := revisions, cdActive := Some (countEvent ev3 (measureEvent (slFloats lib) ev3
           ((countQueries (namedEvent r ev1) a)\<lparr>arProgressPercent := progress\<rparr>)))\<rparr>"
        using e a Some p by simp
      then show ?thesis using opened a rev Some p by (intro counted [of a ev1 revisions ev3 progress]) simp_all
    qed
  qed
qed

lemma active_frames [simp]:
  "arRefresh (countEvent ev a) = arRefresh a" "arRefresh (measureEvent fl ev a) = arRefresh a" "arRefresh (countQueries ev a) = arRefresh a"
  "arProgressPercent (countEvent ev a) = arProgressPercent a" "arProgressPercent (measureEvent fl ev a) = arProgressPercent a"
  by (simp_all add: countEvent_def measureEvent_def countQueries_def split: refreshEventType.split)

lemma emit_frame:
  assumes "emitCurrent lib r ev c = (x, c')"
  shows "cdGeneration c' = cdGeneration c \<and> cdClosed c' = cdClosed c \<and> cdDone c' = cdDone c \<and> cdWorkCancel c' = cdWorkCancel c
    \<and> map_option arRefresh (cdActive c') = map_option arRefresh (cdActive c)
    \<and> (x \<noteq> None \<longrightarrow> \<not> cdClosed c \<and> \<not> cdDone c \<and> cdGeneration c = rfGeneration r)"
  using assms by (cases rule: emit_cases) auto

lemma emitIn_frame:
  assumes "emitIn lib r ev s = (ok, s')"
  shows "syRuns s' = syRuns s" "sySummaries s' = sySummaries s"
    "cdGeneration (syCoordinator s') = cdGeneration (syCoordinator s)" "cdClosed (syCoordinator s') = cdClosed (syCoordinator s)"
    "cdDone (syCoordinator s') = cdDone (syCoordinator s)" "cdWorkCancel (syCoordinator s') = cdWorkCancel (syCoordinator s)"
    "map_option arRefresh (cdActive (syCoordinator s')) = map_option arRefresh (cdActive (syCoordinator s))"
  using assms emit_frame [of lib r ev "syCoordinator s"] by (auto simp: emitIn_def split: prod.splits option.splits)

lemma base_emit:
  assumes "base_ok s" "emitIn lib r ev s = (ok, s')"
  shows "base_ok s'"
  by (rule base_transfer [OF assms(1)]) (simp_all add: emitIn_frame [OF assms(2)] gens_def)

lemma addSummary_simps [simp]:
  "syRuns (addSummary x s) = syRuns s" "syCoordinator (addSummary x s) = syCoordinator s" "syLog (addSummary x s) = syLog s"
  "sySummaries (addSummary x s) = sySummaries s @ (case x of None \<Rightarrow> [] | Some y \<Rightarrow> [y])" "gens (addSummary x s) = gens s"
  by (simp_all add: addSummary_def gens_def split: option.split)

lemma summary_generation [simp]: "rsGeneration (summaryLocked fl now a outcome n reason) = rfGeneration (arRefresh a)"
  by (simp add: summaryLocked_def Let_def)

section \<open>Beginning, finishing, closing\<close>

lemma cancelWork_simps [simp]:
  "cdDone (cancelWork c) = cdDone c" "cdContexts (cancelWork c) = cdContexts c" "cdWorkCancel (cancelWork c) = cdWorkCancel c"
  "cdFilters (cancelWork c) = cdFilters c" "cdGeneration (cancelWork c) = cdGeneration c" "cdRevisions (cancelWork c) = cdRevisions c"
  "cdSequences (cancelWork c) = cdSequences c" "cdClosed (cancelWork c) = cdClosed c" "cdActive (cancelWork c) = cdActive c"
  by (simp_all add: cancelWork_def split: option.split)

definition freshActive :: "'a refresh \<Rightarrow> 'a activeRefresh \<Rightarrow> bool" where
  "freshActive r a \<longleftrightarrow> arRefresh a = r \<and> arTargetSuccesses a = 0 \<and> arTargetErrors a = 0 \<and> arFirstTargetErr a = None
     \<and> arSetupRequiredErr a = None \<and> arRefreshError a = None \<and> arProgressPercent a = Some (Finite 0)"

lemma begin_cases:
  assumes "beginLocked fl now n prepare c = (res, c')"
  obtains (refused) e seqs where "res = Inl e" "c' = c\<lparr>cdSequences := seqs\<rparr>"
    | (begun) b a ctx where "res = Inr b" "\<not> cdClosed c" "\<not> cdClosed c'" "cdDone c' = cdDone c" "cdRevisions c' = cdRevisions c"
        "cdActive c' = Some a" "freshActive (bgRefresh b) a" "cdWorkCancel c' = Some ctx"
        "cdGeneration c' = rfGeneration (bgRefresh b)"
        "cdGeneration c < rfGeneration (bgRefresh b) \<or> rfGeneration (bgRefresh b) = (cdGeneration c + 1) mod (maxUint64 + 1)"
        "bgSummary b = (if cdWorkCancel c = None then None
           else map_option (\<lambda>a. summaryLocked fl now a ''canceled'' 1 ''superseded'') (cdActive c))"
proof (cases "cdClosed c")
  case True
  then show ?thesis using assms refused [of CoordinatorClosed "cdSequences c"] by (simp add: beginLocked_def refuse_def)
next
  case False
  note e = assms [unfolded beginLocked_def if_not_P [OF False]]
  let ?p = "case prepare of None \<Rightarrow> preparePlain (cloneFilters (cdFilters c)) | Some f \<Rightarrow> f (cloneFilters (cdFilters c))"
  show ?thesis
  proof (cases ?p)
    case (Inl er)
    then show ?thesis using e refused [of er "cdSequences c"] by (simp add: refuse_def)
  next
    case p: (Inr p)
    show ?thesis
    proof (cases "sequenceGuard p (cdSequences c)")
      case (Inl er)
      then show ?thesis using e p refused [of er "cdSequences c"] by (simp add: refuse_def)
    next
      case seqs: (Inr seqs)
      show ?thesis
      proof (cases "rpGeneration p > 0 \<and> rpGeneration p \<le> cdGeneration c")
        case True
        then show ?thesis using e p seqs refused [of "GenerationBehind (rpGeneration p) (cdGeneration c)" seqs]
          by (simp add: refuse_def Let_def)
      next
        case False
        define a where "a = the (cdActive c')"
        show ?thesis
        proof (rule begun [of "projr res" a "the (cdWorkCancel c')"])
          show "cdGeneration c < rfGeneration (bgRefresh (projr res)) \<or> rfGeneration (bgRefresh (projr res)) = (cdGeneration c + 1) mod (maxUint64 + 1)"
            using e p seqs False by (auto simp: Let_def)
        qed (use e p seqs False \<open>\<not> cdClosed c\<close> in \<open>auto simp: Let_def a_def freshActive_def NormalizeProgressPercent_def\<close>)
      qed
    qed
  qed
qed

lemma sorted_last:
  "sorted_wrt (<) (xs :: nat list) \<Longrightarrow> x \<in> set xs \<Longrightarrow> x \<le> last xs"
proof (induction xs)
  case (Cons y ys)
  then show ?case by (cases "ys = []") (auto dest: bspec [OF _ last_in_set])
qed simp

lemma gens_update [simp]:
  "gens (s\<lparr>syCoordinator := c\<rparr>) = gens s" "gens (s\<lparr>sySequence := n\<rparr>) = gens s" "gens (s\<lparr>syLog := l\<rparr>) = gens s"
  by (simp_all add: gens_def)

lemma gens_last:
  assumes "syRuns s \<noteq> []"
  shows "butlast (gens s) @ [rfGeneration (rnRefresh (last (syRuns s)))] = gens s"
proof -
  have "last (gens s) = rfGeneration (rnRefresh (last (syRuns s)))" "gens s \<noteq> []" using assms by (simp_all add: gens_def last_map)
  then show ?thesis by (metis append_butlast_last_id)
qed

lemma base_generation:
  assumes "base_ok s" "g \<in> set (gens s)"
  shows "g \<le> cdGeneration (syCoordinator s)"
proof -
  have "syRuns s \<noteq> []" using assms(2) by (auto simp: gens_def)
  then have "last (gens s) = cdGeneration (syCoordinator s)" using assms(1) by (simp add: base_ok_def gens_def last_map)
  then show ?thesis using sorted_last [of "gens s" g] assms unfolding base_ok_def by auto
qed

lemma begin_generation:
  assumes "base_ok s" "noWrap s"
    and "cdGeneration (syCoordinator s) < g \<or> g = (cdGeneration (syCoordinator s) + 1) mod (maxUint64 + 1)"
  shows "cdGeneration (syCoordinator s) < g"
proof -
  have "cdGeneration (syCoordinator s) < maxUint64"
  proof (cases "syRuns s = []")
    case True
    then show ?thesis using assms(1) by (simp add: base_ok_def maxUint64_def)
  next
    case False
    then have "cdGeneration (syCoordinator s) \<in> set (gens s)"
      using assms(1) by (simp add: base_ok_def gens_def)
    then show ?thesis using assms(2) by (simp add: noWrap_def)
  qed
  then show ?thesis using assms(3) by auto
qed

text \<open>What beginning does to the system: nothing but the sequence numbers, or a new run and the summary of the old one.\<close>

lemma beginIn_cases:
  fixes s :: "'a streamSystem"
  assumes ok: "base_ok s"
  obtains (refused) seqs where "beginIn fl now prepare w s = s\<lparr>syCoordinator := (syCoordinator s)\<lparr>cdSequences := seqs\<rparr>\<rparr>"
    | (begun) r a c' where "syRuns (beginIn fl now prepare w s) = syRuns s @ [r]" "rnPhase r = AtStart"
        "syLog (beginIn fl now prepare w s) = syLog s" "syCoordinator (beginIn fl now prepare w s) = c'"
        "sySummaries (beginIn fl now prepare w s) = sySummaries s @
           (case cdActive (syCoordinator s) of None \<Rightarrow> [] | Some b \<Rightarrow> [summaryLocked fl now b ''canceled'' 1 ''superseded''])"
        "\<not> cdClosed (syCoordinator s)" "\<not> cdClosed c'" "cdDone c' = cdDone (syCoordinator s)" "cdRevisions c' = cdRevisions (syCoordinator s)"
        "cdActive c' = Some a" "freshActive (rnRefresh r) a" "cdWorkCancel c' \<noteq> None" "cdGeneration c' = rfGeneration (rnRefresh r)"
        "noWrap s \<Longrightarrow> cdGeneration (syCoordinator s) < rfGeneration (rnRefresh r)"
proof -
  obtain res c' where l: "beginLocked fl now (sySequence s + 1) prepare (syCoordinator s) = (res, c')" by (metis surj_pair)
  have gen: "noWrap s \<Longrightarrow> cdGeneration (syCoordinator s) < g"
    if "cdGeneration (syCoordinator s) < g \<or> g = (cdGeneration (syCoordinator s) + 1) mod (maxUint64 + 1)" for g
    using begin_generation [OF ok _ that] by blast
  have act: "cdActive (syCoordinator s) = None" if "cdWorkCancel (syCoordinator s) = None"
    using ok that by (cases "cdActive (syCoordinator s)") (auto simp: base_ok_def)
  from l show thesis
  proof (cases rule: begin_cases)
    case (refused e seqs)
    then show ?thesis using l by (intro that(1) [of seqs]) (simp add: beginIn_def)
  next
    case (begun b a ctx)
    then show ?thesis using l act gen
      by (intro that(2) [of "\<lparr>rnRefresh = bgRefresh b, rnPreparation = bgPreparation b, rnContext = bgContext b, rnHasWork = w, rnPhase = AtStart\<rparr>" c' a])
        (auto simp: beginIn_def split: option.split)
  qed
qed

lemma base_begin:
  assumes ok: "base_ok s" and "noWrap s"
  shows "base_ok (beginIn fl now prepare w s)"
  using ok
proof (cases rule: beginIn_cases [where fl = fl and now = now and prepare = prepare and w = w])
  case (refused seqs)
  show ?thesis unfolding refused by (rule base_transfer [OF ok]) (simp_all add: gens_def)
next
  case (begun r a c')
  let ?s = "beginIn fl now prepare w s"
  have g: "gens ?s = gens s @ [rfGeneration (rnRefresh r)]" by (simp add: gens_def begun)
  have "\<forall>g \<in> set (gens s). g < rfGeneration (rnRefresh r)" using base_generation [OF ok] begun(14) assms(2) by fastforce
  then have s: "sorted_wrt (<) (gens ?s)" "\<forall>g \<in> set (gens ?s). 0 < g"
    using ok begun(14) assms(2) unfolding g by (auto simp: base_ok_def sorted_wrt_append)
  have "map rsGeneration (sySummaries ?s) = gens s"
  proof (cases "cdActive (syCoordinator s)")
    case None
    then show ?thesis using ok begun(5) by (simp add: base_ok_def)
  next
    case (Some b)
    then have "syRuns s \<noteq> []" "arRefresh b = rnRefresh (last (syRuns s))" "map rsGeneration (sySummaries s) = butlast (gens s)"
      using ok by (auto simp: base_ok_def)
    then show ?thesis using begun(5) Some gens_last [of s] by simp
  qed
  then show ?thesis unfolding base_ok_def g [symmetric] using s begun g by (simp add: freshActive_def)
qed

lemma base_active:
  assumes "base_ok s" "cdActive (syCoordinator s) = Some a"
  shows "syRuns s \<noteq> [] \<and> arRefresh a = rnRefresh (last (syRuns s)) \<and> map rsGeneration (sySummaries s) @ [rfGeneration (arRefresh a)] = gens s
    \<and> \<not> cdClosed (syCoordinator s)"
proof -
  have "syRuns s \<noteq> [] \<and> arRefresh a = rnRefresh (last (syRuns s)) \<and> map rsGeneration (sySummaries s) = butlast (gens s)"
    using assms by (simp add: base_ok_def)
  moreover have "\<not> cdClosed (syCoordinator s)" using assms by (auto simp: base_ok_def)
  ultimately show ?thesis using gens_last [of s] by simp
qed

text \<open>The active refresh is given up and summarised.\<close>

lemma base_drop:
  assumes ok: "base_ok s" and x: "x = map_option (\<lambda>a. summaryLocked fl now a oc n reason) (cdActive (syCoordinator s))"
    and c: "cdGeneration c = cdGeneration (syCoordinator s)" "cdWorkCancel c = cdWorkCancel (syCoordinator s)" "cdActive c = None"
    and e: "cdClosed c \<or> syRuns s = [] \<or> rnPhase (last (syRuns s)) = Ended"
  shows "base_ok (addSummary x (s\<lparr>syCoordinator := c\<rparr>))"
proof -
  let ?s = "addSummary x (s\<lparr>syCoordinator := c\<rparr>)"
  have "map rsGeneration (sySummaries ?s) = gens s"
  proof (cases "cdActive (syCoordinator s)")
    case None
    then show ?thesis using ok x by (simp add: base_ok_def)
  next
    case (Some a)
    then show ?thesis using base_active [OF ok Some] x by auto
  qed
  moreover have "gens ?s = gens s" by (simp add: gens_def)
  ultimately show ?thesis
    unfolding base_ok_def addSummary_simps using ok c e unfolding base_ok_def by (simp, blast)
qed

section \<open>Kinds of steps\<close>

definition moves :: "'a run \<Rightarrow> 'a coordinator \<Rightarrow> runPhase \<Rightarrow> bool" where
  "moves r c ph \<longleftrightarrow>
     (case rnPhase r of
        AtDebounce \<Rightarrow> ph = AtWork \<or> ph = Ended
      | AtWork \<Rightarrow> ph = AtCheck
      | AtCheck \<Rightarrow> ph = Ended \<or> ph = AtError
      | AtError \<Rightarrow> ph = AtComplete (refreshError (rnRefresh r) c)
      | AtFinish \<Rightarrow> ph = Ended \<and> \<not> isActive (rnRefresh r) c
      | _ \<Rightarrow> False)"

definition emits :: "'a run \<Rightarrow> 'a refreshEvent \<Rightarrow> bool \<Rightarrow> runPhase \<Rightarrow> bool" where
  "emits r ev ok ph \<longleftrightarrow>
     (case rnPhase r of
        AtStart \<Rightarrow> ev = startEvent r \<and> ph = startPhase r
      | AtWork \<Rightarrow> evType ev \<noteq> EvStart \<and> evType ev \<noteq> EvComplete \<and> (evType ev \<noteq> EvTargetError \<or> evErr ev \<noteq> None) \<and> ph = AtWork
      | AtComplete err \<Rightarrow> ev = completeEvent err \<and> ph = (if ok then AtFinish else Ended)
      | _ \<Rightarrow> False)"

lemma setPhase_same [simp]: "setPhase i (rnPhase (syRuns s ! i)) s = s"
  by (simp add: setPhase_def)

lemma step_kinds:
  assumes "streamStep lib s s'"
  obtains (began) now prepare w where "s' = beginIn (slFloats lib) now prepare w s"
    | (moved) i ph where "i < length (syRuns s)" "moves (syRuns s ! i) (syCoordinator s) ph" "s' = setPhase i ph s"
    | (emitted) i ev ok ph s1 where "i < length (syRuns s)" "emitIn lib (rnRefresh (syRuns s ! i)) ev s = (ok, s1)"
        "emits (syRuns s ! i) ev ok ph" "s' = setPhase i ph s1"
    | (finished) i a now where "i < length (syRuns s)" "rnPhase (syRuns s ! i) = AtFinish" "cdActive (syCoordinator s) = Some a"
        "rfGeneration (arRefresh a) = rfGeneration (rnRefresh (syRuns s ! i))"
        "s' = addSummary (Some (summaryLocked (slFloats lib) now a ''complete'' 0 []))
           ((setPhase i Ended s)\<lparr>syCoordinator := (syCoordinator s)\<lparr>cdActive := None\<rparr>\<rparr>)"
    | (closing) now reason where "\<not> cdClosed (syCoordinator s)"
        "s' = addSummary (map_option (\<lambda>a. summaryLocked (slFloats lib) now a ''canceled'' 1 reason) (cdActive (syCoordinator s)))
           (s\<lparr>syCoordinator := (cancelWork ((syCoordinator s)\<lparr>cdClosed := True\<rparr>))\<lparr>cdActive := None, cdDone := True\<rparr>\<rparr>)"
    | (quiet) d n where "s' = s\<lparr>syCoordinator := (syCoordinator s)\<lparr>cdDone := d \<or> cdDone (syCoordinator s)\<rparr>, sySequence := n\<rparr>"
  using assms
proof cases
  case (stBegin now prepare hasWork)
  then show ?thesis by (rule that(1))
next
  case (stStart i)
  then show ?thesis
    by (intro that(3) [of i "startEvent (syRuns s ! i)" "fst (emitIn lib (rnRefresh (syRuns s ! i)) (startEvent (syRuns s ! i)) s)"])
      (simp_all add: emits_def)
next
  case (stTimer i)
  then show ?thesis by (intro that(2)) (simp_all add: moves_def)
next
  case (stDebounced i)
  then show ?thesis by (intro that(2)) (simp_all add: moves_def)
next
  case (stPublish i ev)
  let ?s1 = "snd (emitIn lib (rnRefresh (syRuns s ! i)) ev s)"
  have "syRuns ?s1 = syRuns s" by (simp add: emitIn_def split: prod.split option.split)
  then have "setPhase i AtWork ?s1 = ?s1" using setPhase_same [of i ?s1] stPublish(3) by simp
  then show ?thesis using stPublish
    by (intro that(3) [of i ev "fst (emitIn lib (rnRefresh (syRuns s ! i)) ev s)" ?s1 AtWork]) (simp_all add: emits_def)
next
  case (stWorked i)
  then show ?thesis by (intro that(2)) (simp_all add: moves_def)
next
  case (stCheck i)
  then show ?thesis by (intro that(2)) (simp_all add: moves_def)
next
  case (stError i)
  then show ?thesis by (intro that(2)) (simp_all add: moves_def)
next
  case (stComplete i err ok s1)
  then show ?thesis by (intro that(3) [of i "completeEvent err" ok s1]) (simp_all add: emits_def)
next
  case (stFinish i now x c)
  show ?thesis
  proof (cases "isActive (rnRefresh (syRuns s ! i)) (syCoordinator s)")
    case True
    then obtain a where a: "cdActive (syCoordinator s) = Some a" "rfGeneration (arRefresh a) = rfGeneration (rnRefresh (syRuns s ! i))"
      by (auto simp: isActive_def)
    then show ?thesis using stFinish
      by (intro that(4) [of i a now]) (auto simp: finish_def setPhase_def addSummary_def)
  next
    case False
    then have "x = None \<and> c = syCoordinator s" using stFinish(4) by (auto simp: finish_def isActive_def split: option.splits if_splits)
    then show ?thesis using stFinish False by (intro that(2) [of i Ended]) (simp_all add: moves_def addSummary_def)
  qed
next
  case (stClose now reason x c)
  show ?thesis
  proof (cases "cdClosed (syCoordinator s)")
    case True
    then show ?thesis using stClose by (intro that(6) [of "sySequence s" False]) (simp add: CloseWithReason_def addSummary_def)
  next
    case False
    then show ?thesis using stClose by (intro that(5) [of now reason]) (auto simp: CloseWithReason_def Let_def)
  qed
next
  case stParentDone
  then show ?thesis by (intro that(6) [of "sySequence s" True]) simp
next
  case stElsewhere
  then show ?thesis by (intro that(6) [of "sySequence s + 1" False]) simp
qed

lemma base_step:
  assumes "streamStep lib s s'" "base_ok s" "noWrap s"
  shows "base_ok s'"
  using assms(1)
proof (cases rule: step_kinds)
  case (began now prepare w)
  then show ?thesis using base_begin assms(2,3) by simp
next
  case (moved i ph)
  then have "rnPhase (syRuns s ! i) \<noteq> Ended" by (auto simp: moves_def)
  then show ?thesis using base_setPhase [OF assms(2) moved(1)] moved(3) by simp
next
  case (emitted i ev ok ph s1)
  then have "rnPhase (syRuns s1 ! i) \<noteq> Ended" "i < length (syRuns s1)" by (auto simp: emits_def emitIn_frame [OF emitted(2)])
  then show ?thesis using base_setPhase [OF base_emit [OF assms(2) emitted(2)]] emitted(4) by simp
next
  case (finished i a now)
  let ?s = "setPhase i Ended s"
  have ok: "base_ok ?s" using base_setPhase assms(2) finished(1,2) by fastforce
  have "Suc i = length (syRuns s)"
  proof (rule ccontr)
    assume ne: "Suc i \<noteq> length (syRuns s)"
    note b = base_active [OF assms(2) finished(3)]
    have sw: "sorted_wrt (<) (gens s)" using assms(2) by (simp add: base_ok_def)
    have "gens s ! i < gens s ! (length (syRuns s) - 1)"
      by (rule sorted_wrt_nth_less [OF sw]) (use finished(1) ne in \<open>simp_all add: gens_def\<close>)
    moreover have "gens s ! (length (syRuns s) - 1) = rfGeneration (arRefresh a)"
      using b finished(1) by (simp add: gens_def last_conv_nth)
    ultimately show False using finished(1,4) by (simp add: gens_def)
  qed
  then have e: "rnPhase (last (syRuns ?s)) = Ended" using last_setPhase(2) [OF finished(1)] by simp
  show ?thesis
    unfolding finished(5) by (rule base_drop [OF ok]) (simp_all add: finished(3) e)
next
  case (closing now reason)
  show ?thesis
    unfolding closing(2) by (rule base_drop [OF assms(2)]) simp_all
next
  case (quiet d n)
  show ?thesis unfolding quiet by (rule base_transfer [OF assms(2)]) (simp_all add: gens_def)
qed

lemma noWrap_step:
  assumes "streamStep lib s s'" "noWrap s'"
  shows "noWrap s"
  using assms(1)
proof (cases rule: step_kinds)
  case (began now prepare w)
  have "set (gens s) \<subseteq> set (gens s')"
    unfolding began by (auto simp: beginIn_def gens_def split: prod.split sum.split)
  then show ?thesis using assms(2) by (auto simp: noWrap_def)
next
  case (emitted i ev ok ph s1)
  then have "gens s' = gens s" by simp (simp add: gens_def emitIn_frame [OF emitted(2)])
  then show ?thesis using assms(2) by (simp add: noWrap_def)
qed (use assms(2) in \<open>simp_all add: noWrap_def\<close>)

section \<open>Invariance\<close>

definition initial :: "bool \<Rightarrow> nat \<Rightarrow> 'a streamSystem" where
  "initial parentDone n = \<lparr>syCoordinator = NewCoordinator parentDone, syRuns = [], syLog = [], sySummaries = [], sySequence = n\<rparr>"

lemma base_initial: "base_ok (initial parentDone n)"
  by (simp add: base_ok_def initial_def gens_def NewCoordinator_def)

lemma reach_base: "streamReach lib s \<Longrightarrow> noWrap s \<Longrightarrow> base_ok s"
proof (induction rule: streamReach.induct)
  case (srInit parentDone n)
  then show ?case using base_initial by (simp add: initial_def)
next
  case (srStep s s')
  then show ?case using base_step noWrap_step by blast
qed

lemma reach_invariant:
  assumes "streamReach lib s" "noWrap s"
    and init: "\<And>parentDone n. P (initial parentDone n)"
    and step: "\<And>s s'. streamReach lib s \<Longrightarrow> noWrap s \<Longrightarrow> base_ok s \<Longrightarrow> base_ok s' \<Longrightarrow> P s \<Longrightarrow> streamStep lib s s' \<Longrightarrow> P s'"
  shows "P s"
  using assms(1,2)
proof (induction rule: streamReach.induct)
  case (srInit parentDone n)
  then show ?case using init by (simp add: initial_def)
next
  case (srStep s s')
  then have "noWrap s" using noWrap_step by blast
  moreover have "base_ok s" "base_ok s'"
    using reach_base srStep.hyps srStep.prems \<open>noWrap s\<close> streamReach.srStep by blast+
  ultimately show ?case using step srStep by blast
qed

section \<open>One emission\<close>

lemma revise_other:
  "\<not> carriesVisualizationData (evType ev) \<Longrightarrow> reviseEvent v g revs ev = (ev, revs)"
  by (simp add: reviseEvent_def)

lemma revise_type:
  assumes "reviseEvent v g revs ev = (ev1, revs1)"
  shows "evType ev1 = evType ev \<or> carriesVisualizationData (evType ev) \<and> evType ev1 = EvTargetError \<and> evErr ev1 \<noteq> None \<and> evTarget ev1 = evTarget ev"
    and "evGeneration ev1 = evGeneration ev" "evProgressPercent ev1 = evProgressPercent ev"
    "evType ev1 = evType ev \<Longrightarrow> evErr ev1 = evErr ev \<and> evTarget ev1 = evTarget ev"
  using assms by (auto simp: reviseEvent_def Let_def split: if_splits eventValue.splits sum.splits)

lemma named_simps [simp]:
  "evType (namedEvent r ev) = evType ev" "evGeneration (namedEvent r ev) = evGeneration ev" "evErr (namedEvent r ev) = evErr ev"
  "evTarget (namedEvent r ev) = evTarget ev" "evProgressPercent (namedEvent r ev) = evProgressPercent ev"
  "evValue (namedEvent r ev) = evValue ev" "evDataRevision (namedEvent r ev) = evDataRevision ev"
  by (simp_all add: namedEvent_def)

lemma progress_fields:
  assumes "progressEvent ev p = Some (ev', p')"
  shows "evType ev' = evType ev" "evGeneration ev' = evGeneration ev" "evErr ev' = evErr ev" "evTarget ev' = evTarget ev"
    "evValue ev' = evValue ev" "evDataRevision ev' = evDataRevision ev"
  using assms by (auto simp: progressEvent_def Let_def split: refreshEventType.splits if_splits)

lemma progress_None: "progressEvent ev p = None \<Longrightarrow> evType ev = EvProgress"
  by (simp add: progressEvent_def Let_def split: refreshEventType.splits)

lemma run_generation:
  assumes "base_ok s" "i < length (syRuns s)" "rfGeneration (rnRefresh (syRuns s ! i)) = cdGeneration (syCoordinator s)"
  shows "Suc i = length (syRuns s) \<and> rnRefresh (syRuns s ! i) = rnRefresh (last (syRuns s))"
proof -
  let ?n = "length (syRuns s) - 1"
  have sw: "sorted_wrt (<) (gens s)" using assms(1) by (simp add: base_ok_def)
  have ne: "syRuns s \<noteq> []" using assms(2) by auto
  have "cdGeneration (syCoordinator s) = rfGeneration (rnRefresh (syRuns s ! ?n))"
    using assms(1) ne by (simp add: base_ok_def last_conv_nth)
  then have "gens s ! i = gens s ! ?n" using assms(2,3) by (simp add: gens_def)
  moreover have "i \<noteq> ?n \<Longrightarrow> gens s ! i < gens s ! ?n"
    by (rule sorted_wrt_nth_less [OF sw]) (use assms(2) in \<open>simp_all add: gens_def\<close>)
  ultimately have "i = ?n" by (metis less_irrefl)
  then show ?thesis using ne by (simp add: last_conv_nth)
qed

text \<open>
  An emission by a run that has not ended either publishes nothing and keeps what the invariants see, or it
  is by the last run, whose refresh is active.
\<close>

definition sameActive :: "'a activeRefresh \<Rightarrow> 'a activeRefresh \<Rightarrow> bool" where
  "sameActive a b \<longleftrightarrow> arRefresh a = arRefresh b \<and> arTargetSuccesses a = arTargetSuccesses b \<and> arTargetErrors a = arTargetErrors b
     \<and> arFirstTargetErr a = arFirstTargetErr b \<and> arSetupRequiredErr a = arSetupRequiredErr b \<and> arRefreshError a = arRefreshError b
     \<and> arProgressPercent a = arProgressPercent b"

lemma emit_kinds:
  assumes ok: "base_ok s" and i: "i < length (syRuns s)" and ph: "rnPhase (syRuns s ! i) \<noteq> Ended"
    and e: "emitIn lib (rnRefresh (syRuns s ! i)) ev s = (b, s1)"
  obtains (silent) c where "\<not> b" "s1 = s\<lparr>syCoordinator := c\<rparr>" "cdRevisions c = cdRevisions (syCoordinator s)"
      "cdClosed c = cdClosed (syCoordinator s)" "cdDone c = cdDone (syCoordinator s)" "cdGeneration c = cdGeneration (syCoordinator s)"
      "rel_option sameActive (cdActive c) (cdActive (syCoordinator s))"
      "cdClosed c \<or> cdDone c \<or> cdGeneration c \<noteq> rfGeneration (rnRefresh (syRuns s ! i)) \<or> evType ev = EvProgress"
    | (spoken) a ev1 ev2 p c where "b" "Suc i = length (syRuns s)" "\<not> cdClosed (syCoordinator s)" "\<not> cdDone (syCoordinator s)"
        "cdActive (syCoordinator s) = Some a" "arRefresh a = rnRefresh (syRuns s ! i)"
        "rfGeneration (arRefresh a) = cdGeneration (syCoordinator s)"
        "reviseEvent (slValidate lib) (rfGeneration (arRefresh a)) (cdRevisions (syCoordinator s)) (stampEvent (arRefresh a) ev) = (ev1, cdRevisions c)"
        "progressEvent (namedEvent (arRefresh a) ev1) (arProgressPercent a) = Some (ev2, p)"
        "s1 = s\<lparr>syCoordinator := c, syLog := syLog s @ [ev2]\<rparr>"
        "cdClosed c = cdClosed (syCoordinator s)" "cdDone c = cdDone (syCoordinator s)" "cdGeneration c = cdGeneration (syCoordinator s)"
        "cdActive c = Some (countEvent ev2 (measureEvent (slFloats lib) ev2 ((countQueries (namedEvent (arRefresh a) ev1) a)\<lparr>arProgressPercent := p\<rparr>)))"
proof -
  let ?r = "rnRefresh (syRuns s ! i)" and ?c = "syCoordinator s"
  obtain x c where em: "emitCurrent lib ?r ev ?c = (x, c)" by (metis surj_pair)
  have same: "rel_option sameActive y y" for y :: "'b activeRefresh option"
    by (rule option.rel_refl) (simp add: sameActive_def)
  from em show thesis
  proof (cases rule: emit_cases)
    case refused
    then show ?thesis using e em same by (intro silent [of c]) (auto simp: emitIn_def)
  next
    case (idle ev1 revs)
    have last: "Suc i = length (syRuns s)" "?r = rnRefresh (last (syRuns s))" using run_generation [OF ok i] idle(3) by simp_all
    have "rnPhase (last (syRuns s)) \<noteq> Ended" using ph last(1) i by (metis Zero_not_Suc diff_Suc_1 last_conv_nth list.size(3))
    then have "cdActive ?c \<noteq> None" using ok idle(1) i unfolding base_ok_def by (metis length_0_conv not_less_zero)
    then obtain a where a: "cdActive ?c = Some a" by blast
    then have "arRefresh a = ?r" using base_active [OF ok] last by simp
    then show ?thesis using idle(4) a by (simp add: isActive_def)
  next
    case (regress ev1 revs a)
    have "evType ev1 = EvProgress" using progress_None [OF regress(7)] by simp
    then have t: "evType ev = EvProgress"
      using revise_type(1) [OF regress(6)] by (auto simp: stampEvent_def)
    then have "revs = cdRevisions ?c" using regress(6) by (simp add: revise_other stampEvent_def)
    moreover have "sameActive (countQueries (namedEvent ?r ev1) a) a" by (simp add: sameActive_def countQueries_def)
    ultimately show ?thesis using e em regress t by (intro silent [of c]) (auto simp: emitIn_def)
  next
    case (counted ev1 revs a ev2 p)
    have last: "Suc i = length (syRuns s)" "?r = rnRefresh (last (syRuns s))" using run_generation [OF ok i] counted(3) by simp_all
    have a: "arRefresh a = ?r" using base_active [OF ok counted(4)] last by simp
    show ?thesis using e em counted a last(1) by (intro spoken [of a ev1 c ev2 p]) (auto simp: emitIn_def)
  qed
qed

end
