(* ===== verification/Stream_Log.thy ===== *)
theory Stream_Log
  imports Stream_Invariants
begin

text \<open>
  What the log of a page stream holds: the events of each refresh from its start to its completion,
  the data revisions of each target, and the progress.
\<close>

section \<open>The events of a refresh\<close>

definition evs :: "nat \<Rightarrow> 'a streamSystem \<Rightarrow> 'a refreshEvent list" where
  "evs g s = filter (\<lambda>e. evGeneration e = g) (syLog s)"

definition refusedGen :: "'a coordinator \<Rightarrow> nat \<Rightarrow> bool" where
  "refusedGen c g \<longleftrightarrow> cdClosed c \<or> cdDone c \<or> cdGeneration c \<noteq> g"

abbreviation runGen :: "'a run \<Rightarrow> nat" where
  "runGen r \<equiv> rfGeneration (rnRefresh r)"

definition run_log :: "runPhase \<Rightarrow> bool \<Rightarrow> 'a refreshEvent list \<Rightarrow> bool" where
  "run_log ph refused es \<longleftrightarrow>
     (ph = AtStart \<longrightarrow> es = [])
     \<and> (ph \<noteq> AtStart \<longrightarrow> es = [] \<longrightarrow> refused)
     \<and> (es \<noteq> [] \<longrightarrow> evType (hd es) = EvStart \<and> EvStart \<notin> evType ` set (tl es))
     \<and> (EvComplete \<in> evType ` set es \<longrightarrow> (ph = AtFinish \<or> ph = Ended) \<and> EvComplete \<notin> evType ` set (butlast es))"

definition log_ok :: "'a streamSystem \<Rightarrow> bool" where
  "log_ok s \<longleftrightarrow> (\<forall>e \<in> set (syLog s). evGeneration e \<in> set (gens s)) \<and> sorted (map evGeneration (syLog s))
     \<and> (\<forall>r \<in> set (syRuns s). run_log (rnPhase r) (refusedGen (syCoordinator s) (runGen r)) (evs (runGen r) s))"

lemma evs_simps [simp]:
  "evs g (s\<lparr>syCoordinator := c\<rparr>) = evs g s" "evs g (setPhase i ph s) = evs g s" "evs g (addSummary x s) = evs g s"
  "evs g (s\<lparr>sySequence := n\<rparr>) = evs g s"
  "evs g (s\<lparr>syCoordinator := c, syLog := syLog s @ [e]\<rparr>) = evs g s @ (if evGeneration e = g then [e] else [])"
  by (simp_all add: evs_def)

lemma gens_length: "length (gens s) = length (syRuns s)"
  by (simp add: gens_def)

lemma gens_nth: "i < length (syRuns s) \<Longrightarrow> gens s ! i = runGen (syRuns s ! i)"
  by (simp add: gens_def)

lemma run_log_refused: "run_log ph refused es \<Longrightarrow> (refused \<Longrightarrow> refused') \<Longrightarrow> run_log ph refused' es"
  unfolding run_log_def by blast

lemma run_log_move: "run_log ph refused es \<Longrightarrow> ph \<noteq> AtStart \<Longrightarrow> ph' \<noteq> AtStart \<Longrightarrow> (ph = AtFinish \<or> ph = Ended \<Longrightarrow> ph' = Ended)
    \<Longrightarrow> run_log ph' refused es"
  unfolding run_log_def by blast

lemma set_setPhase:
  assumes "r \<in> set (syRuns (setPhase i ph s))"
  shows "r \<in> set (syRuns s) \<or> r = (syRuns s ! i)\<lparr>rnPhase := ph\<rparr> \<and> i < length (syRuns s)"
proof -
  obtain j where "j < length (syRuns s)" "r = syRuns (setPhase i ph s) ! j" using assms by (auto simp: in_set_conv_nth)
  then show ?thesis by (auto simp: in_set_conv_nth split: if_splits)
qed

lemma set_setPhase_other:
  assumes "base_ok s" "r \<in> set (syRuns (setPhase i ph s))" "i < length (syRuns s)"
  shows "r = (syRuns s ! i)\<lparr>rnPhase := ph\<rparr> \<or> r \<in> set (syRuns s) \<and> runGen r \<noteq> runGen (syRuns s ! i)"
proof -
  obtain j where j: "j < length (syRuns s)" "r = syRuns (setPhase i ph s) ! j" using assms(2) by (auto simp: in_set_conv_nth)
  have "distinct (gens s)" using assms(1) by (simp add: base_ok_def strict_sorted_iff)
  then have "j \<noteq> i \<Longrightarrow> gens s ! j \<noteq> gens s ! i" using nth_eq_iff_index_eq [of "gens s" j i] j(1) assms(3) by (simp add: gens_def)
  then have "j \<noteq> i \<Longrightarrow> runGen (syRuns s ! j) \<noteq> runGen (syRuns s ! i)" using j(1) assms(3) by (simp add: gens_def)
  then show ?thesis using j by (cases "j = i") auto
qed

lemma run_log_append:
  assumes "run_log (rnPhase r) False es" "emits r ev True ph"
    and "evType e = EvStart \<longleftrightarrow> evType ev = EvStart" "evType e = EvComplete \<longleftrightarrow> evType ev = EvComplete"
  shows "run_log ph refused (es @ [e])"
proof (cases "rnPhase r")
  case AtStart
  then show ?thesis using assms
    by (auto simp: run_log_def emits_def startEvent_def plainEvent_def startPhase_def)
next
  case AtWork
  then have ne: "es \<noteq> []" and ph: "ph = AtWork" using assms by (auto simp: run_log_def emits_def)
  then obtain x xs where "es = x # xs" by (cases es) auto
  then show ?thesis using assms AtWork ph by (auto simp: run_log_def emits_def)
next
  case (AtComplete err)
  then have ne: "es \<noteq> []" and ph: "ph = AtFinish" using assms by (auto simp: run_log_def emits_def)
  then obtain x xs where "es = x # xs" by (cases es) auto
  then show ?thesis using assms AtComplete ph by (auto simp: run_log_def emits_def completeEvent_def plainEvent_def)
qed (use assms in \<open>simp_all add: emits_def\<close>)

lemma emits_phases: "emits r ev ok ph \<Longrightarrow> ph \<noteq> AtStart \<and> rnPhase r \<noteq> AtFinish \<and> rnPhase r \<noteq> Ended"
  by (cases "rnPhase r") (simp_all add: emits_def startPhase_def)

lemma spoken_type:
  assumes "reviseEvent v g revs (stampEvent r ev) = (ev1, revs1)" "progressEvent (namedEvent r ev1) p = Some (ev2, p')"
  shows "evType ev2 = EvStart \<longleftrightarrow> evType ev = EvStart" "evType ev2 = EvComplete \<longleftrightarrow> evType ev = EvComplete"
    "evGeneration ev2 = rfGeneration r"
  using revise_type(1,2) [OF assms(1)] progress_fields(1,2) [OF assms(2)] by (auto simp: stampEvent_def split: refreshEventType.splits)

lemma log_run:
  "log_ok s \<Longrightarrow> i < length (syRuns s) \<Longrightarrow>
    run_log (rnPhase (syRuns s ! i)) (refusedGen (syCoordinator s) (runGen (syRuns s ! i))) (evs (runGen (syRuns s ! i)) s)"
  unfolding log_ok_def by (meson nth_mem)

lemma log_transfer:
  assumes "log_ok s" "syLog s' = syLog s" "gens s' = gens s"
    and "\<And>r. r \<in> set (syRuns s') \<Longrightarrow> run_log (rnPhase r) (refusedGen (syCoordinator s') (runGen r)) (evs (runGen r) s)"
  shows "log_ok s'"
proof -
  have "evs g s' = evs g s" for g by (simp add: evs_def assms(2))
  then show ?thesis using assms unfolding log_ok_def by simp
qed

lemma log_setPhase:
  assumes "log_ok s" "i < length (syRuns s) \<Longrightarrow> run_log ph (refusedGen (syCoordinator s) (runGen (syRuns s ! i))) (evs (runGen (syRuns s ! i)) s)"
  shows "log_ok (setPhase i ph s)"
proof (rule log_transfer [OF assms(1)])
  fix r assume "r \<in> set (syRuns (setPhase i ph s))"
  then show "run_log (rnPhase r) (refusedGen (syCoordinator (setPhase i ph s)) (runGen r)) (evs (runGen r) s)"
    using assms unfolding log_ok_def by (auto dest!: set_setPhase)
qed simp_all

lemma setPhase_coordinator: "setPhase i ph (s\<lparr>syCoordinator := c\<rparr>) = (setPhase i ph s)\<lparr>syCoordinator := c\<rparr>"
  by (simp add: setPhase_def)

lemma log_coordinator:
  "log_ok s \<Longrightarrow> (\<And>g. refusedGen c g = refusedGen (syCoordinator s) g) \<Longrightarrow> log_ok (s\<lparr>syCoordinator := c\<rparr>)"
  by (simp add: log_ok_def)

lemma log_coarser:
  assumes "log_ok s" "syLog s' = syLog s" "syRuns s' = syRuns s"
    and more: "\<And>g. refusedGen (syCoordinator s) g \<Longrightarrow> refusedGen (syCoordinator s') g"
  shows "log_ok s'"
proof (rule log_transfer [OF assms(1,2)])
  fix r assume "r \<in> set (syRuns s')"
  then have "run_log (rnPhase r) (refusedGen (syCoordinator s) (runGen r)) (evs (runGen r) s)"
    using assms(1,3) by (simp add: log_ok_def)
  then show "run_log (rnPhase r) (refusedGen (syCoordinator s') (runGen r)) (evs (runGen r) s)"
    by (rule run_log_refused) (rule more)
qed (simp add: gens_def assms(3))

lemma log_step:
  assumes step: "streamStep lib s s'" and b: "base_ok s" and w: "noWrap s" and ok: "log_ok s"
  shows "log_ok s'"
  using step
proof (cases rule: step_kinds)
  case (began now prepare h)
  show ?thesis using b
  proof (cases rule: beginIn_cases [where fl = "slFloats lib" and now = now and prepare = prepare and w = h])
    case (refused seqs)
    then show ?thesis using ok began by (simp add: log_ok_def refusedGen_def)
  next
    case (begun r a c')
    have g: "gens s' = gens s @ [runGen r]" by (simp add: began gens_def begun)
    have new: "cdGeneration (syCoordinator s) < runGen r" using begun(14) w by blast
    have evs: "evs k s' = evs k s" for k by (simp add: evs_def began begun)
    have "runGen r \<notin> set (gens s)" using base_generation [OF b] new by fastforce
    then have "evs (runGen r) s = []" using ok by (auto simp: log_ok_def evs_def filter_empty_conv)
    then have newrun: "run_log (rnPhase r) x (evs (runGen r) s')" for x by (simp add: run_log_def evs begun)
    have old: "refusedGen (syCoordinator s') (runGen q)" if "q \<in> set (syRuns s)" for q
      using base_generation [OF b, of "runGen q"] that new by (auto simp: refusedGen_def began begun gens_def)
    have "\<forall>q \<in> set (syRuns s'). run_log (rnPhase q) (refusedGen (syCoordinator s') (runGen q)) (evs (runGen q) s')"
    proof
      fix q assume "q \<in> set (syRuns s')"
      then consider "q = r" | "q \<in> set (syRuns s)" by (auto simp: began begun)
      then show "run_log (rnPhase q) (refusedGen (syCoordinator s') (runGen q)) (evs (runGen q) s')"
      proof cases
        case 2
        then have "run_log (rnPhase q) (refusedGen (syCoordinator s) (runGen q)) (evs (runGen q) s)" using ok unfolding log_ok_def by blast
        then show ?thesis unfolding evs by (rule run_log_refused) (use old 2 in blast)
      qed (use newrun in simp)
    qed
    then show ?thesis using ok unfolding log_ok_def g by (auto simp: began begun)
  qed
next
  case (moved i ph)
  have "run_log ph (refusedGen (syCoordinator s) (runGen (syRuns s ! i))) (evs (runGen (syRuns s ! i)) s)"
    by (rule run_log_move [OF log_run [OF ok moved(1)]]) (use moved(2) in \<open>auto simp: moves_def split: runPhase.splits\<close>)
  then show ?thesis using log_setPhase [OF ok] unfolding moved(3) by blast
next
  case (emitted i ev ok' ph s1)
  let ?r = "syRuns s ! i"
  have ph: "rnPhase ?r \<noteq> Ended" using emitted(3) by (auto simp: emits_def)
  have run: "run_log (rnPhase ?r) (refusedGen (syCoordinator s) (runGen ?r)) (evs (runGen ?r) s)" by (rule log_run [OF ok emitted(1)])
  from b emitted(1) ph emitted(2) show ?thesis
  proof (cases rule: emit_kinds)
    case (silent c)
    have c: "refusedGen c g = refusedGen (syCoordinator s) g" for g by (simp add: refusedGen_def silent)
    have "run_log ph (refusedGen c (runGen ?r)) (evs (runGen ?r) s)"
    proof (cases "rnPhase ?r = AtStart")
      case True
      then have "ev = startEvent ?r \<and> ph = startPhase ?r" using emitted(3) by (simp add: emits_def)
      then have "evType ev = EvStart" by (simp add: startEvent_def plainEvent_def)
      then have "refusedGen c (runGen ?r)" "ph \<noteq> AtStart" using silent(8) emits_phases [OF emitted(3)]
        by (simp_all add: refusedGen_def)
      moreover have "evs (runGen ?r) s = []" using run True by (simp add: run_log_def)
      ultimately show ?thesis by (simp add: run_log_def)
    next
      case False
      show ?thesis unfolding c using run_log_move [OF run False] emits_phases [OF emitted(3)] by blast
    qed
    then have "log_ok (setPhase i ph s)" using log_setPhase [OF ok] c by simp
    then show ?thesis unfolding emitted(4) silent(2) setPhase_coordinator by (rule log_coordinator) (simp add: c)
  next
    case (spoken a ev1 ev2 p c)
    note ty = spoken_type [OF spoken(8,9)]
    have gen: "evGeneration ev2 = cdGeneration (syCoordinator s)" "runGen ?r = cdGeneration (syCoordinator s)"
      using ty(3) spoken(6,7) by simp_all
    have c: "refusedGen c g = refusedGen (syCoordinator s) g" for g by (simp add: refusedGen_def spoken)
    have "\<not> refusedGen (syCoordinator s) (runGen ?r)" using spoken(3,4) gen by (simp add: refusedGen_def)
    then have new: "run_log ph x (evs (runGen ?r) s @ [ev2])" for x
      using run_log_append [OF _ emitted(3) [unfolded spoken(1) [THEN eqTrueI]] ty(1,2)] run by simp
    have "\<forall>g \<in> set (gens s). g \<le> evGeneration ev2" using base_generation [OF b] gen by simp
    then have "sorted (map evGeneration (syLog s @ [ev2]))" using ok by (auto simp: log_ok_def sorted_append)
    moreover have "evGeneration ev2 \<in> set (gens s)" using gen emitted(1) by (metis gens_nth gens_length nth_mem)
    moreover have "\<forall>q \<in> set (syRuns s'). run_log (rnPhase q) (refusedGen (syCoordinator s') (runGen q)) (evs (runGen q) s')"
    proof
      fix q assume "q \<in> set (syRuns s')"
      then have "q \<in> set (syRuns (setPhase i ph s))" by (simp add: emitted(4) spoken(10) setPhase_def)
      then consider "q = ?r\<lparr>rnPhase := ph\<rparr>" | "q \<in> set (syRuns s)" "runGen q \<noteq> runGen ?r"
        using set_setPhase_other [OF b _ emitted(1)] by blast
      then show "run_log (rnPhase q) (refusedGen (syCoordinator s') (runGen q)) (evs (runGen q) s')"
      proof cases
        case 1
        then show ?thesis using new gen by (simp add: emitted(4) spoken(10))
      next
        case 2
        then show ?thesis using ok c gen by (auto simp: emitted(4) spoken(10) log_ok_def)
      qed
    qed
    ultimately show ?thesis using ok unfolding log_ok_def by (auto simp: emitted(4) spoken(10) gens_def [of "_\<lparr>syCoordinator := _, syLog := _\<rparr>"] gens_def [symmetric])
  qed
next
  case (finished i a now)
  have "run_log Ended (refusedGen (syCoordinator s) (runGen (syRuns s ! i))) (evs (runGen (syRuns s ! i)) s)"
    by (rule run_log_move [OF log_run [OF ok finished(1)]]) (simp_all add: finished(2))
  then have l: "log_ok (setPhase i Ended s)" by (rule log_setPhase [OF ok])
  show ?thesis unfolding finished(5)
    by (rule log_transfer [OF l]) (use l in \<open>simp_all add: log_ok_def refusedGen_def\<close>)
next
  case (closing now reason)
  show ?thesis unfolding closing(2) by (rule log_coarser [OF ok]) (simp_all add: refusedGen_def)
next
  case (quiet d n)
  show ?thesis unfolding quiet by (rule log_coarser [OF ok]) (auto simp: refusedGen_def)
qed

lemma log_initial: "log_ok (initial parentDone n)"
  by (simp add: log_ok_def initial_def)

lemma reach_log:
  assumes "streamReach lib s" "noWrap s"
  shows "log_ok s"
  by (rule reach_invariant [where P = log_ok, OF assms log_initial log_step])

section \<open>Data revisions\<close>

definition envelopeAt :: "int \<Rightarrow> int \<Rightarrow> 'a envelope \<Rightarrow> bool" where
  "envelopeAt r g en \<longleftrightarrow> enDataRevision en = r \<and> (\<forall>s \<in> set (enSelection en). drDataRevision (seDatum s) = r)
     \<and> (case enDataState en of
          InlineState (Some (st, ds)) \<Rightarrow> srDataRevision st = r \<and> srGeneration st = g \<and> (\<forall>d \<in> set ds. inDataRevision d = r \<and> inGeneration d = g)
        | WindowedState (Some (st, _)) \<Rightarrow> srDataRevision st = r \<and> srGeneration st = g
        | SpatialWindowedState (Some (st, _)) \<Rightarrow> srDataRevision st = r \<and> srGeneration st = g
        | _ \<Rightarrow> False)"

lemma WithStreamRevision_at:
  assumes "WithStreamRevision v en r g = Inr en'"
  shows "envelopeAt r g en' \<and> 0 \<le> r \<and> 0 \<le> g \<and> v en' = Inr ()"
  using assms by (auto simp: WithStreamRevision_def andThen_eq_Inr Let_def envelopeAt_def cloneInlineState_def
      split: if_splits dataState.splits option.splits prod.splits)

definition carriesData :: "'a refreshEvent \<Rightarrow> bool" where
  "carriesData e \<longleftrightarrow> evTarget e \<noteq> [] \<and> carriesVisualizationData (evType e)"

definition stamped :: "string \<Rightarrow> 'a streamSystem \<Rightarrow> 'a refreshEvent list" where
  "stamped t s = filter (\<lambda>e. carriesData e \<and> evTarget e = t) (syLog s)"

definition countUp :: "int \<Rightarrow> int list" where
  "countUp n = map int [1..<Suc (nat n)]"

definition revision_ok :: "'a streamSystem \<Rightarrow> bool" where
  "revision_ok s \<longleftrightarrow>
     (\<forall>t. let n = orZero (get (cdRevisions (syCoordinator s)) t) in 0 \<le> n \<and> n \<le> maxInt64 \<and> map evDataRevision (stamped t s) = countUp n)
     \<and> (\<forall>e \<in> set (syLog s). carriesData e \<longrightarrow> (\<exists>en. evValue e = EnvelopeValue en \<and> envelopeAt (evDataRevision e) (int (evGeneration e)) en))"

lemma countUp_Suc: "0 \<le> n \<Longrightarrow> countUp (n + 1) = countUp n @ [n + 1]"
  by (simp add: countUp_def nat_add_distrib)

lemma countUp_0 [simp]: "countUp 0 = []"
  by (simp add: countUp_def)

text \<open>What stamping an event does to the revisions.\<close>

lemma revise_cases:
  assumes "reviseEvent v g revs ev = (ev1, revs1)" "\<forall>t. 0 \<le> orZero (get revs t) \<and> orZero (get revs t) \<le> maxInt64"
  obtains (plain) "\<not> carriesData ev1" "revs1 = revs"
    | (data) en where "carriesData ev1" "evTarget ev1 = evTarget ev" "evDataRevision ev1 = orZero (get revs (evTarget ev)) + 1"
        "revs1 = put (evTarget ev) (evDataRevision ev1) revs" "evDataRevision ev1 \<le> maxInt64"
        "evValue ev1 = EnvelopeValue en" "envelopeAt (evDataRevision ev1) (int g) en"
proof (cases "carriesData ev \<and> int g \<le> maxInt64 \<and> (\<exists>en. evValue ev = EnvelopeValue en)")
  case False
  then have "\<not> carriesData ev1 \<and> revs1 = revs"
    using assms(1) by (auto simp: reviseEvent_def carriesData_def split: if_splits eventValue.splits)
  then show ?thesis using plain by simp
next
  case True
  then obtain en where en: "evValue ev = EnvelopeValue en" by blast
  let ?n = "orZero (get revs (evTarget ev))"
  show ?thesis
  proof (cases "WithStreamRevision v en (wrap64 (?n + 1)) (int g)")
    case (Inl e)
    then have "\<not> carriesData ev1 \<and> revs1 = revs"
      using assms(1) True en by (auto simp: reviseEvent_def carriesData_def Let_def)
    then show ?thesis using plain by simp
  next
    case (Inr en')
    note at = WithStreamRevision_at [OF Inr]
    have n: "0 \<le> ?n" "?n \<le> maxInt64" using assms(2) by blast+
    have "?n \<noteq> maxInt64"
    proof
      assume "?n = maxInt64"
      then have "wrap64 (?n + 1) < 0" by (simp add: wrap64_def)
      then show False using at by simp
    qed
    then have w: "wrap64 (?n + 1) = ?n + 1" "?n + 1 \<le> maxInt64" using n by (simp_all add: in64_def)
    have "ev1 = ev\<lparr>evDataRevision := ?n + 1, evValue := EnvelopeValue en'\<rparr>" "revs1 = put (evTarget ev) (?n + 1) revs"
      using assms(1) True en Inr w by (auto simp: reviseEvent_def carriesData_def Let_def)
    then show ?thesis using data [of en'] True at w by (simp add: carriesData_def)
  qed
qed

lemma revision_transfer:
  "revision_ok s \<Longrightarrow> syLog s' = syLog s \<Longrightarrow> cdRevisions (syCoordinator s') = cdRevisions (syCoordinator s) \<Longrightarrow> revision_ok s'"
  by (simp add: revision_ok_def stamped_def)

lemma revision_append:
  assumes ok: "revision_ok s" and log: "syLog s' = syLog s @ [e]"
    and e: "reviseEvent v g (cdRevisions (syCoordinator s)) ev = (ev1, cdRevisions (syCoordinator s'))"
    and same: "evType e = evType ev1" "evTarget e = evTarget ev1" "evValue e = evValue ev1" "evDataRevision e = evDataRevision ev1"
      "evGeneration e = g"
  shows "revision_ok s'"
proof -
  let ?R = "cdRevisions (syCoordinator s)"
  have b: "\<forall>t. 0 \<le> orZero (get ?R t) \<and> orZero (get ?R t) \<le> maxInt64" using ok by (simp add: revision_ok_def Let_def)
  have st: "stamped t s' = stamped t s @ (if carriesData e \<and> evTarget e = t then [e] else [])" for t
    by (simp add: stamped_def log)
  have c: "carriesData e \<longleftrightarrow> carriesData ev1" by (simp add: carriesData_def same)
  from e b show ?thesis
  proof (cases rule: revise_cases)
    case plain
    then show ?thesis using ok c st by (simp add: revision_ok_def log)
  next
    case (data en)
    have "map evDataRevision (stamped t s') = countUp (orZero (get (cdRevisions (syCoordinator s')) t))
        \<and> 0 \<le> orZero (get (cdRevisions (syCoordinator s')) t) \<and> orZero (get (cdRevisions (syCoordinator s')) t) \<le> maxInt64" for t
    proof (cases "t = evTarget ev")
      case True
      then have "orZero (get (cdRevisions (syCoordinator s')) t) = orZero (get ?R t) + 1" using data by (simp add: orZero_def)
      moreover have "map evDataRevision (stamped t s) = countUp (orZero (get ?R t))" using ok by (simp add: revision_ok_def Let_def)
      ultimately show ?thesis using True data b c same by (simp add: st countUp_Suc)
    next
      case False
      then show ?thesis using ok data c same by (simp add: st revision_ok_def Let_def)
    qed
    then show ?thesis using ok data c same unfolding revision_ok_def Let_def log by auto
  qed
qed

lemma revision_step:
  assumes step: "streamStep lib s s'" and b: "base_ok s" and ok: "revision_ok s"
  shows "revision_ok s'"
  using step
proof (cases rule: step_kinds)
  case (began now prepare h)
  show ?thesis using b
  proof (cases rule: beginIn_cases [where fl = "slFloats lib" and now = now and prepare = prepare and w = h])
    case (refused seqs)
    then show ?thesis unfolding began by (intro revision_transfer [OF ok]) simp_all
  next
    case (begun r a c')
    then show ?thesis unfolding began by (intro revision_transfer [OF ok]) simp_all
  qed
next
  case (emitted i ev ok' ph s1)
  have ph: "rnPhase (syRuns s ! i) \<noteq> Ended" using emits_phases [OF emitted(3)] by blast
  from b emitted(1) ph emitted(2) show ?thesis
  proof (cases rule: emit_kinds)
    case (silent c)
    then show ?thesis unfolding emitted(4) by (intro revision_transfer [OF ok]) simp_all
  next
    case (spoken a ev1 ev2 p c)
    have "evGeneration ev1 = rfGeneration (arRefresh a)" using revise_type(2) [OF spoken(8)] by (simp add: stampEvent_def)
    then have f: "evType ev2 = evType ev1" "evTarget ev2 = evTarget ev1" "evValue ev2 = evValue ev1"
      "evDataRevision ev2 = evDataRevision ev1" "evGeneration ev2 = rfGeneration (arRefresh a)"
      by (simp_all add: progress_fields [OF spoken(9)])
    have "syCoordinator s' = c" "syLog s' = syLog s @ [ev2]" by (simp_all add: emitted(4) spoken(10))
    then show ?thesis using revision_append [OF ok, of s' ev2] spoken(8) f by metis
  qed
qed (use ok in \<open>auto intro: revision_transfer\<close>)

lemma reach_revision:
  assumes "streamReach lib s" "noWrap s"
  shows "revision_ok s"
proof (rule reach_invariant [where P = revision_ok, OF assms])
  show "revision_ok (initial parentDone n)" for parentDone n
    by (simp add: revision_ok_def initial_def NewCoordinator_def orZero_def stamped_def)
qed (rule revision_step)

section \<open>Progress\<close>

definition reportsProgress :: "'a refreshEvent \<Rightarrow> bool" where
  "reportsProgress e \<longleftrightarrow> evType e = EvStart \<or> evType e = EvProgress \<or> evType e = EvComplete"

definition percents :: "'a refreshEvent list \<Rightarrow> goFloat option list" where
  "percents es = map evProgressPercent (filter reportsProgress es)"

definition rising :: "goFloat option list \<Rightarrow> rat \<Rightarrow> bool" where
  "rising ps x \<longleftrightarrow> (\<exists>xs. ps = map (\<lambda>y. Some (Finite y)) xs \<and> sorted xs \<and> (\<forall>y \<in> set xs. 0 \<le> y \<and> y \<le> x)) \<and> 0 \<le> x \<and> x \<le> 100"

definition atEnds :: "'a refreshEvent list \<Rightarrow> bool" where
  "atEnds es \<longleftrightarrow> (\<forall>e \<in> set es. (evType e = EvStart \<longrightarrow> evProgressPercent e = Some (Finite 0))
     \<and> (evType e = EvComplete \<longrightarrow> evProgressPercent e = Some (Finite 100)))"

definition progress_ok :: "'a streamSystem \<Rightarrow> bool" where
  "progress_ok s \<longleftrightarrow> (\<forall>g. rising (percents (evs g s)) 100 \<and> atEnds (evs g s))
     \<and> (\<forall>a. cdActive (syCoordinator s) = Some a \<longrightarrow> (\<exists>x. arProgressPercent a = Some (Finite x)
          \<and> rising (percents (evs (rfGeneration (arRefresh a)) s)) x \<and> (evs (rfGeneration (arRefresh a)) s = [] \<longrightarrow> x = 0)))"

lemma rising_mono:
  assumes "rising ps x" "x \<le> y" "y \<le> 100"
  shows "rising ps y"
proof -
  obtain xs where "ps = map (\<lambda>y. Some (Finite y)) xs" "sorted xs" "\<forall>z \<in> set xs. 0 \<le> z \<and> z \<le> x" "0 \<le> x"
    using assms(1) by (auto simp: rising_def)
  then show ?thesis using assms(2,3) unfolding rising_def
    by (intro conjI exI [of _ xs]) (auto intro: order_trans)
qed

lemma rising_append:
  assumes "rising ps x" "x \<le> y" "y \<le> 100"
  shows "rising (ps @ [Some (Finite y)]) y"
proof -
  obtain xs where xs: "ps = map (\<lambda>y. Some (Finite y)) xs" "sorted xs" "\<forall>z \<in> set xs. 0 \<le> z \<and> z \<le> x" "0 \<le> x"
    using assms(1) by (auto simp: rising_def)
  then show ?thesis unfolding rising_def using assms(2,3)
    by (intro conjI exI [of _ "xs @ [y]"]) (auto simp: sorted_append intro: order_trans)
qed

lemma Normalize_finite: "\<exists>y. NormalizeProgressPercent p loading = Some (Finite y) \<and> 0 \<le> y \<and> y \<le> 100"
proof (cases p)
  case (Some f)
  then show ?thesis by (cases f) (auto simp: NormalizeProgressPercent_def)
qed (simp add: NormalizeProgressPercent_def)

text \<open>One event: what it reports and where the progress goes.\<close>

lemma progress_event_rising:
  assumes "progressEvent ev (Some (Finite x)) = Some (ev2, p)" and r: "rising (percents es) x" and "atEnds es"
    and "evType ev = EvStart \<Longrightarrow> x = 0"
  shows "\<exists>y. p = Some (Finite y) \<and> rising (percents (es @ [ev2])) y \<and> atEnds (es @ [ev2])"
proof -
  have x: "0 \<le> x" "x \<le> 100" using r by (auto simp: rising_def)
  show ?thesis
  proof (cases "evType ev")
    case EvStart
    then show ?thesis using assms x rising_append [OF r order_refl]
      by (auto simp: progressEvent_def percents_def reportsProgress_def atEnds_def)
  next
    case EvProgress
    obtain y where y: "NormalizeProgressPercent (evProgressPercent ev) True = Some (Finite y)" "0 \<le> y" "y \<le> 100"
      using Normalize_finite by blast
    then have "x \<le> y" "ev2 = ev\<lparr>evProgressPercent := Some (Finite y)\<rparr>" "p = Some (Finite y)"
      using assms(1) EvProgress by (auto simp: progressEvent_def progressRegresses_def Let_def split: if_splits)
    then show ?thesis using rising_append [OF r _ y(3)] EvProgress assms(3)
      by (auto simp: percents_def reportsProgress_def atEnds_def)
  next
    case EvComplete
    then show ?thesis using assms rising_append [OF r x(2)]
      by (auto simp: progressEvent_def Let_def NormalizeProgressPercent_def percents_def reportsProgress_def atEnds_def)
  qed (use assms in \<open>auto simp: progressEvent_def percents_def reportsProgress_def atEnds_def\<close>)
qed

lemma progress_transfer:
  assumes "progress_ok s" "syLog s' = syLog s"
    and "\<And>a. cdActive (syCoordinator s') = Some a \<Longrightarrow> \<exists>b. cdActive (syCoordinator s) = Some b \<and> sameActive a b"
  shows "progress_ok s'"
proof -
  have "evs g s' = evs g s" for g by (simp add: evs_def assms(2))
  then show ?thesis using assms unfolding progress_ok_def sameActive_def by metis
qed

lemma sameActive_refl [simp]: "sameActive a a"
  by (simp add: sameActive_def)

lemma progress_step:
  assumes step: "streamStep lib s s'" and b: "base_ok s" and w: "noWrap s" and l: "log_ok s" and ok: "progress_ok s"
  shows "progress_ok s'"
  using step
proof (cases rule: step_kinds)
  case (began now prepare h)
  show ?thesis using b
  proof (cases rule: beginIn_cases [where fl = "slFloats lib" and now = now and prepare = prepare and w = h])
    case (refused seqs)
    then show ?thesis unfolding began by (intro progress_transfer [OF ok]) simp_all
  next
    case (begun r a c')
    have evs: "evs k s' = evs k s" for k by (simp add: evs_def began begun)
    have "runGen r \<notin> set (gens s)" using base_generation [OF b] begun(14) w by fastforce
    then have "evs (runGen r) s = []" using l by (auto simp: log_ok_def evs_def filter_empty_conv)
    moreover have "rising (percents []) 0" by (simp add: rising_def percents_def)
    ultimately show ?thesis using ok begun(4,10,11) unfolding progress_ok_def evs by (simp add: began freshActive_def)
  qed
next
  case (emitted i ev ok' ph s1)
  have ph: "rnPhase (syRuns s ! i) \<noteq> Ended" using emits_phases [OF emitted(3)] by blast
  from b emitted(1) ph emitted(2) show ?thesis
  proof (cases rule: emit_kinds)
    case (silent c)
    then show ?thesis unfolding emitted(4)
      by (intro progress_transfer [OF ok]) (auto simp: option_rel_Some1)
  next
    case (spoken a ev1 ev2 p c)
    let ?g = "rfGeneration (arRefresh a)"
    obtain x where x: "arProgressPercent a = Some (Finite x)" "rising (percents (evs ?g s)) x" "evs ?g s = [] \<Longrightarrow> x = 0"
      using ok spoken(5) unfolding progress_ok_def by blast
    have "evs ?g s = []" if "evType ev = EvStart"
    proof -
      have "rnPhase (syRuns s ! i) = AtStart"
        using emitted(3) that by (cases "rnPhase (syRuns s ! i)") (auto simp: emits_def completeEvent_def plainEvent_def)
      then show ?thesis using log_run [OF l emitted(1)] spoken(6) by (simp add: run_log_def)
    qed
    then have st: "evType (namedEvent (arRefresh a) ev1) = EvStart \<Longrightarrow> x = 0"
      using x(3) revise_type(1) [OF spoken(8)] by (auto simp: stampEvent_def)
    obtain y where y: "p = Some (Finite y)" "rising (percents (evs ?g s @ [ev2])) y" "atEnds (evs ?g s @ [ev2])"
      using progress_event_rising [OF spoken(9) [unfolded x(1)] x(2) _ st] ok by (auto simp: progress_ok_def)
    have gen: "evGeneration ev2 = ?g" using spoken_type(3) [OF spoken(8,9)] .
    have evs: "evs k s' = evs k s @ (if k = ?g then [ev2] else [])" for k by (simp add: emitted(4) spoken(10) gen)
    have "y \<le> 100" using y(2) by (simp add: rising_def)
    then have "rising (percents (evs k s')) 100 \<and> atEnds (evs k s')" for k
      using ok y(2,3) rising_mono [OF y(2)] by (cases "k = ?g") (auto simp: evs progress_ok_def)
    moreover have "syCoordinator s' = c" by (simp add: emitted(4) spoken(10))
    ultimately show ?thesis unfolding progress_ok_def using spoken(14) y by (auto simp: evs)
  qed
qed (use ok in \<open>auto intro: progress_transfer\<close>)

lemma reach_progress:
  assumes "streamReach lib s" "noWrap s"
  shows "progress_ok s"
proof (rule reach_invariant [where P = progress_ok, OF assms])
  show "progress_ok (initial parentDone n)" for parentDone n
    by (simp add: progress_ok_def initial_def NewCoordinator_def evs_def percents_def rising_def atEnds_def)
  show "progress_ok s'" if "streamReach lib s" "noWrap s" "base_ok s" "progress_ok s" "streamStep lib s s'" for s s'
    using progress_step [OF that(5,3,2) reach_log [OF that(1,2)] that(4)] .
qed

end
