(* ===== verification/Stream_Counts.thy ===== *)
theory Stream_Counts
  imports Stream_Log
begin

text \<open>
  Summaries: their counts are those of the published events, and the error of the completion event
  goes with their outcome.
\<close>

section \<open>Counts\<close>

definition succeeded :: "'a refreshEvent \<Rightarrow> bool" where
  "succeeded e \<longleftrightarrow> evType e = EvFilterOptions \<or> evType e = EvVisual"

definition targetFailed :: "'a refreshEvent \<Rightarrow> bool" where
  "targetFailed e \<longleftrightarrow> evType e = EvTargetError \<and> evTarget e \<noteq> ''refresh''"

definition refreshFailed :: "'a refreshEvent \<Rightarrow> bool" where
  "refreshFailed e \<longleftrightarrow> evType e = EvTargetError \<and> evTarget e = ''refresh''"

definition howMany :: "('a refreshEvent \<Rightarrow> bool) \<Rightarrow> 'a refreshEvent list \<Rightarrow> int" where
  "howMany P es = int (length (filter P es))"

definition counted :: "'a activeRefresh \<Rightarrow> 'a refreshEvent list \<Rightarrow> bool" where
  "counted a es \<longleftrightarrow> arTargetSuccesses a = howMany succeeded es \<and> arTargetErrors a = howMany targetFailed es
     \<and> (arFirstTargetErr a \<noteq> None \<longleftrightarrow> 0 < arTargetErrors a) \<and> (arSetupRequiredErr a \<noteq> None \<longrightarrow> 0 < arTargetErrors a)
     \<and> (arRefreshError a \<noteq> None \<longleftrightarrow> (\<exists>e \<in> set es. refreshFailed e))"

definition errorOf :: "'a activeRefresh \<Rightarrow> streamError option" where
  "errorOf a = (if arRefreshError a \<noteq> None then arRefreshError a
     else if arSetupRequiredErr a \<noteq> None then arSetupRequiredErr a
     else if arTargetErrors a > 0 \<and> arTargetSuccesses a = 0 then arFirstTargetErr a else None)"

definition completed :: "streamError option \<Rightarrow> 'a refreshEvent list \<Rightarrow> bool" where
  "completed err es \<longleftrightarrow> (\<exists>e \<in> set es. evType e = EvComplete \<and> evErr e = err)"

text \<open>The outcome a summary has to have, from the events of its refresh.\<close>

definition summarises :: "'a refreshEvent list \<Rightarrow> refreshSummary \<Rightarrow> bool" where
  "summarises es x \<longleftrightarrow> rsTargetSuccesses x = howMany succeeded es \<and> rsTargetErrors x = howMany targetFailed es
     \<and> (rsCancellationCount x = 1 \<and> rsOutcome x = ''canceled''
        \<or> rsCancellationCount x = 0 \<and> (\<exists>err. completed err es
            \<and> (if \<exists>e \<in> set es. refreshFailed e then rsOutcome x = ''error'' \<and> err \<noteq> None
               else if howMany targetFailed es = 0 then rsOutcome x = ''complete'' \<and> err = None
               else if howMany succeeded es = 0 then rsOutcome x = ''error'' \<and> err \<noteq> None
               else rsOutcome x = ''partial'')))"

definition ending :: "'a run \<Rightarrow> 'a activeRefresh \<Rightarrow> 'a refreshEvent list \<Rightarrow> bool" where
  "ending r a es \<longleftrightarrow> (\<forall>err. rnPhase r = AtComplete err \<longrightarrow> err = errorOf a) \<and> (rnPhase r = AtFinish \<longrightarrow> completed (errorOf a) es)"

definition count_ok :: "'a streamSystem \<Rightarrow> bool" where
  "count_ok s \<longleftrightarrow>
     (\<forall>a. cdActive (syCoordinator s) = Some a \<longrightarrow> counted a (evs (rfGeneration (arRefresh a)) s)
        \<and> (\<forall>r \<in> set (syRuns s). runGen r = rfGeneration (arRefresh a) \<longrightarrow> ending r a (evs (runGen r) s)))
     \<and> (\<forall>x \<in> set (sySummaries s). summarises (evs (rsGeneration x) s) x)"

lemma howMany_nonneg [simp]: "0 \<le> howMany P es"
  by (simp add: howMany_def)

lemma howMany_append: "howMany P (es @ [e]) = howMany P es + (if P e then 1 else 0)"
  by (simp add: howMany_def)

lemma same_counted: "sameActive a b \<Longrightarrow> counted a es = counted b es"
  by (simp add: sameActive_def counted_def)

lemma same_error: "sameActive a b \<Longrightarrow> errorOf a = errorOf b"
  by (simp add: sameActive_def errorOf_def)

lemma refreshError_errorOf: "cdActive c = Some a \<Longrightarrow> rfGeneration (arRefresh a) = rfGeneration r \<Longrightarrow> refreshError r c = errorOf a"
  by (simp add: refreshError_def errorOf_def)

lemma measure_counts [simp]:
  "arTargetSuccesses (measureEvent fl e a) = arTargetSuccesses a" "arTargetErrors (measureEvent fl e a) = arTargetErrors a"
  "arFirstTargetErr (measureEvent fl e a) = arFirstTargetErr a" "arSetupRequiredErr (measureEvent fl e a) = arSetupRequiredErr a"
  "arRefreshError (measureEvent fl e a) = arRefreshError a"
  by (simp_all add: measureEvent_def)

lemma query_counts [simp]:
  "arTargetSuccesses (countQueries e a) = arTargetSuccesses a" "arTargetErrors (countQueries e a) = arTargetErrors a"
  "arFirstTargetErr (countQueries e a) = arFirstTargetErr a" "arSetupRequiredErr (countQueries e a) = arSetupRequiredErr a"
  "arRefreshError (countQueries e a) = arRefreshError a"
  by (simp_all add: countQueries_def)

lemma counted_count:
  assumes "counted a es" "evType e = EvTargetError \<Longrightarrow> evErr e \<noteq> None"
    and b: "arTargetSuccesses b = arTargetSuccesses a" "arTargetErrors b = arTargetErrors a" "arFirstTargetErr b = arFirstTargetErr a"
      "arSetupRequiredErr b = arSetupRequiredErr a" "arRefreshError b = arRefreshError a"
  shows "counted (countEvent e b) (es @ [e])"
proof (cases "evType e")
  case EvTargetError
  then obtain err where err: "evErr e = Some err" using assms(2) by blast
  have nn: "0 \<le> arTargetErrors a" using assms(1) by (simp add: counted_def)
  show ?thesis
  proof (cases "evTarget e = ''refresh''")
    case True
    then show ?thesis using assms(1) b EvTargetError err
      by (auto simp: counted_def countEvent_def howMany_append succeeded_def targetFailed_def refreshFailed_def)
  next
    case False
    then have "counted (countEvent e b) (es @ [e]) \<longleftrightarrow> counted a es"
      using b EvTargetError err nn assms(1)
      by (auto simp: counted_def countEvent_def howMany_append succeeded_def targetFailed_def refreshFailed_def)
    then show ?thesis using assms(1) by simp
  qed
qed (use assms in \<open>auto simp: counted_def countEvent_def howMany_append succeeded_def targetFailed_def refreshFailed_def\<close>)

text \<open>The two kinds of summaries.\<close>

lemma summary_fields:
  "rsTargetSuccesses (summaryLocked fl now a oc n reason) = arTargetSuccesses a" "rsTargetErrors (summaryLocked fl now a oc n reason) = arTargetErrors a"
  "rsCancellationCount (summaryLocked fl now a oc n reason) = n"
  "rsOutcome (summaryLocked fl now a oc n reason) =
     (if oc = ''complete'' then
        (if arRefreshError a \<noteq> None then ''error'' else if arTargetErrors a > 0 \<and> arTargetSuccesses a > 0 then ''partial''
         else if arTargetErrors a > 0 then ''error'' else oc) else oc)"
  by (simp_all add: summaryLocked_def Let_def)

lemma canceled_summarises: "counted a es \<Longrightarrow> summarises es (summaryLocked fl now a ''canceled'' 1 reason)"
  by (simp add: summarises_def counted_def summary_fields)

lemma finished_summarises:
  assumes c: "counted a es" and e: "completed (errorOf a) es"
  shows "summarises es (summaryLocked fl now a ''complete'' 0 [])"
proof -
  have n: "0 < howMany succeeded es \<longleftrightarrow> howMany succeeded es \<noteq> 0" "0 < howMany targetFailed es \<longleftrightarrow> howMany targetFailed es \<noteq> 0"
    by (auto simp: howMany_def)
  have "\<exists>err. completed err es \<and> (if \<exists>e \<in> set es. refreshFailed e then rsOutcome (summaryLocked fl now a ''complete'' 0 []) = ''error'' \<and> err \<noteq> None
      else if howMany targetFailed es = 0 then rsOutcome (summaryLocked fl now a ''complete'' 0 []) = ''complete'' \<and> err = None
      else if howMany succeeded es = 0 then rsOutcome (summaryLocked fl now a ''complete'' 0 []) = ''error'' \<and> err \<noteq> None
      else rsOutcome (summaryLocked fl now a ''complete'' 0 []) = ''partial'')"
    using c by (intro exI [of _ "errorOf a"] conjI e) (auto simp: counted_def summary_fields errorOf_def n)
  then show ?thesis using c by (simp add: summarises_def summary_fields counted_def)
qed

section \<open>Every step keeps the counts\<close>

lemma count_transfer:
  assumes ok: "count_ok s" and log: "syLog s' = syLog s" and sums: "\<And>x. x \<in> set (sySummaries s') \<Longrightarrow> x \<in> set (sySummaries s)
      \<or> (\<exists>a. cdActive (syCoordinator s) = Some a \<and> rsGeneration x = rfGeneration (arRefresh a) \<and> summarises (evs (rfGeneration (arRefresh a)) s) x)"
    and act: "\<And>a. cdActive (syCoordinator s') = Some a \<Longrightarrow> \<exists>b. cdActive (syCoordinator s) = Some b \<and> sameActive a b"
    and runs: "\<And>r a. r \<in> set (syRuns s') \<Longrightarrow> cdActive (syCoordinator s) = Some a \<Longrightarrow> cdActive (syCoordinator s') \<noteq> None \<Longrightarrow>
      runGen r = rfGeneration (arRefresh a) \<Longrightarrow> ending r a (evs (runGen r) s)"
  shows "count_ok s'"
proof -
  have evs: "evs g s' = evs g s" for g by (simp add: evs_def log)
  show ?thesis
    unfolding count_ok_def evs
  proof (intro conjI allI ballI impI)
    fix a assume a: "cdActive (syCoordinator s') = Some a"
    then obtain b where b: "cdActive (syCoordinator s) = Some b" "sameActive a b" using act by blast
    then have r: "arRefresh a = arRefresh b" by (simp add: sameActive_def)
    show "counted a (evs (rfGeneration (arRefresh a)) s)" using ok b r same_counted by (metis count_ok_def)
    show "ending q a (evs (runGen q) s)" if "q \<in> set (syRuns s')" "runGen q = rfGeneration (arRefresh a)" for q
      using runs [OF that(1) b(1)] that a same_error [OF b(2)] r by (simp add: ending_def)
  next
    fix x assume "x \<in> set (sySummaries s')"
    then show "summarises (evs (rsGeneration x) s) x" using sums ok unfolding count_ok_def by metis
  qed
qed

lemma ending_other: "(\<forall>err. ph \<noteq> AtComplete err) \<Longrightarrow> ph \<noteq> AtFinish \<Longrightarrow> ending (r\<lparr>rnPhase := ph\<rparr>) a es"
  by (simp add: ending_def)

lemma count_ending:
  "count_ok s \<Longrightarrow> cdActive (syCoordinator s) = Some a \<Longrightarrow> r \<in> set (syRuns s) \<Longrightarrow> runGen r = rfGeneration (arRefresh a) \<Longrightarrow> ending r a (evs (runGen r) s)"
  unfolding count_ok_def by blast

lemma count_setPhase:
  assumes ok: "count_ok s"
    and new: "\<And>a. i < length (syRuns s) \<Longrightarrow> cdActive (syCoordinator s) = Some a \<Longrightarrow> runGen (syRuns s ! i) = rfGeneration (arRefresh a) \<Longrightarrow>
      ending ((syRuns s ! i)\<lparr>rnPhase := ph\<rparr>) a (evs (runGen (syRuns s ! i)) s)"
  shows "count_ok (setPhase i ph s)"
proof (rule count_transfer [OF ok])
  fix r a assume r: "r \<in> set (syRuns (setPhase i ph s))" "cdActive (syCoordinator s) = Some a" "runGen r = rfGeneration (arRefresh a)"
  from set_setPhase [OF r(1)] show "ending r a (evs (runGen r) s)"
    using new r(2,3) count_ending [OF ok r(2) _ r(3)] by auto
qed simp_all

lemma count_coordinator:
  assumes ok: "count_ok s" and "rel_option sameActive (cdActive c) (cdActive (syCoordinator s))"
  shows "count_ok (s\<lparr>syCoordinator := c\<rparr>)"
  by (rule count_transfer [OF ok]) (use assms(2) count_ending [OF ok] in \<open>auto simp: option_rel_Some1\<close>)

lemma count_silent:
  assumes ok: "count_ok s" and i: "i < length (syRuns s)" and em: "emits (syRuns s ! i) ev False ph"
    and c: "rel_option sameActive (cdActive c) (cdActive (syCoordinator s))"
  shows "count_ok (setPhase i ph (s\<lparr>syCoordinator := c\<rparr>))"
proof -
  have "(\<forall>err. ph \<noteq> AtComplete err) \<and> ph \<noteq> AtFinish"
    using em by (cases "rnPhase (syRuns s ! i)") (auto simp: emits_def startPhase_def)
  then have "count_ok (setPhase i ph s)" by (intro count_setPhase [OF ok] ending_other) simp_all
  then show ?thesis unfolding setPhase_coordinator by (rule count_coordinator) (simp add: c)
qed

lemma count_moved:
  assumes ok: "count_ok s" and i: "i < length (syRuns s)" and m: "moves (syRuns s ! i) (syCoordinator s) ph"
  shows "count_ok (setPhase i ph s)"
proof (rule count_setPhase [OF ok])
  fix a assume a: "cdActive (syCoordinator s) = Some a" "runGen (syRuns s ! i) = rfGeneration (arRefresh a)"
  show "ending ((syRuns s ! i)\<lparr>rnPhase := ph\<rparr>) a (evs (runGen (syRuns s ! i)) s)"
    using m refreshError_errorOf [OF a(1), of "rnRefresh (syRuns s ! i)"] a(2)
    by (cases "rnPhase (syRuns s ! i)") (auto simp: moves_def ending_def)
qed

lemma count_spoken:
  assumes b: "base_ok s" and ok: "count_ok s" and i: "i < length (syRuns s)" and em: "emits (syRuns s ! i) ev True ph"
    and a: "cdActive (syCoordinator s) = Some a" "arRefresh a = rnRefresh (syRuns s ! i)"
    and rev: "reviseEvent v (rfGeneration (arRefresh a)) R (stampEvent (arRefresh a) ev) = (ev1, R')"
    and prog: "progressEvent (namedEvent (arRefresh a) ev1) q = Some (ev2, p)"
    and c: "cdActive c = Some (countEvent ev2 (measureEvent fl ev2 ((countQueries (namedEvent (arRefresh a) ev1) a)\<lparr>arProgressPercent := p\<rparr>)))"
  shows "count_ok (setPhase i ph (s\<lparr>syCoordinator := c, syLog := syLog s @ [ev2]\<rparr>))"
proof -
  let ?g = "rfGeneration (arRefresh a)" and ?r = "syRuns s ! i" and ?s = "setPhase i ph (s\<lparr>syCoordinator := c, syLog := syLog s @ [ev2]\<rparr>)"
  let ?a = "countEvent ev2 (measureEvent fl ev2 ((countQueries (namedEvent (arRefresh a) ev1) a)\<lparr>arProgressPercent := p\<rparr>))"
  have gen: "evGeneration ev2 = ?g" using spoken_type(3) [OF rev prog] .
  have evs: "evs k ?s = evs k s @ (if k = ?g then [ev2] else [])" for k by (simp add: gen)
  have ty: "evType ev2 = evType ev1" "evErr ev2 = evErr ev1" using progress_fields [OF prog] by simp_all
  have "evType ev = EvTargetError \<Longrightarrow> evErr ev \<noteq> None"
    using em by (cases "rnPhase ?r") (auto simp: emits_def startEvent_def completeEvent_def plainEvent_def)
  then have err: "evType ev2 = EvTargetError \<Longrightarrow> evErr ev2 \<noteq> None"
    using revise_type(1,4) [OF rev] ty by (auto simp: stampEvent_def)
  have "counted a (evs ?g s)" using ok a(1) by (simp add: count_ok_def)
  then have cnt: "counted ?a (evs ?g s @ [ev2])" by (rule counted_count) (use err in simp_all)
  have "ending (?r\<lparr>rnPhase := ph\<rparr>) ?a (evs ?g s @ [ev2])"
  proof (cases "rnPhase ?r")
    case (AtComplete er)
    then have e: "ev = completeEvent er" "ph = AtFinish" using em by (simp_all add: emits_def)
    have "er = errorOf a" using count_ending [OF ok a(1), of ?r] i a(2) AtComplete by (simp add: ending_def)
    moreover have t: "evType ev1 = EvComplete \<and> evErr ev1 = er"
      using rev e by (simp add: revise_other stampEvent_def completeEvent_def plainEvent_def) (metis refreshEvent.select_convs(1,10) refreshEvent.simps(15))
    moreover have "errorOf ?a = errorOf a" using t ty by (simp add: errorOf_def countEvent_def)
    ultimately show ?thesis using e ty by (simp add: ending_def completed_def)
  qed (use em in \<open>auto simp: emits_def ending_def startPhase_def\<close>)
  then have "ending q ?a (evs ?g s @ [ev2])" if "q \<in> set (syRuns ?s)" "runGen q = ?g" for q
    using set_setPhase_other [OF b, of q i ph] that i a(2) by (auto simp: setPhase_def)
  moreover have "summarises (evs (rsGeneration x) ?s) x" if "x \<in> set (sySummaries s)" for x
  proof -
    have "rsGeneration x \<noteq> ?g"
    proof -
      have "distinct (gens s)" using b by (simp add: base_ok_def strict_sorted_iff)
      moreover have "map rsGeneration (sySummaries s) @ [?g] = gens s" using base_active [OF b a(1)] by blast
      ultimately have "distinct (map rsGeneration (sySummaries s) @ [?g])" by (simp only:)
      then have "?g \<notin> rsGeneration ` set (sySummaries s)" by simp
      then show ?thesis using that by (metis imageI)
    qed
    then show ?thesis using ok that by (simp add: gen count_ok_def)
  qed
  ultimately show ?thesis unfolding count_ok_def evs using cnt c by simp
qed

lemma count_step:
  assumes step: "streamStep lib s s'" and b: "base_ok s" and w: "noWrap s" and l: "log_ok s" and ok: "count_ok s"
  shows "count_ok s'"
  using step
proof (cases rule: step_kinds)
  case (began now prepare h)
  show ?thesis using b
  proof (cases rule: beginIn_cases [where fl = "slFloats lib" and now = now and prepare = prepare and w = h])
    case (refused seqs)
    then show ?thesis unfolding began by (simp add: count_coordinator [OF ok] option.rel_refl)
  next
    case (begun r a c')
    have evs: "evs k s' = evs k s" for k by (simp add: evs_def began begun)
    have new: "runGen r \<notin> set (gens s)" using base_generation [OF b] begun(14) w by fastforce
    then have e: "evs (runGen r) s = []" using l by (auto simp: log_ok_def evs_def filter_empty_conv)
    have other: "\<forall>q \<in> set (syRuns s). runGen q \<noteq> runGen r"
    proof
      fix q assume "q \<in> set (syRuns s)"
      then have "runGen q \<in> set (gens s)" by (simp add: gens_def)
      then show "runGen q \<noteq> runGen r" using new by metis
    qed
    have "counted a []" using begun(11) by (simp add: freshActive_def counted_def howMany_def)
    moreover have "ending r a []" by (simp add: ending_def begun)
    moreover have "summarises (evs (rsGeneration x) s) x" if "x \<in> set (sySummaries s')" for x
      using that ok unfolding began begun(5) count_ok_def
      by (auto simp: canceled_summarises split: option.splits)
    ultimately show ?thesis unfolding count_ok_def evs using begun(1,4,10,11) e other by (auto simp: began freshActive_def)
  qed
next
  case (moved i ph)
  then show ?thesis using count_moved [OF ok] by simp
next
  case (emitted i ev ok' ph s1)
  have ph: "rnPhase (syRuns s ! i) \<noteq> Ended" using emits_phases [OF emitted(3)] by blast
  from b emitted(1) ph emitted(2) show ?thesis
  proof (cases rule: emit_kinds)
    case (silent c)
    then show ?thesis using count_silent [OF ok emitted(1)] emitted(3,4) by simp
  next
    case (spoken a ev1 ev2 p c)
    show ?thesis unfolding emitted(4) spoken(10)
      by (rule count_spoken [OF b ok emitted(1) _ spoken(5,6,8,9,14)]) (use emitted(3) spoken(1) in simp)
  qed
next
  case (finished i a now)
  have "ending (syRuns s ! i) a (evs (runGen (syRuns s ! i)) s)" using count_ending [OF ok finished(3)] finished(1,4) by simp
  then have "completed (errorOf a) (evs (rfGeneration (arRefresh a)) s)" using finished(2,4) by (simp add: ending_def)
  moreover have "counted a (evs (rfGeneration (arRefresh a)) s)" using ok finished(3) by (simp add: count_ok_def)
  ultimately have "summarises (evs (rfGeneration (arRefresh a)) s) (summaryLocked (slFloats lib) now a ''complete'' 0 [])"
    by (intro finished_summarises)
  then show ?thesis unfolding finished(5) by (intro count_transfer [OF ok]) (auto simp: finished(3))
next
  case (closing now reason)
  have "\<And>a. cdActive (syCoordinator s) = Some a \<Longrightarrow> counted a (evs (rfGeneration (arRefresh a)) s)" using ok by (simp add: count_ok_def)
  then show ?thesis unfolding closing(2)
    by (cases "cdActive (syCoordinator s)"; intro count_transfer [OF ok]) (auto simp: canceled_summarises)
next
  case (quiet d n)
  show ?thesis unfolding quiet by (rule count_transfer [OF ok]) (use count_ending [OF ok] in auto)
qed

lemma reach_count:
  assumes "streamReach lib s" "noWrap s"
  shows "count_ok s"
proof (rule reach_invariant [where P = count_ok, OF assms])
  show "count_ok (initial parentDone n)" for parentDone n by (simp add: count_ok_def initial_def NewCoordinator_def)
  show "count_ok s'" if "streamReach lib s" "noWrap s" "base_ok s" "count_ok s" "streamStep lib s s'" for s s'
    using count_step [OF that(5,3,2) reach_log [OF that(1,2)] that(4)] .
qed

end
