(* ===== verification/Stream_Properties.thy ===== *)
theory Stream_Properties
  imports Stream_Counts
begin

text \<open>
  The page stream as a browser and an operator see it: the order of its events, the revisions of the
  data, the progress, the summaries, and when a refresh is refused. All but the last hold in every
  reachable system in which no refresh has the largest generation.
\<close>

section \<open>A small run\<close>

text \<open>One refresh that publishes a visual, completes and is summarised.\<close>

definition demoStreamLib :: "nat streamLib" where
  "demoStreamLib = \<lparr>slFloats = \<lparr>flAdd = (\<lambda>x _. x), flMillis = (\<lambda>_. Finite 0)\<rparr>, slValidate = (\<lambda>_. Inr ())\<rparr>"

definition demoEnvelope :: "nat envelope" where
  "demoEnvelope = \<lparr>enSchemaVersion = 3, enVisualID = ''v'', enRendererID = ''r'', enSpecRevision = [], enSpec = 0, enDataRevision = 0,
     enDataState = WindowedState (Some (\<lparr>srSpecRevision = [], srDataRevision = 0, srGeneration = 0\<rparr>, 0)), enSelection = [],
     enSpatialSelection = None, enStatus = 0, enDiagnostics = 0\<rparr>"

definition demoVisual :: "nat refreshEvent" where
  "demoVisual = (plainEvent EvVisual)\<lparr>evTarget := ''v'', evValue := EnvelopeValue demoEnvelope\<rparr>"

abbreviation demoRefresh :: "nat streamSystem \<Rightarrow> nat refresh" where
  "demoRefresh s \<equiv> rnRefresh (syRuns s ! 0)"

definition demoPrepare :: "nat filters \<Rightarrow> streamError + nat refreshPreparation" where
  "demoPrepare f = Inr \<lparr>rpFilters = f, rpCommand = ''load'', rpTargets = [''v''], rpSequenceKey = ''k'', rpSequence = 1,
     rpSequenceEpoch = 0, rpGeneration = 1\<rparr>"

definition demo1 :: "nat streamSystem" where
  "demo1 = beginIn (slFloats demoStreamLib) 0 (Some demoPrepare) True (initial False 0)"

definition demo2 :: "nat streamSystem" where
  "demo2 = setPhase 0 (startPhase (syRuns demo1 ! 0)) (snd (emitIn demoStreamLib (demoRefresh demo1) (startEvent (syRuns demo1 ! 0)) demo1))"

definition demo3 :: "nat streamSystem" where
  "demo3 = snd (emitIn demoStreamLib (demoRefresh demo2) demoVisual demo2)"

definition demo4 :: "nat streamSystem" where
  "demo4 = setPhase 0 (AtComplete None) (setPhase 0 AtError (setPhase 0 AtCheck demo3))"

definition demo5 :: "nat streamSystem" where
  "demo5 = setPhase 0 AtFinish (snd (emitIn demoStreamLib (demoRefresh demo4) (completeEvent None) demo4))"

definition demo6 :: "nat streamSystem" where
  "demo6 = (case finish (slFloats demoStreamLib) 0 (demoRefresh demo5) ''complete'' 0 (syCoordinator demo5) of
     (x, c) \<Rightarrow> setPhase 0 Ended (addSummary x (demo5\<lparr>syCoordinator := c\<rparr>)))"

lemma demo_phases:
  "length (syRuns demo1) = 1" "rnPhase (syRuns demo1 ! 0) = AtStart"
  "length (syRuns demo2) = 1" "rnPhase (syRuns demo2 ! 0) = AtWork"
  "length (syRuns demo3) = 1" "rnPhase (syRuns demo3 ! 0) = AtWork"
  "ctxErr (rnContext (syRuns demo3 ! 0)) (syCoordinator demo3) = False"
  "refreshError (demoRefresh demo3) (syCoordinator demo3) = None"
  "length (syRuns demo4) = 1" "rnPhase (syRuns demo4 ! 0) = AtComplete None"
  "fst (emitIn demoStreamLib (demoRefresh demo4) (completeEvent None) demo4) = True"
  "length (syRuns demo5) = 1" "rnPhase (syRuns demo5 ! 0) = AtFinish"
  by code_simp+

lemma demo_log:
  "map evType (syLog demo6) = [EvStart, EvVisual, EvComplete]" "gens demo6 = [1]" "map evDataRevision (stamped ''v'' demo6) = [1]"
  "map rsOutcome (sySummaries demo6) = [''complete'']" "cdActive (syCoordinator demo6) = None"
  "map evProgressPercent (syLog demo6) = [Some (Finite 0), None, Some (Finite 100)]"
  by code_simp+

lemma demo_reach: "streamReach demoStreamLib demo6"
proof -
  have 1: "streamReach demoStreamLib demo1"
    unfolding demo1_def initial_def by (rule srStep [OF srInit stBegin])
  have 2: "streamReach demoStreamLib demo2"
    unfolding demo2_def by (rule srStep [OF 1 stStart]) (simp_all add: demo_phases)
  have 3: "streamReach demoStreamLib demo3"
    unfolding demo3_def by (rule srStep [OF 2 stPublish]) (simp_all add: demo_phases demoVisual_def plainEvent_def)
  have c: "streamReach demoStreamLib (setPhase 0 AtCheck demo3)"
    by (rule srStep [OF 3 stWorked]) (simp_all add: demo_phases)
  have e: "streamReach demoStreamLib (setPhase 0 AtError (setPhase 0 AtCheck demo3))"
    using srStep [OF c stCheck [of 0]] by (simp add: demo_phases)
  have 4: "streamReach demoStreamLib demo4"
    unfolding demo4_def using srStep [OF e stError [of 0]] by (simp add: demo_phases)
  have 5: "streamReach demoStreamLib demo5"
  proof -
    obtain s' where s': "emitIn demoStreamLib (demoRefresh demo4) (completeEvent None) demo4 = (True, s')"
      using demo_phases(11) by (metis prod.collapse)
    show ?thesis using srStep [OF 4 stComplete [where i = 0 and err = None, OF _ _ s']] s' by (simp add: demo_phases demo5_def)
  qed
  obtain x c where f: "finish (slFloats demoStreamLib) 0 (demoRefresh demo5) ''complete'' 0 (syCoordinator demo5) = (x, c)"
    by (metis surj_pair)
  show ?thesis using srStep [OF 5 stFinish [where i = 0, OF _ _ f]] f by (simp add: demo_phases demo6_def)
qed

lemma demo_noWrap: "noWrap demo6"
  by (simp add: noWrap_def demo_log maxUint64_def)

section \<open>Order of events\<close>

lemma step_publishes:
  assumes step: "streamStep lib s s'" and b: "base_ok s"
  shows "\<exists>es. syLog s' = syLog s @ es \<and> length es \<le> 1
    \<and> (\<forall>e \<in> set es. evGeneration e = cdGeneration (syCoordinator s) \<and> \<not> cdClosed (syCoordinator s) \<and> \<not> cdDone (syCoordinator s))"
  using step
proof (cases rule: step_kinds)
  case (began now prepare h)
  show ?thesis using b
    by (cases rule: beginIn_cases [where fl = "slFloats lib" and now = now and prepare = prepare and w = h])
      (auto simp: began)
next
  case (emitted i ev ok' ph s1)
  have ph: "rnPhase (syRuns s ! i) \<noteq> Ended" using emits_phases [OF emitted(3)] by blast
  from b emitted(1) ph emitted(2) show ?thesis
  proof (cases rule: emit_kinds)
    case (spoken a ev1 ev2 p c)
    then show ?thesis using spoken_type(3) [OF spoken(8,9)] by (simp add: emitted(4))
  qed (simp add: emitted(4))
qed simp_all

text \<open>
  C29: A page never sees an event of a superseded refresh after one of a newer refresh. In every
  interleaving of refreshes, their work and closing, the published generations never go back; the
  events of one refresh begin with its only start event, and a completion is its last event; and a
  step publishes at most one event, of the current generation, and none once the stream is closed or
  its page is gone.
\<close>

theorem stream_shows_latest_only:
  assumes "streamReach lib s" and "noWrap s"
  shows "sorted (map evGeneration (syLog s))
    \<and> (\<forall>g. evs g s \<noteq> [] \<longrightarrow> g \<in> set (gens s) \<and> evType (hd (evs g s)) = EvStart \<and> EvStart \<notin> evType ` set (tl (evs g s))
         \<and> EvComplete \<notin> evType ` set (butlast (evs g s)))
    \<and> (\<forall>s'. streamStep lib s s' \<longrightarrow> (\<exists>es. syLog s' = syLog s @ es \<and> length es \<le> 1
         \<and> (\<forall>e \<in> set es. evGeneration e = cdGeneration (syCoordinator s) \<and> \<not> cdClosed (syCoordinator s) \<and> \<not> cdDone (syCoordinator s))))"
proof (intro conjI allI impI)
  have l: "log_ok s" by (rule reach_log [OF assms])
  then show "sorted (map evGeneration (syLog s))" by (simp add: log_ok_def)
  fix g assume e: "evs g s \<noteq> []"
  then have "\<exists>x \<in> set (syLog s). evGeneration x = g" by (auto simp: evs_def filter_empty_conv)
  then show g: "g \<in> set (gens s)" using l by (auto simp: log_ok_def)
  then obtain r where "r \<in> set (syRuns s)" "runGen r = g" by (auto simp: gens_def)
  then have "run_log (rnPhase r) (refusedGen (syCoordinator s) g) (evs g s)" using l by (auto simp: log_ok_def)
  moreover have "EvComplete \<notin> evType ` set (butlast (evs g s))" if "EvComplete \<notin> evType ` set (evs g s)"
    using that by (auto dest: in_set_butlastD)
  ultimately show "evType (hd (evs g s)) = EvStart" "EvStart \<notin> evType ` set (tl (evs g s))"
    "EvComplete \<notin> evType ` set (butlast (evs g s))"
    using e unfolding run_log_def by blast+
next
  fix s' assume "streamStep lib s s'"
  then show "\<exists>es. syLog s' = syLog s @ es \<and> length es \<le> 1
      \<and> (\<forall>e \<in> set es. evGeneration e = cdGeneration (syCoordinator s) \<and> \<not> cdClosed (syCoordinator s) \<and> \<not> cdDone (syCoordinator s))"
    by (rule step_publishes [OF _ reach_base [OF assms]])
qed

theorem stream_shows_latest_only_witness:
  "map evType (syLog demo6) = [EvStart, EvVisual, EvComplete] \<and> sorted (map evGeneration (syLog demo6))"
  using stream_shows_latest_only [OF demo_reach demo_noWrap] demo_log(1) by blast

section \<open>Summaries\<close>

text \<open>
  C30: Every refresh is summarised exactly once. The summaries are, in order, those of all refreshes but
  the active one, and of all when none is active, as after closing. Their counts of
  successes and errors are those of the published events; a summary is of a cancelled refresh, or of
  one whose completion was published, and then its outcome and the error of the completion event follow from
  the events: an error when the refresh itself failed or every counted target did, partial when some did,
  complete, without an error, when none did.
\<close>

theorem refresh_summarised_once:
  assumes "streamReach lib s" and "noWrap s"
  shows "map rsGeneration (sySummaries s) = (if cdActive (syCoordinator s) = None then gens s else butlast (gens s))
    \<and> distinct (gens s) \<and> (cdClosed (syCoordinator s) \<longrightarrow> map rsGeneration (sySummaries s) = gens s)
    \<and> (\<forall>x \<in> set (sySummaries s). summarises (evs (rsGeneration x) s) x)"
proof -
  have "base_ok s" "count_ok s" using reach_base reach_count assms by blast+
  then show ?thesis by (simp add: base_ok_def count_ok_def strict_sorted_iff)
qed

theorem refresh_summarised_once_witness:
  "map rsGeneration (sySummaries demo6) = [1] \<and> summarises (evs 1 demo6) (hd (sySummaries demo6))"
proof -
  have gens: "map rsGeneration (sySummaries demo6) = [1]"
    and all: "\<forall>x \<in> set (sySummaries demo6). summarises (evs (rsGeneration x) demo6) x"
    using refresh_summarised_once [OF demo_reach demo_noWrap] demo_log(2,5) by simp_all
  then obtain x where "sySummaries demo6 = [x]" "rsGeneration x = 1" by auto
  then show ?thesis using gens all by simp
qed

section \<open>Data revisions\<close>

text \<open>
  C31: The data revisions of a target count up from 1 without a gap through all refreshes of the page, and
  every published envelope carries its revision and generation in the envelope, in its data state and
  data sets, and its revision in the selection. Should the counter reach the largest 64-bit integer, the next
  envelope becomes an error and the revision stays.
\<close>

theorem data_revisions_count_up:
  assumes "streamReach lib s" and "noWrap s"
  shows "map evDataRevision (stamped t s) = map int [1..<Suc (length (stamped t s))]
    \<and> int (length (stamped t s)) = orZero (get (cdRevisions (syCoordinator s)) t) \<and> int (length (stamped t s)) \<le> maxInt64
    \<and> (\<forall>e \<in> set (stamped t s). \<exists>en. evValue e = EnvelopeValue en \<and> envelopeAt (evDataRevision e) (int (evGeneration e)) en)"
proof -
  let ?n = "orZero (get (cdRevisions (syCoordinator s)) t)"
  have ok: "revision_ok s" by (rule reach_revision [OF assms])
  then have n: "0 \<le> ?n" "?n \<le> maxInt64" and m: "map evDataRevision (stamped t s) = countUp ?n"
    by (simp_all add: revision_ok_def Let_def)
  have "length (map evDataRevision (stamped t s)) = length (countUp ?n)" by (simp only: m)
  then have "length (stamped t s) = nat ?n" by (simp add: countUp_def del: upt_Suc)
  then have l: "int (length (stamped t s)) = ?n" using n(1) by simp
  then have "map evDataRevision (stamped t s) = map int [1..<Suc (length (stamped t s))]"
    unfolding m countUp_def by (metis nat_int)
  moreover have "\<forall>e \<in> set (stamped t s). \<exists>en. evValue e = EnvelopeValue en \<and> envelopeAt (evDataRevision e) (int (evGeneration e)) en"
    using ok by (auto simp: revision_ok_def stamped_def)
  ultimately show ?thesis using l n(2) by simp
qed

theorem data_revisions_count_up_witness:
  "\<exists>e en. stamped ''v'' demo6 = [e] \<and> evDataRevision e = 1 \<and> evValue e = EnvelopeValue en
     \<and> envelopeAt 1 (int (evGeneration e)) en"
proof -
  note t = data_revisions_count_up [OF demo_reach demo_noWrap, of "''v''"]
  obtain e where e: "stamped ''v'' demo6 = [e]" "evDataRevision e = 1" using demo_log(3) by auto
  then obtain en where "evValue e = EnvelopeValue en" "envelopeAt (evDataRevision e) (int (evGeneration e)) en"
    using conjunct2 [OF conjunct2 [OF conjunct2 [OF t]]] by auto
  with e show ?thesis by auto
qed

section \<open>Progress\<close>

text \<open>
  C32: The progress a page sees never goes back. The progress reported by the start, progress and
  completion events of a refresh is a number from 0 to 100, whatever the work reports, each at least the one before; it
  starts at 0 and a completion reports 100.
\<close>

theorem progress_never_regresses:
  assumes "streamReach lib s" and "noWrap s"
  shows "(\<exists>xs. percents (evs g s) = map (\<lambda>x. Some (Finite x)) xs \<and> sorted xs \<and> (\<forall>x \<in> set xs. 0 \<le> x \<and> x \<le> 100))
    \<and> (\<forall>e \<in> set (evs g s). (evType e = EvStart \<longrightarrow> evProgressPercent e = Some (Finite 0))
         \<and> (evType e = EvComplete \<longrightarrow> evProgressPercent e = Some (Finite 100)))"
  using reach_progress [OF assms] unfolding progress_ok_def rising_def atEnds_def by blast

theorem progress_never_regresses_witness:
  "\<exists>xs. percents (evs 1 demo6) = map (\<lambda>x. Some (Finite x)) xs \<and> sorted xs \<and> set xs \<subseteq> {0..100}"
  using conjunct1 [OF progress_never_regresses [OF demo_reach demo_noWrap, of 1]] by (force simp: subset_iff)

section \<open>Refusals\<close>

definition freshSequence :: "'a refreshPreparation \<Rightarrow> preparationSequence goMap \<Rightarrow> bool" where
  "freshSequence p seqs \<longleftrightarrow> rpSequenceKey p = [] \<or> 0 < rpSequence p \<and> 0 \<le> rpSequenceEpoch p
     \<and> (\<forall>q \<in> set_option (get seqs (rpSequenceKey p)). psEpoch q < rpSequenceEpoch p
          \<or> psEpoch q = rpSequenceEpoch p \<and> psSequence q < rpSequence p)"

lemma sequenceGuard_fresh:
  "(\<exists>seqs'. sequenceGuard p seqs = Inr seqs') \<longleftrightarrow> freshSequence p seqs"
  by (auto simp: sequenceGuard_def freshSequence_def split: option.splits)

text \<open>
  C33: A prepared refresh begins exactly when the stream is open, the preparation succeeds, its
  sequence number is unused -- after every number begun under its key, first by epoch -- and its
  generation, if it brings one, is ahead. A refusal leaves the running refresh, the filters and the
  revisions alone; only a generation that is behind uses up its sequence number, so that the same
  preparation is stale afterwards.
\<close>

theorem begin_refusals_exact:
  "((\<exists>b. fst (beginLocked fl now n (Some f) c) = Inr b) \<longleftrightarrow> \<not> cdClosed c \<and> (\<exists>p. f (cloneFilters (cdFilters c)) = Inr p
       \<and> freshSequence p (cdSequences c) \<and> (rpGeneration p = 0 \<or> cdGeneration c < rpGeneration p)))
   \<and> ((\<exists>e. fst (beginLocked fl now n (Some f) c) = Inl e) \<longrightarrow> snd (beginLocked fl now n (Some f) c) = c
       \<or> (\<exists>p seqs. f (cloneFilters (cdFilters c)) = Inr p \<and> sequenceGuard p (cdSequences c) = Inr seqs
            \<and> fst (beginLocked fl now n (Some f) c) = Inl (GenerationBehind (rpGeneration p) (cdGeneration c))
            \<and> snd (beginLocked fl now n (Some f) c) = c\<lparr>cdSequences := seqs\<rparr>
            \<and> (rpSequenceKey p = [] \<or> fst (beginLocked fl now n (Some (\<lambda>_. Inr p)) (c\<lparr>cdSequences := seqs\<rparr>)) = Inl StalePreparation)))"
proof (cases "cdClosed c")
  case True
  then show ?thesis by (simp add: beginLocked_def refuse_def)
next
  case False
  show ?thesis
  proof (cases "f (cloneFilters (cdFilters c))")
    case (Inl e)
    then show ?thesis using False by (simp add: beginLocked_def refuse_def)
  next
    case f: (Inr p)
    show ?thesis
    proof (cases "sequenceGuard p (cdSequences c)")
      case (Inl e)
      then have "\<not> freshSequence p (cdSequences c)" using sequenceGuard_fresh [of p "cdSequences c"] by simp
      then show ?thesis using Inl f False by (simp add: beginLocked_def refuse_def)
    next
      case seqs: (Inr seqs)
      then have fresh: "freshSequence p (cdSequences c)" using sequenceGuard_fresh [of p "cdSequences c"] by blast
      have stale: "sequenceGuard p seqs = Inl StalePreparation" if "rpSequenceKey p \<noteq> []"
        using seqs that by (auto simp: sequenceGuard_def split: if_splits option.splits)
      show ?thesis
      proof (cases "0 < rpGeneration p \<and> rpGeneration p \<le> cdGeneration c")
        case True
        then have "beginLocked fl now n (Some f) c = (Inl (GenerationBehind (rpGeneration p) (cdGeneration c)), c\<lparr>cdSequences := seqs\<rparr>)"
          using False f seqs by (simp add: beginLocked_def refuse_def Let_def)
        moreover have "fst (beginLocked fl now n (Some (\<lambda>_. Inr p)) (c\<lparr>cdSequences := seqs\<rparr>)) = Inl StalePreparation" if "rpSequenceKey p \<noteq> []"
          using stale [OF that] False by (simp add: beginLocked_def refuse_def)
        ultimately show ?thesis using True f seqs by auto
      next
        case ahead: False
        then have "\<exists>b. fst (beginLocked fl now n (Some f) c) = Inr b" using False f seqs by (auto simp: beginLocked_def refuse_def Let_def)
        then show ?thesis using False f fresh ahead by (auto simp: not_le)
      qed
    qed
  qed
qed

theorem begin_refusals_exact_witness:
  "\<exists>b. fst (beginLocked (slFloats demoStreamLib) 0 1 (Some demoPrepare) (NewCoordinator False)) = Inr b"
  using conjunct1 [OF begin_refusals_exact [of "slFloats demoStreamLib" 0 1 demoPrepare "NewCoordinator False"]]
  by (simp add: NewCoordinator_def demoPrepare_def freshSequence_def)

end
