(* ===== verification/Access_Types.thy ===== *)
theory Access_Types
  imports Manifest_JSON "HOL-Library.AList"
begin

text \<open>
  The vocabulary of access control (\<^verbatim>\<open>internal/access/access.go\<close>): privileges, roles and the objects
  that can be secured, named as the strings the program uses; the decisions of the authorizer with
  the cache of one request (\<^verbatim>\<open>authorization_cache.go\<close>). \<open>sha256.Sum256\<close> is an argument.
\<close>

section \<open>Privileges and roles\<close>

definition KnownPrivileges :: "string list" where
  "KnownPrivileges = [''USE_WORKSPACE'', ''VIEW_ITEM'', ''EDIT_ITEM'', ''MANAGE_ITEM'', ''QUERY_DATA'', ''PREVIEW_DATA'',
     ''REFRESH_DATA'', ''DEPLOY'', ''ACTIVATE_DEPLOYMENT'', ''MANAGE_PUBLICATIONS'', ''USE_AGENT'', ''VIEW_AGENT'',
     ''MANAGE_GRANTS'', ''VIEW_AUDIT'', ''MANAGE_WORKSPACE'', ''MANAGE_PLATFORM'', ''VIEW_DATA'', ''INGEST_DATA'']"

definition ParsePrivilege :: "string \<Rightarrow> string option" where
  "ParsePrivilege value =
     (let privilege = trimSpace value in
      if privilege \<in> set [''USE_WORKSPACE'', ''VIEW_ITEM'', ''EDIT_ITEM'', ''MANAGE_ITEM'', ''QUERY_DATA'', ''PREVIEW_DATA'',
           ''REFRESH_DATA'', ''DEPLOY'', ''ACTIVATE_DEPLOYMENT'', ''MANAGE_PUBLICATIONS'', ''USE_AGENT'', ''VIEW_AGENT'',
           ''MANAGE_GRANTS'', ''VIEW_AUDIT'', ''MANAGE_WORKSPACE'', ''MANAGE_PLATFORM'', ''VIEW_DATA'', ''INGEST_DATA'']
      then Some privilege else None)"

definition DefaultRoles :: "string list goMap" where
  "DefaultRoles =
    [(''owner'', [''USE_WORKSPACE'', ''VIEW_ITEM'', ''EDIT_ITEM'', ''MANAGE_ITEM'', ''QUERY_DATA'', ''PREVIEW_DATA'',
        ''REFRESH_DATA'', ''DEPLOY'', ''ACTIVATE_DEPLOYMENT'', ''MANAGE_PUBLICATIONS'', ''USE_AGENT'', ''VIEW_AGENT'',
        ''MANAGE_GRANTS'', ''VIEW_AUDIT'', ''MANAGE_WORKSPACE'']),
     (''admin'', [''USE_WORKSPACE'', ''VIEW_ITEM'', ''EDIT_ITEM'', ''MANAGE_ITEM'', ''QUERY_DATA'', ''PREVIEW_DATA'',
        ''REFRESH_DATA'', ''DEPLOY'', ''ACTIVATE_DEPLOYMENT'', ''MANAGE_PUBLICATIONS'', ''USE_AGENT'', ''VIEW_AGENT'',
        ''MANAGE_GRANTS'', ''VIEW_AUDIT'', ''MANAGE_WORKSPACE'']),
     (''deployer'', [''USE_WORKSPACE'', ''VIEW_ITEM'', ''QUERY_DATA'', ''REFRESH_DATA'', ''DEPLOY'', ''ACTIVATE_DEPLOYMENT'']),
     (''contributor'', [''USE_WORKSPACE'', ''VIEW_ITEM'', ''EDIT_ITEM'', ''QUERY_DATA'', ''REFRESH_DATA'', ''DEPLOY'',
        ''USE_AGENT'', ''VIEW_AGENT'']),
     (''editor'', [''USE_WORKSPACE'', ''VIEW_ITEM'', ''EDIT_ITEM'', ''QUERY_DATA'', ''REFRESH_DATA'', ''USE_AGENT'', ''VIEW_AGENT'']),
     (''member'', [''USE_WORKSPACE'', ''VIEW_ITEM'', ''EDIT_ITEM'', ''MANAGE_ITEM'', ''QUERY_DATA'', ''REFRESH_DATA'', ''DEPLOY'',
        ''USE_AGENT'', ''VIEW_AGENT'']),
     (''viewer'', [''USE_WORKSPACE'', ''VIEW_ITEM'', ''QUERY_DATA'', ''USE_AGENT'', ''VIEW_AGENT'']),
     (''data_deployer'', [''VIEW_DATA'', ''INGEST_DATA'']),
     (''platform_admin'', [''MANAGE_PLATFORM'', ''VIEW_DATA'', ''INGEST_DATA'', ''USE_WORKSPACE'', ''VIEW_ITEM'', ''EDIT_ITEM'',
        ''MANAGE_ITEM'', ''QUERY_DATA'', ''PREVIEW_DATA'', ''REFRESH_DATA'', ''DEPLOY'', ''ACTIVATE_DEPLOYMENT'',
        ''MANAGE_PUBLICATIONS'', ''USE_AGENT'', ''VIEW_AGENT'', ''MANAGE_GRANTS'', ''VIEW_AUDIT'', ''MANAGE_WORKSPACE''])]"

section \<open>Objects\<close>

record objectRef =
  obType :: string
  obWorkspace :: string
  obID :: string
  obParent :: string
  obName :: string

definition PlatformObject :: objectRef where
  "PlatformObject = \<lparr>obType = ''platform'', obWorkspace = [], obID = [], obParent = [], obName = []\<rparr>"

definition WorkspaceObject :: "string \<Rightarrow> objectRef" where
  "WorkspaceObject workspaceID =
     \<lparr>obType = ''workspace'', obWorkspace = trimSpace workspaceID, obID = [], obParent = [], obName = []\<rparr>"

definition ItemObject :: "string \<Rightarrow> string \<Rightarrow> string \<Rightarrow> objectRef" where
  "ItemObject typ workspaceID objectID =
     \<lparr>obType = typ, obWorkspace = trimSpace workspaceID, obID = trimSpace objectID, obParent = [], obName = []\<rparr>"

definition CanonicalID :: "objectRef \<Rightarrow> string" where
  "CanonicalID r =
     (if obType r = ''platform'' then ''platform''
      else if obType r = ''workspace'' then ''workspace:'' @ obWorkspace r
      else obType r @ '':'' @ obWorkspace r @ '':'' @ obID r)"

definition ItemObjectWithParent :: "string \<Rightarrow> string \<Rightarrow> string \<Rightarrow> objectRef \<Rightarrow> objectRef" where
  "ItemObjectWithParent typ workspaceID objectID parent = (ItemObject typ workspaceID objectID)\<lparr>obParent := CanonicalID parent\<rparr>"

definition parentOf :: "objectRef \<Rightarrow> objectRef option" where
  "parentOf r =
     (if obType r = ''platform'' then None
      else if obType r = ''workspace'' then Some PlatformObject
      else Some (WorkspaceObject (obWorkspace r)))"

lemma CanonicalID_nonempty [simp]: "CanonicalID r \<noteq> []"
  by (simp add: CanonicalID_def)

section \<open>Subjects\<close>

definition DashboardPublicationSubjectID :: "string \<Rightarrow> string \<Rightarrow> string" where
  "DashboardPublicationSubjectID workspaceID publication =
     ''dashboard_publication:'' @ trimSpace workspaceID @ ''.'' @ trimSpace publication"

definition NormalizeEmail :: "string \<Rightarrow> string" where
  "NormalizeEmail email = toLower (trimSpace email)"

definition stableID :: "(string \<Rightarrow> string) \<Rightarrow> string \<Rightarrow> string" where
  "stableID sha256 value = take 32 (hexEncode (sha256 (toLower value)))"

definition PrincipalIDForEmail :: "(string \<Rightarrow> string) \<Rightarrow> string \<Rightarrow> string" where
  "PrincipalIDForEmail sha256 email = ''email_'' @ stableID sha256 (NormalizeEmail email)"

section \<open>Decisions and their cache\<close>

datatype authReason = NoReason | MissingPrincipal | MissingPrivilege | PrincipalDisabled | UnknownObject | OwnerReason
  | PlatformAdminReason | GrantReason | NoGrant | MissingObject

record authDecision =
  azAllowed :: bool
  azPrivilege :: string
  azObject :: objectRef
  azReason :: authReason
  azGrantID :: string
  azGrantObject :: string
  azSubjectType :: string
  azSubject :: string
  azInherited :: bool
  azOwner :: bool
  azPlatform :: bool

definition noObject :: objectRef where
  "noObject = \<lparr>obType = [], obWorkspace = [], obID = [], obParent = [], obName = []\<rparr>"

definition newDecision :: "string \<Rightarrow> objectRef \<Rightarrow> authDecision" where
  "newDecision privilege object =
     \<lparr>azAllowed = False, azPrivilege = privilege, azObject = object, azReason = NoReason, azGrantID = [], azGrantObject = [],
      azSubjectType = [], azSubject = [], azInherited = False, azOwner = False, azPlatform = False\<rparr>"

text \<open>The cache that a request's context carries; \<open>None\<close> when the context has none.\<close>

type_synonym authCache = "((string \<times> string \<times> string) \<times> authDecision) list option"

definition CachedAuthorizationDecision :: "authCache \<Rightarrow> string \<Rightarrow> string \<Rightarrow> objectRef \<Rightarrow> authDecision option" where
  "CachedAuthorizationDecision cache principalID privilege object =
     (case cache of None \<Rightarrow> None | Some m \<Rightarrow> map_of m (principalID, privilege, CanonicalID object))"

definition StoreAuthorizationDecision :: "string \<Rightarrow> authDecision \<Rightarrow> authCache \<Rightarrow> authCache" where
  "StoreAuthorizationDecision principalID decision cache =
     map_option (AList.update (principalID, azPrivilege decision, CanonicalID (azObject decision)) decision) cache"

definition ClearAuthorizationCache :: "authCache \<Rightarrow> authCache" where
  "ClearAuthorizationCache cache = map_option (\<lambda>_. []) cache"

definition WithAuthorizationCache :: "authCache \<Rightarrow> authCache" where
  "WithAuthorizationCache cache = (case cache of None \<Rightarrow> Some [] | Some m \<Rightarrow> Some m)"

end
