(* ===== verification/Access_Store.thy ===== *)
theory Access_Store
  imports Access_Types
begin

text \<open>
  The tables of access control and the operations on them (\<^verbatim>\<open>internal/access/sqlite/authorization.go\<close>,
  \<^verbatim>\<open>roles.go\<close>, \<^verbatim>\<open>api_symmetry.go\<close>, \<^verbatim>\<open>identity.go\<close>, with the queries of
  \<^verbatim>\<open>internal/platform/db/queries/access.sql\<close>). A table is the list of its rows, or a map when it is only
  read by its primary key. A query is a function of the tables, an update returns the new tables or the
  violated constraint. A failing disk or connection and the columns that only carry times are left out.
\<close>

section \<open>Tables\<close>

record objectRow =
  orType :: string
  orWorkspace :: string
  orParent :: string
  orOwner :: string
  orName :: string

record grantRow =
  grID :: string
  grObject :: string
  grSubjectType :: string
  grSubject :: string
  grPrivilege :: string

record bindingRow =
  rbID :: string
  rbWorkspace :: string
  rbRole :: string
  rbPrincipal :: "string option"
  rbGroup :: "string option"

record principalRow =
  prKind :: string
  prEmail :: string
  prName :: string
  prDisabled :: bool

record policyRow =
  dpID :: string
  dpWorkspace :: string
  dpObject :: string
  dpSubjectType :: string
  dpSubject :: string
  dpType :: string
  dpExpression :: string

text \<open>A role is known by its name; \<open>dbTemplates\<close> is \<open>role_grant_templates\<close>. A platform binding has its id, role and principal.\<close>

record accessDB =
  dbObjects :: "objectRow goMap"
  dbGrants :: "grantRow list"
  dbMembers :: "(string \<times> string \<times> string) list"
  dbPrincipals :: "principalRow goMap"
  dbWorkspaces :: "string list"
  dbGroups :: "string list"
  dbRoles :: "string list"
  dbTemplates :: "string list goMap"
  dbBindings :: "bindingRow list"
  dbPlatformBindings :: "(string \<times> string \<times> string) list"
  dbPolicies :: "policyRow list"

definition noRows :: goError where
  "noRows = Errorf ''sql: no rows in result set'' []"

definition constraintFailed :: goError where
  "constraintFailed = Errorf ''constraint failed'' []"

section \<open>Operations\<close>

record accessState =
  asDB :: accessDB
  asCache :: authCache

type_synonym 'a accessOp = "accessState \<Rightarrow> (goError + 'a) \<times> accessState"

definition giveA :: "'a \<Rightarrow> 'a accessOp" where
  "giveA x s = (Inr x, s)"

definition failA :: "goError \<Rightarrow> 'a accessOp" where
  "failA e s = (Inl e, s)"

definition thenA :: "'a accessOp \<Rightarrow> ('a \<Rightarrow> 'b accessOp) \<Rightarrow> 'b accessOp" where
  "thenA m f s = (case m s of (Inl e, s') \<Rightarrow> (Inl e, s') | (Inr x, s') \<Rightarrow> f x s')"

definition readA :: "(accessDB \<Rightarrow> goError + 'a) \<Rightarrow> 'a accessOp" where
  "readA f s = (f (asDB s), s)"

definition writeA :: "(accessDB \<Rightarrow> goError + accessDB) \<Rightarrow> unit accessOp" where
  "writeA f s = (case f (asDB s) of Inl e \<Rightarrow> (Inl e, s) | Inr db \<Rightarrow> (Inr (), s\<lparr>asDB := db\<rparr>))"

definition guardA :: "bool \<Rightarrow> goError \<Rightarrow> unit accessOp" where
  "guardA b e = (if b then failA e else giveA ())"

definition clearA :: "unit accessOp" where
  "clearA s = (Inr (), s\<lparr>asCache := ClearAuthorizationCache (asCache s)\<rparr>)"

fun eachA :: "('a \<Rightarrow> unit accessOp) \<Rightarrow> 'a list \<Rightarrow> unit accessOp" where
  "eachA f [] = giveA ()"
| "eachA f (x # xs) = thenA (f x) (\<lambda>_. eachA f xs)"

section \<open>Securable objects\<close>

definition lookupSecurableObjectID :: "accessDB \<Rightarrow> objectRef \<Rightarrow> goError + string option" where
  "lookupSecurableObjectID db object =
     (if trimSpace (CanonicalID object) = [] then Inl (Errorf ''securable object id is required'' [])
      else Inr (if hasKey (dbObjects db) (CanonicalID object) then Some (CanonicalID object) else None))"

definition objectOwner :: "accessDB \<Rightarrow> string \<Rightarrow> string" where
  "objectOwner db objectID = (case get (dbObjects db) objectID of None \<Rightarrow> [] | Some row \<Rightarrow> orOwner row)"

text \<open>The loop up the parents; \<open>ids\<close> are the objects passed, which are also the set \<open>seen\<close>.\<close>

function ancestryFrom :: "accessDB \<Rightarrow> string list \<Rightarrow> string \<Rightarrow> goError + string list" where
  "ancestryFrom db ids current =
     (if current = [] then Inr ids
      else if current \<in> set ids then Inl (Errorf ''securable object parent cycle at %q'' [Arg current])
      else case get (dbObjects db) current of
        None \<Rightarrow> Inr (ids @ [current])
      | Some row \<Rightarrow> ancestryFrom db (ids @ [current]) (orParent row))"
  by pat_completeness auto
termination
  by (relation "measure (\<lambda>(db, ids, _). card (fst ` set (dbObjects db) - set ids))")
    (auto intro!: psubset_card_mono dest!: map_of_SomeD simp: rev_image_eqI)

declare ancestryFrom.simps [simp del]

definition objectAncestry :: "accessDB \<Rightarrow> string \<Rightarrow> goError + string list" where
  "objectAncestry db objectID = ancestryFrom db [] objectID"

definition objectDisplayName :: "objectRef \<Rightarrow> string" where
  "objectDisplayName object =
     (if trimSpace (obName object) \<noteq> [] then trimSpace (obName object)
      else if obID object \<noteq> [] then obID object
      else if obWorkspace object \<noteq> [] then obWorkspace object
      else obType object)"

definition upsertObjectRow :: "string \<Rightarrow> objectRef \<Rightarrow> string \<Rightarrow> accessDB \<Rightarrow> accessDB" where
  "upsertObjectRow objectID object parentID db =
     db\<lparr>dbObjects := put objectID
       (case get (dbObjects db) objectID of
          None \<Rightarrow> \<lparr>orType = obType object, orWorkspace = obWorkspace object, orParent = parentID, orOwner = [],
                   orName = objectDisplayName object\<rparr>
        | Some row \<Rightarrow> row\<lparr>orType := obType object, orWorkspace := obWorkspace object, orParent := parentID,
                         orName := (if objectDisplayName object = [] then orName row else objectDisplayName object)\<rparr>)
       (dbObjects db)\<rparr>"

function ensureObject :: "objectRef \<Rightarrow> accessDB \<Rightarrow> goError + string \<times> accessDB" where
  "ensureObject object db =
     (let objectID = CanonicalID object in
      if trimSpace objectID = [] then Inl (Errorf ''securable object id is required'' [])
      else if trimSpace (obParent object) \<noteq> []
      then Inr (objectID, upsertObjectRow objectID object (trimSpace (obParent object)) db)
      else case parentOf object of
        None \<Rightarrow> Inr (objectID, upsertObjectRow objectID object [] db)
      | Some parent \<Rightarrow> andThen (ensureObject parent db)
          (\<lambda>(_, db'). Inr (objectID, upsertObjectRow objectID object (CanonicalID parent) db')))"
  by pat_completeness auto
termination
  by (relation "measure (\<lambda>(object, _). if obType object = ''platform'' then 0
        else if obType object = ''workspace'' then 1 else 2)")
    (auto simp: parentOf_def PlatformObject_def WorkspaceObject_def split: if_splits)

declare ensureObject.simps [simp del]

definition ensureSecurableObject :: "objectRef \<Rightarrow> string accessOp" where
  "ensureSecurableObject object s =
     (case ensureObject object (asDB s) of
        Inl e \<Rightarrow> (Inl e, s)
      | Inr (objectID, db) \<Rightarrow> (Inr objectID, s\<lparr>asDB := db\<rparr>))"

section \<open>Grants\<close>

definition sameGrant :: "grantRow \<Rightarrow> grantRow \<Rightarrow> bool" where
  "sameGrant g h \<longleftrightarrow> grObject g = grObject h \<and> grSubjectType g = grSubjectType h \<and> grSubject g = grSubject h
     \<and> grPrivilege g = grPrivilege h"

text \<open>\<open>UpsertGrant\<close>: a grant that is already there takes the new id.\<close>

definition upsertGrantRow :: "grantRow \<Rightarrow> accessDB \<Rightarrow> goError + accessDB" where
  "upsertGrantRow g db =
     (if \<exists>h \<in> set (dbGrants db). grID h = grID g \<and> \<not> sameGrant h g then Inl constraintFailed
      else if \<exists>h \<in> set (dbGrants db). sameGrant h g
      then Inr (db\<lparr>dbGrants := map (\<lambda>h. if sameGrant h g then h\<lparr>grID := grID g\<rparr> else h) (dbGrants db)\<rparr>)
      else Inr (db\<lparr>dbGrants := dbGrants db @ [g]\<rparr>))"

record grantInput =
  giObject :: objectRef
  giSubjectType :: string
  giSubject :: string
  giPrivilege :: string

definition upsertGrantWithID :: "string \<Rightarrow> grantInput \<Rightarrow> unit accessOp" where
  "upsertGrantWithID gid gi =
     thenA (guardA (trimSpace (giSubject gi) = []) (Errorf ''grant subject id is required'' [])) (\<lambda>_.
     thenA (guardA (giSubjectType gi = []) (Errorf ''grant subject type is required'' [])) (\<lambda>_.
     thenA (guardA (giPrivilege gi = []) (Errorf ''grant privilege is required'' [])) (\<lambda>_.
     thenA (ensureSecurableObject (giObject gi)) (\<lambda>objectID.
     writeA (upsertGrantRow \<lparr>grID = gid, grObject = objectID, grSubjectType = giSubjectType gi,
       grSubject = trimSpace (giSubject gi), grPrivilege = giPrivilege gi\<rparr>)))))"

record grantView =
  gvGrant :: grantRow
  gvObjectType :: string
  gvWorkspace :: string
  gvParent :: string
  gvInherited :: bool

definition grantOrder :: "grantRow \<Rightarrow> string list" where
  "grantOrder g = [grSubjectType g, grSubject g, grPrivilege g]"

definition ListGrantsWithOptions :: "objectRef \<Rightarrow> bool \<Rightarrow> accessDB \<Rightarrow> goError + grantView list" where
  "ListGrantsWithOptions object includeInherited db =
     andThen (lookupSecurableObjectID db object) (\<lambda>found. case found of
       None \<Rightarrow> Inr []
     | Some objectID \<Rightarrow>
         andThen (if includeInherited then objectAncestry db objectID else Inr [objectID]) (\<lambda>scope.
         Inr (concat (map (\<lambda>oid.
           concat (map (\<lambda>g. case get (dbObjects db) oid of None \<Rightarrow> [] | Some row \<Rightarrow>
               [\<lparr>gvGrant = g, gvObjectType = orType row, gvWorkspace = orWorkspace row, gvParent = orParent row,
                 gvInherited = (oid \<noteq> objectID)\<rparr>])
             (sort_key grantOrder (filter (\<lambda>g. grObject g = oid) (dbGrants db))))) scope))))"

definition ListGrants :: "objectRef \<Rightarrow> accessDB \<Rightarrow> goError + grantRow list" where
  "ListGrants object db = andThen (ListGrantsWithOptions object False db) (\<lambda>views. Inr (map gvGrant views))"

definition CreateGrant :: "goError + string \<Rightarrow> grantInput \<Rightarrow> grantRow accessOp" where
  "CreateGrant newID gi =
     thenA clearA (\<lambda>_. case newID of Inl e \<Rightarrow> failA e | Inr gid \<Rightarrow>
     thenA (upsertGrantWithID gid gi) (\<lambda>_.
     thenA (readA (ListGrants (giObject gi))) (\<lambda>grants.
     case find (\<lambda>g. grID g = gid) grants of None \<Rightarrow> failA noRows | Some g \<Rightarrow> giveA g)))"

definition objectInWorkspace :: "accessDB \<Rightarrow> string \<Rightarrow> string \<Rightarrow> bool" where
  "objectInWorkspace db workspaceID objectID \<longleftrightarrow>
     (case get (dbObjects db) objectID of None \<Rightarrow> False
      | Some row \<Rightarrow> orWorkspace row = workspaceID \<or> objectID = CanonicalID (WorkspaceObject workspaceID))"

definition GetGrant :: "string \<Rightarrow> string \<Rightarrow> accessDB \<Rightarrow> goError + grantRow" where
  "GetGrant workspaceID gid db =
     (case find (\<lambda>g. grID g = gid \<and> objectInWorkspace db workspaceID (grObject g)) (dbGrants db) of
        None \<Rightarrow> Inl noRows | Some g \<Rightarrow> Inr g)"

definition DeleteGrant :: "string \<Rightarrow> string \<Rightarrow> unit accessOp" where
  "DeleteGrant workspaceID gid =
     thenA clearA (\<lambda>_.
     thenA (guardA (trimSpace gid = []) (Errorf ''grant id is required'' [])) (\<lambda>_.
     writeA (\<lambda>db. Inr (db\<lparr>dbGrants :=
       filter (\<lambda>g. \<not> (grID g = gid \<and> objectInWorkspace db workspaceID (grObject g))) (dbGrants db)\<rparr>))))"

definition updateGrantRow :: "string \<Rightarrow> grantRow \<Rightarrow> accessDB \<Rightarrow> goError + accessDB" where
  "updateGrantRow gid g db =
     (if \<exists>h \<in> set (dbGrants db). grID h \<noteq> gid \<and> sameGrant h g then Inl constraintFailed
      else Inr (db\<lparr>dbGrants := map (\<lambda>h. if grID h = gid then g else h) (dbGrants db)\<rparr>))"

definition UpdateGrant :: "string \<Rightarrow> string \<Rightarrow> grantInput \<Rightarrow> grantRow accessOp" where
  "UpdateGrant workspaceID gid gi =
     thenA clearA (\<lambda>_.
     thenA (readA (GetGrant workspaceID gid)) (\<lambda>_.
     thenA (ensureSecurableObject (giObject gi)) (\<lambda>objectID.
     thenA (writeA (updateGrantRow gid \<lparr>grID = gid, grObject = objectID, grSubjectType = giSubjectType gi,
       grSubject = giSubject gi, grPrivilege = giPrivilege gi\<rparr>)) (\<lambda>_.
     readA (GetGrant workspaceID gid)))))"

section \<open>Owners\<close>

definition setOwner :: "string \<Rightarrow> (string \<Rightarrow> string) \<Rightarrow> accessDB \<Rightarrow> accessDB" where
  "setOwner objectID f db =
     (case get (dbObjects db) objectID of None \<Rightarrow> db
      | Some row \<Rightarrow> db\<lparr>dbObjects := put objectID (row\<lparr>orOwner := f (orOwner row)\<rparr>) (dbObjects db)\<rparr>)"

definition securableObjectByID :: "string \<Rightarrow> accessDB \<Rightarrow> goError + objectRow" where
  "securableObjectByID objectID db =
     (case get (dbObjects db) objectID of None \<Rightarrow> Inl noRows | Some row \<Rightarrow> Inr row)"

definition UpsertSecurableObject :: "objectRef \<Rightarrow> string \<Rightarrow> objectRow accessOp" where
  "UpsertSecurableObject object owner =
     thenA clearA (\<lambda>_.
     thenA (ensureSecurableObject object) (\<lambda>objectID.
     thenA (if trimSpace owner \<noteq> []
            then writeA (\<lambda>db. Inr (setOwner objectID (\<lambda>old. if old = [] then trimSpace owner else old) db))
            else giveA ()) (\<lambda>_.
     readA (securableObjectByID objectID))))"

definition SetObjectOwner :: "objectRef \<Rightarrow> string \<Rightarrow> objectRow accessOp" where
  "SetObjectOwner object owner =
     thenA clearA (\<lambda>_.
     thenA (guardA (trimSpace owner = []) (Errorf ''owner principal id is required'' [])) (\<lambda>_.
     thenA (ensureSecurableObject object) (\<lambda>objectID.
     thenA (writeA (\<lambda>db. Inr (setOwner objectID (\<lambda>_. trimSpace owner) db))) (\<lambda>_.
     readA (securableObjectByID objectID)))))"

end
