(* ===== verification/Access_Authorize.thy ===== *)
theory Access_Authorize
  imports Access_Store
begin

text \<open>
  The authorizer (\<open>AuthorizeBatch\<close> and its callers in \<^verbatim>\<open>internal/access/sqlite/authorization.go\<close>), data
  policies, and the operations on roles and groups that write grants (\<^verbatim>\<open>roles.go\<close>, \<^verbatim>\<open>identity.go\<close>,
  \<^verbatim>\<open>provisioning.go\<close>). Fresh random identifiers are arguments.
\<close>

section \<open>Grants that authorize\<close>

definition isMember :: "accessDB \<Rightarrow> string \<Rightarrow> string \<Rightarrow> bool" where
  "isMember db groupID principalID \<longleftrightarrow> (\<exists>(w, g, p) \<in> set (dbMembers db). g = groupID \<and> p = principalID)"

definition grantMatches :: "accessDB \<Rightarrow> string \<Rightarrow> string \<Rightarrow> grantRow \<Rightarrow> bool" where
  "grantMatches db principalID privilege g \<longleftrightarrow> grPrivilege g = privilege
     \<and> (grSubjectType g \<in> {''principal'', ''service_principal''} \<and> grSubject g = principalID
        \<or> grSubjectType g = ''group'' \<and> isMember db (grSubject g) principalID)"

text \<open>Of several grants on one object the query returns any; the model takes the first of the table.\<close>

definition FindAuthorizingGrant :: "accessDB \<Rightarrow> string \<Rightarrow> string \<Rightarrow> string list \<Rightarrow> grantRow option" where
  "FindAuthorizingGrant db principalID privilege scope =
     (case concat (map (\<lambda>oid. filter (\<lambda>g. grObject g = oid \<and> grantMatches db principalID privilege g) (dbGrants db)) scope) of
        [] \<Rightarrow> None | g # _ \<Rightarrow> Some g)"

definition authorizeByGrant :: "accessDB \<Rightarrow> string \<Rightarrow> string \<Rightarrow> string list \<Rightarrow> authDecision" where
  "authorizeByGrant db principalID privilege objectIDs =
     (if objectIDs = [] then newDecision privilege noObject
      else case FindAuthorizingGrant db principalID privilege objectIDs of
        None \<Rightarrow> newDecision privilege noObject
      | Some g \<Rightarrow> (newDecision privilege noObject)\<lparr>azAllowed := True, azGrantID := grID g, azGrantObject := grObject g,
          azSubjectType := grSubjectType g, azSubject := grSubject g, azInherited := (grObject g \<noteq> hd objectIDs),
          azReason := GrantReason\<rparr>)"

definition principalDisabled :: "accessDB \<Rightarrow> string \<Rightarrow> bool" where
  "principalDisabled db principalID = (case get (dbPrincipals db) principalID of None \<Rightarrow> False | Some row \<Rightarrow> prDisabled row)"

section \<open>Authorizing\<close>

record objectFacts =
  ofExists :: bool
  ofOwner :: string
  ofAncestry :: "string list"

definition readObjectFacts :: "accessDB \<Rightarrow> objectRef \<Rightarrow> goError + objectFacts" where
  "readObjectFacts db object =
     andThen (lookupSecurableObjectID db object) (\<lambda>found. case found of
       None \<Rightarrow> Inr \<lparr>ofExists = False, ofOwner = [], ofAncestry = []\<rparr>
     | Some objectID \<Rightarrow> andThen (objectAncestry db objectID)
         (\<lambda>ancestry. Inr \<lparr>ofExists = True, ofOwner = objectOwner db objectID, ofAncestry = ancestry\<rparr>))"

definition loadObjectFacts :: "accessDB \<Rightarrow> objectRef \<Rightarrow> objectFacts goMap \<Rightarrow> goError + objectFacts \<times> objectFacts goMap" where
  "loadObjectFacts db object known =
     (case get known (CanonicalID object) of
        Some facts \<Rightarrow> Inr (facts, known)
      | None \<Rightarrow> andThen (readObjectFacts db object) (\<lambda>facts. Inr (facts, put (CanonicalID object) facts known)))"

definition decide :: "accessDB \<Rightarrow> string \<Rightarrow> authDecision \<Rightarrow> objectFacts \<Rightarrow> authDecision \<Rightarrow> authDecision" where
  "decide db principalID platformDecision facts out =
     (if azAllowed platformDecision
      then out\<lparr>azAllowed := True, azPlatform := True, azGrantID := azGrantID platformDecision,
        azGrantObject := azGrantObject platformDecision, azSubjectType := azSubjectType platformDecision,
        azSubject := azSubject platformDecision, azReason := PlatformAdminReason\<rparr>
      else if \<not> ofExists facts then out\<lparr>azReason := UnknownObject\<rparr>
      else if ofOwner facts \<noteq> [] \<and> ofOwner facts = principalID
      then out\<lparr>azAllowed := True, azOwner := True, azReason := OwnerReason\<rparr>
      else let grantDecision = authorizeByGrant db principalID (azPrivilege out) (ofAncestry facts) in
        if azAllowed grantDecision then grantDecision\<lparr>azPrivilege := azPrivilege out, azObject := azObject out\<rparr>
        else out\<lparr>azReason := NoGrant\<rparr>)"

definition firstDecision :: "string \<Rightarrow> authCache \<Rightarrow> string \<times> objectRef \<Rightarrow> authDecision \<times> bool" where
  "firstDecision principalID cache check =
     (let decision = newDecision (fst check) (snd check) in
      if principalID = [] then (decision\<lparr>azReason := MissingPrincipal\<rparr>, False)
      else if trimSpace (fst check) = [] then (decision\<lparr>azReason := MissingPrivilege\<rparr>, False)
      else case CachedAuthorizationDecision cache principalID (fst check) (snd check) of
        Some cached \<Rightarrow> (cached, False)
      | None \<Rightarrow> (decision, True))"

text \<open>The loop over the pending checks. The decisions of those before an error stay in the cache.\<close>

fun decidePending :: "accessDB \<Rightarrow> string \<Rightarrow> authDecision \<Rightarrow> objectFacts goMap \<Rightarrow> authCache \<Rightarrow> (authDecision \<times> bool) list
    \<Rightarrow> (goError + authDecision list) \<times> authCache" where
  "decidePending db p platformDecision known cache [] = (Inr [], cache)"
| "decidePending db p platformDecision known cache ((out, pending) # outs) =
     (if pending then
        (case loadObjectFacts db (azObject out) known of
           Inl e \<Rightarrow> (Inl e, cache)
         | Inr (facts, known') \<Rightarrow>
             let d = decide db p platformDecision facts out in
             (case decidePending db p platformDecision known' (StoreAuthorizationDecision p d cache) outs of
                (Inl e, cache') \<Rightarrow> (Inl e, cache')
              | (Inr ds, cache') \<Rightarrow> (Inr (d # ds), cache')))
      else (case decidePending db p platformDecision known cache outs of
              (Inl e, cache') \<Rightarrow> (Inl e, cache')
            | (Inr ds, cache') \<Rightarrow> (Inr (out # ds), cache')))"

definition disableDecision :: "authDecision \<times> bool \<Rightarrow> authDecision" where
  "disableDecision out = (if snd out then (fst out)\<lparr>azReason := PrincipalDisabled\<rparr> else fst out)"

definition storeDisabled :: "string \<Rightarrow> authDecision \<times> bool \<Rightarrow> authCache \<Rightarrow> authCache" where
  "storeDisabled p out cache = (if snd out then StoreAuthorizationDecision p (disableDecision out) cache else cache)"

definition AuthorizeBatch :: "string \<Rightarrow> (string \<times> objectRef) list \<Rightarrow> authDecision list accessOp" where
  "AuthorizeBatch principalID0 batch s =
     (let principalID = trimSpace principalID0; db = asDB s;
          outs = map (firstDecision principalID (asCache s)) batch in
      if \<not> (\<exists>out \<in> set outs. snd out) then (Inr (map fst outs), s)
      else if principalDisabled db principalID
      then (Inr (map disableDecision outs), s\<lparr>asCache := fold (storeDisabled principalID) outs (asCache s)\<rparr>)
      else let platformDecision = authorizeByGrant db principalID ''MANAGE_PLATFORM'' [CanonicalID PlatformObject] in
        (case decidePending db principalID platformDecision [] (asCache s) outs of
           (result, cache) \<Rightarrow> (result, s\<lparr>asCache := cache\<rparr>)))"

definition Authorize :: "string \<Rightarrow> string \<Rightarrow> objectRef \<Rightarrow> authDecision accessOp" where
  "Authorize principalID privilege object =
     thenA (AuthorizeBatch principalID [(privilege, object)]) (\<lambda>decisions. case decisions of
       [] \<Rightarrow> giveA ((newDecision privilege object)\<lparr>azReason := MissingObject\<rparr>)
     | d # _ \<Rightarrow> giveA d)"

definition lastDecision :: "authDecision list \<Rightarrow> authDecision" where
  "lastDecision ds = (case find azAllowed ds of Some d \<Rightarrow> d | None \<Rightarrow> if ds = [] then newDecision [] noObject else last ds)"

definition AuthorizeAny :: "string \<Rightarrow> string \<Rightarrow> objectRef list \<Rightarrow> authDecision accessOp" where
  "AuthorizeAny principalID privilege objects =
     (if objects = [] then giveA ((newDecision privilege noObject)\<lparr>azReason := MissingObject\<rparr>)
      else thenA (AuthorizeBatch principalID (map (Pair privilege) objects)) (\<lambda>ds. giveA (lastDecision ds)))"

definition EffectiveAccess :: "string \<Rightarrow> objectRef \<Rightarrow> authDecision list accessOp" where
  "EffectiveAccess principalID object =
     thenA (AuthorizeBatch principalID (map (\<lambda>privilege. (privilege, object)) (take 16 KnownPrivileges)))
       (\<lambda>ds. giveA (filter azAllowed ds))"

definition EffectivePrivileges :: "string \<Rightarrow> objectRef \<Rightarrow> string list accessOp" where
  "EffectivePrivileges principalID object = thenA (EffectiveAccess principalID object) (\<lambda>ds. giveA (map azPrivilege ds))"

section \<open>Data policies\<close>

record policyInput =
  poID :: string
  poObject :: objectRef
  poSubjectType :: string
  poSubject :: string
  poType :: string
  poExpression :: string

definition GetDataPolicy :: "string \<Rightarrow> string \<Rightarrow> accessDB \<Rightarrow> goError + policyRow" where
  "GetDataPolicy workspaceID pid db =
     (case find (\<lambda>r. dpID r = pid \<and> dpWorkspace r = workspaceID) (dbPolicies db) of None \<Rightarrow> Inl noRows | Some r \<Rightarrow> Inr r)"

definition upsertPolicyRow :: "policyRow \<Rightarrow> accessDB \<Rightarrow> accessDB" where
  "upsertPolicyRow r db =
     db\<lparr>dbPolicies := (if \<exists>q \<in> set (dbPolicies db). dpID q = dpID r
        then map (\<lambda>q. if dpID q = dpID r then r else q) (dbPolicies db) else dbPolicies db @ [r])\<rparr>"

definition UpsertDataPolicy :: "goError + string \<Rightarrow> policyInput \<Rightarrow> policyRow accessOp" where
  "UpsertDataPolicy newID po =
     thenA clearA (\<lambda>_.
     case (if trimSpace (poID po) = [] then newID else Inr (poID po)) of Inl e \<Rightarrow> failA e | Inr pid \<Rightarrow>
     thenA (guardA (trimSpace (poType po) = []) (Errorf ''data policy type is required'' [])) (\<lambda>_.
     thenA (ensureSecurableObject (poObject po)) (\<lambda>objectID.
     thenA (guardA (poSubjectType po \<noteq> [] \<and> trimSpace (poSubject po) = []) (Errorf ''data policy subject id is required'' [])) (\<lambda>_.
     thenA (writeA (\<lambda>db. Inr (upsertPolicyRow
       \<lparr>dpID = pid, dpWorkspace = obWorkspace (poObject po), dpObject = objectID, dpSubjectType = poSubjectType po,
        dpSubject = trimSpace (poSubject po), dpType = poType po,
        dpExpression = (if trimSpace (poExpression po) = [] then ''{}'' else poExpression po)\<rparr> db))) (\<lambda>_.
     readA (GetDataPolicy (obWorkspace (poObject po)) pid))))))"

definition DeleteDataPolicy :: "string \<Rightarrow> string \<Rightarrow> unit accessOp" where
  "DeleteDataPolicy workspaceID pid =
     thenA clearA (\<lambda>_.
     thenA (guardA (trimSpace pid = []) (Errorf ''data policy id is required'' [])) (\<lambda>_.
     writeA (\<lambda>db. Inr (db\<lparr>dbPolicies := filter (\<lambda>r. \<not> (dpWorkspace r = workspaceID \<and> dpID r = pid)) (dbPolicies db)\<rparr>))))"

definition ListDataPoliciesWithOptions :: "objectRef \<Rightarrow> bool \<Rightarrow> accessDB \<Rightarrow> goError + policyRow list" where
  "ListDataPoliciesWithOptions object includeInherited db =
     andThen (lookupSecurableObjectID db object) (\<lambda>found. case found of
       None \<Rightarrow> Inr []
     | Some objectID \<Rightarrow>
         andThen (if includeInherited then objectAncestry db objectID else Inr [objectID]) (\<lambda>scope.
         Inr (concat (map (\<lambda>oid. sort_key (\<lambda>r. [dpType r, dpID r]) (filter (\<lambda>r. dpObject r = oid) (dbPolicies db))) scope))))"

definition dataPolicyAppliesToPrincipal :: "accessDB \<Rightarrow> string \<Rightarrow> policyRow \<Rightarrow> goError + bool" where
  "dataPolicyAppliesToPrincipal db principalID r =
     (if dpSubjectType r = [] then Inr True
      else if dpSubjectType r \<in> {''principal'', ''service_principal'', ''dashboard_publication''}
      then Inr (trimSpace (dpSubject r) = trimSpace principalID)
      else if dpSubjectType r = ''group'' then Inr (isMember db (dpSubject r) principalID)
      else Inl (Errorf ''unsupported data policy subject type %q'' [Arg (dpSubjectType r)]))"

fun applyingPolicies :: "accessDB \<Rightarrow> string \<Rightarrow> policyRow list \<Rightarrow> goError + policyRow list" where
  "applyingPolicies db p [] = Inr []"
| "applyingPolicies db p (r # rs) =
     andThen (dataPolicyAppliesToPrincipal db p r) (\<lambda>applies.
     andThen (applyingPolicies db p rs) (\<lambda>out. Inr (if applies then r # out else out)))"

definition ListEffectiveDataPolicies :: "string \<Rightarrow> objectRef \<Rightarrow> bool \<Rightarrow> accessDB \<Rightarrow> goError + policyRow list" where
  "ListEffectiveDataPolicies principalID object includeInherited db =
     andThen (ListDataPoliciesWithOptions object includeInherited db) (applyingPolicies db principalID)"

end
