(* ===== verification/Access_Roles.thy ===== *)
theory Access_Roles
  imports Access_Authorize
begin

text \<open>
  Role bindings, platform roles, group members and deleted principals (\<^verbatim>\<open>internal/access/sqlite/roles.go\<close>, \<^verbatim>\<open>identity.go\<close>,
  \<^verbatim>\<open>provisioning.go\<close>, \<^verbatim>\<open>api_symmetry.go\<close>, \<^verbatim>\<open>credentials.go\<close>). A role is bound to a subject in two tables: the row of the binding, and one grant
  on the workspace for each privilege of the role, whose id is made of the binding's id. Authorization reads
  only the grants.
\<close>

section \<open>The grants of a binding\<close>

text \<open>\<open>LIKE\<close> of SQLite on ASCII text: any text for a percent sign, any character for an underscore, letters in either case.\<close>

function sqlLike :: "string \<Rightarrow> string \<Rightarrow> bool" where
  "sqlLike [] s \<longleftrightarrow> s = []"
| "sqlLike (p # ps) s \<longleftrightarrow>
     (if p = CHR 0x25 then sqlLike ps s \<or> (case s of [] \<Rightarrow> False | _ # t \<Rightarrow> sqlLike (p # ps) t)
      else (case s of [] \<Rightarrow> False | c # t \<Rightarrow> (p = CHR 0x5F \<or> lowerByte p = lowerByte c) \<and> sqlLike ps t))"
  by pat_completeness auto
termination by (relation "measure (\<lambda>(ps, s). length ps + length s)") auto

definition roleBindingGrantID :: "string \<Rightarrow> string \<Rightarrow> string" where
  "roleBindingGrantID bindingID privilege = ''grant_'' @ bindingID @ ''_'' @ toLower privilege"

definition deleteRoleBindingGrants :: "string \<Rightarrow> unit accessOp" where
  "deleteRoleBindingGrants bindingID =
     writeA (\<lambda>db. Inr (db\<lparr>dbGrants := filter (\<lambda>g. \<not> sqlLike (''grant_'' @ bindingID @ [CHR 0x5F, CHR 0x25]) (grID g)) (dbGrants db)\<rparr>))"

definition rolePrivileges :: "string \<Rightarrow> accessDB \<Rightarrow> goError + string list" where
  "rolePrivileges roleName db =
     (let privileges = sort (case get (dbTemplates db) roleName of None \<Rightarrow> [] | Some ps \<Rightarrow> ps) in
      if privileges = [] then Inl (Errorf ''role %q has no grant template'' [Arg roleName]) else Inr privileges)"

definition syncRoleBindingGrants :: "string \<Rightarrow> string \<Rightarrow> string \<Rightarrow> string \<Rightarrow> string \<Rightarrow> unit accessOp" where
  "syncRoleBindingGrants bindingID workspaceID roleName subjectType subjectID =
     thenA (ensureSecurableObject (WorkspaceObject workspaceID)) (\<lambda>_.
     thenA (readA (rolePrivileges roleName)) (\<lambda>privileges.
     eachA (\<lambda>privilege. upsertGrantWithID (roleBindingGrantID bindingID privilege)
       \<lparr>giObject = WorkspaceObject workspaceID, giSubjectType = subjectType, giSubject = subjectID, giPrivilege = privilege\<rparr>)
       privileges))"

section \<open>Bindings\<close>

record bindingInput =
  biID :: string
  biWorkspace :: string
  biSubjectType :: string
  biSubject :: string
  biRole :: string

definition GetRoleByName :: "string \<Rightarrow> accessDB \<Rightarrow> goError + string" where
  "GetRoleByName name db = (if name \<in> set (dbRoles db) then Inr name else Inl noRows)"

definition roleBindingParts :: "bindingInput \<Rightarrow> accessDB \<Rightarrow> goError + string \<times> string option \<times> string option" where
  "roleBindingParts bi db =
     (let subjectID = trimSpace (biSubject bi) in
      if trimSpace (biRole bi) = [] then Inl (Errorf ''role is required'' [])
      else andThen (GetRoleByName (biRole bi) db) (\<lambda>role.
        if subjectID = [] then Inl (Errorf ''subject id is required'' [])
        else if biSubjectType bi = ''principal'' then Inr (role, Some subjectID, None)
        else if biSubjectType bi = ''service_principal'' then
          (case get (dbPrincipals db) subjectID of
             None \<Rightarrow> Inl noRows
           | Some row \<Rightarrow> if prKind row \<noteq> ''service_principal'' then Inl (Errorf ''principal %q is not a service principal'' [Arg subjectID])
               else Inr (role, Some subjectID, None))
        else if biSubjectType bi = ''group'' then Inr (role, None, Some subjectID)
        else Inl (Errorf ''unsupported subject type %q'' [Arg (biSubjectType bi)])))"

definition knownKeys :: "accessDB \<Rightarrow> bindingRow \<Rightarrow> bool" where
  "knownKeys db b \<longleftrightarrow> (\<forall>p \<in> set_option (rbPrincipal b). hasKey (dbPrincipals db) p) \<and> (\<forall>g \<in> set_option (rbGroup b). g \<in> set (dbGroups db))"

definition sameBinding :: "bindingRow \<Rightarrow> bindingRow \<Rightarrow> bool" where
  "sameBinding b c \<longleftrightarrow> rbWorkspace b = rbWorkspace c \<and> rbRole b = rbRole c
     \<and> (rbPrincipal b \<noteq> None \<and> rbPrincipal b = rbPrincipal c \<or> rbGroup b \<noteq> None \<and> rbGroup b = rbGroup c)"

text \<open>\<open>INSERT OR IGNORE\<close> skips a row that clashes with another; a missing foreign key is an error.\<close>

definition insertBinding :: "bindingRow \<Rightarrow> accessDB \<Rightarrow> goError + accessDB" where
  "insertBinding b db =
     (if \<exists>c \<in> set (dbBindings db). rbID c = rbID b \<or> sameBinding c b then Inr db
      else if rbWorkspace b \<notin> set (dbWorkspaces db) \<or> \<not> knownKeys db b then Inl constraintFailed
      else Inr (db\<lparr>dbBindings := dbBindings db @ [b]\<rparr>))"

definition GetRoleBinding :: "string \<Rightarrow> string \<Rightarrow> accessDB \<Rightarrow> goError + bindingRow" where
  "GetRoleBinding workspaceID bid db =
     (case find (\<lambda>b. rbWorkspace b = workspaceID \<and> rbID b = bid) (dbBindings db) of None \<Rightarrow> Inl noRows | Some b \<Rightarrow> Inr b)"

definition ListRoleBindings :: "string \<Rightarrow> accessDB \<Rightarrow> goError + bindingRow list" where
  "ListRoleBindings workspaceID db = Inr (filter (\<lambda>b. rbWorkspace b = workspaceID) (dbBindings db))"

definition CreateRoleBinding :: "goError + string \<Rightarrow> bindingInput \<Rightarrow> bindingRow accessOp" where
  "CreateRoleBinding newID bi =
     thenA clearA (\<lambda>_.
     case (if trimSpace (biID bi) = [] then newID else Inr (biID bi)) of Inl e \<Rightarrow> failA e | Inr bid \<Rightarrow>
     thenA (guardA (trimSpace (biWorkspace bi) = []) (Errorf ''workspace id is required'' [])) (\<lambda>_.
     thenA (readA (roleBindingParts bi)) (\<lambda>(role, principalID, groupID).
     thenA (writeA (insertBinding \<lparr>rbID = bid, rbWorkspace = biWorkspace bi, rbRole = role, rbPrincipal = principalID,
       rbGroup = groupID\<rparr>)) (\<lambda>_.
     thenA (syncRoleBindingGrants bid (biWorkspace bi) (biRole bi) (biSubjectType bi) (biSubject bi)) (\<lambda>_.
     readA (GetRoleBinding (biWorkspace bi) bid))))))"

definition updateBinding :: "bindingRow \<Rightarrow> accessDB \<Rightarrow> goError + accessDB" where
  "updateBinding b db =
     (if \<not> (\<exists>c \<in> set (dbBindings db). rbWorkspace c = rbWorkspace b \<and> rbID c = rbID b) then Inr db
      else if \<not> knownKeys db b \<or> (\<exists>c \<in> set (dbBindings db). rbID c \<noteq> rbID b \<and> sameBinding c b) then Inl constraintFailed
      else Inr (db\<lparr>dbBindings := map (\<lambda>c. if rbWorkspace c = rbWorkspace b \<and> rbID c = rbID b then b else c) (dbBindings db)\<rparr>))"

definition UpdateRoleBinding :: "string \<Rightarrow> string \<Rightarrow> bindingInput \<Rightarrow> bindingRow accessOp" where
  "UpdateRoleBinding workspaceID bid bi0 =
     (let bi = bi0\<lparr>biWorkspace := workspaceID\<rparr> in
      thenA clearA (\<lambda>_.
      thenA (readA (roleBindingParts bi)) (\<lambda>(role, principalID, groupID).
      thenA (writeA (updateBinding \<lparr>rbID = bid, rbWorkspace = workspaceID, rbRole = role, rbPrincipal = principalID,
        rbGroup = groupID\<rparr>)) (\<lambda>_.
      thenA (deleteRoleBindingGrants bid) (\<lambda>_.
      thenA (syncRoleBindingGrants bid workspaceID (biRole bi) (biSubjectType bi) (biSubject bi)) (\<lambda>_.
      readA (GetRoleBinding workspaceID bid)))))))"

definition removeBinding :: "string \<Rightarrow> string \<Rightarrow> unit accessOp" where
  "removeBinding workspaceID bid =
     writeA (\<lambda>db. Inr (db\<lparr>dbBindings := filter (\<lambda>b. \<not> (rbWorkspace b = workspaceID \<and> rbID b = bid)) (dbBindings db)\<rparr>))"

definition DeleteRoleBinding :: "string \<Rightarrow> string \<Rightarrow> unit accessOp" where
  "DeleteRoleBinding workspaceID bid =
     thenA clearA (\<lambda>_.
     thenA (guardA (trimSpace bid = []) (Errorf ''role binding id is required'' [])) (\<lambda>_.
     thenA (deleteRoleBindingGrants bid) (\<lambda>_. removeBinding workspaceID bid)))"

section \<open>Roles of a principal\<close>

definition UpsertPrincipal :: "goError + string \<Rightarrow> string \<Rightarrow> string \<Rightarrow> string \<Rightarrow> string \<Rightarrow> string accessOp" where
  "UpsertPrincipal newID pid0 kind0 email displayName =
     thenA clearA (\<lambda>_.
     case (if trimSpace pid0 = [] then newID else Inr pid0) of Inl e \<Rightarrow> failA e | Inr pid \<Rightarrow>
     thenA (writeA (\<lambda>db. Inr (db\<lparr>dbPrincipals := put pid
       \<lparr>prKind = (if kind0 = [] then ''user'' else kind0), prEmail = email, prName = displayName,
        prDisabled = principalDisabled db pid\<rparr> (dbPrincipals db)\<rparr>))) (\<lambda>_. giveA pid))"

definition firstNonBlank :: "string list \<Rightarrow> string" where
  "firstNonBlank vs = (case find (\<lambda>v. trimSpace v \<noteq> []) vs of None \<Rightarrow> [] | Some v \<Rightarrow> v)"

definition stableAccessID :: "(string \<Rightarrow> string) \<Rightarrow> string \<Rightarrow> string \<Rightarrow> string \<Rightarrow> string" where
  "stableAccessID sha256 prefix workspaceID name = ''cac_'' @ prefix @ ''_'' @ stableID sha256 (workspaceID @ ''|'' @ name)"

definition deletePrincipalRoleBindings :: "string \<Rightarrow> string \<Rightarrow> unit accessOp" where
  "deletePrincipalRoleBindings workspaceID pid =
     writeA (\<lambda>db. Inr (db\<lparr>dbBindings := filter (\<lambda>b. \<not> (rbWorkspace b = workspaceID \<and> rbPrincipal b = Some pid)) (dbBindings db)\<rparr>))"

definition SetPrincipalRole :: "(string \<Rightarrow> string) \<Rightarrow> string \<Rightarrow> string \<Rightarrow> string \<Rightarrow> string \<Rightarrow> string accessOp" where
  "SetPrincipalRole sha256 workspaceID email0 displayName roleName =
     (let email = NormalizeEmail email0; pid = PrincipalIDForEmail sha256 email;
          bid = stableAccessID sha256 ''rolebinding'' workspaceID (pid @ ''|'' @ roleName) in
      thenA clearA (\<lambda>_.
      thenA (guardA (email = []) (Errorf ''email is required'' [])) (\<lambda>_.
      thenA (guardA (trimSpace roleName = []) (Errorf ''role is required'' [])) (\<lambda>_.
      thenA (readA (GetRoleByName roleName)) (\<lambda>role.
      thenA (UpsertPrincipal (Inl noRows) pid [] email (firstNonBlank [trimSpace displayName, email])) (\<lambda>_.
      thenA (deletePrincipalRoleBindings workspaceID pid) (\<lambda>_.
      thenA (deleteRoleBindingGrants bid) (\<lambda>_.
      thenA (writeA (insertBinding \<lparr>rbID = bid, rbWorkspace = workspaceID, rbRole = role, rbPrincipal = Some pid, rbGroup = None\<rparr>)) (\<lambda>_.
      thenA (syncRoleBindingGrants bid workspaceID roleName ''principal'' pid) (\<lambda>_.
      giveA pid))))))))))"

definition RemovePrincipalRoles :: "string \<Rightarrow> string \<Rightarrow> unit accessOp" where
  "RemovePrincipalRoles workspaceID pid =
     thenA clearA (\<lambda>_.
     thenA (guardA (trimSpace pid = []) (Errorf ''principal id is required'' [])) (\<lambda>_.
     deletePrincipalRoleBindings workspaceID pid))"

definition BootstrapAdmin :: "(string \<Rightarrow> string) \<Rightarrow> string \<Rightarrow> string \<Rightarrow> unit accessOp" where
  "BootstrapAdmin sha256 workspaceID email0 =
     (let email = trimSpace email0; pid = PrincipalIDForEmail sha256 email;
          bid = stableAccessID sha256 ''rolebinding'' workspaceID (pid @ ''|owner'') in
      if email = [] then giveA ()
      else thenA (UpsertPrincipal (Inl noRows) pid [] email email) (\<lambda>_.
        thenA (readA (GetRoleByName ''owner'')) (\<lambda>role.
        thenA (deleteRoleBindingGrants bid) (\<lambda>_.
        thenA (writeA (insertBinding \<lparr>rbID = bid, rbWorkspace = workspaceID, rbRole = role, rbPrincipal = Some pid, rbGroup = None\<rparr>)) (\<lambda>_.
        syncRoleBindingGrants bid workspaceID ''owner'' ''principal'' pid)))))"

text \<open>The privileges of a platform role are granted on the platform, under an id made of the principal and the privilege.\<close>

definition insertPlatformBinding :: "string \<times> string \<times> string \<Rightarrow> accessDB \<Rightarrow> goError + accessDB" where
  "insertPlatformBinding b db =
     (if \<exists>c \<in> set (dbPlatformBindings db). fst c = fst b \<or> snd c = snd b then Inr db
      else if fst (snd b) \<notin> set (dbRoles db) \<or> \<not> hasKey (dbPrincipals db) (snd (snd b)) then Inl constraintFailed
      else Inr (db\<lparr>dbPlatformBindings := dbPlatformBindings db @ [b]\<rparr>))"

definition SetPlatformRole :: "(string \<Rightarrow> string) \<Rightarrow> goError + string \<Rightarrow> string \<Rightarrow> string \<Rightarrow> string \<Rightarrow> string \<Rightarrow> string accessOp" where
  "SetPlatformRole sha256 newID pid0 email0 displayName roleName =
     (let email = NormalizeEmail email0;
          pid = (if trimSpace pid0 = [] then PrincipalIDForEmail sha256 email else trimSpace pid0) in
      thenA clearA (\<lambda>_.
      thenA (guardA (trimSpace pid0 = [] \<and> email = []) (Errorf ''principal id or email is required'' [])) (\<lambda>_.
      thenA (guardA (trimSpace roleName = []) (Errorf ''role is required'' [])) (\<lambda>_.
      thenA (readA (GetRoleByName roleName)) (\<lambda>role.
      thenA (UpsertPrincipal (Inl noRows) pid [] email (firstNonBlank [trimSpace displayName, email, pid])) (\<lambda>_.
      case newID of Inl e \<Rightarrow> failA e | Inr bid \<Rightarrow>
      thenA (writeA (insertPlatformBinding (bid, role, pid))) (\<lambda>_.
      thenA (readA (rolePrivileges (firstNonBlank [roleName, ''platform_admin'']))) (\<lambda>privileges.
      thenA (eachA (\<lambda>privilege. upsertGrantWithID (''grant_platform_'' @ stableID sha256 (pid @ ''|'' @ privilege))
        \<lparr>giObject = PlatformObject, giSubjectType = ''principal'', giSubject = pid, giPrivilege = privilege\<rparr>) privileges) (\<lambda>_.
      giveA pid)))))))))"

section \<open>Deleting a principal\<close>

text \<open>The foreign keys cascade to the group members and the bindings; grants and owners name the principal as plain text.\<close>

definition deletePrincipalRow :: "string \<Rightarrow> accessDB \<Rightarrow> accessDB" where
  "deletePrincipalRow pid db =
     db\<lparr>dbPrincipals := filter (\<lambda>row. fst row \<noteq> pid) (dbPrincipals db),
        dbMembers := filter (\<lambda>m. snd (snd m) \<noteq> pid) (dbMembers db),
        dbBindings := filter (\<lambda>b. rbPrincipal b \<noteq> Some pid) (dbBindings db),
        dbPlatformBindings := filter (\<lambda>b. snd (snd b) \<noteq> pid) (dbPlatformBindings db)\<rparr>"

text \<open>Unlike the calls above, this one does not clear the cache of the request.\<close>

definition DeletePrincipal :: "string \<Rightarrow> unit accessOp" where
  "DeletePrincipal pid =
     writeA (\<lambda>db. if hasKey (dbPrincipals db) pid then Inr (deletePrincipalRow pid db) else Inl noRows)"

definition DeleteServicePrincipal :: "string \<Rightarrow> unit accessOp" where
  "DeleteServicePrincipal pid =
     thenA clearA (\<lambda>_.
     thenA (guardA (trimSpace pid = []) (Errorf ''service principal id is required'' [])) (\<lambda>_.
     writeA (\<lambda>db. Inr (case get (dbPrincipals db) pid of
         None \<Rightarrow> db
       | Some row \<Rightarrow> if prKind row = ''service_principal'' then deletePrincipalRow pid db else db))))"

section \<open>Group members\<close>

definition AddGroupMember :: "string \<Rightarrow> string \<Rightarrow> string \<Rightarrow> unit accessOp" where
  "AddGroupMember workspaceID groupID pid =
     thenA clearA (\<lambda>_.
     thenA (guardA (trimSpace groupID = [] \<or> trimSpace pid = []) (Errorf ''group id and principal id are required'' [])) (\<lambda>_.
     writeA (\<lambda>db.
       if isMember db groupID pid then Inr db
       else if groupID \<notin> set (dbGroups db) \<or> \<not> hasKey (dbPrincipals db) pid then Inl constraintFailed
       else Inr (db\<lparr>dbMembers := dbMembers db @ [(workspaceID, groupID, pid)]\<rparr>))))"

definition RemoveGroupMember :: "string \<Rightarrow> string \<Rightarrow> string \<Rightarrow> unit accessOp" where
  "RemoveGroupMember workspaceID groupID pid =
     thenA clearA (\<lambda>_.
     thenA (guardA (trimSpace groupID = [] \<or> trimSpace pid = []) (Errorf ''group id and principal id are required'' [])) (\<lambda>_.
     writeA (\<lambda>db. Inr (db\<lparr>dbMembers := filter (\<lambda>m. m \<noteq> (workspaceID, groupID, pid)) (dbMembers db)\<rparr>))))"

end
