(* ===== verification/Access_Rules.thy ===== *)
theory Access_Rules
  imports Access_Roles
begin

text \<open>
  What the authorizer is to decide, without its queries, cache and batches: \<open>permitted\<close>. The lemmas show
  that a batch decides exactly that, and that the cache of a request stays true through all operations.
\<close>

section \<open>The rule\<close>

text \<open>The objects from one up its parents; a parent that is not in the table is still one of them.\<close>

inductive upTo :: "accessDB \<Rightarrow> string \<Rightarrow> string \<Rightarrow> bool" for db where
  here: "c \<noteq> [] \<Longrightarrow> upTo db c c"
| parent: "c \<noteq> [] \<Longrightarrow> get (dbObjects db) c = Some row \<Longrightarrow> upTo db (orParent row) a \<Longrightarrow> upTo db c a"

inductive_simps upTo_simps: "upTo db c a"

definition grantHolds :: "accessDB \<Rightarrow> string \<Rightarrow> string \<Rightarrow> string \<Rightarrow> bool" where
  "grantHolds db principalID privilege objectID \<longleftrightarrow>
     (\<exists>g \<in> set (dbGrants db). grObject g = objectID \<and> grPrivilege g = privilege
        \<and> (grSubject g = principalID \<and> (grSubjectType g = ''principal'' \<or> grSubjectType g = ''service_principal'')
           \<or> grSubjectType g = ''group'' \<and> (\<exists>ws. (ws, grSubject g, principalID) \<in> set (dbMembers db))))"

definition permitted :: "accessDB \<Rightarrow> string \<Rightarrow> string \<Rightarrow> string \<Rightarrow> bool" where
  "permitted db principalID privilege objectID \<longleftrightarrow>
     principalID \<noteq> [] \<and> trimSpace privilege \<noteq> []
     \<and> \<not> (\<exists>row. get (dbPrincipals db) principalID = Some row \<and> prDisabled row)
     \<and> (grantHolds db principalID ''MANAGE_PLATFORM'' ''platform''
        \<or> (\<exists>row. get (dbObjects db) objectID = Some row
            \<and> (orOwner row = principalID \<or> (\<exists>a. upTo db objectID a \<and> grantHolds db principalID privilege a))))"

text \<open>The rule in the words of the code.\<close>

lemma grantHolds_code:
  "grantHolds db p privilege objectID \<longleftrightarrow> (\<exists>g \<in> set (dbGrants db). grObject g = objectID \<and> grantMatches db p privilege g)"
  by (auto simp: grantHolds_def grantMatches_def isMember_def)

lemma permitted_code:
  "permitted db p privilege objectID \<longleftrightarrow>
     p \<noteq> [] \<and> trimSpace privilege \<noteq> [] \<and> \<not> principalDisabled db p
     \<and> (grantHolds db p ''MANAGE_PLATFORM'' ''platform''
        \<or> hasKey (dbObjects db) objectID
          \<and> (objectOwner db objectID = p \<or> (\<exists>a. upTo db objectID a \<and> grantHolds db p privilege a)))"
  by (auto simp: permitted_def principalDisabled_def objectOwner_def hasKey_def split: option.splits)

text \<open>It reads the principals, objects, grants and members, and no other table.\<close>

lemma permitted_reads:
  assumes "dbObjects db' = dbObjects db" and "dbGrants db' = dbGrants db"
    and "dbMembers db' = dbMembers db" and "dbPrincipals db' = dbPrincipals db"
  shows "permitted db' = permitted db"
proof -
  have "upTo db' c a \<longleftrightarrow> upTo db c a" for c a
  proof
    show "upTo db' c a \<Longrightarrow> upTo db c a" by (induction rule: upTo.induct) (auto intro: upTo.intros simp: assms(1))
    show "upTo db c a \<Longrightarrow> upTo db' c a" by (induction rule: upTo.induct) (auto intro: upTo.intros simp: assms(1))
  qed
  then show ?thesis by (intro ext) (simp add: permitted_def grantHolds_def assms)
qed

section \<open>Names are not blank\<close>

lemma trimWith_keeps:
  assumes "\<And>code. code \<in> set codes \<Longrightarrow> byte c \<notin> set code"
  shows "c \<in> set s \<Longrightarrow> c \<in> set (trimWith codes s)"
proof (induction "length s" arbitrary: s rule: less_induct)
  case less
  show ?case
  proof (cases "leadingSpace codes s")
    case None
    with less.prems show ?thesis by (simp add: trimWith_id)
  next
    case (Some n)
    then obtain code where "find (\<lambda>code. map byte (take (length code) s) = code) codes = Some code" "n = length code"
      by (auto simp: leadingSpace_def)
    then have code: "code \<in> set codes" "map byte (take n s) = code" by (auto simp: find_Some_iff)
    have "c \<notin> set (take n s)"
    proof
      assume "c \<in> set (take n s)"
      then have "byte c \<in> set (map byte (take n s))" by simp
      with code assms show False by blast
    qed
    with less.prems have "c \<in> set (drop n s)" by (metis Un_iff append_take_drop_id set_append)
    moreover have "length (drop n s) < length s" if "0 < n" using that less.prems by (cases s) auto
    ultimately have "c \<in> set (trimWith codes (drop n s))" if "0 < n" using less.hyps that by blast
    with less.prems Some show ?thesis by (simp add: trimWith.simps [of codes s])
  qed
qed

lemma trimSpace_keeps:
  assumes "c \<in> set s" and "\<And>code. code \<in> set spaceCodes \<Longrightarrow> byte c \<notin> set code"
  shows "trimSpace s \<noteq> []"
proof -
  have "c \<in> set (trimWith spaceCodes s)" by (rule trimWith_keeps) (use assms in auto)
  then have "c \<in> set (trimWith (map rev spaceCodes) (rev (trimWith spaceCodes s)))"
    by (intro trimWith_keeps) (use assms in auto)
  then show ?thesis by (auto simp: trimSpace_def)
qed

lemma trimSpace_CanonicalID [simp]: "trimSpace (CanonicalID r) \<noteq> []"
proof -
  have "\<exists>c \<in> {CHR '':'', CHR ''p''}. c \<in> set (CanonicalID r)" by (simp add: CanonicalID_def)
  then obtain c where "c \<in> {CHR '':'', CHR ''p''}" "c \<in> set (CanonicalID r)" by blast
  then show ?thesis by (intro trimSpace_keeps [of c]) (auto simp: spaceCodes_def byte_def)
qed

section \<open>Ancestors\<close>

lemma ancestryFrom_set:
  "ancestryFrom db ids c = Inr out \<Longrightarrow> set out = set ids \<union> {a. upTo db c a}"
proof (induction db ids c arbitrary: out rule: ancestryFrom.induct)
  case (1 db ids c)
  show ?case
  proof (cases "c = []")
    case True
    with 1 show ?thesis by (auto simp: ancestryFrom.simps [of _ _ "[]"] elim: upTo.cases)
  next
    case c: False
    with 1(2) have new: "c \<notin> set ids" by (auto simp: ancestryFrom.simps [of _ _ c] split: if_splits)
    show ?thesis
    proof (cases "get (dbObjects db) c")
      case None
      with 1(2) c new have "out = ids @ [c]" by (simp add: ancestryFrom.simps [of _ _ c])
      with c None show ?thesis by (auto simp: upTo_simps [of db c])
    next
      case (Some row)
      with 1(2) c new have "ancestryFrom db (ids @ [c]) (orParent row) = Inr out" by (simp add: ancestryFrom.simps [of _ _ c])
      from 1(1) [OF c new Some this] c Some show ?thesis by (auto simp: upTo_simps [of db c])
    qed
  qed
qed

lemma FindAuthorizingGrant_iff:
  "FindAuthorizingGrant db p priv scope \<noteq> None \<longleftrightarrow> (\<exists>a \<in> set scope. grantHolds db p priv a)"
proof -
  let ?found = "concat (map (\<lambda>oid. filter (\<lambda>g. grObject g = oid \<and> grantMatches db p priv g) (dbGrants db)) scope)"
  have "FindAuthorizingGrant db p priv scope \<noteq> None \<longleftrightarrow> ?found \<noteq> []"
    by (cases ?found) (simp_all only: FindAuthorizingGrant_def list.case, simp_all)
  also have "\<dots> \<longleftrightarrow> (\<exists>a \<in> set scope. grantHolds db p priv a)" by (auto simp: grantHolds_code filter_empty_conv)
  finally show ?thesis .
qed

lemma authorizeByGrant_allowed: "azAllowed (authorizeByGrant db p priv scope) \<longleftrightarrow> (\<exists>a \<in> set scope. grantHolds db p priv a)"
  using FindAuthorizingGrant_iff [of db p priv scope]
  by (auto simp: authorizeByGrant_def newDecision_def split: option.splits)

definition factsTrue :: "accessDB \<Rightarrow> string \<Rightarrow> objectFacts \<Rightarrow> bool" where
  "factsTrue db objectID f \<longleftrightarrow> ofExists f = hasKey (dbObjects db) objectID
     \<and> (ofExists f \<longrightarrow> ofOwner f = objectOwner db objectID \<and> set (ofAncestry f) = {a. upTo db objectID a})"

lemma readObjectFacts_true: "readObjectFacts db object = Inr f \<Longrightarrow> factsTrue db (CanonicalID object) f"
  by (auto simp: readObjectFacts_def lookupSecurableObjectID_def factsTrue_def andThen_eq_Inr objectAncestry_def
      dest: ancestryFrom_set split: option.splits if_splits)

lemma loadObjectFacts_true:
  assumes "loadObjectFacts db object known = Inr (f, known')" and "\<forall>k v. get known k = Some v \<longrightarrow> factsTrue db k v"
  shows "factsTrue db (CanonicalID object) f \<and> (\<forall>k v. get known' k = Some v \<longrightarrow> factsTrue db k v)"
  using assms by (auto simp: loadObjectFacts_def andThen_eq_Inr dest!: readObjectFacts_true split: option.splits if_splits)

section \<open>Decisions\<close>

text \<open>A decision is right for a principal when it is about its privilege and object and allows what is permitted.\<close>

definition rightFor :: "accessDB \<Rightarrow> string \<Rightarrow> string \<times> objectRef \<Rightarrow> authDecision \<Rightarrow> bool" where
  "rightFor db p check d \<longleftrightarrow> azPrivilege d = fst check \<and> CanonicalID (azObject d) = CanonicalID (snd check)
     \<and> azAllowed d = permitted db p (fst check) (CanonicalID (snd check))"

definition coherent :: "accessDB \<Rightarrow> authCache \<Rightarrow> bool" where
  "coherent db cache \<longleftrightarrow> (\<forall>p priv object d. CachedAuthorizationDecision cache p priv object = Some d \<longrightarrow> rightFor db p (priv, object) d)"

definition dueFor :: "string \<Rightarrow> string \<times> objectRef \<Rightarrow> authDecision \<Rightarrow> bool" where
  "dueFor p check out \<longleftrightarrow> out = newDecision (fst check) (snd check) \<and> p \<noteq> [] \<and> trimSpace (fst check) \<noteq> []"

lemma decide_right:
  assumes "dueFor p check out" and "\<not> principalDisabled db p" and "factsTrue db (CanonicalID (snd check)) f"
  shows "rightFor db p check (decide db p (authorizeByGrant db p ''MANAGE_PLATFORM'' [CanonicalID PlatformObject]) f out)"
  using assms authorizeByGrant_allowed [of db p "''MANAGE_PLATFORM''" "[CanonicalID PlatformObject]"]
    authorizeByGrant_allowed [of db p "fst check" "ofAncestry f"]
  by (auto simp: rightFor_def decide_def dueFor_def permitted_code factsTrue_def newDecision_def Let_def PlatformObject_def
      CanonicalID_def [of "\<lparr>obType = ''platform'', obWorkspace = [], obID = [], obParent = [], obName = []\<rparr>"])

lemma Cached_Store:
  "CachedAuthorizationDecision (StoreAuthorizationDecision p d cache) q priv object =
     (if cache \<noteq> None \<and> q = p \<and> priv = azPrivilege d \<and> CanonicalID object = CanonicalID (azObject d) then Some d
      else CachedAuthorizationDecision cache q priv object)"
  by (auto simp: CachedAuthorizationDecision_def StoreAuthorizationDecision_def update_conv' split: option.split)

lemma coherent_store: "coherent db cache \<Longrightarrow> rightFor db p check d \<Longrightarrow> coherent db (StoreAuthorizationDecision p d cache)"
  by (auto simp: coherent_def Cached_Store rightFor_def)

lemma coherent_clear [simp]: "coherent db (ClearAuthorizationCache cache)"
  by (auto simp: coherent_def CachedAuthorizationDecision_def ClearAuthorizationCache_def split: option.splits)

lemma decidePending_right:
  assumes "decidePending db p (authorizeByGrant db p ''MANAGE_PLATFORM'' [CanonicalID PlatformObject]) known cache outs = (result, cache')"
    and "\<forall>k v. get known k = Some v \<longrightarrow> factsTrue db k v" and "coherent db cache" and "\<not> principalDisabled db p"
    and "list_all2 (\<lambda>check (out, pending). if pending then dueFor p check out else rightFor db p check out) batch outs"
  shows "coherent db cache' \<and> (\<forall>ds. result = Inr ds \<longrightarrow> list_all2 (rightFor db p) batch ds)"
  using assms
proof (induction outs arbitrary: known cache batch result cache')
  case (Cons item outs)
  obtain out pending where o: "item = (out, pending)" by (cases item)
  obtain check rest where batch: "batch = check # rest" using Cons.prems(5) by (cases batch) auto
  let ?P = "authorizeByGrant db p ''MANAGE_PLATFORM'' [CanonicalID PlatformObject]"
  show ?case
  proof (cases pending)
    case True
    with Cons.prems(5) o batch have due: "dueFor p check out" by simp
    then have obj: "azObject out = snd check" by (simp add: dueFor_def newDecision_def)
    show ?thesis
    proof (cases "loadObjectFacts db (azObject out) known")
      case (Inl e)
      with Cons.prems(1,3) True o show ?thesis by auto
    next
      case (Inr r)
      obtain f known' where r: "r = (f, known')" by (cases r)
      with Inr Cons.prems(2) have f: "factsTrue db (CanonicalID (snd check)) f" "\<forall>k v. get known' k = Some v \<longrightarrow> factsTrue db k v"
        by (auto simp: obj dest: loadObjectFacts_true)
      let ?d = "decide db p ?P f out"
      have d: "rightFor db p check ?d" by (rule decide_right [OF due Cons.prems(4) f(1)])
      obtain result1 where more: "decidePending db p ?P known' (StoreAuthorizationDecision p ?d cache) outs = (result1, cache')"
        "result = (case result1 of Inl e \<Rightarrow> Inl e | Inr ds \<Rightarrow> Inr (?d # ds))"
        using Cons.prems(1) True o Inr r by (auto split: prod.splits sum.splits simp: Let_def)
      from Cons.IH [OF more(1) f(2) coherent_store [OF Cons.prems(3) d] Cons.prems(4), of rest] Cons.prems(5) batch o more(2) d
      show ?thesis by (auto split: sum.splits)
    qed
  next
    case False
    then obtain result1 where more: "decidePending db p ?P known cache outs = (result1, cache')"
        "result = (case result1 of Inl e \<Rightarrow> Inl e | Inr ds \<Rightarrow> Inr (out # ds))"
      using Cons.prems(1) o by (auto split: prod.splits sum.splits)
    from Cons.IH [OF more(1) Cons.prems(2,3,4), of rest] Cons.prems(5) batch o more(2) False
    show ?thesis by (auto split: sum.splits)
  qed
qed auto

end
