(* ===== verification/Access_Properties.thy ===== *)
theory Access_Properties
  imports Access_Rules
begin

text \<open>
  The properties of access control: the authorizer allows what \<open>permitted\<close> says in every state that the
  operations of a request which clear its cache lead to, a role binding gives its role's privileges, and what happens to
  them when bindings are removed.
\<close>

section \<open>A batch decides by the rule\<close>

lemma rightFor_first:
  assumes "coherent db cache"
  shows "snd (firstDecision p cache check) \<Longrightarrow> dueFor p check (fst (firstDecision p cache check))"
    and "\<not> snd (firstDecision p cache check) \<Longrightarrow> rightFor db p check (fst (firstDecision p cache check))"
  using assms
  by (cases check; auto simp: firstDecision_def dueFor_def rightFor_def permitted_code newDecision_def coherent_def Let_def
      split: option.splits if_splits)+

lemma firstDecisions:
  assumes "coherent db cache"
  shows "list_all2 (\<lambda>check (out, pending). if pending then dueFor p check out else rightFor db p check out) batch
    (map (firstDecision p cache) batch)"
  using rightFor_first [OF assms] by (induction batch) (auto simp: case_prod_unfold)

lemma disabled_right:
  assumes "coherent db cache" and "principalDisabled db p"
  shows "rightFor db p check (disableDecision (firstDecision p cache check))"
  using rightFor_first [OF assms(1), of p check] assms(2)
  by (auto simp: disableDecision_def rightFor_def dueFor_def permitted_code newDecision_def)

lemma storeDisabled_coherent:
  assumes "coherent db cache0" and "principalDisabled db p" and "coherent db cache"
  shows "coherent db (fold (storeDisabled p) (map (firstDecision p cache0) batch) cache)"
  using assms(3)
proof (induction batch arbitrary: cache)
  case (Cons check batch)
  then show ?case
    using disabled_right [OF assms(1,2), of check] by (auto simp: storeDisabled_def intro!: Cons.IH coherent_store)
qed simp

lemma AuthorizeBatch_right:
  assumes "AuthorizeBatch p batch s = (result, s')" and "coherent (asDB s) (asCache s)"
  shows "asDB s' = asDB s \<and> coherent (asDB s) (asCache s')
    \<and> (\<forall>ds. result = Inr ds \<longrightarrow> list_all2 (rightFor (asDB s) (trimSpace p)) batch ds)"
proof -
  let ?p = "trimSpace p" and ?db = "asDB s"
  let ?outs = "map (firstDecision ?p (asCache s)) batch"
  let ?P = "authorizeByGrant ?db ?p ''MANAGE_PLATFORM'' [CanonicalID PlatformObject]"
  note first = firstDecisions [OF assms(2), of ?p batch]
  note step = assms(1) [unfolded AuthorizeBatch_def Let_def]
  consider "\<not> (\<exists>out \<in> set ?outs. snd out)" | "\<exists>out \<in> set ?outs. snd out" "principalDisabled ?db ?p"
    | "\<exists>out \<in> set ?outs. snd out" "\<not> principalDisabled ?db ?p" by blast
  then show ?thesis
  proof cases
    case 1
    then have "list_all2 (rightFor ?db ?p) batch (map fst ?outs)"
      using rightFor_first(2) [OF assms(2), of ?p] by (auto simp: list_all2_conv_all_nth)
    with 1 assms show ?thesis by (auto simp: AuthorizeBatch_def Let_def)
  next
    case 2
    then have "result = Inr (map disableDecision ?outs)" "s' = s\<lparr>asCache := fold (storeDisabled ?p) ?outs (asCache s)\<rparr>"
      using step unfolding if_not_P [OF not_not [THEN iffD2, OF 2(1)]] if_P [OF 2(2)] by simp_all
    moreover have "list_all2 (rightFor ?db ?p) batch (map disableDecision ?outs)"
      using disabled_right [OF assms(2) 2(2)] by (simp add: list_all2_conv_all_nth)
    ultimately show ?thesis using storeDisabled_coherent [OF assms(2) 2(2) assms(2)] by simp
  next
    case 3
    then obtain cache where "decidePending ?db ?p ?P [] (asCache s) ?outs = (result, cache)" "s' = s\<lparr>asCache := cache\<rparr>"
      using step unfolding if_not_P [OF not_not [THEN iffD2, OF 3(1)]] if_not_P [OF 3(2)] by (auto split: prod.splits)
    with decidePending_right [OF this(1) _ assms(2) 3(2) first] show ?thesis by simp
  qed
qed

section \<open>The cache through all operations\<close>

definition cacheEmpty :: "authCache \<Rightarrow> bool" where
  "cacheEmpty cache \<longleftrightarrow> cache = None \<or> cache = Some []"

definition tame :: "'a accessOp \<Rightarrow> bool" where
  "tame m \<longleftrightarrow> (\<forall>s. cacheEmpty (asCache s) \<longrightarrow> cacheEmpty (asCache (snd (m s))))"

lemma tame_intros [intro!]:
  "tame (giveA x)" "tame (failA e)" "tame (readA f)" "tame (writeA g)" "tame (guardA b e)" "tame clearA"
  "tame (ensureSecurableObject object)"
  by (auto simp: tame_def giveA_def failA_def readA_def writeA_def guardA_def clearA_def ensureSecurableObject_def
      ClearAuthorizationCache_def cacheEmpty_def split: sum.splits)

lemma tame_then [intro!]: "tame m \<Longrightarrow> (\<And>x. tame (f x)) \<Longrightarrow> tame (thenA m f)"
  unfolding tame_def thenA_def by (metis (mono_tags, lifting) old.sum.exhaust prod.case prod.collapse snd_conv sum.case)

lemma thenA_assoc: "thenA (thenA m f) g = thenA m (\<lambda>x. thenA (f x) g)"
  by (rule ext) (auto simp: thenA_def split: prod.splits sum.splits)

lemma tame_each [intro!]: "(\<And>x. tame (f x)) \<Longrightarrow> tame (eachA f xs)"
  by (induction xs) auto

lemma cleared: "(\<And>x. tame (f x)) \<Longrightarrow> cacheEmpty (asCache (snd (thenA clearA f s)))"
proof -
  have "cacheEmpty (asCache (snd (clearA s)))" "fst (clearA s) = Inr ()"
    by (auto simp: clearA_def ClearAuthorizationCache_def cacheEmpty_def)
  moreover assume "\<And>x. tame (f x)"
  ultimately show ?thesis by (auto simp: thenA_def tame_def split: prod.splits)
qed

lemma cacheEmpty_coherent: "cacheEmpty cache \<Longrightarrow> coherent db cache"
  by (auto simp: coherent_def CachedAuthorizationDecision_def cacheEmpty_def)

lemma tame_parts [intro!]:
  "tame (upsertGrantWithID gid gi)" "tame (deleteRoleBindingGrants bid)" "tame (removeBinding ws bid)"
  "tame (syncRoleBindingGrants bid ws role st sid)" "tame (deletePrincipalRoleBindings ws pid)"
  by (auto simp: upsertGrantWithID_def deleteRoleBindingGrants_def removeBinding_def syncRoleBindingGrants_def
      deletePrincipalRoleBindings_def)

lemma tame_UpsertPrincipal [intro!]: "tame (UpsertPrincipal newID pid kind email name)"
  by (auto simp: UpsertPrincipal_def split: sum.splits)

text \<open>
  One call of the repository in a request. After the calls that are modelled come all others that clear the cache and then
  change the tables, in whatever way (the groups, members and users of SCIM, groups, external identities, local users), and
  those that leave the cache and the principals, objects, grants and members alone (sessions, tokens, secrets, reading).
  \<open>DeletePrincipal\<close>, and the grants that \<open>ReconcileWorkspacePolicy\<close> deletes and writes by itself, are neither.
\<close>

inductive accessStep :: "accessState \<Rightarrow> accessState \<Rightarrow> bool" where
  asAuthorize: "accessStep s (snd (AuthorizeBatch p batch s))"
| asCreateGrant: "accessStep s (snd (CreateGrant newID gi s))"
| asUpdateGrant: "accessStep s (snd (UpdateGrant ws gid gi s))"
| asDeleteGrant: "accessStep s (snd (DeleteGrant ws gid s))"
| asUpsertObject: "accessStep s (snd (UpsertSecurableObject object owner s))"
| asSetOwner: "accessStep s (snd (SetObjectOwner object owner s))"
| asUpsertPolicy: "accessStep s (snd (UpsertDataPolicy newID po s))"
| asDeletePolicy: "accessStep s (snd (DeleteDataPolicy ws pid s))"
| asCreateBinding: "accessStep s (snd (CreateRoleBinding newID bi s))"
| asUpdateBinding: "accessStep s (snd (UpdateRoleBinding ws bid bi s))"
| asDeleteBinding: "accessStep s (snd (DeleteRoleBinding ws bid s))"
| asUpsertPrincipal: "accessStep s (snd (UpsertPrincipal newID pid kind email name s))"
| asSetRole: "accessStep s (snd (SetPrincipalRole sha256 ws email name role s))"
| asRemoveRoles: "accessStep s (snd (RemovePrincipalRoles ws pid s))"
| asPlatformRole: "accessStep s (snd (SetPlatformRole sha256 newID pid email name role s))"
| asBootstrap: "accessStep s (snd (BootstrapAdmin sha256 ws email s))"
| asDeleteService: "accessStep s (snd (DeleteServicePrincipal pid s))"
| asAddMember: "accessStep s (snd (AddGroupMember ws gid pid s))"
| asRemoveMember: "accessStep s (snd (RemoveGroupMember ws gid pid s))"
| asOtherClearing: "asCache s' = ClearAuthorizationCache (asCache s) \<Longrightarrow> accessStep s s'"
| asOtherTables: "asCache s' = asCache s \<Longrightarrow> dbObjects (asDB s') = dbObjects (asDB s) \<Longrightarrow> dbGrants (asDB s') = dbGrants (asDB s)
    \<Longrightarrow> dbMembers (asDB s') = dbMembers (asDB s) \<Longrightarrow> dbPrincipals (asDB s') = dbPrincipals (asDB s) \<Longrightarrow> accessStep s s'"

lemma clearing_ops:
  "cacheEmpty (asCache (snd (CreateGrant newID gi s)))"
  "cacheEmpty (asCache (snd (UpdateGrant ws gid gi s)))"
  "cacheEmpty (asCache (snd (DeleteGrant ws gid s)))"
  "cacheEmpty (asCache (snd (UpsertSecurableObject object owner s)))"
  "cacheEmpty (asCache (snd (SetObjectOwner object owner s)))"
  "cacheEmpty (asCache (snd (UpsertDataPolicy newID po s)))"
  "cacheEmpty (asCache (snd (DeleteDataPolicy ws pid s)))"
  "cacheEmpty (asCache (snd (CreateRoleBinding newID bi s)))"
  "cacheEmpty (asCache (snd (UpdateRoleBinding ws bid bi s)))"
  "cacheEmpty (asCache (snd (DeleteRoleBinding ws bid s)))"
  "cacheEmpty (asCache (snd (UpsertPrincipal newID pid kind email name s)))"
  "cacheEmpty (asCache (snd (SetPrincipalRole sha256 ws email name role s)))"
  "cacheEmpty (asCache (snd (RemovePrincipalRoles ws pid s)))"
  "cacheEmpty (asCache (snd (SetPlatformRole sha256 newID pid email name role s)))"
  "cacheEmpty (asCache (snd (DeleteServicePrincipal pid s)))"
  "cacheEmpty (asCache (snd (AddGroupMember ws gid pid s)))"
  "cacheEmpty (asCache (snd (RemoveGroupMember ws gid pid s)))"
  unfolding CreateGrant_def UpdateGrant_def DeleteGrant_def UpsertSecurableObject_def SetObjectOwner_def UpsertDataPolicy_def
    DeleteDataPolicy_def CreateRoleBinding_def UpdateRoleBinding_def DeleteRoleBinding_def UpsertPrincipal_def SetPrincipalRole_def
    RemovePrincipalRoles_def SetPlatformRole_def DeleteServicePrincipal_def AddGroupMember_def RemoveGroupMember_def Let_def
  by (rule cleared; auto split: sum.splits option.splits prod.splits)+

lemma bootstrap_clears: "trimSpace email \<noteq> [] \<Longrightarrow> cacheEmpty (asCache (snd (BootstrapAdmin sha256 ws email s)))"
  by (auto simp: BootstrapAdmin_def UpsertPrincipal_def Let_def thenA_assoc intro!: cleared split: sum.splits)

inductive accessReach :: "accessState \<Rightarrow> bool" where
  start: "accessReach \<lparr>asDB = db, asCache = WithAuthorizationCache None\<rparr>"
| call: "accessReach s \<Longrightarrow> accessStep s s' \<Longrightarrow> accessReach s'"

lemma coherent_reads:
  assumes "permitted db' = permitted db"
  shows "coherent db' cache \<longleftrightarrow> coherent db cache"
  using assms by (simp add: coherent_def rightFor_def)

lemma accessStep_coherent:
  assumes "accessStep s s'" and "coherent (asDB s) (asCache s)"
  shows "coherent (asDB s') (asCache s')"
  using assms
proof cases
  case (asAuthorize p batch)
  obtain r t where "AuthorizeBatch p batch s = (r, t)" by (cases "AuthorizeBatch p batch s")
  with AuthorizeBatch_right [OF this assms(2)] asAuthorize show ?thesis by simp
next
  case (asBootstrap sha256 ws email)
  show ?thesis
  proof (cases "trimSpace email = []")
    case True
    then show ?thesis using asBootstrap assms(2) by (simp add: BootstrapAdmin_def giveA_def)
  next
    case False
    then show ?thesis using asBootstrap bootstrap_clears by (auto intro: cacheEmpty_coherent)
  qed
next
  case asOtherClearing
  then show ?thesis by simp
next
  case asOtherTables
  then show ?thesis using assms(2) coherent_reads [OF permitted_reads] by metis
qed (auto intro!: cacheEmpty_coherent clearing_ops)

lemma accessReach_coherent: "accessReach s \<Longrightarrow> coherent (asDB s) (asCache s)"
  by (induction rule: accessReach.induct)
    (auto intro: accessStep_coherent cacheEmpty_coherent simp: WithAuthorizationCache_def cacheEmpty_def)

lemma Authorize_right:
  assumes "Authorize p privilege object s = (Inr d, s')" and "coherent (asDB s) (asCache s)"
  shows "rightFor (asDB s) (trimSpace p) (privilege, object) d"
proof -
  obtain ds where ds: "AuthorizeBatch p [(privilege, object)] s = (Inr ds, s')"
    "(case ds of [] \<Rightarrow> giveA ((newDecision privilege object)\<lparr>azReason := MissingObject\<rparr>) | d # _ \<Rightarrow> giveA d) s' = (Inr d, s')"
    using assms(1) by (auto simp: Authorize_def thenA_def giveA_def split: prod.splits sum.splits list.splits)
  from AuthorizeBatch_right [OF ds(1) assms(2)] ds(2) show ?thesis
    by (auto simp: giveA_def list_all2_Cons1)
qed

lemma lastDecision_allowed: "azAllowed (lastDecision ds) \<longleftrightarrow> (\<exists>d \<in> set ds. azAllowed d)"
  by (auto simp: lastDecision_def newDecision_def find_None_iff find_Some_iff split: option.split)

lemma AuthorizeAny_right:
  assumes "AuthorizeAny p privilege objects s = (Inr d, s')" and "coherent (asDB s) (asCache s)"
  shows "azAllowed d \<longleftrightarrow> (\<exists>object \<in> set objects. permitted (asDB s) (trimSpace p) privilege (CanonicalID object))"
proof (cases "objects = []")
  case True
  with assms(1) show ?thesis by (auto simp: AuthorizeAny_def giveA_def newDecision_def)
next
  case False
  then obtain ds where ds: "AuthorizeBatch p (map (Pair privilege) objects) s = (Inr ds, s')" "d = lastDecision ds"
    using assms(1) by (auto simp: AuthorizeAny_def thenA_def giveA_def split: prod.splits sum.splits)
  from AuthorizeBatch_right [OF ds(1) assms(2)]
  have "list_all2 (rightFor (asDB s) (trimSpace p)) (map (Pair privilege) objects) ds" by blast
  then show ?thesis unfolding ds(2) lastDecision_allowed
    by (induction objects arbitrary: ds) (auto simp: list_all2_Cons1 rightFor_def)
qed

text \<open>
  C37: The authorizer allows exactly what is permitted: a principal that is not blank and not disabled may
  use a privilege on an object when it administers the platform, or the object is known and the
  principal owns it or holds a grant of the privilege, for itself or for a group it is a member of, on the object
  or one above it. This holds whatever the cache of the request has kept, after any calls of the request that clear the
  cache before they change the tables, or change none that the rule reads; one object of several is
  enough for \<open>AuthorizeAny\<close>. \<open>DeletePrincipal\<close> and \<open>ReconcileWorkspacePolicy\<close> are not such calls: see
  \<open>deleted_principal_keeps_decision\<close>.
\<close>

theorem authorize_exact:
  assumes "accessReach s"
  shows "(Authorize p privilege object s = (Inr d, s') \<longrightarrow>
      azAllowed d = permitted (asDB s) (trimSpace p) privilege (CanonicalID object))
    \<and> (AuthorizeAny p privilege objects s = (Inr d', s'') \<longrightarrow>
      azAllowed d' = (\<exists>object \<in> set objects. permitted (asDB s) (trimSpace p) privilege (CanonicalID object)))"
  using Authorize_right [of p privilege object s d s'] AuthorizeAny_right [of p privilege objects s d' s'']
    accessReach_coherent [OF assms] by (auto simp: rightFor_def)

section \<open>Grants of a binding\<close>

definition grantKey :: "grantRow \<Rightarrow> string \<times> string \<times> string \<times> string" where
  "grantKey g = (grObject g, grSubjectType g, grSubject g, grPrivilege g)"

lemma sameGrant_key: "sameGrant g h \<longleftrightarrow> grantKey g = grantKey h"
  by (auto simp: sameGrant_def grantKey_def)

lemma grantKey_id [simp]: "grantKey (g\<lparr>grID := i\<rparr>) = grantKey g"
  by (simp add: grantKey_def)

definition grantsOf :: "accessDB \<Rightarrow> string \<times> string \<times> string \<times> string \<Rightarrow> grantRow list" where
  "grantsOf db key = filter (\<lambda>g. grantKey g = key) (dbGrants db)"

text \<open>After a grant is written there is a row for it, and each such row carries the id.\<close>

definition ownedBy :: "string \<Rightarrow> accessDB \<Rightarrow> string \<times> string \<times> string \<times> string \<Rightarrow> bool" where
  "ownedBy gid db key \<longleftrightarrow> grantsOf db key \<noteq> [] \<and> (\<forall>g \<in> set (grantsOf db key). grID g = gid)"

lemma access_Inr:
  "thenA m f s = (Inr y, s'') \<longleftrightarrow> (\<exists>x s'. m s = (Inr x, s') \<and> f x s' = (Inr y, s''))"
  "writeA w s = (Inr u, s') \<longleftrightarrow> (\<exists>db. w (asDB s) = Inr db \<and> s' = s\<lparr>asDB := db\<rparr>)"
  "readA q s = (Inr z, s') \<longleftrightarrow> q (asDB s) = Inr z \<and> s' = s"
  "guardA b e s = (Inr v, s') \<longleftrightarrow> \<not> b \<and> s' = s"
  "giveA a s = (Inr a', s') \<longleftrightarrow> a = a' \<and> s' = s"
  "failA e s = (Inr a', s') \<longleftrightarrow> False"
  "clearA s = (Inr v, s') \<longleftrightarrow> s' = s\<lparr>asCache := ClearAuthorizationCache (asCache s)\<rparr>"
  by (auto simp: thenA_def writeA_def readA_def guardA_def giveA_def failA_def clearA_def split: prod.splits sum.splits)

lemma upsertObjectRow_objects: "\<exists>rows. upsertObjectRow i r q d = d\<lparr>dbObjects := rows\<rparr> \<and> hasKey rows i"
  by (auto simp: upsertObjectRow_def)

lemma ensureObject_grants: "ensureObject object db = Inr (oid, db') \<Longrightarrow>
    oid = CanonicalID object \<and> (\<exists>rows. db' = db\<lparr>dbObjects := rows\<rparr> \<and> hasKey rows oid)"
proof (induction object db arbitrary: oid db' rule: ensureObject.induct)
  case (1 object db)
  show ?case
  proof (cases "trimSpace (obParent object) \<noteq> [] \<or> parentOf object = None")
    case True
    with 1(2) show ?thesis
      using upsertObjectRow_objects by (auto simp: ensureObject.simps [of object] Let_def split: if_splits)
  next
    case False
    then obtain parent pid db1 where p: "parentOf object = Some parent" "ensureObject parent db = Inr (pid, db1)"
      "oid = CanonicalID object" "db' = upsertObjectRow (CanonicalID object) object (CanonicalID parent) db1"
      using 1(2) by (auto simp: ensureObject.simps [of object] Let_def andThen_eq_Inr)
    obtain rows1 where "db1 = db\<lparr>dbObjects := rows1\<rparr>" using 1(1) [OF refl _ _ p(1,2)] False by auto
    moreover obtain rows where "db' = db1\<lparr>dbObjects := rows\<rparr>" "hasKey rows oid"
      using upsertObjectRow_objects p(3,4) by metis
    ultimately show ?thesis using p(3) by auto
  qed
qed

lemma ensureSecurableObject_Inr:
  "ensureSecurableObject object s = (Inr oid, s') \<Longrightarrow> oid = CanonicalID object
     \<and> (\<exists>rows. asDB s' = (asDB s)\<lparr>dbObjects := rows\<rparr> \<and> hasKey rows oid)"
  by (auto simp: ensureSecurableObject_def split: sum.splits prod.splits dest: ensureObject_grants)

lemma upsertGrantRow_owned:
  assumes "upsertGrantRow r db = Inr db'"
  shows "ownedBy (grID r) db' (grantKey r)" and "key \<noteq> grantKey r \<Longrightarrow> grantsOf db' key = grantsOf db key"
proof -
  let ?f = "\<lambda>h. if grantKey h = grantKey r then h\<lparr>grID := grID r\<rparr> else h"
  consider g where "g \<in> set (dbGrants db)" "grantKey g = grantKey r" "dbGrants db' = map ?f (dbGrants db)"
    | "grantKey r \<notin> grantKey ` set (dbGrants db)" "dbGrants db' = dbGrants db @ [r]"
    using assms by (force simp: upsertGrantRow_def sameGrant_key split: if_splits)
  then have "ownedBy (grID r) db' (grantKey r) \<and> (key \<noteq> grantKey r \<longrightarrow> grantsOf db' key = grantsOf db key)"
  proof cases
    case 1
    then have "?f g \<in> set (grantsOf db' (grantKey r))" by (auto simp: grantsOf_def)
    then have "grantsOf db' (grantKey r) \<noteq> []" by (metis empty_iff list.set(1))
    moreover have "\<forall>x \<in> set (grantsOf db' (grantKey r)). grID x = grID r" by (auto simp: grantsOf_def 1(3))
    moreover have "filter (\<lambda>g. grantKey g = key) (map ?f gs) = filter (\<lambda>g. grantKey g = key) gs" if "key \<noteq> grantKey r" for gs
      using that by (induction gs) auto
    then have "key \<noteq> grantKey r \<longrightarrow> grantsOf db' key = grantsOf db key" by (simp add: grantsOf_def 1(3))
    ultimately show ?thesis by (simp add: ownedBy_def)
  next
    case 2
    then show ?thesis by (auto simp: ownedBy_def grantsOf_def rev_image_eqI)
  qed
  then show "ownedBy (grID r) db' (grantKey r)" and "key \<noteq> grantKey r \<Longrightarrow> grantsOf db' key = grantsOf db key" by simp_all
qed

lemma upsertGrantWithID_Inr:
  assumes "upsertGrantWithID gid gi s = (Inr u, s')"
  shows "ownedBy gid (asDB s') (CanonicalID (giObject gi), giSubjectType gi, trimSpace (giSubject gi), giPrivilege gi)"
    and "snd (snd (snd key)) \<noteq> giPrivilege gi \<Longrightarrow> grantsOf (asDB s') key = grantsOf (asDB s) key"
proof -
  let ?r = "\<lparr>grID = gid, grObject = CanonicalID (giObject gi), grSubjectType = giSubjectType gi,
     grSubject = trimSpace (giSubject gi), grPrivilege = giPrivilege gi\<rparr>"
  obtain oid s1 db where e: "ensureSecurableObject (giObject gi) s = (Inr oid, s1)" "s' = s1\<lparr>asDB := db\<rparr>"
    "upsertGrantRow (?r\<lparr>grObject := oid\<rparr>) (asDB s1) = Inr db"
    using assms by (auto simp: upsertGrantWithID_def access_Inr)
  then have s1: "dbGrants (asDB s1) = dbGrants (asDB s)" "upsertGrantRow ?r (asDB s1) = Inr (asDB s')"
    using ensureSecurableObject_Inr [OF e(1)] by auto
  have key: "grantKey ?r = (CanonicalID (giObject gi), giSubjectType gi, trimSpace (giSubject gi), giPrivilege gi)"
    by (simp add: grantKey_def)
  show "ownedBy gid (asDB s') (CanonicalID (giObject gi), giSubjectType gi, trimSpace (giSubject gi), giPrivilege gi)"
    using upsertGrantRow_owned(1) [OF s1(2)] by (simp add: key)
  show "snd (snd (snd key)) \<noteq> giPrivilege gi \<Longrightarrow> grantsOf (asDB s') key = grantsOf (asDB s) key"
    using upsertGrantRow_owned(2) [OF s1(2), of key] s1(1) by (cases key) (auto simp: grantsOf_def key)
qed

definition bindingGrant :: "string \<Rightarrow> objectRef \<Rightarrow> string \<Rightarrow> string \<Rightarrow> string \<Rightarrow> unit accessOp" where
  "bindingGrant bid object st sid privilege = upsertGrantWithID (roleBindingGrantID bid privilege)
     \<lparr>giObject = object, giSubjectType = st, giSubject = sid, giPrivilege = privilege\<rparr>"

lemma bindingGrants_owned:
  assumes "eachA (bindingGrant bid object st sid) ps s = (Inr u, s')"
  shows "(privilege \<in> set ps \<longrightarrow> ownedBy (roleBindingGrantID bid privilege) (asDB s') (CanonicalID object, st, trimSpace sid, privilege))
    \<and> (snd (snd (snd key)) \<notin> set ps \<longrightarrow> grantsOf (asDB s') key = grantsOf (asDB s) key)"
  using assms
proof (induction ps arbitrary: s privilege key)
  case (Cons q ps)
  then obtain v s1 where s1: "bindingGrant bid object st sid q s = (Inr v, s1)"
    "eachA (bindingGrant bid object st sid) ps s1 = (Inr u, s')"
    by (auto simp: access_Inr)
  note one = upsertGrantWithID_Inr [OF s1(1) [unfolded bindingGrant_def], simplified]
  have "ownedBy (roleBindingGrantID bid q) (asDB s') (CanonicalID object, st, trimSpace sid, q)"
  proof (cases "q \<in> set ps")
    case True
    then show ?thesis using Cons.IH [OF s1(2), of q] by blast
  next
    case False
    then have "grantsOf (asDB s') (CanonicalID object, st, trimSpace sid, q) = grantsOf (asDB s1) (CanonicalID object, st, trimSpace sid, q)"
      using Cons.IH [OF s1(2), where key = "(CanonicalID object, st, trimSpace sid, q)"] by simp
    then show ?thesis using one(1) by (simp add: ownedBy_def)
  qed
  then show ?case using Cons.IH [OF s1(2), of privilege key] one(2) [of key] by auto
qed (auto simp: access_Inr)

lemma syncRoleBindingGrants_eq:
  "syncRoleBindingGrants bid ws role st sid = thenA (ensureSecurableObject (WorkspaceObject ws)) (\<lambda>_.
     thenA (readA (rolePrivileges role)) (eachA (bindingGrant bid (WorkspaceObject ws) st sid)))"
  by (simp add: syncRoleBindingGrants_def bindingGrant_def [abs_def])

lemma insertBinding_Inr: "insertBinding b db = Inr db' \<Longrightarrow> \<exists>bs. db' = db\<lparr>dbBindings := bs\<rparr>"
  by (auto simp: insertBinding_def split: if_splits) (metis accessDB.cases accessDB.update_convs(9))+

lemma created_binding:
  assumes "CreateRoleBinding newID bi s = (Inr b, s')" and "rolePrivileges (biRole bi) (asDB s) = Inr ps" and "privilege \<in> set ps"
  shows "ownedBy (roleBindingGrantID (rbID b) privilege) (asDB s')
    (CanonicalID (WorkspaceObject (biWorkspace bi)), biSubjectType bi, trimSpace (biSubject bi), privilege)"
proof -
  let ?s2 = "\<lambda>db. s\<lparr>asCache := ClearAuthorizationCache (asCache s), asDB := db\<rparr>"
  obtain bid role pid gid db1 where *: "insertBinding \<lparr>rbID = bid, rbWorkspace = biWorkspace bi, rbRole = role, rbPrincipal = pid,
      rbGroup = gid\<rparr> (asDB s) = Inr db1"
    "syncRoleBindingGrants bid (biWorkspace bi) (biRole bi) (biSubjectType bi) (biSubject bi) (?s2 db1) = (Inr (), s')"
    "GetRoleBinding (biWorkspace bi) bid (asDB s') = Inr b"
    using assms(1) unfolding CreateRoleBinding_def
    by (auto simp: access_Inr split: sum.splits prod.splits)
  have bid: "rbID b = bid" using *(3) by (auto simp: GetRoleBinding_def find_Some_iff split: option.splits)
  obtain oid s4 qs where s4: "ensureSecurableObject (WorkspaceObject (biWorkspace bi)) (?s2 db1) = (Inr oid, s4)"
    "rolePrivileges (biRole bi) (asDB s4) = Inr qs"
    "eachA (bindingGrant bid (WorkspaceObject (biWorkspace bi)) (biSubjectType bi) (biSubject bi)) qs s4 = (Inr (), s')"
    using *(2) by (auto simp: syncRoleBindingGrants_eq access_Inr)
  have "dbTemplates (asDB s4) = dbTemplates (asDB s)"
    using ensureSecurableObject_Inr [OF s4(1)] insertBinding_Inr [OF *(1)] by auto
  then have "qs = ps" using s4(2) assms(2) by (simp add: rolePrivileges_def Let_def split: if_splits)
  then show ?thesis using bindingGrants_owned [OF s4(3), of privilege] assms(3) by (simp add: bid)
qed



text \<open>
  C38: A role binding gives what its role says: once it is created, its subject -- a principal that is not
  disabled, or a member of the group -- may use each privilege of the role on the workspace
  and on every known object below it.
\<close>

theorem binding_grants_role:
  assumes "CreateRoleBinding newID bi s = (Inr b, s')" and "rolePrivileges (biRole bi) (asDB s) = Inr ps"
    and "privilege \<in> set ps" and "trimSpace privilege \<noteq> []"
    and "p \<noteq> []" and "\<not> principalDisabled (asDB s') p"
    and "biSubjectType bi \<in> {''principal'', ''service_principal''} \<and> p = trimSpace (biSubject bi)
      \<or> biSubjectType bi = ''group'' \<and> isMember (asDB s') (trimSpace (biSubject bi)) p"
    and "hasKey (dbObjects (asDB s')) objectID" and "upTo (asDB s') objectID (CanonicalID (WorkspaceObject (biWorkspace bi)))"
  shows "permitted (asDB s') p privilege objectID"
proof -
  obtain g where g: "g \<in> set (dbGrants (asDB s'))"
    "grantKey g = (CanonicalID (WorkspaceObject (biWorkspace bi)), biSubjectType bi, trimSpace (biSubject bi), privilege)"
    using created_binding [OF assms(1-3)] by (auto simp: ownedBy_def grantsOf_def filter_empty_conv)
  then have "grantHolds (asDB s') p privilege (CanonicalID (WorkspaceObject (biWorkspace bi)))"
    using assms(7) by (auto simp: grantHolds_code grantMatches_def grantKey_def intro!: bexI [of _ g])
  with assms show ?thesis by (auto simp: permitted_code)
qed


text \<open>
  C40: Taking a principal's roles away does not take any permission away: \<open>RemovePrincipalRoles\<close> deletes its
  bindings and leaves the grants, which are all that authorization reads, so every decision for every
  principal is as before.
\<close>

theorem removed_roles_keep_access:
  assumes "RemovePrincipalRoles ws pid s = (Inr u, s')"
  shows "filter (\<lambda>b. rbWorkspace b = ws \<and> rbPrincipal b = Some pid) (dbBindings (asDB s')) = []
    \<and> permitted (asDB s') p privilege objectID = permitted (asDB s) p privilege objectID"
proof -
  have *: "asDB s' = (asDB s)\<lparr>dbBindings := filter (\<lambda>b. \<not> (rbWorkspace b = ws \<and> rbPrincipal b = Some pid)) (dbBindings (asDB s))\<rparr>"
    using assms by (auto simp: RemovePrincipalRoles_def deletePrincipalRoleBindings_def access_Inr)
  show ?thesis unfolding * by (simp add: filter_empty_conv permitted_reads [of "(asDB s)\<lparr>dbBindings := bs\<rparr>" "asDB s" for bs])
qed

section \<open>A user with two roles\<close>

definition demoState :: "objectRow goMap \<Rightarrow> grantRow list \<Rightarrow> bindingRow list \<Rightarrow> accessState" where
  "demoState objects rows bindings = \<lparr>asDB = \<lparr>dbObjects = objects, dbGrants = rows, dbMembers = [],
       dbPrincipals = [(''p'', \<lparr>prKind = ''user'', prEmail = [], prName = ''P'', prDisabled = False\<rparr>)],
       dbWorkspaces = [''w''], dbGroups = [], dbRoles = [''viewer'', ''editor''],
       dbTemplates = [(''viewer'', [''QUERY_DATA'']), (''editor'', [''EDIT_ITEM'', ''QUERY_DATA''])],
       dbBindings = bindings, dbPlatformBindings = [], dbPolicies = []\<rparr>,
     asCache = Some []\<rparr>"

definition demoObjects :: "objectRow goMap" where
  "demoObjects =
     [(''platform'', \<lparr>orType = ''platform'', orWorkspace = [], orParent = [], orOwner = [], orName = ''platform''\<rparr>),
      (''workspace:w'', \<lparr>orType = ''workspace'', orWorkspace = ''w'', orParent = ''platform'', orOwner = [], orName = ''w''\<rparr>)]"

definition demoGrant :: "string \<Rightarrow> string \<Rightarrow> grantRow" where
  "demoGrant gid privilege = \<lparr>grID = gid, grObject = ''workspace:w'', grSubjectType = ''principal'', grSubject = ''p'',
     grPrivilege = privilege\<rparr>"

definition demoRow :: "string \<Rightarrow> string \<Rightarrow> bindingRow" where
  "demoRow bid role = \<lparr>rbID = bid, rbWorkspace = ''w'', rbRole = role, rbPrincipal = Some ''p'', rbGroup = None\<rparr>"

definition demoRoleBinding :: "string \<Rightarrow> string \<Rightarrow> bindingInput" where
  "demoRoleBinding bid role = \<lparr>biID = bid, biWorkspace = ''w'', biSubjectType = ''principal'', biSubject = ''p'', biRole = role\<rparr>"

abbreviation demoStart :: accessState where
  "demoStart \<equiv> demoState [] [] []"

abbreviation demoViewer :: accessState where
  "demoViewer \<equiv> demoState demoObjects [demoGrant ''grant_b1_query_data'' ''QUERY_DATA''] [demoRow ''b1'' ''viewer'']"




lemma demo_trims:
  "trimSpace ''p'' = ''p''" "trimSpace ''w'' = ''w''" "trimSpace ''b1'' = ''b1''" "trimSpace ''b2'' = ''b2''"
  "trimSpace ''viewer'' = ''viewer''" "trimSpace ''editor'' = ''editor''" "trimSpace ''QUERY_DATA'' = ''QUERY_DATA''"
  "trimSpace ''platform'' = ''platform''" "trimSpace ''workspace:w'' = ''workspace:w''" "trimSpace [] = []"
  by (rule trimSpace_id; simp add: byte_def)+

lemma demo_lower: "toLower ''QUERY_DATA'' = ''query_data''" "toLower ''EDIT_ITEM'' = ''edit_item''"
  by (simp_all add: toLower_def lowerByte_def byte_def char_of_def bit_0)

lemmas demo_defs = demoState_def demoObjects_def demoGrant_def demoRow_def demoRoleBinding_def demo_trims demo_lower
  thenA_def clearA_def guardA_def giveA_def failA_def readA_def writeA_def andThen_def hasKey_def Let_def ClearAuthorizationCache_def
  ensureSecurableObject_def ensureObject.simps WorkspaceObject_def PlatformObject_def parentOf_def CanonicalID_def
  upsertObjectRow_def objectDisplayName_def

lemmas demo_role_defs = demo_defs CreateRoleBinding_def roleBindingParts_def GetRoleByName_def insertBinding_def knownKeys_def
  sameBinding_def syncRoleBindingGrants_def rolePrivileges_def upsertGrantWithID_def upsertGrantRow_def sameGrant_def
  roleBindingGrantID_def GetRoleBinding_def

lemma demo_viewer: "CreateRoleBinding (Inl noRows) (demoRoleBinding ''b1'' ''viewer'') demoStart = (Inr (demoRow ''b1'' ''viewer''), demoViewer)"
  by (simp add: demo_role_defs)




lemma demo_holds: "permitted (asDB demoViewer) ''p'' ''QUERY_DATA'' ''workspace:w''"
proof -
  have "upTo (asDB demoViewer) ''workspace:w'' ''workspace:w''" by (rule upTo.here) simp
  then show ?thesis
    by (auto simp: permitted_code grantHolds_code grantMatches_def principalDisabled_def demo_defs)
qed

section \<open>The properties on it\<close>

lemma demo_access: "accessReach demoViewer"
proof -
  have "demoStart = \<lparr>asDB = asDB demoStart, asCache = WithAuthorizationCache None\<rparr>"
    by (simp add: demoState_def WithAuthorizationCache_def)
  then have "accessReach demoStart" using accessReach.start [of "asDB demoStart"] by simp
  moreover have "accessStep demoStart demoViewer"
    using asCreateBinding [of demoStart "Inl noRows" "demoRoleBinding ''b1'' ''viewer''"] by (simp add: demo_viewer)
  ultimately show ?thesis by (rule accessReach.call)
qed

lemma demo_authorize: "\<exists>d s'. Authorize ''p'' ''QUERY_DATA'' (WorkspaceObject ''w'') demoViewer = (Inr d, s')"
  by (simp add: Authorize_def AuthorizeBatch_def firstDecision_def CachedAuthorizationDecision_def principalDisabled_def
      authorizeByGrant_def FindAuthorizingGrant_def grantMatches_def loadObjectFacts_def readObjectFacts_def
      lookupSecurableObjectID_def objectAncestry_def ancestryFrom.simps newDecision_def demo_defs)

theorem authorize_exact_witness:
  "\<exists>d s'. Authorize ''p'' ''QUERY_DATA'' (WorkspaceObject ''w'') demoViewer = (Inr d, s') \<and> azAllowed d"
proof -
  obtain d s' where d: "Authorize ''p'' ''QUERY_DATA'' (WorkspaceObject ''w'') demoViewer = (Inr d, s')"
    using demo_authorize by blast
  have "CanonicalID (WorkspaceObject ''w'') = ''workspace:w''" by (simp add: demo_defs)
  then have "azAllowed d"
    using conjunct1 [OF authorize_exact [OF demo_access, of "''p''" "''QUERY_DATA''" "WorkspaceObject ''w''" d s']] d demo_holds
    by (simp add: demo_trims)
  with d show ?thesis by blast
qed

text \<open>
  Where that stops: a member of a group is authorized, then deleted. The membership goes with it, the cached decision stays,
  and the same request is still allowed what the tables no longer permit.
\<close>

abbreviation demoMember :: accessState where
  "demoMember \<equiv> \<lparr>asDB = (asDB demoStart)\<lparr>dbObjects := demoObjects, dbGroups := [''g''], dbMembers := [(''w'', ''g'', ''p'')],
     dbGrants := [\<lparr>grID = ''1'', grObject = ''workspace:w'', grSubjectType = ''group'', grSubject = ''g'', grPrivilege = ''QUERY_DATA''\<rparr>]\<rparr>,
     asCache = Some []\<rparr>"

definition demoAllowed :: authDecision where
  "demoAllowed = (newDecision ''QUERY_DATA'' (WorkspaceObject ''w''))\<lparr>azAllowed := True, azGrantID := ''1'', azGrantObject := ''workspace:w'',
     azSubjectType := ''group'', azSubject := ''g'', azReason := GrantReason\<rparr>"

definition demoGone :: accessState where
  "demoGone = \<lparr>asDB = deletePrincipalRow ''p'' (asDB demoMember),
     asCache = Some [((''p'', ''QUERY_DATA'', ''workspace:w''), demoAllowed)]\<rparr>"

lemmas demo_authorize_defs = AuthorizeBatch_def firstDecision_def CachedAuthorizationDecision_def principalDisabled_def
  authorizeByGrant_def FindAuthorizingGrant_def grantMatches_def isMember_def loadObjectFacts_def readObjectFacts_def
  lookupSecurableObjectID_def objectAncestry_def ancestryFrom.simps newDecision_def decide_def objectOwner_def
  StoreAuthorizationDecision_def

lemma deleted_principal_keeps_decision:
  "\<exists>s. accessReach s \<and> DeletePrincipal ''p'' s = (Inr (), demoGone)
     \<and> (\<exists>d s'. Authorize ''p'' ''QUERY_DATA'' (WorkspaceObject ''w'') demoGone = (Inr d, s') \<and> azAllowed d)
     \<and> \<not> permitted (asDB demoGone) ''p'' ''QUERY_DATA'' ''workspace:w''"
proof (intro exI conjI)
  let ?s = "\<lparr>asDB = asDB demoMember, asCache = Some [((''p'', ''QUERY_DATA'', ''workspace:w''), demoAllowed)]\<rparr>"
  have "accessReach demoMember"
    using accessReach.start [of "asDB demoMember"] by (simp add: WithAuthorizationCache_def)
  moreover have "snd (AuthorizeBatch ''p'' [(''QUERY_DATA'', WorkspaceObject ''w'')] demoMember) = ?s"
    by (simp add: demo_authorize_defs demoAllowed_def demo_defs)
  ultimately show "accessReach ?s" using accessReach.call asAuthorize by metis
  show "DeletePrincipal ''p'' ?s = (Inr (), demoGone)"
    by (simp add: DeletePrincipal_def demoGone_def demo_defs)
  show "Authorize ''p'' ''QUERY_DATA'' (WorkspaceObject ''w'') demoGone = (Inr demoAllowed, demoGone)"
    by (simp add: Authorize_def demo_authorize_defs demoGone_def demo_defs)
  show "azAllowed demoAllowed" by (simp add: demoAllowed_def)
  show "\<not> permitted (asDB demoGone) ''p'' ''QUERY_DATA'' ''workspace:w''"
    by (simp add: permitted_def grantHolds_def demoGone_def deletePrincipalRow_def demo_defs)
qed

theorem binding_grants_role_witness: "permitted (asDB demoViewer) ''p'' ''QUERY_DATA'' ''workspace:w''"
proof -
  have "upTo (asDB demoViewer) ''workspace:w'' ''workspace:w''" by (rule upTo.here) simp
  then show ?thesis
    by (intro binding_grants_role [OF demo_viewer, of "[''QUERY_DATA'']"])
      (simp_all add: rolePrivileges_def principalDisabled_def demo_defs)
qed


theorem removed_roles_keep_access_witness:
  "\<exists>s'. RemovePrincipalRoles ''w'' ''p'' demoViewer = (Inr (), s') \<and> dbBindings (asDB s') = []
    \<and> permitted (asDB s') ''p'' ''QUERY_DATA'' ''workspace:w''"
proof -
  obtain s' where s': "RemovePrincipalRoles ''w'' ''p'' demoViewer = (Inr (), s')" "dbBindings (asDB s') = []"
    by (simp add: RemovePrincipalRoles_def deletePrincipalRoleBindings_def demo_defs)
  with removed_roles_keep_access [OF s'(1), of "''p''" "''QUERY_DATA''" "''workspace:w''"] demo_holds show ?thesis by blast
qed

end
