(* ===== verification/Spec2Isabelle.thy ===== *)
theory Spec2Isabelle
  imports Workload_Properties Expr_Properties SQL_Properties Model_Properties Scope_Properties
    Cache_Properties Cache_Flights Manifest_Properties Manifest_JSON Stream_Properties
    Access_Properties
begin

text \<open>
  A verification library for LeapView, a server that lets workspaces define semantic models over
  files and tables, refreshes them into an embedded analytical database and serves dashboards from
  it. The Go program under \<^verbatim>\<open>src/internal\<close> is a set of packages around that database. The
  library models the packages that decide something on their own, without the database, the network
  or the file system, and states each decision as a theorem about the translated code.

  \<^bold>\<open>The parts and how they interact.\<close>

  \<^item> A query, refresh or agent call first asks the workload controller for a slot
    (\<^verbatim>\<open>internal/workload\<close>). It runs when the controller grants a lease and gives the slot back by
    releasing the lease.
  \<^item> What a query may refer to is a semantic model, checked once when a workspace is compiled
    (\<^verbatim>\<open>internal/analytics/model\<close>): connections and sources (\<^verbatim>\<open>internal/analytics/connectors\<close>), the
    SQL of the tables, relationships between them, measures, dimensions and metrics. The expressions
    of measures and metrics have their own language.
  \<^item> The result of a query is a reference-counted set of Arrow records
    (\<^verbatim>\<open>internal/analytics/arrowresult\<close>), kept in a cache for the whole node
    (\<^verbatim>\<open>internal/analytics/resultcache\<close>), whose callers wait for each other when they ask for the same
    result at the same time.
  \<^item> Files that are uploaded for a model make up revisions, each a manifest of paths, sizes and
    digests (\<^verbatim>\<open>internal/manageddata\<close>).
  \<^item> A page of a dashboard is a stream of events. Each change of its filters begins a refresh, whose
    queries publish through one coordinator (\<^verbatim>\<open>internal/dashboard/stream\<close>), which drops what a
    superseded refresh still sends.
  \<^item> Who may do what is kept in tables of objects, grants, role bindings and data policies, and
    asked of one authorizer (\<^verbatim>\<open>internal/access\<close>), once per request and object.

  \<^bold>\<open>Conventions\<close> (\<open>LV_Prelude\<close>, \<open>Go_Strings\<close>, \<open>Go_Results\<close>). Go's integers are \<open>int\<close>, and an addition
  that can leave 64 bits is wrapped by \<open>wrap64\<close>. A string is the list of its bytes; the functions of
  \<^verbatim>\<open>strings\<close>, \<^verbatim>\<open>path\<close> and \<^verbatim>\<open>unicode\<close> are defined on bytes, with ASCII letters only. A Go map is an
  association list with one entry per key: \<open>get\<close>, \<open>put\<close> and \<open>del\<close>; a loop over a map runs over that
  list, and where the order could matter the theorems quantify over all lists. An error is a value:
  \<open>Inl (Errorf format arguments)\<close>, and \<open>andThen\<close> is the early return. Code that is not under \<^verbatim>\<open>src\<close>
  is an argument: IEEE arithmetic and \<^verbatim>\<open>strconv.ParseFloat\<close>, \<^verbatim>\<open>url.Parse\<close>, the Arrow library,
  \<^verbatim>\<open>sha256.Sum256\<close>, the clock, fresh random identifiers.

  \<^bold>\<open>Workload\<close> (\<open>Workload_Types\<close>, \<open>Workload_Queue\<close>, \<open>Workload_Controller\<close>, \<open>Workload_System\<close>; proofs in
  \<open>Workload_Invariants\<close>, \<open>Workload_Runs\<close>, \<open>Workload_Properties\<close>). \<^verbatim>\<open>workload.go\<close> and
  \<^verbatim>\<open>controller.go\<close> are modelled whole: the queue of a class with its rotation over workspaces, the
  scheduler, and \<open>Acquire\<close> cut at its select into entering and the three ways to wake. A system is
  the controller with its callers; a step is one locked section or one wake-up, and the theorems hold
  for every reachable system: the counters are what the leases and waiters say, no slot is leaked or
  lost, no operation panics, closing wakes everyone, releases keep reservations. The queue is used
  through the locale \<open>workspace_fifo\<close>, which the model's queue interprets: service within a workspace
  is first in, first out, a removed waiter is never served, and a workspace is served within one
  round -- unless others leave and come back, for which there is a run that starves it.

  \<^bold>\<open>Expressions\<close> (\<open>Expr_Parser\<close>, \<open>Expr_Eval\<close>; proofs in \<open>Expr_Fuel\<close>, \<open>Expr_Roundtrip\<close>,
  \<open>Expr_Properties\<close>). \<^verbatim>\<open>expression.go\<close>: the recursive-descent parser, the evaluator with its nulls and the
  rendering to SQL. The parser runs on fuel \<open>parseFuel\<close>, 6 for each byte and 4 more, and is proved
  never to run out; a printer with the fewest parentheses is read back exactly.

  \<^bold>\<open>Transform queries\<close> (\<open>SQL_Scan\<close>; proofs in \<open>SQL_Fragment\<close>, \<open>SQL_Properties\<close>). The lexical scanner
  of \<^verbatim>\<open>model.go\<close> that finds the relations of a query. It is total by a measure on the position. On a
  fragment of SQL, given by its printer, it finds exactly the relations read; two theorems show what
  it does not see.

  \<^bold>\<open>Semantic models\<close> (\<open>Connectors\<close>, \<open>Model_Types\<close>, \<open>Model_Paths\<close>, \<open>Model_Semantics\<close>, \<open>Model_Validate\<close>;
  proofs in \<open>Model_Cycles\<close>, \<open>Model_Joins\<close>, \<open>Model_Properties\<close>, \<open>Scope_Properties\<close>). The authored model as records, the search for
  the one safe join path, and \<open>Model.Validate\<close> with everything it calls. Proved: metrics are accepted
  exactly when they are valid and acyclic; the search that stops early finds a path exactly when it
  is unique; a join path of a validated model never multiplies rows, in the relational reading of a
  relationship; and which local paths pass the scope check of a connection.

  \<^bold>\<open>Results and their cache\<close> (\<open>Lease_Heap\<close>, \<open>Cache_Pool\<close>, \<open>Cache_Flights\<close>; proofs in
  \<open>Lease_Builders\<close>, \<open>Cache_Invariants\<close>, \<open>Cache_Operations\<close>, \<open>Cache_Recency\<close>, \<open>Cache_Properties\<close>). Results live on a heap with a count of
  leases each; the locale \<open>lease_store\<close> is what a holder may rely on. The cache model has the pool with its LRU list,
  scopes, three byte budgets and counters; storing ends in three eviction loops, proved to end within
  the budgets. Proved over every sequence of operations: the counters are exact and the budgets kept,
  evicted results stay readable for those who hold them, a token from before an invalidation stores nothing
  while its scope stays open, eviction takes the entry whose last use is oldest, by a log of the uses that each run
  carries, and the cache refines a map. Runs with a table of builders show that the counter of transient
  bytes is exact too. Coalesced executions are a step relation of callers and flights, whose leases are neither
  released too early nor leaked.

  \<^bold>\<open>Managed data\<close> (\<open>Data_Manifest\<close>; proofs in \<open>Manifest_Properties\<close>, \<open>Manifest_JSON\<close>). Validation of
  manifests with the 64-bit sum of sizes, differences, and the canonical JSON whose hash is the id of
  a revision. A reader of the JSON strings shows that equal texts come from equal files.

  \<^bold>\<open>Page streams\<close> (\<open>Stream_Types\<close>, \<open>Stream_Coordinator\<close>, \<open>Stream_System\<close>; proofs in \<open>Stream_Invariants\<close>,
  \<open>Stream_Log\<close>, \<open>Stream_Counts\<close>, \<open>Stream_Properties\<close>). \<^verbatim>\<open>coordinator.go\<close>: a system is the coordinator with
  the refreshes begun on it and the log of what was published; a step is one locked section of one
  of them, in any order, and work may go on sending after its context has ended. The invariants
  \<open>base_ok\<close>, \<open>log_ok\<close>, \<open>revision_ok\<close> and \<open>progress_ok\<close> hold in every reachable system; from them: only the
  latest refresh is published, each refresh is summarised once with true counts, data revisions count
  up, progress stays between 0 and 100 and never falls. The one bound, \<open>noWrap\<close>, is that no refresh has the largest 64-bit
  generation, after which Go's counter would come back to values in use. The arithmetic of floats, the clock and the
  validators of an envelope are arguments. The registry of coordinators and the executor that runs
  the queries are left out.

  \<^bold>\<open>Access control\<close> (\<open>Access_Types\<close>, \<open>Access_Store\<close>, \<open>Access_Authorize\<close>, \<open>Access_Roles\<close>; proofs in
  \<open>Access_Rules\<close>, \<open>Access_Properties\<close>). The tables of the SQLite repository are lists of rows, its queries are
  functions of them, and an operation takes tables and the cache of its request to a result and new ones. The parents of an object
  are followed by a recursion on the objects not yet seen. The rule \<open>permitted\<close> says
  what may be allowed without queries and cache; the authorizer is proved to decide exactly that
  after any calls of a request that clear the cache before they change the tables; \<open>accessStep\<close> has those that are modelled
  and, with arbitrary changes, all others. \<open>DeletePrincipal\<close>, which is modelled, and \<open>ReconcileWorkspacePolicy\<close>, which is not, do
  not clear it and are outside: a lemma shows the cached decision that outlives the principal. A binding is proved to
  give its role's privileges, and two theorems show where
  removing roles and bindings does not do what it says. That the tables change only through the
  request's own calls is an assumption of the cache, in the code as in the model.

  \<^bold>\<open>Not modelled.\<close> The contexts of Go beyond the values the code reads from them; nil receivers;
  logging and metrics. Floating point beyond its operations as arguments. The rest of the program is
  SQL text for DuckDB and SQLite, HTTP handlers, HTML, Arrow and cgo adapters, command-line parsing
  and generated types: what these do is decided by the databases and protocols they speak to.
\<close>

end
